(* ===== verification/Prelude.thy ===== *)
theory Prelude
  imports Main "HOL-Library.Word" "HOL-Library.Signed_Division"
begin

unbundle bit_operations_syntax

text \<open>
  Shared vocabulary of the development: byte strings, the fixed-width big-endian
  codecs of \<^verbatim>\<open>encoding/binary\<close>, the wall clock of package \<^verbatim>\<open>time\<close>, the ranged
  deletion of Go maps, and the theorem collections the component proofs extend.
\<close>

section \<open>Theorem collections\<close>

named_theorems wire_simps \<open>unfolding rules of the wire formats\<close>
named_theorems clock_simps \<open>reasoning about saturating clock differences\<close>
named_theorems store_simps \<open>unfolding rules of the persistent stores\<close>

section \<open>Bytes and fixed-width big-endian numbers\<close>

type_synonym byte = "8 word"
type_synonym bytes = "byte list"
type_synonym u16 = "16 word"
type_synonym u32 = "32 word"
type_synonym u64 = "64 word"

text \<open>
  \<^verbatim>\<open>binary.BigEndian.PutUintN\<close> writes the most significant byte first; \<^verbatim>\<open>UintN\<close> shifts
  the accumulated value left and ors the next byte in. Both are written for an
  arbitrary number of bytes and used at 4 (\<open>u32\<close>) and 8 (\<open>u64\<close>).
\<close>

fun be_put :: "nat \<Rightarrow> 'a::len word \<Rightarrow> bytes" where
  "be_put 0 w = []"
| "be_put (Suc k) w = ucast (drop_bit (8 * k) w) # be_put k w"

definition be_step :: "'a::len word \<Rightarrow> byte \<Rightarrow> 'a word" where
  "be_step acc b = push_bit 8 acc OR ucast b"

definition be_get :: "bytes \<Rightarrow> 'a::len word" where
  "be_get bs = foldl be_step 0 bs"

lemma be_put_4: "be_put 4 w = [ucast (drop_bit 24 w), ucast (drop_bit 16 w), ucast (drop_bit 8 w), ucast w]"
  by (simp add: numeral_eq_Suc)

lemma be_put_8:
  "be_put 8 w = [ucast (drop_bit 56 w), ucast (drop_bit 48 w), ucast (drop_bit 40 w), ucast (drop_bit 32 w),
     ucast (drop_bit 24 w), ucast (drop_bit 16 w), ucast (drop_bit 8 w), ucast w]"
  by (simp add: numeral_eq_Suc)

lemma length_be_put [simp]: "length (be_put k w) = k"
  by (induction k) auto

lemma bit_be_step:
  "bit (be_step acc b :: 'a::len word) n \<longleftrightarrow>
     n < LENGTH('a) \<and> (if n < 8 then bit b n else bit acc (n - 8))"
  by (auto simp: be_step_def bit_simps dest: bit_imp_le_length)

lemma foldl_be_step_put:
  "8 * k \<le> LENGTH('a) \<Longrightarrow>
     foldl be_step acc (be_put k w) = push_bit (8 * k) acc OR take_bit (8 * k) (w :: 'a::len word)"
proof (induction k arbitrary: acc)
  case 0
  then show ?case by simp
next
  case (Suc k)
  have step: "be_step acc (ucast (drop_bit (8 * k) w)) = push_bit 8 acc OR take_bit 8 (drop_bit (8 * k) w)"
    by (rule bit_word_eqI) (auto simp: be_step_def bit_simps dest: bit_imp_le_length)
  have "push_bit (8 * k) (push_bit 8 acc OR take_bit 8 (drop_bit (8 * k) w)) OR take_bit (8 * k) w
      = push_bit (8 * Suc k) acc OR take_bit (8 * Suc k) w"
    by (rule bit_word_eqI) (auto simp: bit_simps ac_simps dest: bit_imp_le_length)
  with Suc step show ?case by simp
qed

lemma be_get_put:
  "8 * k \<le> LENGTH('a) \<Longrightarrow> be_get (be_put k w) = take_bit (8 * k) (w :: 'a::len word)"
  by (simp add: be_get_def foldl_be_step_put)

lemma be_get_put_u32 [simp]: "be_get (be_put 4 (w :: u32)) = w"
  using be_get_put [where 'a = 32, of 4 w] by (simp add: take_bit_word_eq_self)

lemma be_get_put_u64 [simp]: "be_get (be_put 8 (w :: u64)) = w"
  using be_get_put [where 'a = 64, of 8 w] by (simp add: take_bit_word_eq_self)

lemma bit_foldl_be_step:
  "bit (foldl be_step acc bs :: 'a::len word) n \<longleftrightarrow>
     n < LENGTH('a) \<and> (if n < 8 * length bs then bit (rev bs ! (n div 8)) (n mod 8)
                        else bit acc (n - 8 * length bs))"
proof (induction bs arbitrary: n rule: rev_induct)
  case Nil
  then show ?case by (auto dest: bit_imp_le_length)
next
  case (snoc b bs)
  show ?case
  proof (cases "n < 8")
    case True
    then show ?thesis by (simp add: bit_be_step nth_append)
  next
    case False
    then have "n div 8 = Suc ((n - 8) div 8)" and "n mod 8 = (n - 8) mod 8"
      by (simp_all add: le_div_geq le_mod_geq)
    moreover have "(n < 8 * length (bs @ [b])) = (n - 8 < 8 * length bs)"
      and "n - 8 * length (bs @ [b]) = n - 8 - 8 * length bs"
      using False by auto
    ultimately show ?thesis
      using False snoc [of "n - 8"] by (simp only: bit_be_step foldl_append foldl.simps rev_append rev.simps
        append.simps nth_Cons_Suc if_False less_imp_diff_less simp_thms cong: conj_cong)
    qed
qed

lemma be_put_nth: "i < k \<Longrightarrow> be_put k w ! i = ucast (drop_bit (8 * (k - Suc i)) w)"
proof (induction k arbitrary: i)
  case 0
  then show ?case by simp
next
  case (Suc k)
  then show ?case by (cases i) auto
qed

lemma be_put_get:
  assumes "length bs = k" and "8 * k \<le> LENGTH('a)"
  shows "be_put k (be_get bs :: 'a::len word) = bs"
proof (rule nth_equalityI)
  show "length (be_put k (be_get bs :: 'a word)) = length bs"
    using assms by simp
next
  fix i
  assume "i < length (be_put k (be_get bs :: 'a word))"
  then have i: "i < k" by simp
  have "be_put k (be_get bs :: 'a word) ! i = ucast (drop_bit (8 * (k - Suc i)) (be_get bs :: 'a word))"
    using i by (rule be_put_nth)
  also have "\<dots> = bs ! i"
  proof (rule bit_word_eqI)
    fix n
    assume n: "n < LENGTH(8)"
    have div: "(8 * (k - Suc i) + n) div 8 = k - Suc i" and mod: "(8 * (k - Suc i) + n) mod 8 = n"
      using n by simp_all
    have lt: "8 * (k - Suc i) + n < 8 * k"
      using n i by auto
    have "rev bs ! (k - Suc i) = bs ! i"
      using i assms(1) by (simp add: rev_nth)
    with n lt div mod assms show "bit (ucast (drop_bit (8 * (k - Suc i)) (be_get bs :: 'a word)) :: byte) n = bit (bs ! i) n"
      by (simp add: bit_simps be_get_def bit_foldl_be_step)
  qed
  finally show "be_put k (be_get bs :: 'a word) ! i = bs ! i" .
qed

lemma be_put_get_u32: "length bs = 4 \<Longrightarrow> be_put 4 (be_get bs :: u32) = bs"
  by (rule be_put_get) simp_all

lemma be_put_get_u64: "length bs = 8 \<Longrightarrow> be_put 8 (be_get bs :: u64) = bs"
  by (rule be_put_get) simp_all

lemma be_put_u64_inject [simp]: "be_put 8 (v :: u64) = be_put 8 w \<longleftrightarrow> v = w"
  by (metis be_get_put_u64)

lemma be_put_u32_inject [simp]: "be_put 4 (v :: u32) = be_put 4 w \<longleftrightarrow> v = w"
  by (metis be_get_put_u32)

section \<open>The clock\<close>

text \<open>
  A \<^verbatim>\<open>time.Time\<close> is the number of nanoseconds since Go's zero time, so \<^verbatim>\<open>IsZero\<close> is
  \<open>t = 0\<close>; \<^verbatim>\<open>Before\<close>, \<^verbatim>\<open>After\<close>, \<^verbatim>\<open>Equal\<close> and \<^verbatim>\<open>Add\<close> are the integer operations. A
  \<^verbatim>\<open>time.Duration\<close> is an \<open>int64\<close> of nanoseconds and \<^verbatim>\<open>Sub\<close> saturates at its bounds.
\<close>

type_synonym time = int
type_synonym duration = int

definition second :: duration where "second = 1000000000"
definition minute :: duration where "minute = 60 * second"
definition minDuration :: duration where "minDuration = - (2 ^ 63)"
definition maxDuration :: duration where "maxDuration = 2 ^ 63 - 1"

definition time_Sub :: "time \<Rightarrow> time \<Rightarrow> duration" where
  "time_Sub t u = max minDuration (min maxDuration (t - u))"

text \<open>Signed 64-bit arithmetic wraps.\<close>

definition wrap64 :: "int \<Rightarrow> int" where
  "wrap64 x = (x + 2 ^ 63) mod 2 ^ 64 - 2 ^ 63"

lemma wrap64_id: "minDuration \<le> x \<Longrightarrow> x \<le> maxDuration \<Longrightarrow> wrap64 x = x"
  by (simp add: wrap64_def minDuration_def maxDuration_def)

lemma wrap64_over:
  assumes "2 ^ 63 \<le> x" and "x < 2 ^ 63 + 2 ^ 64"
  shows "wrap64 x = x - 2 ^ 64"
proof -
  have "(x + 2 ^ 63) mod 2 ^ 64 = (x + 2 ^ 63 - 2 ^ 64) mod 2 ^ 64" by (simp only: minus_mod_self2)
  also have "\<dots> = x + 2 ^ 63 - 2 ^ 64" using assms by (intro mod_pos_pos_trivial) simp_all
  finally show ?thesis by (simp add: wrap64_def)
qed

lemma time_Sub_ge [clock_simps]:
  "minDuration < d \<Longrightarrow> d \<le> maxDuration \<Longrightarrow> d \<le> time_Sub t u \<longleftrightarrow> d \<le> t - u"
  by (auto simp: time_Sub_def)

lemma time_Sub_gr [clock_simps]:
  "minDuration \<le> d \<Longrightarrow> d < maxDuration \<Longrightarrow> d < time_Sub t u \<longleftrightarrow> d < t - u"
  by (auto simp: time_Sub_def)

section \<open>Maps\<close>

text \<open>\<^verbatim>\<open>for k, v := range m { if p(k, v) { delete(m, k) } }\<close>, whatever the order.\<close>

definition map_delete_if :: "('k \<Rightarrow> 'v \<Rightarrow> bool) \<Rightarrow> ('k \<rightharpoonup> 'v) \<Rightarrow> ('k \<rightharpoonup> 'v)" where
  "map_delete_if p m = (\<lambda>k. case m k of None \<Rightarrow> None | Some v \<Rightarrow> if p k v then None else Some v)"

lemma map_delete_if_None [simp]: "m k = None \<Longrightarrow> map_delete_if p m k = None"
  by (simp add: map_delete_if_def)

lemma map_delete_if_Some [simp]:
  "m k = Some v \<Longrightarrow> map_delete_if p m k = (if p k v then None else Some v)"
  by (simp add: map_delete_if_def)

lemma map_delete_if_eq_Some:
  "map_delete_if p m k = Some v \<longleftrightarrow> m k = Some v \<and> \<not> p k v"
  by (auto simp: map_delete_if_def split: option.splits)

lemma dom_map_delete_if: "dom (map_delete_if p m) \<subseteq> dom m"
  by (auto simp: map_delete_if_def split: option.splits)

section \<open>Lists\<close>

lemma take_drop_Cons_nth: "i < length xs \<Longrightarrow> drop i xs = xs ! i # drop (Suc i) xs"
  by (rule Cons_nth_drop_Suc [symmetric])

lemma split_at_first:
  "x \<notin> set a \<Longrightarrow> x \<notin> set b \<Longrightarrow> a @ x # r = b @ x # t \<Longrightarrow> a = b \<and> r = t"
proof (induction a arbitrary: b)
  case Nil
  then show ?case by (cases b) auto
next
  case (Cons y a)
  then show ?case by (cases b) auto
qed

section \<open>Durable stores\<close>

text \<open>
  The contract of the components that keep a file beside their state: an operation leaves
  the state in memory as it was, or the new state is in the file when the operation returns;
  and what it leaves in memory and in the file is well formed. A write may fail before or
  after the rename that makes it visible, so the file may hold a state the memory was rolled
  back from.
\<close>

fun run_ops :: "('s \<Rightarrow> 'op \<Rightarrow> 's) \<Rightarrow> 's \<Rightarrow> 'op list \<Rightarrow> 's" where
  "run_ops step s [] = s"
| "run_ops step s (op # ops) = run_ops step (step s op) ops"

lemma run_ops_append [simp]: "run_ops step s (xs @ ys) = run_ops step (run_ops step s xs) ys"
  by (induction xs arbitrary: s) auto

datatype write_fault = NoFault | FaultBeforeRename | FaultAfterRename

locale durable_store =
  fixes step :: "'s \<Rightarrow> 'op \<Rightarrow> 's"
    and mem :: "'s \<Rightarrow> 'd"
    and disk :: "'s \<Rightarrow> 'd option"
    and ok :: "'d \<Rightarrow> bool"
  assumes mem_or_disk: "ok (mem s) \<Longrightarrow> mem (step s op) = mem s \<or> disk (step s op) = Some (mem (step s op))"
    and mem_ok: "ok (mem s) \<Longrightarrow> ok (mem (step s op))"
    and disk_ok: "ok (mem s) \<Longrightarrow> disk (step s op) = disk s \<or> (\<exists>d. disk (step s op) = Some d \<and> ok d)"
begin

lemma run_mem_ok: "ok (mem s) \<Longrightarrow> ok (mem (run_ops step s ops))"
  by (induction ops arbitrary: s) (auto intro: mem_ok)

lemma run_disk_ok:
  "ok (mem s) \<Longrightarrow> \<forall>d. disk s = Some d \<longrightarrow> ok d \<Longrightarrow> disk (run_ops step s ops) = Some d \<Longrightarrow> ok d"
proof (induction ops arbitrary: s)
  case Nil
  then show ?case by simp
next
  case (Cons op ops)
  have "\<forall>d. disk (step s op) = Some d \<longrightarrow> ok d"
    using disk_ok [OF Cons.prems(1), of op] Cons.prems(2) by auto
  with Cons show ?case by (auto intro: mem_ok)
qed

text \<open>A state that differs from the initial one has been in the file.\<close>

lemma run_change_was_written:
  "ok (mem s) \<Longrightarrow> mem (run_ops step s ops) \<noteq> mem s \<Longrightarrow>
     \<exists>xs ys. ops = xs @ ys \<and> disk (run_ops step s xs) = Some (mem (run_ops step s ops))"
proof (induction ops rule: rev_induct)
  case Nil
  then show ?case by simp
next
  case (snoc op ops)
  let ?s = "run_ops step s ops"
  from mem_or_disk [OF run_mem_ok [OF snoc.prems(1)], of ops op]
  show ?case
  proof
    assume same: "mem (step ?s op) = mem ?s"
    with snoc obtain xs ys where "ops = xs @ ys" "disk (run_ops step s xs) = Some (mem ?s)" by auto
    with same show ?thesis by (intro exI [of _ xs] exI [of _ "ys @ [op]"]) simp
  next
    assume "disk (step ?s op) = Some (mem (step ?s op))"
    then show ?thesis by (intro exI [of _ "ops @ [op]"] exI [of _ "[]"]) simp
  qed
qed

end

end
