(* ===== verification/Framing.thy ===== *)
theory Framing
  imports Prelude
begin

unbundle bit_operations_syntax

text \<open>
  Package \<^verbatim>\<open>internal/framing\<close>: the chunk framing every binary transport shares. A logical
  frame is cut into chunks by \<open>Chunk\<close> and rebuilt by the state machine \<open>Push\<close> of a
  \<open>Reassembler\<close>. The theory holds the operations, the memory invariant of the
  reassembler, the round trip, and the stream contract \<open>frame_stream\<close> that the
  encrypted sessions reuse.
\<close>

section \<open>Constants and errors\<close>

definition chunk_Version :: byte where "chunk_Version = 1"
definition HeaderSize :: int where "HeaderSize = 2"
definition LengthPrefixSize :: int where "LengthPrefixSize = 4"
definition FlagStart :: byte where "FlagStart = 1"
definition FlagEnd :: byte where "FlagEnd = 2"
definition flagKnown :: byte where "flagKnown = FlagStart OR FlagEnd"
definition MaxLogicalBytes :: nat where "MaxLogicalBytes = 21 * 1024 * 1024"
definition StallTimeout :: duration where "StallTimeout = 30 * second"
definition WebRTCChunkSize :: int where "WebRTCChunkSize = 16384"
definition GatewayChunkSize :: int where "GatewayChunkSize = 262144"

lemmas framing_consts [wire_simps] =
  chunk_Version_def HeaderSize_def LengthPrefixSize_def FlagStart_def FlagEnd_def flagKnown_def

datatype framing_error = ErrChunkMalformed | ErrChunkSequence | ErrFrameTooLarge | ErrChunkSize

section \<open>Splitting a frame\<close>

text \<open>
  \<open>None\<close> stands for a run-time panic: division by a zero chunk size, a negative
  allocation, or a slice bound that a chunk size below the start header produces.
\<close>

definition Count :: "int \<Rightarrow> int \<Rightarrow> int option" where
  "Count n maxChunk =
     (let start = maxChunk - HeaderSize - LengthPrefixSize
      in if n \<le> start then Some 1
         else let cont = maxChunk - HeaderSize
              in if cont = 0 then None else Some (1 + (n - start + cont - 1) sdiv cont))"

fun chunk_loop :: "int \<Rightarrow> int \<Rightarrow> int \<Rightarrow> int \<Rightarrow> nat \<Rightarrow> int \<Rightarrow> int \<Rightarrow> bytes \<Rightarrow> bytes list option" where
  "chunk_loop maxChunk nbytes count buflen 0 index offset remaining = Some []"
| "chunk_loop maxChunk nbytes count buflen (Suc k) index offset remaining =
     (let startBody = maxChunk - HeaderSize - LengthPrefixSize;
          contBody = maxChunk - HeaderSize;
          body0 = (if index = 0 then startBody else contBody);
          body = (if body0 > int (length remaining) then int (length remaining) else body0);
          size = HeaderSize + (if index = 0 then LengthPrefixSize else 0) + body
      in if body < 0 \<or> offset + size > buflen then None
         else let flags = (if index = 0 then FlagStart else 0) OR
                          (if index = count - 1 then FlagEnd else 0);
                  part = [chunk_Version, flags] @
                         (if index = 0 then be_put 4 (word_of_int nbytes :: u32) else []) @
                         take (nat body) remaining
              in map_option ((#) part)
                   (chunk_loop maxChunk nbytes count buflen k (index + 1) (offset + size)
                      (drop (nat body) remaining)))"

definition Chunk :: "bytes list \<Rightarrow> bytes \<Rightarrow> int \<Rightarrow> bytes list option" where
  "Chunk dst logical maxChunk =
     (case Count (int (length logical)) maxChunk of
        None \<Rightarrow> None
      | Some count \<Rightarrow>
          let buflen = int (length logical) + LengthPrefixSize + count * HeaderSize
          in if buflen < 0 then None
             else map_option ((@) dst)
                    (chunk_loop maxChunk (int (length logical)) count buflen (nat count) 0 0 logical))"

section \<open>The reassembler\<close>

record Reassembler =
  r_maxChunk :: int
  r_buf :: bytes
  r_want :: nat
  r_active :: bool
  r_updated :: time

definition NewReassembler :: "int \<Rightarrow> Reassembler" where
  "NewReassembler maxChunk =
     \<lparr>r_maxChunk = maxChunk, r_buf = [], r_want = 0, r_active = False, r_updated = 0\<rparr>"

text \<open>The tail of \<open>Push\<close>, after the chunk was appended: finish on END, else wait.\<close>

definition push_end :: "bool \<Rightarrow> Reassembler \<Rightarrow> Reassembler \<times> (framing_error + bytes option)" where
  "push_end end_flag r =
     (if \<not> end_flag then (r, Inr None)
      else if length (r_buf r) \<noteq> r_want r then (r, Inl ErrChunkMalformed)
      else (r\<lparr>r_buf := [], r_want := 0, r_active := False\<rparr>, Inr (Some (r_buf r))))"

definition Push :: "Reassembler \<Rightarrow> time \<Rightarrow> bytes \<Rightarrow> Reassembler \<times> (framing_error + bytes option)" where
  "Push r now part =
     (if r_maxChunk r \<le> HeaderSize + LengthPrefixSize then (r, Inl ErrChunkSize)
      else if int (length part) < HeaderSize \<or> int (length part) > r_maxChunk r \<or> part ! 0 \<noteq> chunk_Version
      then (r, Inl ErrChunkMalformed)
      else
        let flags = part ! 1 in
        if flags AND NOT flagKnown \<noteq> 0 then (r, Inl ErrChunkMalformed)
        else
          let payload = drop (nat HeaderSize) part;
              start = (flags AND FlagStart \<noteq> 0);
              end_flag = (flags AND FlagEnd \<noteq> 0)
          in if start then
               (if r_active r then (r, Inl ErrChunkSequence)
                else if int (length payload) < LengthPrefixSize then (r, Inl ErrChunkMalformed)
                else
                  let declared = (be_get (take (nat LengthPrefixSize) payload) :: u32) in
                  if unat declared > MaxLogicalBytes then (r, Inl ErrFrameTooLarge)
                  else
                    let body = drop (nat LengthPrefixSize) payload;
                        r1 = r\<lparr>r_want := unat declared\<rparr>
                    in if length body > unat declared then (r1, Inl ErrChunkMalformed)
                       else push_end end_flag (r1\<lparr>r_buf := body, r_active := True, r_updated := now\<rparr>))
             else
               (if \<not> r_active r then (r, Inl ErrChunkSequence)
                else if length (r_buf r) + length payload > r_want r then (r, Inl ErrChunkMalformed)
                else push_end end_flag (r\<lparr>r_buf := r_buf r @ payload, r_updated := now\<rparr>)))"

definition Expired :: "Reassembler \<Rightarrow> time \<Rightarrow> bool" where
  "Expired r now \<longleftrightarrow> r_active r \<and> time_Sub now (r_updated r) > StallTimeout"

definition Reset :: "Reassembler \<Rightarrow> Reassembler" where
  "Reset r = r\<lparr>r_buf := [], r_want := 0, r_active := False\<rparr>"

section \<open>Running a reassembler over a stream\<close>

text \<open>
  \<open>drain\<close> feeds stamped chunks one by one and collects the completed frames; the first
  error ends the connection, as the callers of \<open>Push\<close> do.
\<close>

fun drain :: "('s \<Rightarrow> 'p \<Rightarrow> 's \<times> ('e + 'f option)) \<Rightarrow> 's \<Rightarrow> 'p list \<Rightarrow> 's \<times> ('e + 'f list)" where
  "drain push s [] = (s, Inr [])"
| "drain push s (p # ps) =
     (case push s p of
        (s', Inl e) \<Rightarrow> (s', Inl e)
      | (s', Inr out) \<Rightarrow>
          (case drain push s' ps of
             (s'', Inl e) \<Rightarrow> (s'', Inl e)
           | (s'', Inr fs) \<Rightarrow> (s'', Inr (case out of None \<Rightarrow> fs | Some f \<Rightarrow> f # fs))))"

definition push_stamped :: "Reassembler \<Rightarrow> time \<times> bytes \<Rightarrow> Reassembler \<times> (framing_error + bytes option)" where
  "push_stamped r p = Push r (fst p) (snd p)"

lemma drain_append:
  "drain push s (ps @ qs) =
     (case drain push s ps of
        (s', Inl e) \<Rightarrow> (s', Inl e)
      | (s', Inr fs) \<Rightarrow>
          (case drain push s' qs of
             (s'', Inl e) \<Rightarrow> (s'', Inl e)
           | (s'', Inr gs) \<Rightarrow> (s'', Inr (fs @ gs))))"
  by (induction ps arbitrary: s) (auto split: prod.splits sum.splits option.splits)

text \<open>
  What a transport may rely on: from an idle receiver, the parts that carry a frame
  deliver exactly that frame and leave the receiver idle. Any number of frames then
  arrives complete and in order.
\<close>

locale frame_stream =
  fixes push :: "'s \<Rightarrow> 'p \<Rightarrow> 's \<times> ('e + 'f option)"
    and idle :: "'s \<Rightarrow> bool"
    and carries :: "'s \<Rightarrow> 'p list \<Rightarrow> 'f \<Rightarrow> 's \<Rightarrow> bool"
  assumes deliver: "idle s \<Longrightarrow> carries s ps f s' \<Longrightarrow> drain push s ps = (s', Inr [f]) \<and> idle s'"
begin

inductive carries_all :: "'s \<Rightarrow> 'p list \<Rightarrow> 'f list \<Rightarrow> 's \<Rightarrow> bool" where
  carries_none: "carries_all s [] [] s"
| carries_next: "carries s ps f s' \<Longrightarrow> carries_all s' qs fs s'' \<Longrightarrow> carries_all s (ps @ qs) (f # fs) s''"

lemma deliver_all:
  "carries_all s ps fs s' \<Longrightarrow> idle s \<Longrightarrow> drain push s ps = (s', Inr fs) \<and> idle s'"
proof (induction rule: carries_all.induct)
  case (carries_none s)
  then show ?case by simp
next
  case (carries_next s ps f s' qs fs s'')
  from deliver [OF carries_next.prems carries_next.hyps(1)] carries_next.IH
  show ?case by (simp add: drain_append)
qed

end

section \<open>The round trip\<close>

lemma flag_bits [simp]:
  "FlagStart \<noteq> 0" "FlagEnd \<noteq> 0"
  "FlagStart AND FlagStart \<noteq> 0" "FlagEnd AND FlagEnd \<noteq> 0" "FlagStart AND FlagEnd = 0" "FlagEnd AND FlagStart = 0"
  "(FlagStart OR FlagEnd) AND FlagStart \<noteq> 0" "(FlagStart OR FlagEnd) AND FlagEnd \<noteq> 0"
  "FlagStart AND NOT flagKnown = 0" "FlagEnd AND NOT flagKnown = 0"
  "(FlagStart OR FlagEnd) AND NOT flagKnown = 0"
  by (simp_all add: FlagStart_def FlagEnd_def flagKnown_def)

text \<open>One well-formed continuation chunk and one well-formed start chunk.\<close>

lemma Push_cont:
  assumes "r_maxChunk r > 6" and "r_active r"
    and "int (length body) + 2 \<le> r_maxChunk r" and "length (r_buf r) + length body \<le> r_want r"
  shows "Push r now ([chunk_Version, if e then FlagEnd else 0] @ body)
       = push_end e (r\<lparr>r_buf := r_buf r @ body, r_updated := now\<rparr>)"
  using assms by (auto simp: Push_def HeaderSize_def LengthPrefixSize_def Let_def)

lemma Push_start:
  assumes "r_maxChunk r > 6" and "\<not> r_active r"
    and "int (length body) + 6 \<le> r_maxChunk r" and "length body \<le> n" and "n \<le> MaxLogicalBytes"
  shows "Push r now ([chunk_Version, FlagStart OR (if e then FlagEnd else 0)] @
           be_put 4 (word_of_int (int n) :: u32) @ body)
       = push_end e (r\<lparr>r_want := n, r_buf := body, r_active := True, r_updated := now\<rparr>)"
proof -
  have "unat (word_of_int (int n) :: u32) = n"
    using assms(5) by (simp add: MaxLogicalBytes_def unsigned_of_nat take_bit_nat_eq_self)
  then show ?thesis
    using assms by (auto simp: Push_def HeaderSize_def LengthPrefixSize_def Let_def)
qed

lemma chunk_loop_tail:
  assumes "6 < m" and "0 < index" and "0 < k" and "count = index + int k"
    and "int (length rest) \<le> int k * (m - 2)" and "(int k - 1) * (m - 2) < int (length rest)"
    and "offset + 2 * int k + int (length rest) \<le> buflen"
  shows "\<exists>ps. chunk_loop m n count buflen k index offset rest = Some ps \<and> length ps = k \<and>
     (\<forall>p \<in> set ps. int (length p) \<le> m) \<and>
     (\<forall>ts r. length ts = k \<longrightarrow> r_maxChunk r = m \<longrightarrow> r_active r \<longrightarrow>
        r_want r = length (r_buf r) + length rest \<longrightarrow>
        (\<exists>r'. drain push_stamped r (zip ts ps) = (r', Inr [r_buf r @ rest]) \<and>
              \<not> r_active r' \<and> r_maxChunk r' = m))"
  using assms
proof (induction k arbitrary: index offset rest)
  case 0
  then show ?case by simp
next
  case (Suc k)
  show ?case
  proof (cases k)
    case 0
    with Suc.prems have len: "int (length rest) \<le> m - 2" and idx: "index = count - 1" by simp_all
    define p where "p = [chunk_Version, FlagEnd] @ rest"
    have loop: "chunk_loop m n count buflen (Suc k) index offset rest = Some [p]"
      using Suc.prems len 0 by (auto simp: Let_def HeaderSize_def LengthPrefixSize_def p_def)
    have "drain push_stamped r (zip ts [p]) = (r\<lparr>r_buf := [], r_want := 0, r_active := False, r_updated := ts ! 0\<rparr>, Inr [r_buf r @ rest])"
      if "length ts = Suc 0" "r_maxChunk r = m" "r_active r" "r_want r = length (r_buf r) + length rest" for ts r
    proof -
      from that obtain t where "ts = [t]" by (auto simp: length_Suc_conv)
      then show ?thesis
        using that Suc.prems(1) len Push_cont [of r rest t True]
        by (simp add: p_def push_stamped_def push_end_def)
    qed
    with loop len 0 show ?thesis
      by (auto simp: p_def)
  next
    case (Suc k')
    have big: "m - 2 < int (length rest)"
    proof -
      have "m - 2 \<le> (int (Suc k) - 1) * (m - 2)"
        using Suc Suc.prems(1) mult_right_mono [of 1 "int k" "m - 2"] by simp
      with Suc.prems(6) show ?thesis by linarith
    qed
    define body where "body = take (nat (m - 2)) rest"
    define rest' where "rest' = drop (nat (m - 2)) rest"
    have lb: "length body = nat (m - 2)" and lr: "int (length rest') = int (length rest) - (m - 2)"
      and split: "rest = body @ rest'"
      using big Suc.prems(1) by (simp_all add: body_def rest'_def)
    have "\<exists>ps. chunk_loop m n count buflen k (index + 1) (offset + m) rest' = Some ps \<and> length ps = k \<and>
     (\<forall>p \<in> set ps. int (length p) \<le> m) \<and>
     (\<forall>ts r. length ts = k \<longrightarrow> r_maxChunk r = m \<longrightarrow> r_active r \<longrightarrow>
        r_want r = length (r_buf r) + length rest' \<longrightarrow>
        (\<exists>r'. drain push_stamped r (zip ts ps) = (r', Inr [r_buf r @ rest']) \<and>
              \<not> r_active r' \<and> r_maxChunk r' = m))"
      by (rule Suc.IH) (use Suc Suc.prems lr in \<open>simp_all add: algebra_simps\<close>)
    then obtain ps where ps: "chunk_loop m n count buflen k (index + 1) (offset + m) rest' = Some ps"
      "length ps = k" "\<forall>p \<in> set ps. int (length p) \<le> m"
      "\<And>ts r. length ts = k \<Longrightarrow> r_maxChunk r = m \<Longrightarrow> r_active r \<Longrightarrow>
        r_want r = length (r_buf r) + length rest' \<Longrightarrow>
        (\<exists>r'. drain push_stamped r (zip ts ps) = (r', Inr [r_buf r @ rest']) \<and>
              \<not> r_active r' \<and> r_maxChunk r' = m)"
      by blast
    define p where "p = [chunk_Version, 0] @ body"
    have fits: "\<not> offset + m > buflen" and ne: "index \<noteq> 0" "index \<noteq> count - 1"
      using Suc Suc.prems big by (auto simp: algebra_simps)
    have loop: "chunk_loop m n count buflen (Suc k) index offset rest = Some (p # ps)"
      using Suc.prems(1) ps(1) big fits ne
      by (auto simp: Let_def HeaderSize_def LengthPrefixSize_def p_def body_def rest'_def)
    have "\<exists>r'. drain push_stamped r (zip ts (p # ps)) = (r', Inr [r_buf r @ rest]) \<and> \<not> r_active r' \<and> r_maxChunk r' = m"
      if H: "length ts = Suc k" "r_maxChunk r = m" "r_active r" "r_want r = length (r_buf r) + length rest" for ts r
    proof -
      from H obtain t ts' where ts: "ts = t # ts'" "length ts' = k" by (auto simp: length_Suc_conv)
      define r1 where "r1 = r\<lparr>r_buf := r_buf r @ body, r_updated := t\<rparr>"
      have "Push r t p = (r1, Inr None)"
        using Push_cont [of r body t False] H Suc.prems(1) lb split
        by (simp add: p_def push_end_def r1_def)
      moreover obtain r' where "drain push_stamped r1 (zip ts' ps) = (r', Inr [r_buf r1 @ rest'])"
          "\<not> r_active r'" "r_maxChunk r' = m"
        using ps(4) [of ts' r1] ts H split by (auto simp: r1_def)
      ultimately show ?thesis
        using ts split by (simp add: push_stamped_def r1_def)
    qed
    with loop ps(2,3) lb Suc.prems(1) show ?thesis
      by (intro exI [of _ "p # ps"]) (auto simp: p_def)
  qed
qed

lemma ceil_div:
  assumes "0 < (a::int)" and "0 < c"
  shows "0 < (a + c - 1) div c" and "a \<le> (a + c - 1) div c * c" and "((a + c - 1) div c - 1) * c < a"
proof -
  have e: "a + c - 1 = (a + c - 1) div c * c + (a + c - 1) mod c" by simp
  have r: "0 \<le> (a + c - 1) mod c" "(a + c - 1) mod c < c" using assms by simp_all
  show "0 < (a + c - 1) div c" using assms by (simp add: pos_imp_zdiv_pos_iff)
  show "a \<le> (a + c - 1) div c * c" using e r by linarith
  show "((a + c - 1) div c - 1) * c < a" proof -
    have "((a + c - 1) div c - 1) * c = (a + c - 1) div c * c - c" by (simp add: left_diff_distrib)
    with e r show ?thesis by linarith
  qed
qed

lemma Count_small: "n \<le> m - 6 \<Longrightarrow> Count n m = Some 1"
  by (simp add: Count_def HeaderSize_def LengthPrefixSize_def)

lemma Count_large:
  assumes "6 < m" and "m - 6 < n"
  obtains k where "Count n m = Some (1 + int k)" and "0 < k"
    and "n - (m - 6) \<le> int k * (m - 2)" and "(int k - 1) * (m - 2) < n - (m - 6)"
proof -
  define q where "q = (n - (m - 6) + (m - 2) - 1) div (m - 2)"
  have q: "0 < q" "n - (m - 6) \<le> q * (m - 2)" "(q - 1) * (m - 2) < n - (m - 6)"
    unfolding q_def using assms by (intro ceil_div; simp)+
  have "Count n m = Some (1 + q)"
    using assms by (simp add: Count_def HeaderSize_def LengthPrefixSize_def Let_def signed_divide_int_def q_def algebra_simps)
  with q that [of "nat q"] show ?thesis by simp
qed

text \<open>
  Chunking never fails above the minimal chunk size, respects \<open>Count\<close> and the chunk
  limit, and the chunks rebuild the frame at any arrival times.
\<close>

lemma Chunk_delivers:
  assumes "6 < m" and "length logical \<le> MaxLogicalBytes"
  shows "\<exists>ps. Chunk [] logical m = Some ps \<and> Count (int (length logical)) m = Some (int (length ps)) \<and>
     (\<forall>p \<in> set ps. int (length p) \<le> m) \<and>
     (\<forall>ts r. length ts = length ps \<longrightarrow> r_maxChunk r = m \<longrightarrow> \<not> r_active r \<longrightarrow>
        (\<exists>r'. drain push_stamped r (zip ts ps) = (r', Inr [logical]) \<and>
              \<not> r_active r' \<and> r_maxChunk r' = m))"
proof (cases "int (length logical) \<le> m - 6")
  case True
  define p where "p = [chunk_Version, FlagStart OR FlagEnd] @ be_put 4 (word_of_int (int (length logical)) :: u32) @ logical"
  have "int (length logical) = m - 6 \<Longrightarrow> length logical \<le> nat (m - 6)" by simp
  then have "Chunk [] logical m = Some [p]"
    using assms(1) True Count_small [OF True]
    by (simp add: Chunk_def p_def Let_def HeaderSize_def LengthPrefixSize_def)
  moreover have "\<exists>r'. drain push_stamped r (zip ts [p]) = (r', Inr [logical]) \<and> \<not> r_active r' \<and> r_maxChunk r' = m"
    if H: "length ts = 1" "r_maxChunk r = m" "\<not> r_active r" for ts r
  proof -
    from H obtain t where "ts = [t]" by (auto simp: length_Suc_conv)
    then show ?thesis
      using Push_start [of r logical "length logical" t True] H assms True
      by (simp add: p_def push_stamped_def push_end_def)
  qed
  ultimately show ?thesis
    using Count_small [OF True] True by (intro exI [of _ "[p]"]) (auto simp: p_def)
next
  case False
  then obtain k where k: "Count (int (length logical)) m = Some (1 + int k)" "0 < k"
      "int (length logical) - (m - 6) \<le> int k * (m - 2)"
      "(int k - 1) * (m - 2) < int (length logical) - (m - 6)"
    using Count_large [OF assms(1), of "int (length logical)"] by auto
  define body where "body = take (nat (m - 6)) logical"
  define rest where "rest = drop (nat (m - 6)) logical"
  define buflen where "buflen = int (length logical) + 4 + (1 + int k) * 2"
  have lb: "int (length body) = m - 6" and lr: "int (length rest) = int (length logical) - (m - 6)"
    and split: "logical = body @ rest"
    using False assms(1) by (simp_all add: body_def rest_def)
  obtain ps where ps: "chunk_loop m (int (length logical)) (1 + int k) buflen k 1 m rest = Some ps"
      "length ps = k" "\<forall>p \<in> set ps. int (length p) \<le> m"
      "\<And>ts r. length ts = k \<Longrightarrow> r_maxChunk r = m \<Longrightarrow> r_active r \<Longrightarrow>
        r_want r = length (r_buf r) + length rest \<Longrightarrow>
        (\<exists>r'. drain push_stamped r (zip ts ps) = (r', Inr [r_buf r @ rest]) \<and>
              \<not> r_active r' \<and> r_maxChunk r' = m)"
    using chunk_loop_tail [of m 1 k "1 + int k" rest m buflen "int (length logical)"] assms(1) k lr
    by (auto simp: buflen_def)
  define p where "p = [chunk_Version, FlagStart] @ be_put 4 (word_of_int (int (length logical)) :: u32) @ body"
  have "Chunk [] logical m = Some (p # ps)"
    using assms(1) k ps(1) False
    by (simp add: Chunk_def p_def body_def rest_def buflen_def Let_def HeaderSize_def LengthPrefixSize_def nat_add_distrib)
  moreover have "\<exists>r'. drain push_stamped r (zip ts (p # ps)) = (r', Inr [logical]) \<and> \<not> r_active r' \<and> r_maxChunk r' = m"
    if H: "length ts = Suc k" "r_maxChunk r = m" "\<not> r_active r" for ts r
  proof -
    from H obtain t ts' where ts: "ts = t # ts'" "length ts' = k" by (auto simp: length_Suc_conv)
    define r1 where "r1 = r\<lparr>r_want := length logical, r_buf := body, r_active := True, r_updated := t\<rparr>"
    have "Push r t p = (r1, Inr None)"
      using Push_start [of r body "length logical" t False] H assms lb split
      by (simp add: p_def push_end_def r1_def)
    moreover obtain r' where "drain push_stamped r1 (zip ts' ps) = (r', Inr [r_buf r1 @ rest])"
        "\<not> r_active r'" "r_maxChunk r' = m"
      using ps(4) [of ts' r1] ts H split by (auto simp: r1_def)
    ultimately show ?thesis
      using ts split by (simp add: push_stamped_def r1_def)
  qed
  ultimately show ?thesis
    using ps(2,3) k lb assms(1) by (intro exI [of _ "p # ps"]) (auto simp: p_def)
qed

text \<open>The reassembler is a frame stream; the laws of the contract hold for every chunk limit.\<close>

definition chunk_idle :: "Reassembler \<Rightarrow> bool" where
  "chunk_idle r \<longleftrightarrow> \<not> r_active r"

definition chunk_carries :: "Reassembler \<Rightarrow> (time \<times> bytes) list \<Rightarrow> bytes \<Rightarrow> Reassembler \<Rightarrow> bool" where
  "chunk_carries r ps f r' \<longleftrightarrow>
     6 < r_maxChunk r \<and> length f \<le> MaxLogicalBytes \<and>
     Chunk [] f (r_maxChunk r) = Some (map snd ps) \<and> r' = fst (drain push_stamped r ps)"

lemma zip_fst_snd: "zip (map fst ps) (map snd ps) = ps"
  by (induction ps) auto

lemma chunk_carriesD:
  assumes "\<not> r_active r" and "chunk_carries r ps f r'"
  shows "drain push_stamped r ps = (r', Inr [f]) \<and> \<not> r_active r' \<and> r_maxChunk r' = r_maxChunk r"
proof -
  from assms(2) have "6 < r_maxChunk r" "length f \<le> MaxLogicalBytes"
    and c: "Chunk [] f (r_maxChunk r) = Some (map snd ps)" and r': "r' = fst (drain push_stamped r ps)"
    by (simp_all add: chunk_carries_def)
  with Chunk_delivers [of "r_maxChunk r" f]
  have "\<forall>ts. length ts = length ps \<longrightarrow>
      (\<exists>r'. drain push_stamped r (zip ts (map snd ps)) = (r', Inr [f]) \<and> \<not> r_active r' \<and> r_maxChunk r' = r_maxChunk r)"
    using assms(1) by auto
  then have "\<exists>r'. drain push_stamped r (zip (map fst ps) (map snd ps)) = (r', Inr [f]) \<and> \<not> r_active r' \<and> r_maxChunk r' = r_maxChunk r"
    by simp
  with r' show ?thesis by (auto simp: zip_fst_snd)
qed

interpretation chunks: frame_stream push_stamped chunk_idle chunk_carries
  by unfold_locales (auto simp: chunk_idle_def dest: chunk_carriesD)

text \<open>Frames sent back to back, each as its own chunks, form a stream of the contract.\<close>

lemma frames_delivered:
  assumes "6 < r_maxChunk r" and "\<not> r_active r"
    and "list_all2 (\<lambda>ps f. length f \<le> MaxLogicalBytes \<and> Chunk [] f (r_maxChunk r) = Some (map snd ps)) pss fs"
  shows "\<exists>r'. drain push_stamped r (concat pss) = (r', Inr fs) \<and> \<not> r_active r'"
proof -
  define m where "m = r_maxChunk r"
  have "\<exists>r'. chunks.carries_all r (concat pss) fs r'"
    using assms(3) [folded m_def] assms(1,2) m_def
  proof (induction pss fs arbitrary: r rule: list_all2_induct)
    case Nil
    show ?case by (auto intro: chunks.carries_none)
  next
    case (Cons ps pss f fs)
    define r1 where "r1 = fst (drain push_stamped r ps)"
    have c: "chunk_carries r ps f r1"
      using Cons.hyps(1) Cons.prems by (simp add: chunk_carries_def r1_def)
    with Cons.prems have "\<not> r_active r1" "r_maxChunk r1 = r_maxChunk r"
      by (auto dest: chunk_carriesD)
    then obtain r' where "chunks.carries_all r1 (concat pss) fs r'"
      using Cons.IH [of r1] Cons.prems by auto
    with c show ?case by (auto intro: chunks.carries_next)
  qed
  with assms(2) show ?thesis
    by (auto simp: chunk_idle_def dest!: chunks.deliver_all)
qed

section \<open>The invariant of the reassembler\<close>

definition ra_inv :: "Reassembler \<Rightarrow> bool" where
  "ra_inv r \<longleftrightarrow> length (r_buf r) \<le> r_want r \<and> r_want r \<le> MaxLogicalBytes \<and> (\<not> r_active r \<longrightarrow> r_buf r = [])"

text \<open>The states a connection can bring its reassembler into, errors included.\<close>

inductive ra_reachable :: "int \<Rightarrow> Reassembler \<Rightarrow> bool" for m where
  ra_new: "ra_reachable m (NewReassembler m)"
| ra_push: "ra_reachable m r \<Longrightarrow> ra_reachable m (fst (Push r now part))"
| ra_reset: "ra_reachable m r \<Longrightarrow> ra_reachable m (Reset r)"

lemma push_end_inv:
  "length (r_buf r) \<le> r_want r \<Longrightarrow> r_want r \<le> MaxLogicalBytes \<Longrightarrow> r_active r \<Longrightarrow> ra_inv (fst (push_end e r))"
  by (auto simp: push_end_def ra_inv_def)

lemma Push_inv: "ra_inv r \<Longrightarrow> ra_inv (fst (Push r now part))"
  by (auto simp: Push_def Let_def push_end_inv ra_inv_def [of r] intro!: push_end_inv)
    (auto simp: ra_inv_def)

section \<open>Byte conservation\<close>

definition chunk_payload :: "bytes \<Rightarrow> bytes" where
  "chunk_payload part = (if part ! 1 AND FlagStart \<noteq> 0 then drop 6 part else drop 2 part)"

definition pending :: "Reassembler \<Rightarrow> bytes" where
  "pending r = (if r_active r then r_buf r else [])"

lemma push_end_conserves:
  "push_end e r = (r', Inr out) \<Longrightarrow> r_active r \<Longrightarrow>
     r_buf r = (case out of None \<Rightarrow> [] | Some f \<Rightarrow> f) @ pending r'"
  by (auto simp: push_end_def pending_def split: if_splits)

lemma Push_conserves:
  assumes "Push r now part = (r', Inr out)"
  shows "pending r @ chunk_payload part = (case out of None \<Rightarrow> [] | Some f \<Rightarrow> f) @ pending r'"
  using assms
  by (auto simp: Push_def Let_def chunk_payload_def pending_def [of r] HeaderSize_def LengthPrefixSize_def
      numeral_eq_Suc split: if_splits dest!: push_end_conserves)

lemma Push_frame_length:
  "Push r now part = (r', Inr (Some f)) \<Longrightarrow> ra_inv r \<Longrightarrow> length f \<le> MaxLogicalBytes"
  by (auto simp: Push_def Let_def push_end_def ra_inv_def split: if_splits)

section \<open>Properties\<close>

text \<open>
  C26: above the minimal chunk size every frame within the size limit is cut into exactly
  \<open>Count\<close> chunks of at most \<open>maxChunk\<close> bytes, without a panic, and an idle reassembler
  that receives them, at whatever times, returns exactly that frame after the last chunk
  and is idle again.
\<close>

theorem chunk_roundtrip:
  assumes "6 < m" and "length logical \<le> MaxLogicalBytes"
  shows "\<exists>ps. Chunk [] logical m = Some ps \<and> Count (int (length logical)) m = Some (int (length ps)) \<and>
     (\<forall>p \<in> set ps. int (length p) \<le> m) \<and>
     (\<forall>ts r. length ts = length ps \<longrightarrow> r_maxChunk r = m \<longrightarrow> \<not> r_active r \<longrightarrow>
        (\<exists>r'. drain push_stamped r (zip ts ps) = (r', Inr [logical]) \<and>
              \<not> r_active r' \<and> r_maxChunk r' = m))"
  using assms by (rule Chunk_delivers)

theorem chunk_roundtrip_witness:
  "\<exists>ps. Chunk [] [7, 8, 9] 8 = Some ps \<and> length ps = 2 \<and>
     snd (drain push_stamped (NewReassembler 8) (zip [10, 20] ps)) = Inr [[7, 8, 9]]"
proof -
  have h: "6 < (8::int)" "length [7, 8, 9 :: byte] \<le> MaxLogicalBytes"
    by (simp_all add: MaxLogicalBytes_def)
  have c: "Count (int (length [7, 8, 9 :: byte])) 8 = Some 2"
    by (simp add: Count_def HeaderSize_def LengthPrefixSize_def signed_divide_int_def)
  from chunk_roundtrip [OF h] c obtain ps where ps: "Chunk [] [7, 8, 9] 8 = Some ps" "length ps = 2"
    and d: "\<forall>ts r. length ts = length ps \<longrightarrow> r_maxChunk r = 8 \<longrightarrow> \<not> r_active r \<longrightarrow>
        (\<exists>r'. drain push_stamped r (zip ts ps) = (r', Inr [[7, 8, 9]]) \<and> \<not> r_active r' \<and> r_maxChunk r' = 8)"
    by auto
  from d [rule_format, of "[10, 20]" "NewReassembler 8"] ps show ?thesis
    by (auto simp: NewReassembler_def)
qed

text \<open>
  frames that travel back to back over one connection, each as its own chunks,
  arrive complete, unchanged and in the order they were sent.
\<close>

theorem frames_in_order:
  assumes "6 < r_maxChunk r" and "\<not> r_active r"
    and "list_all2 (\<lambda>ps f. length f \<le> MaxLogicalBytes \<and> Chunk [] f (r_maxChunk r) = Some (map snd ps)) pss fs"
  shows "\<exists>r'. drain push_stamped r (concat pss) = (r', Inr fs) \<and> \<not> r_active r'"
  using assms by (rule frames_delivered)

theorem frames_in_order_witness:
  "\<exists>r'. drain push_stamped (NewReassembler 8)
     (concat [[(0, [1, 3, 0, 0, 0, 1, 65])], [(5, [1, 3, 0, 0, 0, 2, 66, 67])]]) = (r', Inr [[65], [66, 67]]) \<and>
     \<not> r_active r'"
  by (rule frames_in_order)
    (simp_all add: NewReassembler_def MaxLogicalBytes_def Chunk_def Count_def Let_def framing_consts be_put_4)

text \<open>
  C27: whatever chunks a peer sends, malformed ones included, the reassembler never holds
  more bytes than the frame declared, never accepts a declaration above the 21 MiB limit,
  and holds nothing while idle.
\<close>

theorem reassembler_memory_bound:
  assumes "ra_reachable m r"
  shows "length (r_buf r) \<le> r_want r \<and> r_want r \<le> MaxLogicalBytes \<and> (\<not> r_active r \<longrightarrow> r_buf r = [])"
proof -
  from assms have "ra_inv r"
  proof (induction rule: ra_reachable.induct)
    case ra_new
    show ?case by (simp add: ra_inv_def NewReassembler_def)
  next
    case (ra_push r now part)
    then show ?case by (simp add: Push_inv)
  next
    case (ra_reset r)
    show ?case by (simp add: ra_inv_def Reset_def)
  qed
  then show ?thesis by (simp add: ra_inv_def)
qed

theorem reassembler_memory_bound_witness:
  "r_want (fst (Push (NewReassembler 16) 7 [1, 1, 0, 0, 0, 9, 65])) \<le> MaxLogicalBytes \<and>
   length (r_buf (fst (Push (NewReassembler 16) 7 [1, 1, 0, 0, 0, 9, 65]))) \<le>
     r_want (fst (Push (NewReassembler 16) 7 [1, 1, 0, 0, 0, 9, 65]))"
  using reassembler_memory_bound [OF ra_push [OF ra_new [of 16], of 7 "[1, 1, 0, 0, 0, 9, 65]"]]
  by blast

text \<open>
  as long as no chunk is rejected, the completed frames followed by the bytes still
  pending are exactly the payload bytes received: nothing is lost, repeated or reordered,
  and every completed frame is within the size limit.
\<close>

theorem reassembly_conserves_bytes:
  assumes "ra_inv r" and "drain push_stamped r ps = (r', Inr fs)"
  shows "pending r @ concat (map (chunk_payload \<circ> snd) ps) = concat fs @ pending r' \<and>
     (\<forall>f \<in> set fs. length f \<le> MaxLogicalBytes)"
  using assms
proof (induction ps arbitrary: r fs)
  case Nil
  then show ?case by simp
next
  case (Cons p ps)
  from Cons.prems(2) obtain r1 out fs1 where
    step: "Push r (fst p) (snd p) = (r1, Inr out)" and rest: "drain push_stamped r1 ps = (r', Inr fs1)"
    and fs: "fs = (case out of None \<Rightarrow> fs1 | Some f \<Rightarrow> f # fs1)"
    by (auto simp: push_stamped_def [of r p] split: prod.splits sum.splits)
  have "ra_inv r1" using Push_inv [OF Cons.prems(1), of "fst p" "snd p"] step by simp
  with Cons.IH rest have IH: "pending r1 @ concat (map (chunk_payload \<circ> snd) ps) = concat fs1 @ pending r'"
      "\<forall>f \<in> set fs1. length f \<le> MaxLogicalBytes"
    by blast+
  have "pending r @ chunk_payload (snd p) @ concat (map (chunk_payload \<circ> snd) ps)
      = (case out of None \<Rightarrow> [] | Some f \<Rightarrow> f) @ concat fs1 @ pending r'"
    using Push_conserves [OF step] IH(1) by (metis append_assoc)
  moreover have "out = Some f \<Longrightarrow> length f \<le> MaxLogicalBytes" for f
    using Push_frame_length [OF _ Cons.prems(1)] step by auto
  ultimately show ?case
    using IH(2) fs by (cases out) (simp_all add: comp_def)
qed

theorem reassembly_conserves_bytes_witness:
  "\<exists>r'. drain push_stamped (NewReassembler 8) [(0, [1, 1, 0, 0, 0, 3, 65]), (4, [1, 2, 66, 67])] = (r', Inr [[65, 66, 67]]) \<and>
     pending (NewReassembler 8) @ concat (map (chunk_payload \<circ> snd) [(0::time, [1, 1, 0, 0, 0, 3, 65]), (4, [1, 2, 66, 67])])
       = concat [[65, 66, 67]] @ pending r'"
proof -
  have inv: "ra_inv (NewReassembler 8)" by (simp add: ra_inv_def NewReassembler_def)
  obtain r' where d: "drain push_stamped (NewReassembler 8) [(0, [1, 1, 0, 0, 0, 3, 65]), (4, [1, 2, 66, 67])] = (r', Inr [[65, 66, 67]])"
    by (simp add: push_stamped_def Push_def push_end_def NewReassembler_def Let_def framing_consts
        MaxLogicalBytes_def be_get_def be_step_def)
  with reassembly_conserves_bytes [OF inv d] show ?thesis by blast
qed

end
