(* ===== verification/GoLib.thy ===== *)
theory GoLib
  imports Prelude
begin

unbundle bit_operations_syntax

text \<open>
  The parts of Go's standard library the program's own logic depends on: strings as byte
  sequences, UTF-8 runes (\<^verbatim>\<open>unicode/utf8\<close>), \<^verbatim>\<open>strings.TrimSpace\<close>, \<^verbatim>\<open>unicode.IsControl\<close>,
  \<^verbatim>\<open>base64.RawURLEncoding\<close> and decimal formatting, with the laws the components use.
\<close>

section \<open>Strings as bytes\<close>

definition byte_of :: "char \<Rightarrow> byte" where
  "byte_of c = of_nat (of_char c)"

definition str_bytes :: "string \<Rightarrow> bytes" where
  "str_bytes s = map byte_of s"

lemma of_char_less_256: "(of_char c :: nat) < 256"
  by (cases c) (simp add: of_char_def horner_sum_simps split: if_splits)

lemma unat_byte_of [simp]: "unat (byte_of c) = of_char c"
  using of_char_less_256 [of c] by (simp add: byte_of_def unsigned_of_nat take_bit_nat_eq_self)

lemma byte_of_inject [simp]: "byte_of c = byte_of d \<longleftrightarrow> c = d"
  by (metis unat_byte_of of_char_eq_iff)

lemma str_bytes_inject [simp]: "str_bytes s = str_bytes t \<longleftrightarrow> s = t"
  by (simp add: str_bytes_def inj_map_eq_map inj_on_def)

lemma length_str_bytes [simp]: "length (str_bytes s) = length s"
  by (simp add: str_bytes_def)

lemma str_bytes_append [simp]: "str_bytes (s @ t) = str_bytes s @ str_bytes t"
  by (simp add: str_bytes_def)

section \<open>Runes\<close>

definition RuneError :: nat where "RuneError = 0xFFFD"

definition is_cont :: "nat \<Rightarrow> bool" where
  "is_cont b \<longleftrightarrow> 0x80 \<le> b \<and> b \<le> 0xBF"

text \<open>The bytes allowed after a lead byte (\<^verbatim>\<open>acceptRanges\<close>).\<close>

definition accept2 :: "nat \<Rightarrow> nat \<Rightarrow> bool" where
  "accept2 b0 b1 \<longleftrightarrow>
     (if b0 = 0xE0 then 0xA0 else if b0 = 0xF0 then 0x90 else 0x80) \<le> b1 \<and>
     b1 \<le> (if b0 = 0xED then 0x9F else if b0 = 0xF4 then 0x8F else 0xBF)"

text \<open>\<open>DecodeRuneInString\<close>: the rune and the number of bytes it takes.\<close>

fun decode_rune :: "string \<Rightarrow> nat \<times> nat" where
  "decode_rune [] = (RuneError, 0)"
| "decode_rune (c0 # cs) =
     (let b0 = of_char c0 :: nat in
      if b0 < 0x80 then (b0, 1)
      else if 0xC2 \<le> b0 \<and> b0 \<le> 0xDF then
        (case cs of
           c1 # _ \<Rightarrow> if is_cont (of_char c1) then ((b0 - 0xC0) * 64 + (of_char c1 - 0x80), 2)
                      else (RuneError, 1)
         | [] \<Rightarrow> (RuneError, 1))
      else if 0xE0 \<le> b0 \<and> b0 \<le> 0xEF then
        (case cs of
           c1 # c2 # _ \<Rightarrow>
             if accept2 b0 (of_char c1) \<and> is_cont (of_char c2)
             then (((b0 - 0xE0) * 64 + (of_char c1 - 0x80)) * 64 + (of_char c2 - 0x80), 3)
             else (RuneError, 1)
         | _ \<Rightarrow> (RuneError, 1))
      else if 0xF0 \<le> b0 \<and> b0 \<le> 0xF4 then
        (case cs of
           c1 # c2 # c3 # _ \<Rightarrow>
             if accept2 b0 (of_char c1) \<and> is_cont (of_char c2) \<and> is_cont (of_char c3)
             then ((((b0 - 0xF0) * 64 + (of_char c1 - 0x80)) * 64 + (of_char c2 - 0x80)) * 64 + (of_char c3 - 0x80), 4)
             else (RuneError, 1)
         | _ \<Rightarrow> (RuneError, 1))
      else (RuneError, 1))"

lemma decode_rune_size:
  assumes "s \<noteq> []"
  shows "0 < snd (decode_rune s)" and "snd (decode_rune s) \<le> length s"
  using assms by (cases s; auto simp: Let_def split: list.splits)+

lemma decode_rune_prefix:
  assumes "s \<noteq> []" and "snd (decode_rune s) \<le> length p" and "s = p @ q"
  shows "decode_rune p = decode_rune s"
proof (cases p)
  case Nil
  with assms decode_rune_size(1) [of s] show ?thesis by simp
next
  case (Cons c0 cs)
  then show ?thesis
    using assms(2) unfolding assms(3)
    by (auto simp: Let_def Cons_eq_append_conv split: list.splits if_splits)
qed

text \<open>A string as its runes, each with the bytes it was decoded from.\<close>

function utf8_segs :: "string \<Rightarrow> (nat \<times> string) list" where
  "utf8_segs s =
     (if s = [] then []
      else (fst (decode_rune s), take (snd (decode_rune s)) s) # utf8_segs (drop (snd (decode_rune s)) s))"
  by pat_completeness auto
termination
  by (relation "measure length") (use decode_rune_size in \<open>auto simp: diff_less\<close>)

declare utf8_segs.simps [simp del]

lemma utf8_segs_Nil [simp]: "utf8_segs [] = []"
  by (simp add: utf8_segs.simps)

lemma concat_utf8_segs: "concat (map snd (utf8_segs s)) = s"
  by (induction s rule: utf8_segs.induct) (subst utf8_segs.simps, simp)

text \<open>An ASCII string is its characters.\<close>

lemma utf8_segs_ascii:
  "\<forall>c \<in> set s. of_char c < (128 :: nat) \<Longrightarrow> utf8_segs s = map (\<lambda>c. (of_char c, [c])) s"
  by (induction s) (subst utf8_segs.simps, simp)+

definition ContainsAny :: "string \<Rightarrow> string \<Rightarrow> bool" where
  "ContainsAny s chars \<longleftrightarrow> (\<exists>c \<in> set s. c \<in> set chars)"

definition rune_seq :: "string \<Rightarrow> nat list" where
  "rune_seq s = map fst (utf8_segs s)"

definition ValidString :: "string \<Rightarrow> bool" where
  "ValidString s \<longleftrightarrow> list_all (\<lambda>(r, bs). \<not> (r = RuneError \<and> length bs = 1)) (utf8_segs s)"

definition IsControl :: "nat \<Rightarrow> bool" where
  "IsControl r \<longleftrightarrow> r < 0x20 \<or> (0x7F \<le> r \<and> r < 0xA0)"

definition IsSpace :: "nat \<Rightarrow> bool" where
  "IsSpace r \<longleftrightarrow> (0x09 \<le> r \<and> r \<le> 0x0D) \<or> r = 0x20 \<or> r = 0x85 \<or> r = 0xA0 \<or> r = 0x1680 \<or>
     (0x2000 \<le> r \<and> r \<le> 0x200A) \<or> r = 0x2028 \<or> r = 0x2029 \<or> r = 0x202F \<or> r = 0x205F \<or> r = 0x3000"

definition trim_segs :: "(nat \<times> string) list \<Rightarrow> (nat \<times> string) list" where
  "trim_segs xs = rev (dropWhile (IsSpace \<circ> fst) (rev (dropWhile (IsSpace \<circ> fst) xs)))"

definition TrimSpace :: "string \<Rightarrow> string" where
  "TrimSpace s = concat (map snd (trim_segs (utf8_segs s)))"

subsection \<open>Trimming is idempotent\<close>

lemma utf8_segs_suffix:
  "utf8_segs s = xs @ ys \<Longrightarrow> utf8_segs (concat (map snd ys)) = ys"
proof (induction xs arbitrary: s)
  case Nil
  then show ?case by (metis append_Nil concat_utf8_segs)
next
  case (Cons x xs)
  from Cons.prems have "s \<noteq> []" by auto
  with Cons.prems have "utf8_segs (drop (snd (decode_rune s)) s) = xs @ ys"
    by (simp add: utf8_segs.simps [of s])
  then show ?case by (rule Cons.IH)
qed

lemma utf8_segs_prefix:
  "utf8_segs s = xs @ ys \<Longrightarrow> utf8_segs (concat (map snd xs)) = xs"
proof (induction xs arbitrary: s)
  case Nil
  then show ?case by simp
next
  case (Cons x xs)
  from Cons.prems have ne: "s \<noteq> []" by auto
  define n where "n = snd (decode_rune s)"
  have x: "x = (fst (decode_rune s), take n s)" and rest: "utf8_segs (drop n s) = xs @ ys"
    using Cons.prems ne by (simp_all add: utf8_segs.simps [of s] n_def)
  have n: "0 < n" "n \<le> length s" using ne by (simp_all add: n_def decode_rune_size)
  define p where "p = concat (map snd (x # xs))"
  have p: "p = take n s @ concat (map snd xs)" by (simp add: p_def x)
  have s: "s = p @ concat (map snd ys)"
  proof -
    have "s = concat (map snd (utf8_segs s))" by (simp add: concat_utf8_segs)
    then show ?thesis by (simp add: Cons.prems p_def)
  qed
  have "n \<le> length p" using n p by simp
  then have dp: "decode_rune p = decode_rune s"
    using decode_rune_prefix [OF ne _ s] by (simp add: n_def)
  have "p \<noteq> []" using p n by auto
  then have "utf8_segs p = (fst (decode_rune s), take n p) # utf8_segs (drop n p)"
    by (simp add: utf8_segs.simps [of p] dp n_def)
  moreover have "take n p = take n s" and "drop n p = concat (map snd xs)"
    using n p by simp_all
  ultimately show ?case
    using Cons.IH [OF rest] by (simp add: x p)
qed

lemma trim_segs_sublist: "\<exists>us vs. xs = us @ trim_segs xs @ vs"
proof -
  let ?d = "dropWhile (IsSpace \<circ> fst) xs"
  have 1: "xs = takeWhile (IsSpace \<circ> fst) xs @ ?d" by simp
  have "rev ?d = takeWhile (IsSpace \<circ> fst) (rev ?d) @ dropWhile (IsSpace \<circ> fst) (rev ?d)" by simp
  then have "?d = trim_segs xs @ rev (takeWhile (IsSpace \<circ> fst) (rev ?d))"
    by (metis rev_append rev_rev_ident trim_segs_def)
  with 1 show ?thesis by metis
qed

lemma trim_segs_ends:
  "trim_segs xs \<noteq> [] \<Longrightarrow> \<not> IsSpace (fst (hd (trim_segs xs))) \<and> \<not> IsSpace (fst (last (trim_segs xs)))"
proof -
  assume ne: "trim_segs xs \<noteq> []"
  let ?d = "dropWhile (IsSpace \<circ> fst) xs"
  let ?e = "dropWhile (IsSpace \<circ> fst) (rev ?d)"
  have e: "?e \<noteq> []" using ne by (simp add: trim_segs_def)
  have "\<not> (IsSpace \<circ> fst) (hd ?e)" using e by (rule hd_dropWhile)
  then have last: "\<not> IsSpace (fst (last (trim_segs xs)))" by (simp add: trim_segs_def last_rev)
  have "rev ?d = takeWhile (IsSpace \<circ> fst) (rev ?d) @ ?e" by simp
  then have "last (rev ?d) = last ?e" using e by (metis last_appendR)
  moreover have d: "?d \<noteq> []" using e by (metis dropWhile.simps(1) rev.simps(1))
  ultimately have "hd ?d = last ?e" by (simp add: last_rev)
  moreover have "\<not> (IsSpace \<circ> fst) (hd ?d)" using d by (rule hd_dropWhile)
  ultimately show ?thesis using last e by (simp add: trim_segs_def hd_rev)
qed

lemma trim_segs_idem: "trim_segs (trim_segs xs) = trim_segs xs"
proof (cases "trim_segs xs = []")
  case True
  have "trim_segs [] = []" by (simp add: trim_segs_def)
  with True show ?thesis by simp
next
  case False
  define ys where "ys = trim_segs xs"
  have "ys \<noteq> []" "\<not> IsSpace (fst (hd ys))" "\<not> IsSpace (fst (last ys))"
    using trim_segs_ends [OF False] False by (simp_all add: ys_def)
  then have "dropWhile (IsSpace \<circ> fst) ys = ys"
    by (cases ys) simp_all
  moreover have "dropWhile (IsSpace \<circ> fst) (rev ys) = rev ys"
    using \<open>ys \<noteq> []\<close> \<open>\<not> IsSpace (fst (last ys))\<close> by (cases ys rule: rev_cases) simp_all
  ultimately show ?thesis unfolding ys_def [symmetric] by (simp add: trim_segs_def [of ys])
qed

lemma utf8_segs_TrimSpace: "utf8_segs (TrimSpace s) = trim_segs (utf8_segs s)"
proof -
  obtain us vs where split: "utf8_segs s = us @ trim_segs (utf8_segs s) @ vs"
    using trim_segs_sublist by blast
  then have "utf8_segs (concat (map snd (trim_segs (utf8_segs s) @ vs))) = trim_segs (utf8_segs s) @ vs"
    by (rule utf8_segs_suffix)
  then show ?thesis
    unfolding TrimSpace_def by (rule utf8_segs_prefix)
qed

lemma TrimSpace_idem [simp]: "TrimSpace (TrimSpace s) = TrimSpace s"
  by (simp add: TrimSpace_def [of "TrimSpace s"] utf8_segs_TrimSpace trim_segs_idem)
    (simp add: TrimSpace_def)

lemma TrimSpace_Nil [simp]: "TrimSpace [] = []"
  by (simp add: TrimSpace_def trim_segs_def)


section \<open>Base64, raw URL alphabet\<close>

definition b64_alphabet :: string where
  "b64_alphabet = ''ABCDEFGHIJKLMNOPQRSTUVWXYZabcdefghijklmnopqrstuvwxyz0123456789-_''"

definition b64_char :: "nat \<Rightarrow> char" where
  "b64_char v = b64_alphabet ! v"

text \<open>The value of a character, by the ranges of the alphabet.\<close>

definition b64_value :: "char \<Rightarrow> nat option" where
  "b64_value c =
     (let b = of_char c :: nat in
      if 65 \<le> b \<and> b \<le> 90 then Some (b - 65)
      else if 97 \<le> b \<and> b \<le> 122 then Some (b - 71)
      else if 48 \<le> b \<and> b \<le> 57 then Some (b + 4)
      else if b = 45 then Some 62
      else if b = 95 then Some 63
      else None)"

fun b64_groups :: "nat list \<Rightarrow> nat list" where
  "b64_groups (a # b # c # bs) =
     (a div 4) # ((a mod 4) * 16 + b div 16) # ((b mod 16) * 4 + c div 64) # (c mod 64) # b64_groups bs"
| "b64_groups [a, b] = [a div 4, (a mod 4) * 16 + b div 16, (b mod 16) * 4]"
| "b64_groups [a] = [a div 4, (a mod 4) * 16]"
| "b64_groups [] = []"

definition b64_encode :: "bytes \<Rightarrow> string" where
  "b64_encode bs = map b64_char (b64_groups (map unat bs))"

text \<open>
  The decoder skips carriage returns and line feeds, rejects every other character outside
  the alphabet and a lone trailing character, and ignores the unused low bits of the last one.
\<close>

fun b64_join :: "nat list \<Rightarrow> nat list option" where
  "b64_join (w # x # y # z # vs) =
     map_option (\<lambda>bs. (w * 4 + x div 16) # ((x mod 16) * 16 + y div 4) # ((y mod 4) * 64 + z) # bs) (b64_join vs)"
| "b64_join [w, x, y] = Some [w * 4 + x div 16, (x mod 16) * 16 + y div 4]"
| "b64_join [w, x] = Some [w * 4 + x div 16]"
| "b64_join [w] = None"
| "b64_join [] = Some []"

fun all_some :: "'a option list \<Rightarrow> 'a list option" where
  "all_some [] = Some []"
| "all_some (None # xs) = None"
| "all_some (Some x # xs) = map_option ((#) x) (all_some xs)"

definition b64_decode :: "string \<Rightarrow> bytes option" where
  "b64_decode s =
     (case all_some (map b64_value (filter (\<lambda>c. c \<noteq> CHR 0x0A \<and> c \<noteq> CHR 0x0D) s)) of
        None \<Rightarrow> None
      | Some vs \<Rightarrow> map_option (map of_nat) (b64_join vs))"

lemma all_some_map_Some: "all_some (map Some xs) = Some xs"
  by (induction xs) auto

lemma b64_values: "list_all (\<lambda>v. b64_value (b64_char v) = Some v \<and> b64_char v \<noteq> CHR 0x0A \<and> b64_char v \<noteq> CHR 0x0D) [0..<64]"
  by (simp add: b64_char_def b64_alphabet_def b64_value_def upt_rec)

lemma b64_value_char:
  assumes "v < 64"
  shows "b64_value (b64_char v) = Some v" and "b64_char v \<noteq> CHR 0x0A" and "b64_char v \<noteq> CHR 0x0D"
  using b64_values assms by (auto simp: list_all_iff)

lemma b64_groups_bound: "\<forall>b \<in> set bs. b < 256 \<Longrightarrow> \<forall>v \<in> set (b64_groups bs). v < 64"
  by (induction bs rule: b64_groups.induct) (auto simp: less_mult_imp_div_less)

lemma b64_join_groups: "\<forall>b \<in> set bs. b < 256 \<Longrightarrow> b64_join (b64_groups bs) = Some bs"
proof (induction bs rule: b64_groups.induct)
  case (1 a b c bs)
  have "(a mod 4 * 16 + b div 16) div 16 = a mod 4" "(b mod 16 * 4 + c div 64) div 4 = b mod 16"
    "(a mod 4 * 16 + b div 16) mod 16 = b div 16" "(b mod 16 * 4 + c div 64) mod 4 = c div 64"
    using "1.prems" by (auto simp: less_mult_imp_div_less div_mult_self3 mod_mult_self4)
  with 1 show ?case by (simp add: div_mult_mod_eq)
next
  case (2 a b)
  have "(a mod 4 * 16 + b div 16) div 16 = a mod 4" "(a mod 4 * 16 + b div 16) mod 16 = b div 16"
    using "2.prems" by (auto simp: less_mult_imp_div_less)
  then show ?case by simp
qed auto

lemma b64_decode_encode [simp]: "b64_decode (b64_encode bs) = Some bs"
proof -
  define vs where "vs = b64_groups (map unat bs)"
  have b: "\<forall>b \<in> set (map unat bs). b < 256"
  proof
    fix b
    assume "b \<in> set (map unat bs)"
    then obtain w :: byte where "b = unat w" by auto
    with unsigned_less [of w] show "b < 256" by simp
  qed
  then have v: "\<forall>v \<in> set vs. v < 64" unfolding vs_def by (rule b64_groups_bound)
  have f: "filter (\<lambda>c. c \<noteq> CHR 0x0A \<and> c \<noteq> CHR 0x0D) (map b64_char vs) = map b64_char vs"
    using v b64_value_char(2,3) by (auto simp: filter_id_conv)
  have m: "map (\<lambda>x. b64_value (b64_char x)) vs = map Some vs"
    using v b64_value_char(1) by simp
  show ?thesis
    using b64_join_groups [OF b]
    by (simp add: b64_decode_def b64_encode_def f m all_some_map_Some comp_def flip: vs_def)
qed

lemma length_b64_groups: "length (b64_groups bs) = (8 * length bs + 5) div 6"
  by (induction bs rule: b64_groups.induct) auto

lemma length_b64_encode [simp]: "length (b64_encode bs) = (8 * length bs + 5) div 6"
  by (simp add: b64_encode_def length_b64_groups)

lemma b64_encode_inject [simp]: "b64_encode xs = b64_encode ys \<longleftrightarrow> xs = ys"
  by (metis b64_decode_encode option.inject)

lemma length_b64_join: "b64_join vs = Some bs \<Longrightarrow> length bs = 6 * length vs div 8"
  by (induction vs arbitrary: bs rule: b64_join.induct) auto

lemma b64_join_total: "length vs mod 4 \<noteq> 1 \<Longrightarrow> \<exists>bs. b64_join vs = Some bs"
  by (induction vs rule: b64_join.induct) auto

lemma all_some_eq_Some: "all_some xs = Some ys \<longleftrightarrow> xs = map Some ys"
  by (induction xs arbitrary: ys rule: all_some.induct) auto

section \<open>Decimal numbers\<close>

definition digit_char :: "nat \<Rightarrow> char" where
  "digit_char d = char_of (48 + d)"

function FormatUint :: "nat \<Rightarrow> string" where
  "FormatUint n = (if n < 10 then [digit_char n] else FormatUint (n div 10) @ [digit_char (n mod 10)])"
  by pat_completeness auto
termination by (relation "measure id") auto

declare FormatUint.simps [simp del]

lemma of_char_digit: "d < 10 \<Longrightarrow> of_char (digit_char d) = 48 + d"
  by (simp add: digit_char_def take_bit_nat_eq_self)

lemma digit_char_inject: "d < 10 \<Longrightarrow> e < 10 \<Longrightarrow> digit_char d = digit_char e \<longleftrightarrow> d = e"
  by (metis of_char_digit add_left_cancel)

lemma FormatUint_ne [simp]: "FormatUint n \<noteq> []"
  by (subst FormatUint.simps) simp

lemma FormatUint_inject: "FormatUint m = FormatUint n \<Longrightarrow> m = n"
proof (induction m arbitrary: n rule: FormatUint.induct)
  case (1 m)
  have split: "FormatUint k = (if k < 10 then [digit_char k] else FormatUint (k div 10) @ [digit_char (k mod 10)])" for k
    by (subst FormatUint.simps) (rule refl)
  consider "m < 10" "n < 10" | "m < 10" "\<not> n < 10" | "\<not> m < 10" "n < 10" | "\<not> m < 10" "\<not> n < 10" by blast
  then show ?case
  proof cases
    case 1
    with "1.prems" show ?thesis by (simp add: split [of m] split [of n] digit_char_inject)
  next
    case 2
    with "1.prems" show ?thesis using FormatUint_ne [of "n div 10"] by (simp add: split [of m] split [of n])
  next
    case 3
    with "1.prems" show ?thesis by (simp add: split [of m] split [of n] FormatUint_ne)
  next
    case 4
    with "1.prems" have "FormatUint (m div 10) = FormatUint (n div 10)" "m mod 10 = n mod 10"
      by (simp_all add: split [of m] split [of n] digit_char_inject)
    with "1.IH" 4 have "m div 10 = n div 10" by blast
    with \<open>m mod 10 = n mod 10\<close> show ?thesis by (metis div_mult_mod_eq)
  qed
qed

lemma digit_char_not_nul: "d < 10 \<Longrightarrow> digit_char d \<noteq> CHR 0x00"
  using of_char_digit [of d] by auto

lemma FormatUint_no_nul: "CHR 0x00 \<notin> set (FormatUint n)"
proof (induction n rule: FormatUint.induct)
  case (1 n)
  then show ?case by (subst FormatUint.simps) (auto simp: digit_char_not_nul dest: sym)
qed

end
