(* ===== verification/GatewayWire.thy ===== *)
theory GatewayWire
  imports GoLib
begin

unbundle bit_operations_syntax

text \<open>
  Package \<^verbatim>\<open>internal/gatewaywire\<close>: the wire contract of the blind gateway. The multiplex
  frame codec, the identifiers derived from the relay key and the challenge proofs. The
  keyed hash (\<open>hmac\<close>) and the key derivation (\<open>hkdf\<close>) of the crypto library are arguments
  of the definitions.
\<close>

section \<open>Constants\<close>

definition FrameVersion :: byte where "FrameVersion = 1"
definition OpData :: byte where "OpData = 0"
definition OpOpen :: byte where "OpOpen = 1"
definition OpClose :: byte where "OpClose = 2"
definition OpPing :: byte where "OpPing = 3"
definition OpPong :: byte where "OpPong = 4"
definition OpNotice :: byte where "OpNotice = 5"
definition gw_HeaderSize :: nat where "gw_HeaderSize = 1 + 1 + 4"
definition MaxFramePayload :: nat where "MaxFramePayload = 2 ^ 20"
definition NonceBytes :: nat where "NonceBytes = 32"
definition RelayIDBytes :: nat where "RelayIDBytes = 16"
definition RelayIDLength :: nat where "RelayIDLength = 22"
definition sha256_Size :: nat where "sha256_Size = 32"

definition hkdfSalt :: string where "hkdfSalt = ''herdr-gateway-v1''"
definition relayIDInfo :: string where "relayIDInfo = ''herdr-gw-id''"
definition rendezvousInfo :: string where "rendezvousInfo = ''herdr-gw-auth''"
definition connectProofTag :: string where "connectProofTag = ''herdr-gw-connect'' @ [CHR 0x00]"
definition registrationProofTag :: string where "registrationProofTag = ''herdr-gateway-register-v1''"
definition rendezvousKeyLen :: nat where "rendezvousKeyLen = 32"

datatype wire_error = ErrShortFrame | UnsupportedVersion byte | UnknownOpcode byte | PayloadTooLarge nat

section \<open>Derived identifiers and proofs\<close>

type_synonym hkdf_fun = "bytes \<Rightarrow> bytes \<Rightarrow> string \<Rightarrow> nat \<Rightarrow> bytes option"
type_synonym hmac_fun = "bytes \<Rightarrow> bytes \<Rightarrow> bytes"

definition DeriveRelayID :: "hkdf_fun \<Rightarrow> string \<Rightarrow> string option" where
  "DeriveRelayID hkdf relayKey =
     map_option b64_encode (hkdf (str_bytes relayKey) (str_bytes hkdfSalt) relayIDInfo RelayIDBytes)"

definition DeriveRendezvousKey :: "hkdf_fun \<Rightarrow> string \<Rightarrow> bytes option" where
  "DeriveRendezvousKey hkdf relayKey =
     hkdf (str_bytes relayKey) (str_bytes hkdfSalt) rendezvousInfo rendezvousKeyLen"

definition ConnectProof :: "hmac_fun \<Rightarrow> bytes \<Rightarrow> string \<Rightarrow> bytes \<Rightarrow> bytes" where
  "ConnectProof hmac rendezvousKey relayID nonce =
     hmac rendezvousKey (str_bytes connectProofTag @ str_bytes relayID @ nonce)"

definition VerifyConnectProof :: "hmac_fun \<Rightarrow> bytes \<Rightarrow> string \<Rightarrow> bytes \<Rightarrow> bytes \<Rightarrow> bool" where
  "VerifyConnectProof hmac rendezvousKey relayID nonce proof =
     (if length nonce \<noteq> NonceBytes \<or> length proof \<noteq> sha256_Size then False
      else proof = ConnectProof hmac rendezvousKey relayID nonce)"

definition RegistrationProof :: "hmac_fun \<Rightarrow> string \<Rightarrow> string \<Rightarrow> bytes \<Rightarrow> bytes" where
  "RegistrationProof hmac token relayID nonce =
     hmac (str_bytes token) (str_bytes registrationProofTag @ str_bytes relayID @ nonce)"

definition VerifyRegistrationProof :: "hmac_fun \<Rightarrow> string \<Rightarrow> string \<Rightarrow> bytes \<Rightarrow> bytes \<Rightarrow> bool" where
  "VerifyRegistrationProof hmac token relayID nonce proof =
     (if length nonce \<noteq> NonceBytes \<or> length proof \<noteq> sha256_Size then False
      else proof = RegistrationProof hmac token relayID nonce)"

definition ValidRelayID :: "string \<Rightarrow> bool" where
  "ValidRelayID relayID =
     (if length relayID \<noteq> RelayIDLength then False
      else case b64_decode relayID of None \<Rightarrow> False | Some decoded \<Rightarrow> length decoded = RelayIDBytes)"

section \<open>Multiplexed frames\<close>

definition AppendFrame :: "bytes \<Rightarrow> byte \<Rightarrow> u32 \<Rightarrow> bytes \<Rightarrow> bytes" where
  "AppendFrame dst op connID payload = ((dst @ [FrameVersion, op]) @ be_put 4 connID) @ payload"

definition EncodeFrame :: "byte \<Rightarrow> u32 \<Rightarrow> bytes \<Rightarrow> bytes" where
  "EncodeFrame op connID payload = AppendFrame [] op connID payload"

definition DecodeFrame :: "bytes \<Rightarrow> wire_error + (byte \<times> u32 \<times> bytes)" where
  "DecodeFrame frame =
     (if length frame < gw_HeaderSize then Inl ErrShortFrame
      else if frame ! 0 \<noteq> FrameVersion then Inl (UnsupportedVersion (frame ! 0))
      else
        let op = frame ! 1 in
        if op > OpNotice then Inl (UnknownOpcode op)
        else
          let connID = be_get (take (gw_HeaderSize - 2) (drop 2 frame));
              payload = drop gw_HeaderSize frame
          in if length payload > MaxFramePayload then Inl (PayloadTooLarge (length payload))
             else Inr (op, connID, payload))"

lemma EncodeFrame_eq [wire_simps]:
  "EncodeFrame op connID payload = FrameVersion # op # be_put 4 connID @ payload"
  by (simp add: EncodeFrame_def AppendFrame_def)

lemma DecodeFrame_EncodeFrame:
  assumes "op \<le> OpNotice" and "length payload \<le> MaxFramePayload"
  shows "DecodeFrame (EncodeFrame op connID payload) = Inr (op, connID, payload)"
  using assms by (simp add: DecodeFrame_def EncodeFrame_eq gw_HeaderSize_def Let_def not_less)

lemma length_ge_6_split:
  assumes "6 \<le> length f"
  shows "f = f ! 0 # f ! 1 # take 4 (drop 2 f) @ drop 6 f"
proof -
  obtain a b c d e g rest where "f = a # b # c # d # e # g # rest"
    using assms by (auto simp: numeral_eq_Suc Suc_le_length_iff)
  then show ?thesis by simp
qed

lemma DecodeFrame_canonical:
  assumes "DecodeFrame frame = Inr (op, connID, payload)"
  shows "frame = EncodeFrame op connID payload \<and> op \<le> OpNotice \<and> length payload \<le> MaxFramePayload"
proof -
  from assms have len: "6 \<le> length frame" and v: "frame ! 0 = FrameVersion"
    and op: "op = frame ! 1" "op \<le> OpNotice" and id: "connID = be_get (take 4 (drop 2 frame))"
    and p: "payload = drop 6 frame" "length payload \<le> MaxFramePayload"
    by (auto simp: DecodeFrame_def gw_HeaderSize_def Let_def not_less split: if_splits)
  have "be_put 4 connID = take 4 (drop 2 frame)"
    unfolding id by (rule be_put_get_u32) (use len in simp)
  with length_ge_6_split [OF len] v op p show ?thesis
    by (simp add: EncodeFrame_eq)
qed

section \<open>Relay identifiers\<close>

lemma ValidRelayID_alphabet:
  "ValidRelayID s \<longleftrightarrow> length s = RelayIDLength \<and> (\<forall>c \<in> set s. b64_value c \<noteq> None)"
proof
  assume v: "ValidRelayID s"
  define t where "t = filter (\<lambda>c. c \<noteq> CHR 0x0A \<and> c \<noteq> CHR 0x0D) s"
  from v have len: "length s = 22" by (simp add: ValidRelayID_def RelayIDLength_def split: if_splits)
  from v obtain vs bs where vs: "all_some (map b64_value t) = Some vs" and bs: "b64_join vs = Some bs" "length bs = 16"
    by (auto simp: ValidRelayID_def b64_decode_def RelayIDBytes_def t_def split: if_splits option.splits)
  from vs have mv: "map b64_value t = map Some vs" by (simp add: all_some_eq_Some)
  have "length vs = length t" using mv by (metis length_map)
  with length_b64_join [OF bs(1)] bs(2) have "22 \<le> length t" by linarith
  moreover have "length t \<le> length s" by (simp add: t_def)
  ultimately have "length t = length s" using len by simp
  then have "t = s" unfolding t_def by (metis length_filter_less less_irrefl filter_True)
  with mv have "b64_value c \<noteq> None" if "c \<in> set s" for c
    using that by (metis (no_types, lifting) in_set_conv_nth length_map nth_map option.distinct(1))
  with len show "length s = RelayIDLength \<and> (\<forall>c \<in> set s. b64_value c \<noteq> None)"
    by (simp add: RelayIDLength_def)
next
  assume H: "length s = RelayIDLength \<and> (\<forall>c \<in> set s. b64_value c \<noteq> None)"
  define vs where "vs = map (\<lambda>c. the (b64_value c)) s"
  have mv: "map b64_value s = map Some vs" using H by (auto simp: vs_def)
  have nl: "filter (\<lambda>c. c \<noteq> CHR 0x0A \<and> c \<noteq> CHR 0x0D) s = s"
    using H by (auto simp: filter_id_conv b64_value_def)
  have "length vs = 22" using H by (simp add: vs_def RelayIDLength_def)
  then obtain bs where "b64_join vs = Some bs"
    using b64_join_total [of vs] by auto
  with length_b64_join [OF this] \<open>length vs = 22\<close> H mv nl show "ValidRelayID s"
    by (simp add: ValidRelayID_def b64_decode_def all_some_map_Some RelayIDBytes_def)
qed

lemma DeriveRelayID_valid:
  assumes "hkdf (str_bytes key) (str_bytes hkdfSalt) relayIDInfo RelayIDBytes = Some bs" and "length bs = 16"
  shows "\<exists>relay. DeriveRelayID hkdf key = Some relay \<and> ValidRelayID relay"
  using assms by (simp add: DeriveRelayID_def ValidRelayID_def RelayIDLength_def RelayIDBytes_def)

lemma str_bytes_split:
  "length a = length b \<Longrightarrow> str_bytes a @ x = str_bytes b @ y \<longleftrightarrow> a = b \<and> x = y"
  by (simp add: append_eq_append_conv)

section \<open>Properties\<close>

text \<open>
  C30: a byte string is accepted by \<open>DecodeFrame\<close> exactly when it is the encoding of the
  returned opcode, connection and payload within the protocol's bounds. Encoding and
  decoding are inverse to each other, and no two byte strings decode alike.
\<close>

theorem frame_codec_exact:
  "DecodeFrame frame = Inr (op, connID, payload) \<longleftrightarrow>
     frame = EncodeFrame op connID payload \<and> op \<le> OpNotice \<and> length payload \<le> MaxFramePayload"
  using DecodeFrame_canonical DecodeFrame_EncodeFrame by blast

text \<open>
  \<open>ValidRelayID\<close> accepts exactly the strings of 22 characters of the URL alphabet, even
  though the decoder it calls skips line breaks, and every identifier derived from a relay
  key is accepted when the key derivation returns the 16 bytes it was asked for.
\<close>

theorem relay_id_shape:
  "(ValidRelayID s \<longleftrightarrow> length s = 22 \<and> (\<forall>c \<in> set s. b64_value c \<noteq> None)) \<and>
   (\<forall>hkdf key bs.
      hkdf (str_bytes key) (str_bytes hkdfSalt) relayIDInfo RelayIDBytes = Some bs \<longrightarrow> length bs = 16 \<longrightarrow>
      (\<exists>relay. DeriveRelayID hkdf key = Some relay \<and> ValidRelayID relay))"
  using DeriveRelayID_valid by (auto simp: ValidRelayID_alphabet [of s] RelayIDLength_def)

theorem relay_id_shape_witness:
  "ValidRelayID ''AAECAwQFBgcICQoLDA0ODw'' \<and>
   (\<exists>relay. DeriveRelayID (\<lambda>_ _ _ n. Some (replicate n 7)) ''key'' = Some relay \<and> ValidRelayID relay)"
  using relay_id_shape [of "''AAECAwQFBgcICQoLDA0ODw''"]
    relay_id_shape [THEN conjunct2, rule_format, of "\<lambda>_ _ _ n. Some (replicate n 7)" "''key''" "replicate 16 7"]
  by (simp add: RelayIDBytes_def b64_value_def)

text \<open>
  one proof can satisfy the connection check for two different relay identifiers or two
  different challenges only if the keyed hash itself collides: the relay identifier and
  the challenge are both bound into the proof.
\<close>

theorem connect_proof_binds:
  assumes "ValidRelayID a" and "ValidRelayID b"
    and "VerifyConnectProof hmac k a n p" and "VerifyConnectProof hmac k b n' p"
  shows "(a = b \<and> n = n') \<or> (\<exists>x y. x \<noteq> y \<and> hmac k x = hmac k y)"
proof (cases "a = b \<and> n = n'")
  case False
  have "length a = length b"
    using assms(1,2) by (simp add: ValidRelayID_alphabet)
  with False have "str_bytes connectProofTag @ str_bytes a @ n \<noteq> str_bytes connectProofTag @ str_bytes b @ n'"
    by (simp add: str_bytes_split)
  moreover have "hmac k (str_bytes connectProofTag @ str_bytes a @ n) = hmac k (str_bytes connectProofTag @ str_bytes b @ n')"
    using assms(3,4) by (simp add: VerifyConnectProof_def ConnectProof_def split: if_splits)
  ultimately show ?thesis by blast
qed simp

theorem connect_proof_binds_witness:
  "let hmac = (\<lambda>_ m. take 32 (rev m) :: bytes); relay = ''AAECAwQFBgcICQoLDA0ODw''; nonce = replicate 32 3
   in ValidRelayID relay \<and> VerifyConnectProof hmac [] relay nonce (replicate 32 3) \<and>
      ((relay = relay \<and> nonce = nonce) \<or> (\<exists>x y. x \<noteq> y \<and> hmac [] x = hmac [] y))"
proof -
  let ?hmac = "\<lambda>_ m. take 32 (rev m) :: bytes"
  let ?r = "''AAECAwQFBgcICQoLDA0ODw''"
  have v: "ValidRelayID ?r"
    by (simp add: ValidRelayID_alphabet RelayIDLength_def b64_value_def)
  have p: "VerifyConnectProof ?hmac [] ?r (replicate 32 3) (replicate 32 3)"
    by (simp add: VerifyConnectProof_def ConnectProof_def NonceBytes_def sha256_Size_def)
  show ?thesis
    using v p connect_proof_binds [OF v v p p] unfolding Let_def by (intro conjI)
qed

end
