(* ===== verification/RateLimit.thy ===== *)
theory RateLimit
  imports Prelude
begin

text \<open>
  File \<^verbatim>\<open>internal/gateway/ratelimit.go\<close>: the fixed-window limiter keyed by client address.
  Besides the operations the theory holds a limiter without pruning, the equivalence of
  the two on a clock that does not run backwards, and the admission bound.
\<close>

section \<open>The limiter\<close>

record rateBucket =
  rb_start :: time
  rb_count :: int

record rateLimiter =
  rl_limit :: int
  rl_window :: duration
  rl_buckets :: "string \<rightharpoonup> rateBucket"
  rl_lastPrune :: time

definition newRateLimiter :: "int \<Rightarrow> duration \<Rightarrow> rateLimiter" where
  "newRateLimiter limit window =
     \<lparr>rl_limit = limit, rl_window = window, rl_buckets = Map.empty, rl_lastPrune = 0\<rparr>"

definition pruneLocked :: "rateLimiter \<Rightarrow> time \<Rightarrow> rateLimiter" where
  "pruneLocked l now =
     l\<lparr>rl_buckets := map_delete_if (\<lambda>_ b. time_Sub now (rb_start b) \<ge> wrap64 (2 * rl_window l)) (rl_buckets l)\<rparr>"

text \<open>The housekeeping at the start of \<open>allow\<close>, at most once per window.\<close>

definition maintain :: "rateLimiter \<Rightarrow> time \<Rightarrow> rateLimiter" where
  "maintain l now =
     (if time_Sub now (rl_lastPrune l) \<ge> rl_window l
      then (pruneLocked l now)\<lparr>rl_lastPrune := now\<rparr> else l)"

definition allow :: "rateLimiter \<Rightarrow> string \<Rightarrow> time \<Rightarrow> bool \<times> rateLimiter" where
  "allow l key now =
     (if rl_limit l \<le> 0 then (True, l)
      else
        let l1 = maintain l now;
            fresh = (True, l1\<lparr>rl_buckets := (rl_buckets l1)(key \<mapsto> \<lparr>rb_start = now, rb_count = 1\<rparr>)\<rparr>)
        in case rl_buckets l1 key of
             None \<Rightarrow> fresh
           | Some bucket \<Rightarrow>
               if time_Sub now (rb_start bucket) \<ge> rl_window l1 then fresh
               else if rb_count bucket \<ge> rl_limit l1 then (False, l1)
               else (True, l1\<lparr>rl_buckets := (rl_buckets l1)(key \<mapsto> bucket\<lparr>rb_count := rb_count bucket + 1\<rparr>)\<rparr>))"

fun allow_run :: "rateLimiter \<Rightarrow> (string \<times> time) list \<Rightarrow> bool list" where
  "allow_run l [] = []"
| "allow_run l ((key, now) # evs) = (let (ok, l') = allow l key now in ok # allow_run l' evs)"

section \<open>Reference: one counter per key, never pruned\<close>

text \<open>The window of a single key: the decision and the next bucket.\<close>

definition win_step :: "int \<Rightarrow> duration \<Rightarrow> rateBucket option \<Rightarrow> time \<Rightarrow> bool \<times> rateBucket option" where
  "win_step limit window s now =
     (case s of
        None \<Rightarrow> (True, Some \<lparr>rb_start = now, rb_count = 1\<rparr>)
      | Some b \<Rightarrow>
          if now - rb_start b \<ge> window then (True, Some \<lparr>rb_start = now, rb_count = 1\<rparr>)
          else if rb_count b \<ge> limit then (False, Some b)
          else (True, Some (b\<lparr>rb_count := rb_count b + 1\<rparr>)))"

fun ref_run :: "int \<Rightarrow> duration \<Rightarrow> (string \<rightharpoonup> rateBucket) \<Rightarrow> (string \<times> time) list \<Rightarrow> bool list" where
  "ref_run limit window m [] = []"
| "ref_run limit window m ((key, now) # evs) =
     (let (ok, b) = win_step limit window (m key) now in ok # ref_run limit window (m(key := b)) evs)"

fun win_run :: "int \<Rightarrow> duration \<Rightarrow> rateBucket option \<Rightarrow> time list \<Rightarrow> bool list" where
  "win_run limit window s [] = []"
| "win_run limit window s (t # ts) =
     (let (ok, s') = win_step limit window s t in ok # win_run limit window s' ts)"

section \<open>Pruning does not change a decision\<close>

text \<open>
  A bucket the limiter lost relative to the reference has an expired window, and keeps an
  expired window as long as the clock does not run backwards.
\<close>

definition prune_rel :: "duration \<Rightarrow> time \<Rightarrow> (string \<rightharpoonup> rateBucket) \<Rightarrow> (string \<rightharpoonup> rateBucket) \<Rightarrow> bool" where
  "prune_rel window t m ref \<longleftrightarrow>
     (\<forall>k. m k = ref k \<or> (m k = None \<and> (\<exists>b. ref k = Some b \<and> window \<le> t - rb_start b)))"

lemma prune_rel_later: "prune_rel window t m ref \<Longrightarrow> t \<le> u \<Longrightarrow> prune_rel window u m ref"
  unfolding prune_rel_def by (meson diff_right_mono order_trans)

lemma prune_rel_prune:
  assumes "prune_rel window t m ref" and "0 < window" and "2 * window \<le> maxDuration"
  shows "prune_rel window t (map_delete_if (\<lambda>_ b. time_Sub t (rb_start b) \<ge> wrap64 (2 * window)) m) ref"
proof -
  have "minDuration < 2 * window" using assms(2) by (simp add: minDuration_def)
  then have old: "wrap64 (2 * window) \<le> time_Sub t u \<longleftrightarrow> 2 * window \<le> t - u" for u
    using assms(3) by (simp add: wrap64_id time_Sub_ge)
  show ?thesis
    unfolding prune_rel_def
  proof
    fix k
    show "map_delete_if (\<lambda>_ b. wrap64 (2 * window) \<le> time_Sub t (rb_start b)) m k = ref k \<or>
      map_delete_if (\<lambda>_ b. wrap64 (2 * window) \<le> time_Sub t (rb_start b)) m k = None \<and>
      (\<exists>b. ref k = Some b \<and> window \<le> t - rb_start b)"
    proof (cases "m k")
      case None
      with assms(1) [unfolded prune_rel_def, rule_format, of k] show ?thesis by auto
    next
      case (Some b)
      have "2 * window \<le> t - rb_start b \<Longrightarrow> window \<le> t - rb_start b" using assms(2) by linarith
      moreover have "ref k = Some b"
        using assms(1) Some unfolding prune_rel_def by (metis option.distinct(1))
      ultimately show ?thesis using Some by (simp add: old)
    qed
  qed
qed

lemma allow_win_step:
  assumes "0 < rl_limit l" and "0 < rl_window l" and "2 * rl_window l \<le> maxDuration"
    and "prune_rel (rl_window l) now (rl_buckets l) ref"
  obtains l' where "allow l key now = (fst (win_step (rl_limit l) (rl_window l) (ref key) now), l')"
    and "rl_limit l' = rl_limit l" and "rl_window l' = rl_window l"
    and "prune_rel (rl_window l) now (rl_buckets l')
           (ref(key := snd (win_step (rl_limit l) (rl_window l) (ref key) now)))"
proof -
  let ?w = "rl_window l" and ?lim = "rl_limit l"
  have w: "minDuration < ?w" "?w \<le> maxDuration"
    using assms(2,3) by (auto simp: minDuration_def)
  define l1 where "l1 = maintain l now"
  have l1: "rl_limit l1 = ?lim" "rl_window l1 = ?w"
    by (simp_all add: l1_def maintain_def pruneLocked_def)
  have rel: "prune_rel ?w now (rl_buckets l1) ref"
    using assms by (simp add: l1_def maintain_def pruneLocked_def prune_rel_prune)
  have upd: "prune_rel ?w now ((rl_buckets l1)(key := b)) (ref(key := b))" for b
    using rel by (simp add: prune_rel_def)
  from rel consider "rl_buckets l1 key = ref key"
    | b where "rl_buckets l1 key = None" "ref key = Some b" "?w \<le> now - rb_start b"
    unfolding prune_rel_def by blast
  then have "\<exists>l'. allow l key now = (fst (win_step ?lim ?w (ref key) now), l') \<and> rl_limit l' = ?lim \<and>
      rl_window l' = ?w \<and> prune_rel ?w now (rl_buckets l') (ref(key := snd (win_step ?lim ?w (ref key) now)))"
  proof cases
    case 1
    have same: "prune_rel ?w now (rl_buckets l1) (ref(key := ref key))" using rel by simp
    show ?thesis
      using 1 assms(1) l1 upd same
      by (cases "ref key") (auto simp: allow_def win_step_def time_Sub_ge w Let_def simp flip: l1_def)
  next
    case 2
    then show ?thesis
      using assms(1) l1 upd by (auto simp: allow_def win_step_def Let_def simp flip: l1_def)
  qed
  with that show ?thesis by blast
qed

lemma allow_run_ref:
  assumes "0 < rl_limit l" and "0 < rl_window l" and "2 * rl_window l \<le> maxDuration"
    and "prune_rel (rl_window l) t (rl_buckets l) ref" and "sorted (t # map snd evs)"
  shows "allow_run l evs = ref_run (rl_limit l) (rl_window l) ref evs"
  using assms
proof (induction evs arbitrary: l ref t)
  case Nil
  then show ?case by simp
next
  case (Cons e evs)
  obtain key now where e: "e = (key, now)" by fastforce
  from Cons.prems(5) e have "t \<le> now" and rest: "sorted (now # map snd evs)" by auto
  from Cons.prems(4) \<open>t \<le> now\<close> have "prune_rel (rl_window l) now (rl_buckets l) ref"
    by (rule prune_rel_later)
  then obtain l' where l': "allow l key now = (fst (win_step (rl_limit l) (rl_window l) (ref key) now), l')"
    "rl_limit l' = rl_limit l" "rl_window l' = rl_window l"
    "prune_rel (rl_window l) now (rl_buckets l')
       (ref(key := snd (win_step (rl_limit l) (rl_window l) (ref key) now)))"
    using allow_win_step Cons.prems(1-3) by metis
  have "allow_run l' evs = ref_run (rl_limit l') (rl_window l')
      (ref(key := snd (win_step (rl_limit l) (rl_window l) (ref key) now))) evs"
    by (rule Cons.IH [OF _ _ _ _ rest]) (simp_all only: l' Cons.prems(1-3))
  with l' show ?case by (simp add: e split: prod.splits)
qed

lemma allow_run_new:
  assumes "0 < limit" and "0 < window" and "2 * window \<le> maxDuration" and "sorted (map snd evs)"
  shows "allow_run (newRateLimiter limit window) evs = ref_run limit window Map.empty evs"
proof (cases evs)
  case (Cons e es)
  have "allow_run (newRateLimiter limit window) evs =
      ref_run (rl_limit (newRateLimiter limit window)) (rl_window (newRateLimiter limit window)) Map.empty evs"
    by (rule allow_run_ref [where t = "snd e"])
      (use assms Cons in \<open>auto simp: newRateLimiter_def prune_rel_def\<close>)
  then show ?thesis by (simp add: newRateLimiter_def)
qed simp

section \<open>The admission bound of one key\<close>

definition admitted :: "time \<Rightarrow> duration \<Rightarrow> time list \<Rightarrow> bool list \<Rightarrow> nat" where
  "admitted a window ts oks = length (filter (\<lambda>(t, ok). ok \<and> a \<le> t \<and> t < a + window) (zip ts oks))"

lemma admitted_Nil [simp]: "admitted a window [] oks = 0"
  by (simp add: admitted_def)

lemma admitted_Cons [simp]:
  "admitted a window (t # ts) (ok # oks) =
     (if ok \<and> a \<le> t \<and> t < a + window then 1 else 0) + admitted a window ts oks"
  by (simp add: admitted_def)

lemma admitted_after:
  "sorted ts \<Longrightarrow> \<forall>t \<in> set ts. a + window \<le> t \<Longrightarrow> admitted a window ts oks = 0"
  unfolding admitted_def by (auto simp: filter_empty_conv dest!: set_zip_leftD)

text \<open>Once a window opened inside the interval, only its remaining budget is left.\<close>

lemma admitted_open:
  assumes "a \<le> rb_start b" and "rb_count b \<le> limit" and "sorted (rb_start b # ts)" and "1 \<le> limit"
  shows "int (admitted a window ts (win_run limit window (Some b) ts)) \<le> limit - rb_count b"
  using assms
proof (induction ts arbitrary: b)
  case Nil
  then show ?case by simp
next
  case (Cons t ts)
  show ?case
  proof (cases "window \<le> t - rb_start b")
    case True
    with Cons.prems have out: "\<forall>u \<in> set (t # ts). a + window \<le> u" by auto
    have "admitted a window (t # ts) (win_run limit window (Some b) (t # ts)) = 0"
      by (rule admitted_after [OF _ out]) (use Cons.prems(3) in simp)
    with Cons.prems show ?thesis by simp
  next
    case False
    show ?thesis
    proof (cases "limit \<le> rb_count b")
      case True
      with False Cons.prems Cons.IH [of b] show ?thesis by (simp add: win_step_def)
    next
      case more: False
      with False Cons.prems Cons.IH [of "b\<lparr>rb_count := rb_count b + 1\<rparr>"] show ?thesis
        by (auto simp: win_step_def)
    qed
  qed
qed

text \<open>A window that opened before the interval, seen from its first event inside.\<close>

lemma admitted_entering:
  assumes "rb_start b < a" and "1 \<le> rb_count b" and "rb_count b \<le> limit" and "sorted ts" and "\<forall>t \<in> set ts. a \<le> t"
    and "0 < window"
  shows "int (admitted a window ts (win_run limit window (Some b) ts)) \<le> (limit - rb_count b) + limit"
  using assms
proof (induction ts arbitrary: b)
  case Nil
  then show ?case by simp
next
  case (Cons t ts)
  show ?case
  proof (cases "window \<le> t - rb_start b")
    case True
    have "int (admitted a window ts (win_run limit window (Some \<lparr>rb_start = t, rb_count = 1\<rparr>) ts)) \<le> limit - 1"
      using admitted_open [of a "\<lparr>rb_start = t, rb_count = 1\<rparr>" limit ts window] Cons.prems by simp
    with True Cons.prems show ?thesis by (auto simp: win_step_def)
  next
    case False
    show ?thesis
    proof (cases "limit \<le> rb_count b")
      case True
      with False Cons.prems Cons.IH [of b] show ?thesis by (simp add: win_step_def)
    next
      case more: False
      with False Cons.prems Cons.IH [of "b\<lparr>rb_count := rb_count b + 1\<rparr>"] show ?thesis
        by (auto simp: win_step_def)
    qed
  qed
qed

lemma win_step_bucket:
  assumes "1 \<le> limit" and "\<forall>b. s = Some b \<longrightarrow> 1 \<le> rb_count b \<and> rb_count b \<le> limit \<and> rb_start b \<le> t"
  shows "\<exists>b. snd (win_step limit window s t) = Some b \<and> 1 \<le> rb_count b \<and> rb_count b \<le> limit \<and> rb_start b \<le> t"
  using assms by (cases s) (auto simp: win_step_def)

lemma admitted_bound:
  assumes "1 \<le> limit" and "0 < window" and "sorted ts"
    and "\<forall>b. s = Some b \<longrightarrow> 1 \<le> rb_count b \<and> rb_count b \<le> limit \<and> rb_start b < a \<and> (\<forall>t \<in> set ts. rb_start b \<le> t)"
  shows "int (admitted a window ts (win_run limit window s ts)) \<le> 2 * limit - 1"
  using assms
proof (induction ts arbitrary: s)
  case Nil
  then show ?case by simp
next
  case (Cons t ts)
  show ?case
  proof (cases "a \<le> t")
    case inside: True
    show ?thesis
    proof (cases s)
      case None
      have "int (admitted a window ts (win_run limit window (Some \<lparr>rb_start = t, rb_count = 1\<rparr>) ts)) \<le> limit - 1"
        using admitted_open [of a "\<lparr>rb_start = t, rb_count = 1\<rparr>" limit ts window] Cons.prems inside by simp
      with None Cons.prems(1) show ?thesis by (auto simp: win_step_def)
    next
      case (Some b)
      have "int (admitted a window (t # ts) (win_run limit window (Some b) (t # ts))) \<le> (limit - rb_count b) + limit"
        by (rule admitted_entering) (use Cons.prems Some inside in auto)
      with Some Cons.prems(4) show ?thesis by auto
    qed
  next
    case False
    obtain b where b: "snd (win_step limit window s t) = Some b" "1 \<le> rb_count b" "rb_count b \<le> limit" "rb_start b \<le> t"
      using win_step_bucket [of limit s t window] Cons.prems by fastforce
    have "int (admitted a window ts (win_run limit window (Some b) ts)) \<le> 2 * limit - 1"
      by (rule Cons.IH) (use Cons.prems b False in auto)
    with False b(1) show ?thesis by (auto split: prod.splits)
  qed
qed

text \<open>In the reference, a key sees only its own events.\<close>

definition key_admitted :: "string \<Rightarrow> time \<Rightarrow> duration \<Rightarrow> (string \<times> time) list \<Rightarrow> bool list \<Rightarrow> nat" where
  "key_admitted key a window evs oks =
     length (filter (\<lambda>((k, t), ok). k = key \<and> ok \<and> a \<le> t \<and> t < a + window) (zip evs oks))"

lemma key_admitted_ref:
  "key_admitted key a window evs (ref_run limit window m evs) =
     admitted a window (map snd (filter (\<lambda>e. fst e = key) evs))
       (win_run limit window (m key) (map snd (filter (\<lambda>e. fst e = key) evs)))"
proof (induction evs arbitrary: m)
  case Nil
  then show ?case by (simp add: key_admitted_def)
next
  case (Cons e evs)
  obtain k t where e: "e = (k, t)" by fastforce
  obtain ok b where w: "win_step limit window (m k) t = (ok, b)" by fastforce
  define m' where "m' = m(k := b)"
  have m': "m' key = (if k = key then b else m key)" by (simp add: m'_def)
  from Cons.IH [of m'] w e show ?case
    by (auto simp: key_admitted_def m' simp flip: m'_def)
qed

lemma sorted_key_times: "sorted (map snd evs) \<Longrightarrow> sorted (map snd (filter (\<lambda>e. fst e = key) evs))"
  by (induction evs) auto

section \<open>Properties\<close>

text \<open>
  C31: dropping stale windows is invisible. On a clock that does not run backwards the
  limiter decides every event as a limiter does that keeps one counter per key forever.
\<close>

theorem prune_invisible:
  assumes "0 < limit" and "0 < window" and "2 * window \<le> maxDuration" and "sorted (map snd evs)"
  shows "allow_run (newRateLimiter limit window) evs = ref_run limit window Map.empty evs"
  using assms by (rule allow_run_new)

theorem prune_invisible_witness:
  "allow_run (newRateLimiter 1 minute) [(''a'', 5 * minute), (''a'', 5 * minute + second), (''b'', 9 * minute), (''a'', 9 * minute)]
     = ref_run 1 minute Map.empty [(''a'', 5 * minute), (''a'', 5 * minute + second), (''b'', 9 * minute), (''a'', 9 * minute)]"
  by (rule prune_invisible) (simp_all add: minute_def second_def maxDuration_def)

text \<open>
  C32: in any interval of one window length the limiter admits at most \<open>2 * limit - 1\<close>
  events of one key, whatever the other keys do.
\<close>

theorem rate_bound:
  assumes "0 < limit" and "0 < window" and "2 * window \<le> maxDuration" and "sorted (map snd evs)"
  shows "int (key_admitted key a window evs (allow_run (newRateLimiter limit window) evs)) \<le> 2 * limit - 1"
proof -
  have "allow_run (newRateLimiter limit window) evs = ref_run limit window Map.empty evs"
    using assms by (rule allow_run_new)
  moreover have "int (admitted a window (map snd (filter (\<lambda>e. fst e = key) evs))
       (win_run limit window (Map.empty key) (map snd (filter (\<lambda>e. fst e = key) evs)))) \<le> 2 * limit - 1"
    by (rule admitted_bound) (use assms in \<open>auto intro: sorted_key_times\<close>)
  ultimately show ?thesis by (simp add: key_admitted_ref)
qed

theorem rate_bound_witness:
  "int (key_admitted ''a'' (59 * second) minute [(''a'', 0), (''a'', 59 * second), (''a'', 60 * second), (''a'', 61 * second)]
     (allow_run (newRateLimiter 2 minute) [(''a'', 0), (''a'', 59 * second), (''a'', 60 * second), (''a'', 61 * second)])) \<le> 2 * 2 - 1"
  by (rule rate_bound) (simp_all add: minute_def second_def maxDuration_def)

text \<open>
  the bound is reached, so the limit is one per fixed window and not per rolling
  window: with a limit of two per minute, three events of one address within two seconds
  are all admitted.
\<close>

theorem rolling_window_exceeded:
  "\<exists>evs. sorted (map snd evs) \<and>
     int (key_admitted ''a'' (59 * second) minute evs (allow_run (newRateLimiter 2 minute) evs)) = 3"
  by (rule exI [of _ "[(''a'', 0), (''a'', 59 * second), (''a'', 60 * second), (''a'', 61 * second)]"])
    (simp add: key_admitted_def allow_def maintain_def newRateLimiter_def pruneLocked_def time_Sub_def minDuration_def
      maxDuration_def minute_def second_def wrap64_def)

end
