(* ===== verification/Quota.thy ===== *)
theory Quota
  imports GoLib
begin

text \<open>
  File \<^verbatim>\<open>internal/gateway/quota.go\<close>: relayed bytes per relay and calendar month, the
  advisory notices and the refusal of new connections, and the counter file. The file is
  modelled by its decoded contents; reading, decoding and writing may fail.
\<close>

section \<open>The calendar month\<close>

definition day :: duration where "day = 86400 * second"

definition is_leap :: "int \<Rightarrow> bool" where
  "is_leap y \<longleftrightarrow> y mod 4 = 0 \<and> (y mod 100 \<noteq> 0 \<or> y mod 400 = 0)"

text \<open>Year and day of the year of a day number counted from 0001-01-01.\<close>

definition civil_year :: "int \<Rightarrow> int \<times> int" where
  "civil_year d =
     (let n400 = d div 146097; d1 = d mod 146097;
          n100 = min 3 (d1 div 36524); d2 = d1 - n100 * 36524;
          n4 = d2 div 1461; d3 = d2 mod 1461;
          n1 = min 3 (d3 div 365)
      in (400 * n400 + 100 * n100 + 4 * n4 + n1 + 1, d3 - n1 * 365))"

fun month_of :: "int list \<Rightarrow> int \<Rightarrow> nat \<Rightarrow> nat" where
  "month_of [] yday m = m"
| "month_of (n # ns) yday m = (if yday < n then m else month_of ns (yday - n) (Suc m))"

definition month_days :: "int \<Rightarrow> int list" where
  "month_days y = [31, if is_leap y then 29 else 28, 31, 30, 31, 30, 31, 31, 30, 31, 30]"

definition pad :: "nat \<Rightarrow> string \<Rightarrow> string" where
  "pad n s = replicate (n - length s) CHR ''0'' @ s"

definition monthKey :: "time \<Rightarrow> string" where
  "monthKey now =
     (let (y, yday) = civil_year (now div day)
      in pad 4 (FormatUint (nat y)) @ ''-'' @ pad 2 (FormatUint (month_of (month_days y) yday 1)))"

section \<open>Counters and notices\<close>

record counter =
  c_month :: string
  c_bytes :: u64
  c_warnSent :: bool
  c_exceededSent :: bool

datatype notice_kind = NoticeQuotaWarning | NoticeQuotaExceeded

record notice =
  n_kind :: notice_kind
  n_message :: string
  n_bytes :: u64
  n_quota :: u64

record persistedState =
  p_version :: int
  p_relays :: "string \<rightharpoonup> counter option"

record quotaStore =
  q_path :: string
  q_limit :: int
  q_warnPercent :: int
  q_warnBytes :: u64
  q_relays :: "string \<rightharpoonup> counter"
  q_dirty :: bool

definition stateVersion :: int where "stateVersion = 1"

definition fresh_counter :: "string \<Rightarrow> counter" where
  "fresh_counter month = \<lparr>c_month = month, c_bytes = 0, c_warnSent = False, c_exceededSent = False\<rparr>"

definition scalePercent :: "u64 \<Rightarrow> u64 \<Rightarrow> u64" where
  "scalePercent v percent = v div 100 * percent + (v mod 100) * percent div 100"

definition newQuotaStore :: "string \<Rightarrow> int \<Rightarrow> int \<Rightarrow> quotaStore" where
  "newQuotaStore path limit warnPercent =
     \<lparr>q_path = path, q_limit = limit, q_warnPercent = warnPercent,
      q_warnBytes = (if limit > 0 \<and> warnPercent > 0
                     then scalePercent (word_of_int limit) (word_of_int warnPercent) else 0),
      q_relays = Map.empty, q_dirty = False\<rparr>"

definition quota_enabled :: "quotaStore \<Rightarrow> bool" where
  "quota_enabled q \<longleftrightarrow> q_limit q \<ge> 0"

definition limit_bytes :: "quotaStore \<Rightarrow> u64" where
  "limit_bytes q = word_of_int (q_limit q)"

text \<open>The counter of the current month, and the table with it installed.\<close>

definition counterLocked :: "quotaStore \<Rightarrow> string \<Rightarrow> time \<Rightarrow> counter \<times> quotaStore" where
  "counterLocked q relayID now =
     (let month = monthKey now;
          entry = (case q_relays q relayID of
                     None \<Rightarrow> fresh_counter month
                   | Some e \<Rightarrow> if c_month e \<noteq> month then fresh_counter month else e)
      in (entry, q\<lparr>q_relays := (q_relays q)(relayID \<mapsto> entry)\<rparr>))"

definition noticeLocked :: "quotaStore \<Rightarrow> counter \<Rightarrow> notice_kind \<Rightarrow> notice" where
  "noticeLocked q entry kind =
     \<lparr>n_kind = kind,
      n_message =
        (if kind = NoticeQuotaWarning
         then ''relayed traffic reached this gateway's monthly warning threshold; a direct connection or a self-hosted gateway avoids the limit''
         else ''monthly relayed-byte quota is exhausted; new gateway connections are refused until the next calendar month''),
      n_bytes = c_bytes entry, n_quota = limit_bytes q\<rparr>"

definition add :: "quotaStore \<Rightarrow> string \<Rightarrow> u64 \<Rightarrow> time \<Rightarrow> quotaStore \<times> notice list" where
  "add q relayID n now =
     (if \<not> quota_enabled q \<or> n = 0 then (q, [])
      else
        let (e0, q0) = counterLocked q relayID now;
            e1 = e0\<lparr>c_bytes := c_bytes e0 + n\<rparr>;
            warn = (\<not> c_warnSent e1 \<and> q_warnBytes q0 > 0 \<and> c_bytes e1 \<ge> q_warnBytes q0);
            e2 = (if warn then e1\<lparr>c_warnSent := True\<rparr> else e1);
            over = (\<not> c_exceededSent e2 \<and> c_bytes e2 \<ge> limit_bytes q0);
            e3 = (if over then e2\<lparr>c_exceededSent := True\<rparr> else e2)
        in (q0\<lparr>q_relays := (q_relays q0)(relayID \<mapsto> e3), q_dirty := True\<rparr>,
            (if warn then [noticeLocked q0 e2 NoticeQuotaWarning] else []) @
            (if over then [noticeLocked q0 e3 NoticeQuotaExceeded] else [])))"

definition exceeded :: "quotaStore \<Rightarrow> string \<Rightarrow> time \<Rightarrow> quotaStore \<times> bool \<times> notice list" where
  "exceeded q relayID now =
     (if \<not> quota_enabled q then (q, False, [])
      else
        let (entry, q0) = counterLocked q relayID now
        in if c_bytes entry < limit_bytes q0 then (q0, False, [])
           else if c_exceededSent entry then (q0, True, [])
           else
             let e1 = entry\<lparr>c_exceededSent := True\<rparr>
             in (q0\<lparr>q_relays := (q_relays q0)(relayID \<mapsto> e1), q_dirty := True\<rparr>, True,
                 [noticeLocked q0 e1 NoticeQuotaExceeded]))"

definition prune :: "quotaStore \<Rightarrow> time \<Rightarrow> quotaStore" where
  "prune q now =
     (let month = monthKey now
      in q\<lparr>q_relays := map_delete_if (\<lambda>_ e. c_month e \<noteq> month) (q_relays q),
           q_dirty := (q_dirty q \<or> (\<exists>k \<in> dom (q_relays q). c_month (the (q_relays q k)) \<noteq> month))\<rparr>)"

datatype state_file = Missing | Unreadable | Unparsable | StateFile persistedState

datatype quota_error = ReadFailed | ParseFailed | UnsupportedStateVersion int | WriteFailed

definition load :: "quotaStore \<Rightarrow> state_file \<Rightarrow> time \<Rightarrow> quota_error + quotaStore" where
  "load q file now =
     (if q_path q = '''' then Inr q
      else case file of
        Missing \<Rightarrow> Inr q
      | Unreadable \<Rightarrow> Inl ReadFailed
      | Unparsable \<Rightarrow> Inl ParseFailed
      | StateFile st \<Rightarrow>
          if p_version st \<noteq> stateVersion then Inl (UnsupportedStateVersion (p_version st))
          else
            let month = monthKey now
            in Inr (q\<lparr>q_relays := (\<lambda>k. case p_relays st k of
                        Some (Some e) \<Rightarrow> if c_month e = month then Some e else q_relays q k
                      | _ \<Rightarrow> q_relays q k)\<rparr>))"

text \<open>
  \<open>save\<close> clears the dirty mark before the file is replaced; \<open>written\<close> tells whether the
  atomic replacement succeeded, and the result holds the new contents if it did.
\<close>

definition save :: "quotaStore \<Rightarrow> time \<Rightarrow> bool \<Rightarrow> quotaStore \<times> (quota_error + persistedState option)" where
  "save q now written =
     (if q_path q = '''' then (q, Inr None)
      else if \<not> q_dirty q then (q, Inr None)
      else
        let month = monthKey now;
            state = \<lparr>p_version = stateVersion,
                     p_relays = (\<lambda>k. case q_relays q k of
                        None \<Rightarrow> None
                      | Some e \<Rightarrow> if c_month e \<noteq> month then None else Some (Some e))\<rparr>
        in (q\<lparr>q_dirty := False\<rparr>, if written then Inr (Some state) else Inl WriteFailed))"

section \<open>Runs of the store\<close>

text \<open>An event charges bytes (\<open>Some n\<close>) or asks whether a new connection is allowed.\<close>

definition quota_step :: "quotaStore \<Rightarrow> string \<Rightarrow> u64 option \<Rightarrow> time \<Rightarrow> quotaStore \<times> notice list" where
  "quota_step q r op now =
     (case op of
        Some n \<Rightarrow> add q r n now
      | None \<Rightarrow> (let (q', _, ns) = exceeded q r now in (q', ns)))"

fun quota_run :: "quotaStore \<Rightarrow> (string \<times> u64 option \<times> time) list \<Rightarrow> quotaStore \<times> (string \<times> notice) list" where
  "quota_run q [] = (q, [])"
| "quota_run q ((r, op, now) # evs) =
     (let (q1, ns) = quota_step q r op now; (q2, rest) = quota_run q1 evs
      in (q2, map (Pair r) ns @ rest))"

lemmas quota_defs = add_def exceeded_def counterLocked_def noticeLocked_def fresh_counter_def quota_step_def Let_def

subsection \<open>At most one notice of a kind\<close>

fun sent :: "notice_kind \<Rightarrow> counter \<Rightarrow> bool" where
  "sent NoticeQuotaWarning e = c_warnSent e"
| "sent NoticeQuotaExceeded e = c_exceededSent e"

definition told :: "notice_kind \<Rightarrow> string \<Rightarrow> quotaStore \<Rightarrow> string \<Rightarrow> bool" where
  "told k month q r \<longleftrightarrow> (\<exists>e. q_relays q r = Some e \<and> c_month e = month \<and> sent k e)"

abbreviation kind_count :: "notice_kind \<Rightarrow> notice list \<Rightarrow> nat" where
  "kind_count k ns \<equiv> length (filter (\<lambda>n. n_kind n = k) ns)"

lemma quota_step_other: "r \<noteq> s \<Longrightarrow> q_relays (fst (quota_step q r op now)) s = q_relays q s"
  by (auto simp: quota_defs split: option.splits)

lemma limit_bytes_relays [simp]: "limit_bytes (q\<lparr>q_relays := m\<rparr>) = limit_bytes q"
  by (simp add: limit_bytes_def)

lemma counterLocked_facts:
  assumes "counterLocked q r now = (e, q0)"
  shows "c_month e = monthKey now" and "q0 = q\<lparr>q_relays := (q_relays q)(r \<mapsto> e)\<rparr>"
    and "told k (monthKey now) q r \<longleftrightarrow> sent k e"
  using assms
  by (cases k; auto simp: counterLocked_def fresh_counter_def told_def Let_def split: option.splits if_splits)+

lemma told_upd [simp]:
  "told k month (q\<lparr>q_relays := m(r \<mapsto> e), q_dirty := d\<rparr>) r \<longleftrightarrow> c_month e = month \<and> sent k e"
  "told k month (q\<lparr>q_relays := m(r \<mapsto> e)\<rparr>) r \<longleftrightarrow> c_month e = month \<and> sent k e"
  by (auto simp: told_def)

lemma quota_step_told:
  "kind_count k (snd (quota_step q r op now)) + (if told k (monthKey now) q r then 1 else 0)
     \<le> (if told k (monthKey now) (fst (quota_step q r op now)) r then 1 else 0)"
proof -
  obtain e q0 where c: "counterLocked q r now = (e, q0)" by fastforce
  show ?thesis
    by (cases k; cases op)
      (auto simp: quota_step_def add_def exceeded_def noticeLocked_def Let_def c counterLocked_facts [OF c])
qed

definition notices_for :: "notice_kind \<Rightarrow> string \<Rightarrow> (string \<times> notice) list \<Rightarrow> nat" where
  "notices_for k r out = length (filter (\<lambda>(s, n). s = r \<and> n_kind n = k) out)"

lemma notices_for_append: "notices_for k r (xs @ ys) = notices_for k r xs + notices_for k r ys"
  by (simp add: notices_for_def)

lemma notices_for_map: "notices_for k r (map (Pair s) ns) = (if s = r then kind_count k ns else 0)"
  by (induction ns) (auto simp: notices_for_def)

lemma quota_run_told:
  "\<forall>(r, op, t) \<in> set evs. monthKey t = month \<Longrightarrow>
     notices_for k r (snd (quota_run q evs)) + (if told k month q r then 1 else 0) \<le> 1"
proof (induction evs arbitrary: q)
  case Nil
  then show ?case by (simp add: notices_for_def)
next
  case (Cons ev evs)
  obtain s op now where ev: "ev = (s, op, now)" using prod_cases3 by blast
  obtain q1 ns where st: "quota_step q s op now = (q1, ns)" by fastforce
  have IH: "notices_for k r (snd (quota_run q1 evs)) + (if told k month q1 r then 1 else 0) \<le> 1"
    using Cons by simp
  have month: "monthKey now = month" using Cons.prems ev by simp
  show ?case
  proof (cases "s = r")
    case True
    with IH month st quota_step_told [of k q r op now] show ?thesis
      by (auto simp: ev notices_for_append notices_for_map split: prod.splits if_splits)
  next
    case False
    with st quota_step_other [of s r q op now] have "told k month q1 r = told k month q r"
      by (simp add: told_def)
    with IH False st show ?thesis
      by (auto simp: ev notices_for_append notices_for_map split: prod.splits)
  qed
qed

subsection \<open>Accounting\<close>

definition usage :: "string \<Rightarrow> quotaStore \<Rightarrow> string \<Rightarrow> u64" where
  "usage month q r = (case q_relays q r of Some e \<Rightarrow> if c_month e = month then c_bytes e else 0 | None \<Rightarrow> 0)"

definition charged :: "string \<Rightarrow> (string \<times> u64 option \<times> time) list \<Rightarrow> nat" where
  "charged r evs = sum_list (map (\<lambda>(s, op, t). if s = r then (case op of Some n \<Rightarrow> unat n | None \<Rightarrow> 0) else 0) evs)"

lemma quota_step_config [simp]:
  "q_limit (fst (quota_step q r op now)) = q_limit q"
  by (auto simp: quota_defs split: option.splits)

lemma quota_step_usage:
  assumes "quota_enabled q"
  shows "usage (monthKey now) (fst (quota_step q r op now)) s =
     usage (monthKey now) q s + (if s = r then (case op of Some n \<Rightarrow> n | None \<Rightarrow> 0) else 0)"
  using assms by (auto simp: quota_defs usage_def split: option.splits if_splits)

lemma quota_run_usage:
  assumes "quota_enabled q" and "\<forall>(r, op, t) \<in> set evs. monthKey t = month"
  shows "usage month (fst (quota_run q evs)) r = usage month q r + of_nat (charged r evs)
     \<and> q_limit (fst (quota_run q evs)) = q_limit q"
  using assms
proof (induction evs arbitrary: q)
  case Nil
  then show ?case by (simp add: charged_def)
next
  case (Cons ev evs)
  obtain s op now where ev: "ev = (s, op, now)" using prod_cases3 by blast
  obtain q1 ns where st: "quota_step q s op now = (q1, ns)" by fastforce
  have month: "monthKey now = month" using Cons.prems ev by simp
  have lim: "q_limit q1 = q_limit q" using quota_step_config [of q s op now] st by simp
  with Cons.prems have "quota_enabled q1" by (simp add: quota_enabled_def)
  with Cons have IH: "usage month (fst (quota_run q1 evs)) r = usage month q1 r + of_nat (charged r evs)
     \<and> q_limit (fst (quota_run q1 evs)) = q_limit q1" by simp
  have "usage month q1 r = usage month q r + (if r = s then (case op of Some n \<Rightarrow> n | None \<Rightarrow> 0) else 0)"
    using quota_step_usage [OF Cons.prems(1), of now s op r] st month by simp
  with IH lim st show ?case
    by (auto simp: ev charged_def split: prod.splits option.splits)
qed

lemma exceeded_usage:
  "quota_enabled q \<Longrightarrow> fst (snd (exceeded q r now)) \<longleftrightarrow> limit_bytes q \<le> usage (monthKey now) q r"
  by (auto simp: quota_defs usage_def not_less split: option.splits)

lemma q_limit_new [simp]: "q_limit (newQuotaStore path limit percent) = limit"
  by (simp add: newQuotaStore_def)

lemma usage_new [simp]: "usage month (newQuotaStore path limit percent) r = 0"
  by (simp add: usage_def newQuotaStore_def)

section \<open>Properties\<close>

text \<open>
  for every percentage the gateway accepts, the warning threshold is exactly the
  rounded-down percentage of the limit; the split into quotient and remainder keeps the
  64-bit product from overflowing.
\<close>

theorem scalePercent_exact:
  assumes "unat percent \<le> 100"
  shows "unat (scalePercent v percent) = unat v * unat percent div 100"
proof -
  let ?a = "unat v" and ?p = "unat percent"
  have a: "?a < 2 ^ 64" using unsigned_less [of v] by simp
  have "?a * ?p = 100 * (?a div 100 * ?p) + ?a mod 100 * ?p"
    by (metis add_mult_distrib mult.assoc mult_div_mod_eq)
  then have eq: "?a * ?p div 100 = ?a div 100 * ?p + ?a mod 100 * ?p div 100"
    by simp
  have le: "?a * ?p div 100 \<le> ?a"
    using div_le_mono [OF mult_le_mono2 [OF assms, of ?a], of 100] by simp
  have small: "?a mod 100 * ?p < 2 ^ 64"
    using mult_le_mono [of "?a mod 100" 100 ?p 100] assms by simp
  have big: "?a div 100 * ?p < 2 ^ 64" "?a div 100 * ?p + ?a mod 100 * ?p div 100 < 2 ^ 64"
    using le a eq by linarith+
  have "unat (v mod 100 * percent) = ?a mod 100 * ?p"
    using small by (simp add: unat_word_ariths unat_mod)
  then have f1: "unat (v mod 100 * percent div 100) = ?a mod 100 * ?p div 100"
    by (simp add: unat_div)
  have f2: "unat (v div 100 * percent) = ?a div 100 * ?p"
    using big(1) a by (simp add: unat_word_ariths unat_div)
  show ?thesis
    using big(2) unfolding scalePercent_def unat_word_ariths(1) f1 f2 eq by simp
qed

theorem scalePercent_exact_witness:
  "unat (scalePercent 5368709120 80) = unat (5368709120 :: u64) * unat (80 :: u64) div 100"
  by (rule scalePercent_exact) simp

text \<open>
  within one calendar month a relay receives at most one notice of each kind, whatever
  the interleaving of charges and connection checks of all relays.
\<close>

theorem notices_once_per_month:
  assumes "\<forall>(r, op, t) \<in> set evs. monthKey t = month"
  shows "notices_for k r (snd (quota_run q evs)) \<le> 1"
  using quota_run_told [OF assms, of k r q] by linarith

theorem notices_once_per_month_witness:
  "notices_for NoticeQuotaExceeded ''r''
     (snd (quota_run (newQuotaStore '''' 10 80) [(''r'', Some 9, 1), (''r'', Some 4, 2), (''r'', None, 3), (''r'', Some 4, 4)])) \<le> 1"
  by (rule notices_once_per_month [where month = "monthKey 1"])
    (simp add: monthKey_def day_def second_def)

text \<open>
  after any traffic of one month from an empty store, a new connection of a relay is
  refused exactly when the bytes charged to that relay have reached the monthly limit.
\<close>

theorem refusal_exact:
  assumes "0 \<le> limit" and "limit < 2 ^ 63" and "\<forall>(r, op, t) \<in> set evs. monthKey t = monthKey now"
    and "charged r evs < 2 ^ 64"
  shows "fst (snd (exceeded (fst (quota_run (newQuotaStore path limit percent) evs)) r now))
     \<longleftrightarrow> limit \<le> int (charged r evs)"
proof -
  let ?start = "newQuotaStore path limit percent"
  let ?q = "fst (quota_run ?start evs)"
  have en: "quota_enabled ?start" using assms(1) by (simp add: quota_enabled_def)
  from quota_run_usage [OF en assms(3), of r]
  have u: "usage (monthKey now) ?q r = of_nat (charged r evs)" and l: "q_limit ?q = limit"
    by simp_all
  have "quota_enabled ?q" unfolding quota_enabled_def l by (rule assms(1))
  then have "fst (snd (exceeded ?q r now)) \<longleftrightarrow> limit_bytes ?q \<le> of_nat (charged r evs)"
    by (simp add: exceeded_usage u)
  also have "\<dots> \<longleftrightarrow> limit \<le> int (charged r evs)"
  proof -
    have "unat (word_of_int limit :: u64) = nat limit"
      using assms(1,2) by (simp add: unsigned_of_int take_bit_int_eq_self)
    moreover have "unat (of_nat (charged r evs) :: u64) = charged r evs"
      using assms(4) by (simp add: unsigned_of_nat take_bit_nat_eq_self)
    ultimately show ?thesis
      using assms(1) by (simp add: limit_bytes_def l word_le_nat_alt) linarith
  qed
  finally show ?thesis .
qed

theorem refusal_exact_witness:
  "fst (snd (exceeded (fst (quota_run (newQuotaStore '''' 10 80) [(''r'', Some 9, 1), (''s'', Some 99, 2), (''r'', Some 1, 3)])) ''r'' 4))
     \<longleftrightarrow> (10::int) \<le> int (charged ''r'' [(''r'', Some 9, 1), (''s'', Some 99, 2), (''r'', Some 1, 3)])"
  by (rule refusal_exact)
    (simp_all add: monthKey_def day_def second_def charged_def)

text \<open>
  a restart does not lose usage: loading the file that \<open>save\<close> wrote, in the same month,
  gives every relay the counter it had, notices already sent included.
\<close>

theorem restart_keeps_counters:
  assumes "q_path q \<noteq> ''''" and "save q now True = (q', Inr (Some st))"
    and "q_path fresh = q_path q" and "q_relays fresh = Map.empty"
  shows "\<exists>q2. load fresh (StateFile st) now = Inr q2 \<and>
     (\<forall>r. fst (counterLocked q2 r now) = fst (counterLocked q r now))"
  using assms
  by (auto simp: save_def load_def stateVersion_def counterLocked_def Let_def split: if_splits option.splits)

theorem restart_keeps_counters_witness:
  "let q = fst (add (newQuotaStore ''state'' 10 80) ''r'' 9 1); st = \<lparr>p_version = 1, p_relays = (\<lambda>k. map_option Some (q_relays q k))\<rparr>
   in \<exists>q2. load (newQuotaStore ''state'' 10 80) (StateFile st) 2 = Inr q2 \<and>
        (\<forall>r. fst (counterLocked q2 r 2) = fst (counterLocked q r 2))"
proof -
  let ?q = "fst (add (newQuotaStore ''state'' 10 80) ''r'' 9 1)"
  let ?st = "\<lparr>p_version = 1, p_relays = (\<lambda>k. map_option Some (q_relays ?q k))\<rparr>"
  have m: "monthKey 2 = monthKey 1" by (simp add: monthKey_def day_def second_def)
  have q: "q_path ?q \<noteq> ''''" "q_path (newQuotaStore ''state'' 10 80) = q_path ?q"
    "q_relays (newQuotaStore ''state'' 10 80) = Map.empty"
    by (simp_all add: quota_defs newQuotaStore_def quota_enabled_def)
  have "save ?q 2 True = (?q\<lparr>q_dirty := False\<rparr>, Inr (Some ?st))"
    by (auto simp: save_def m quota_defs newQuotaStore_def quota_enabled_def stateVersion_def fun_eq_iff)
  from restart_keeps_counters [OF q(1) this q(2,3)] show ?thesis
    unfolding Let_def .
qed

text \<open>
  the dirty mark is cleared before the file is written, so after a failed write the next
  save does not retry: the usage counted so far stays off the disk until more bytes flow.
\<close>

theorem failed_save_not_retried:
  "\<exists>q now q' q''. q_dirty q \<and> q_relays q \<noteq> Map.empty \<and> save q now False = (q', Inl WriteFailed) \<and>
     save q' now True = (q'', Inr None) \<and> q_relays q'' = q_relays q"
  by (rule exI [of _ "fst (add (newQuotaStore ''state'' 10 80) ''r'' 9 1)"])
    (auto simp: save_def quota_defs newQuotaStore_def quota_enabled_def)

end
