(* ===== verification/SendBuffer.thy ===== *)
theory SendBuffer
  imports Prelude
begin

text \<open>
  File \<^verbatim>\<open>internal/transport/sendbuffer.go\<close>: the bounded outbound queue of one client. The
  mutex makes each method one atomic step; waiting on the condition variable is the result
  \<open>PopBlocked\<close>, a step that changes nothing. Decoding the JSON envelope of a message is the
  parameter \<open>messageType\<close>.
\<close>

section \<open>State and operations\<close>

definition clientOutboundMaxItems :: int where "clientOutboundMaxItems = 64"
definition MaxOutboundMessageBytes :: int where "MaxOutboundMessageBytes = 4 * 1024 * 1024"
definition clientOutboundMaxBytes :: int where "clientOutboundMaxBytes = MaxOutboundMessageBytes"

record bufferedMessage =
  bm_data :: bytes
  bm_messageType :: string
  bm_replaceable :: bool

record sendBuffer =
  sb_items :: "bufferedMessage list"
  sb_bytes :: int
  sb_maxItems :: int
  sb_maxBytes :: int
  sb_closed :: bool

datatype pushResult = pushRejected | pushQueued | pushCoalesced

datatype popResult = PopBlocked | PopEnded | Popped bytes

definition newSendBuffer :: "int \<Rightarrow> int \<Rightarrow> sendBuffer" where
  "newSendBuffer maxItems maxBytes =
     \<lparr>sb_items = [], sb_bytes = 0, sb_maxItems = maxItems, sb_maxBytes = maxBytes, sb_closed = False\<rparr>"

definition push_append :: "sendBuffer \<Rightarrow> bytes \<Rightarrow> string \<Rightarrow> bool \<Rightarrow> sendBuffer \<times> pushResult" where
  "push_append b data kind replaceable =
     (if int (length (sb_items b)) \<ge> sb_maxItems b \<or> sb_bytes b + int (length data) > sb_maxBytes b
      then (b, pushRejected)
      else (b\<lparr>sb_items := sb_items b @ [\<lparr>bm_data = data, bm_messageType = kind, bm_replaceable = replaceable\<rparr>],
              sb_bytes := sb_bytes b + int (length data)\<rparr>, pushQueued))"

definition pushTyped :: "sendBuffer \<Rightarrow> bytes \<Rightarrow> string \<Rightarrow> bool \<Rightarrow> sendBuffer \<times> pushResult" where
  "pushTyped b data kind replaceable =
     (if sb_closed b then (b, pushRejected)
      else if int (length data) > sb_maxBytes b then (b, pushRejected)
      else if replaceable \<and> sb_items b \<noteq> [] \<and> bm_replaceable (last (sb_items b))
              \<and> bm_messageType (last (sb_items b)) = kind
      then let nextBytes = sb_bytes b - int (length (bm_data (last (sb_items b)))) + int (length data)
           in if nextBytes > sb_maxBytes b then (b, pushRejected)
              else (b\<lparr>sb_bytes := nextBytes,
                      sb_items := butlast (sb_items b) @ [(last (sb_items b))\<lparr>bm_data := data\<rparr>]\<rparr>, pushCoalesced)
      else push_append b data kind replaceable)"

definition PushTyped :: "sendBuffer \<Rightarrow> bytes \<Rightarrow> string \<Rightarrow> bool \<Rightarrow> sendBuffer \<times> bool" where
  "PushTyped b data kind replaceable =
     (let (b', r) = pushTyped b data kind replaceable in (b', r \<noteq> pushRejected))"

definition Push_message :: "(bytes \<Rightarrow> string) \<Rightarrow> sendBuffer \<Rightarrow> bytes \<Rightarrow> sendBuffer \<times> bool" where
  "Push_message messageType b data =
     (if int (length data) > sb_maxBytes b then (b, False) else PushTyped b data (messageType data) False)"

definition Pop :: "sendBuffer \<Rightarrow> sendBuffer \<times> popResult" where
  "Pop b = (case sb_items b of
       [] \<Rightarrow> (b, if sb_closed b then PopEnded else PopBlocked)
     | item # rest \<Rightarrow>
         (b\<lparr>sb_items := rest, sb_bytes := sb_bytes b - int (length (bm_data item))\<rparr>, Popped (bm_data item)))"

definition Close :: "sendBuffer \<Rightarrow> sendBuffer" where
  "Close b = (if sb_closed b then b else b\<lparr>sb_closed := True\<rparr>)"

definition Len :: "sendBuffer \<Rightarrow> int" where "Len b = int (length (sb_items b))"

definition Bytes :: "sendBuffer \<Rightarrow> int" where "Bytes b = sb_bytes b"

section \<open>Interleavings of producers and the writer\<close>

datatype sb_event =
    PushEv bytes string bool pushResult
  | PopEv popResult
  | CloseEv

inductive sb_step :: "sendBuffer \<Rightarrow> sb_event \<Rightarrow> sendBuffer \<Rightarrow> bool" where
  sb_push: "pushTyped b d k r = (b', res) \<Longrightarrow> sb_step b (PushEv d k r res) b'"
| sb_pop: "Pop b = (b', res) \<Longrightarrow> sb_step b (PopEv res) b'"
| sb_close: "sb_step b CloseEv (Close b)"

inductive_cases sb_stepE: "sb_step b ev b'"

inductive sb_trace :: "int \<Rightarrow> int \<Rightarrow> sb_event list \<Rightarrow> sendBuffer \<Rightarrow> bool" for maxItems maxBytes where
  sb_start: "sb_trace maxItems maxBytes [] (newSendBuffer maxItems maxBytes)"
| sb_next: "sb_trace maxItems maxBytes evs b \<Longrightarrow> sb_step b ev b' \<Longrightarrow> sb_trace maxItems maxBytes (evs @ [ev]) b'"

code_pred sb_step .

text \<open>What the writer received, and what the producers were told is accepted.\<close>

fun delivered :: "sb_event list \<Rightarrow> bytes list" where
  "delivered [] = []"
| "delivered (PopEv (Popped d) # evs) = d # delivered evs"
| "delivered (ev # evs) = delivered evs"

fun accepted_urgent :: "sb_event list \<Rightarrow> bytes list" where
  "accepted_urgent [] = []"
| "accepted_urgent (PushEv d k False res # evs) =
     (if res = pushRejected then accepted_urgent evs else d # accepted_urgent evs)"
| "accepted_urgent (ev # evs) = accepted_urgent evs"

text \<open>
  The message sequence the producers' view promises: a queued message is appended, a
  coalesced one takes the place of the last.
\<close>

fun settle :: "bufferedMessage list \<Rightarrow> sb_event \<Rightarrow> bufferedMessage list" where
  "settle ms (PushEv d k r pushQueued) = ms @ [\<lparr>bm_data = d, bm_messageType = k, bm_replaceable = r\<rparr>]"
| "settle ms (PushEv d k r pushCoalesced) = butlast ms @ [\<lparr>bm_data = d, bm_messageType = k, bm_replaceable = r\<rparr>]"
| "settle ms ev = ms"

lemma delivered_append [simp]: "delivered (xs @ ys) = delivered xs @ delivered ys"
  by (induction xs rule: delivered.induct) auto

lemma accepted_urgent_append [simp]: "accepted_urgent (xs @ ys) = accepted_urgent xs @ accepted_urgent ys"
  by (induction xs rule: accepted_urgent.induct) auto

section \<open>The queue contract\<close>

definition sb_total :: "bufferedMessage list \<Rightarrow> int" where
  "sb_total ms = sum_list (map (\<lambda>m. int (length (bm_data m))) ms)"

lemma sb_total_simps [simp]:
  "sb_total [] = 0" "sb_total (m # ms) = int (length (bm_data m)) + sb_total ms"
  "sb_total (xs @ ys) = sb_total xs + sb_total ys"
  by (simp_all add: sb_total_def)

lemma sb_total_nonneg: "0 \<le> sb_total ms"
  by (induction ms) auto

lemma butlast_last: "ms \<noteq> [] \<Longrightarrow> ms = butlast ms @ [last ms]"
  by simp

definition sb_inv :: "sendBuffer \<Rightarrow> bool" where
  "sb_inv b \<longleftrightarrow> sb_bytes b = sb_total (sb_items b) \<and> sb_bytes b \<le> sb_maxBytes b
     \<and> int (length (sb_items b)) \<le> sb_maxItems b"

text \<open>The three results of a push, in the terms every proof below needs.\<close>

lemma pushTyped_cases:
  assumes "pushTyped b d k r = (b', res)"
  obtains (rejected) "res = pushRejected" "b' = b"
  | (queued) "res = pushQueued" "b' = b\<lparr>sb_items := sb_items b @ [\<lparr>bm_data = d, bm_messageType = k, bm_replaceable = r\<rparr>],
        sb_bytes := sb_bytes b + int (length d)\<rparr>"
      "int (length (sb_items b)) < sb_maxItems b" "sb_bytes b + int (length d) \<le> sb_maxBytes b"
      "\<not> sb_closed b"
  | (coalesced) ms m where "res = pushCoalesced" "sb_items b = ms @ [m]" "r" "bm_replaceable m" "bm_messageType m = k"
      "b' = b\<lparr>sb_items := ms @ [\<lparr>bm_data = d, bm_messageType = k, bm_replaceable = r\<rparr>],
        sb_bytes := sb_bytes b - int (length (bm_data m)) + int (length d)\<rparr>"
      "sb_bytes b - int (length (bm_data m)) + int (length d) \<le> sb_maxBytes b" "\<not> sb_closed b"
proof (cases "r \<and> sb_items b \<noteq> [] \<and> bm_replaceable (last (sb_items b)) \<and> bm_messageType (last (sb_items b)) = k")
  case True
  then obtain ms m where items: "sb_items b = ms @ [m]" by (metis append_butlast_last_id)
  show thesis
    using assms True items rejected coalesced [of ms m]
    by (cases m) (auto simp: pushTyped_def Let_def split: if_splits)
next
  case False
  then show thesis
    using assms rejected queued by (auto simp: pushTyped_def push_append_def split: if_splits)
qed

lemma sb_step_inv: "sb_step b ev b' \<Longrightarrow> sb_inv b \<Longrightarrow> sb_inv b'"
  by (erule sb_stepE)
    (auto simp: sb_inv_def Pop_def Close_def elim!: pushTyped_cases split: list.splits if_splits)

lemma sb_step_limits:
  "sb_step b ev b' \<Longrightarrow> sb_maxItems b' = sb_maxItems b \<and> sb_maxBytes b' = sb_maxBytes b"
  by (erule sb_stepE)
    (auto simp: Pop_def Close_def elim!: pushTyped_cases split: list.splits if_splits)

lemma sb_trace_inv:
  assumes "sb_trace maxItems maxBytes evs b" and "0 \<le> maxItems" and "0 \<le> maxBytes"
  shows "sb_inv b \<and> sb_maxItems b = maxItems \<and> sb_maxBytes b = maxBytes"
  using assms
  by (induction rule: sb_trace.induct)
    (auto simp: sb_inv_def newSendBuffer_def dest: sb_step_inv sb_step_limits)

text \<open>
  The messages delivered so far and those pending are, in this order, the settled sequence;
  a step only appends to it or replaces a replaceable message that is still pending.
\<close>

definition sb_history :: "sb_event list \<Rightarrow> bufferedMessage list \<Rightarrow> sendBuffer \<Rightarrow> bool" where
  "sb_history evs done b \<longleftrightarrow> map bm_data done = delivered evs
     \<and> foldl settle [] evs = done @ sb_items b
     \<and> map bm_data (filter (Not \<circ> bm_replaceable) (done @ sb_items b)) = accepted_urgent evs"

lemma sb_history_push:
  assumes "sb_history evs ms b" and "pushTyped b d k r = (b', res)"
  shows "sb_history (evs @ [PushEv d k r res]) ms b'"
  using assms(2)
proof (cases rule: pushTyped_cases)
  case rejected
  with assms(1) show ?thesis by (cases r) (auto simp: sb_history_def)
next
  case queued
  with assms(1) show ?thesis by (cases r) (auto simp: sb_history_def)
next
  case (coalesced xs m)
  with assms(1) show ?thesis by (auto simp: sb_history_def butlast_append)
qed

lemma sb_history_step:
  assumes "sb_history evs ms b" and "sb_step b ev b'"
  shows "\<exists>ms'. sb_history (evs @ [ev]) ms' b'"
  using assms(2)
proof cases
  case (sb_push d k r res)
  with assms(1) show ?thesis using sb_history_push by blast
next
  case (sb_pop res)
  show ?thesis
  proof (cases "sb_items b")
    case Nil
    with sb_pop assms(1) have "sb_history (evs @ [ev]) ms b'"
      by (auto simp: sb_history_def Pop_def split: if_splits)
    then show ?thesis ..
  next
    case (Cons m rest)
    with sb_pop assms(1) have "sb_history (evs @ [ev]) (ms @ [m]) b'"
      by (auto simp: sb_history_def Pop_def)
    then show ?thesis ..
  qed
next
  case sb_close
  with assms(1) have "sb_history (evs @ [ev]) ms b'" by (auto simp: sb_history_def Close_def)
  then show ?thesis ..
qed

lemma sb_trace_history: "sb_trace maxItems maxBytes evs b \<Longrightarrow> \<exists>ms. sb_history evs ms b"
proof (induction rule: sb_trace.induct)
  case sb_start
  have "sb_history [] [] (newSendBuffer maxItems maxBytes)" by (simp add: sb_history_def newSendBuffer_def)
  then show ?case ..
next
  case (sb_next evs b ev b')
  then show ?case using sb_history_step by blast
qed

text \<open>The writer's loop after the buffer is closed: \<open>Pop\<close> until it reports the end.\<close>

fun pop_until_end :: "nat \<Rightarrow> sendBuffer \<Rightarrow> bytes list \<times> popResult" where
  "pop_until_end 0 b = ([], PopBlocked)"
| "pop_until_end (Suc n) b = (case Pop b of
       (b', Popped d) \<Rightarrow> (let (ds, r) = pop_until_end n b' in (d # ds, r))
     | (_, r) \<Rightarrow> ([], r))"

lemma pop_until_end_closed:
  "sb_closed b \<Longrightarrow> length (sb_items b) < n \<Longrightarrow> pop_until_end n b = (map bm_data (sb_items b), PopEnded)"
proof (induction n arbitrary: b)
  case 0
  then show ?case by simp
next
  case (Suc n)
  then show ?case by (auto simp: Pop_def split: list.splits)
qed

section \<open>Properties\<close>

text \<open>
  C28: whatever producers and the writer do in any order, the buffer of a client accounts its
  payload bytes exactly and never holds more than the configured messages or bytes.
\<close>

theorem sendbuffer_bounded:
  assumes "sb_trace maxItems maxBytes evs b" and "0 \<le> maxItems" and "0 \<le> maxBytes"
  shows "Bytes b = sb_total (sb_items b) \<and> Bytes b \<le> maxBytes \<and> Len b \<le> maxItems"
  using sb_trace_inv [OF assms] by (auto simp: sb_inv_def Bytes_def Len_def)

text \<open>
  C29: the outbound queue neither loses nor reorders: what the writer received followed by
  what is pending is the accepted sequence in which a coalesced message replaced its
  predecessor, and every accepted message that is not replaceable is in it, in order.
\<close>

theorem sendbuffer_delivers:
  assumes "sb_trace maxItems maxBytes evs b"
  shows "delivered evs @ map bm_data (sb_items b) = map bm_data (foldl settle [] evs)
     \<and> map bm_data (filter (Not \<circ> bm_replaceable) (foldl settle [] evs)) = accepted_urgent evs"
proof -
  from sb_trace_history [OF assms] obtain ms where "sb_history evs ms b" ..
  then show ?thesis by (auto simp: sb_history_def)
qed

text \<open>
  closing refuses later messages but not accepted ones: the writer still receives every
  pending message in order and then the end, without blocking.
\<close>

theorem sendbuffer_close_drains:
  "pop_until_end (Suc (length (sb_items b))) (Close b) = (map bm_data (sb_items b), PopEnded)
   \<and> pushTyped (Close b) data kind replaceable = (Close b, pushRejected)"
proof
  have "sb_closed (Close b)" and "sb_items (Close b) = sb_items b" by (simp_all add: Close_def)
  then show "pop_until_end (Suc (length (sb_items b))) (Close b) = (map bm_data (sb_items b), PopEnded)"
    using pop_until_end_closed [of "Close b" "Suc (length (sb_items b))"] by simp
qed (simp add: Close_def pushTyped_def)

definition sb_demo :: "sb_event list" where
  "sb_demo = [PushEv [1] ''a'' True pushQueued, PushEv [2, 3] ''a'' True pushCoalesced,
     PushEv [4] ''b'' False pushQueued, PopEv (Popped [2, 3])]"

lemma sb_demo_trace:
  "sb_trace 2 3 sb_demo \<lparr>sb_items = [\<lparr>bm_data = [4], bm_messageType = ''b'', bm_replaceable = False\<rparr>],
     sb_bytes = 1, sb_maxItems = 2, sb_maxBytes = 3, sb_closed = False\<rparr>"
proof -
  let ?m = "\<lparr>bm_data = [1], bm_messageType = ''a'', bm_replaceable = True\<rparr>"
  let ?m' = "\<lparr>bm_data = [2, 3], bm_messageType = ''a'', bm_replaceable = True\<rparr>"
  let ?n = "\<lparr>bm_data = [4], bm_messageType = ''b'', bm_replaceable = False\<rparr>"
  let ?b = "\<lambda>ms n. \<lparr>sb_items = ms, sb_bytes = n, sb_maxItems = 2, sb_maxBytes = 3, sb_closed = False\<rparr>"
  have "sb_trace 2 3 [] (?b [] 0)"
    using sb_start [of 2 3] by (simp add: newSendBuffer_def)
  note t = this
  have "sb_step (?b [] 0) (PushEv [1] ''a'' True pushQueued) (?b [?m] 1)"
    and "sb_step (?b [?m] 1) (PushEv [2, 3] ''a'' True pushCoalesced) (?b [?m'] 2)"
    and "sb_step (?b [?m'] 2) (PushEv [4] ''b'' False pushQueued) (?b [?m', ?n] 3)"
    and "sb_step (?b [?m', ?n] 3) (PopEv (Popped [2, 3])) (?b [?n] 1)"
    by (auto intro!: sb_push sb_pop simp: pushTyped_def push_append_def Pop_def)
  from sb_next [OF sb_next [OF sb_next [OF sb_next [OF t this(1)] this(2)] this(3)] this(4)]
  show ?thesis by (simp add: sb_demo_def)
qed

theorem sendbuffer_bounded_witness:
  "Bytes \<lparr>sb_items = [\<lparr>bm_data = [4], bm_messageType = ''b'', bm_replaceable = False\<rparr>],
     sb_bytes = 1, sb_maxItems = 2, sb_maxBytes = 3, sb_closed = False\<rparr> \<le> 3"
  using sendbuffer_bounded [OF sb_demo_trace] by simp

theorem sendbuffer_delivers_witness:
  "delivered sb_demo @ [[4]] = map bm_data (foldl settle [] sb_demo)"
  using sendbuffer_delivers [OF sb_demo_trace] by simp

end
