(* ===== verification/E2EE.thy ===== *)
theory E2EE
  imports GoLib Framing
begin

unbundle bit_operations_syntax

text \<open>
  File \<^verbatim>\<open>internal/transport/e2ee.go\<close>: the authenticated key exchange between the phone and
  the relay, and the encrypted session it yields. The primitives of the crypto library and
  the JSON codec are arguments (records \<open>crypto\<close> and \<open>json_codec\<close>); the connection is the
  list of frames the peer sends and of the outcomes of the writes, so a timeout is a failing
  read or write; the authentication authority is the record \<open>resolver\<close>.
\<close>

section \<open>Constants, wire records and parameters\<close>

definition e2eeVersion :: int where "e2eeVersion = 2"
definition e2eeNonceBytes :: nat where "e2eeNonceBytes = 32"
definition e2eePublicKeyBytes :: nat where "e2eePublicKeyBytes = 65"
definition e2eeSecretBytes :: nat where "e2eeSecretBytes = 32"
definition sha256Size :: nat where "sha256Size = 32"
definition maxE2EESequence :: u64 where "maxE2EESequence = 2 ^ 53 - 1"
definition e2eeClientDirection :: string where "e2eeClientDirection = ''c2s''"
definition e2eeServerDirection :: string where "e2eeServerDirection = ''s2c''"
definition binaryFrameVersion :: byte where "binaryFrameVersion = 2"
definition binaryFrameKindData :: byte where "binaryFrameKindData = 0"
definition binaryFrameHeaderSize :: nat where "binaryFrameHeaderSize = 1 + 1 + 8"

datatype FrameCodec = CodecJSON | CodecBinary

record E2EEAuthSelector =
  sel_Kind :: string
  sel_ID :: string
  sel_Version :: u64
  sel_Locale :: string

definition E2EEAuthCredential :: string where "E2EEAuthCredential = ''credential''"
definition E2EEAuthInvitation :: string where "E2EEAuthInvitation = ''invitation''"

record AuthenticatedIdentity =
  ai_DeviceID :: string
  ai_CredentialID :: string
  ai_Role :: string
  ai_Locale :: string
  ai_CredentialVersion :: u64

record E2EEAuthResult =
  ar_Identity :: AuthenticatedIdentity
  ar_CredentialSecret :: bytes

record e2eeClientHello =
  ch_Type :: string
  ch_Version :: int
  ch_AuthKind :: string
  ch_AuthID :: string
  ch_AuthVersion :: u64
  ch_Locale :: string
  ch_Nonce :: string
  ch_PublicKey :: string
  ch_Proof :: string

record parsedE2EEClientHello =
  ph_selector :: E2EEAuthSelector
  ph_nonce :: bytes
  ph_publicBytes :: bytes
  ph_proof :: bytes

record e2eeServerHello =
  sh_Type :: string
  sh_Version :: int
  sh_Nonce :: string
  sh_PublicKey :: string
  sh_Proof :: string

record e2eeClientFinish =
  cf_Type :: string
  cf_Version :: int

record e2eeServerFinish =
  sf_Type :: string
  sf_Version :: int
  sf_Identity :: AuthenticatedIdentity
  sf_CredentialSecret :: string

record e2eeFrame =
  ef_Type :: string
  ef_Version :: int
  ef_Sequence :: u64
  ef_Ciphertext :: string

text \<open>An AEAD cipher keyed once, as \<^verbatim>\<open>cipher.AEAD\<close>.\<close>

record aead =
  aead_Seal :: "bytes \<Rightarrow> bytes \<Rightarrow> bytes \<Rightarrow> bytes"
  aead_Open :: "bytes \<Rightarrow> bytes \<Rightarrow> bytes \<Rightarrow> bytes option"

text \<open>
  The primitives: \<open>hmac key message\<close> with SHA-256, \<open>hkdf secret salt info length\<close>, AES-GCM
  for a key of a legal size, the check of a P-256 point, the public point of a private key
  and the Diffie-Hellman secret.
\<close>

record crypto =
  cr_hmac :: "bytes \<Rightarrow> bytes \<Rightarrow> bytes"
  cr_hkdf :: "bytes \<Rightarrow> bytes \<Rightarrow> string \<Rightarrow> nat \<Rightarrow> bytes option"
  cr_gcm :: "bytes \<Rightarrow> aead"
  cr_validPoint :: "bytes \<Rightarrow> bool"
  cr_public :: "bytes \<Rightarrow> bytes"
  cr_ecdh :: "bytes \<Rightarrow> bytes \<Rightarrow> bytes option"

record json_codec =
  js_decodeHello :: "bytes \<Rightarrow> e2eeClientHello option"
  js_encodeServerHello :: "e2eeServerHello \<Rightarrow> bytes option"
  js_decodeFinish :: "bytes \<Rightarrow> e2eeClientFinish option"
  js_encodeFinish :: "e2eeServerFinish \<Rightarrow> bytes option"
  js_encodeFrame :: "e2eeFrame \<Rightarrow> bytes option"
  js_decodeFrame :: "bytes \<Rightarrow> e2eeFrame option"

datatype frame_error =
    InvalidEncryptedFrame | UnsupportedEncryptedFrame | InvalidFrameCiphertext
  | SequenceExhausted | InvalidFrameSequence | FrameAuthenticationFailed | EncodeFrameFailed

section \<open>The frame codec\<close>

definition encodeFrame :: "json_codec \<Rightarrow> FrameCodec \<Rightarrow> u64 \<Rightarrow> bytes \<Rightarrow> frame_error + bytes" where
  "encodeFrame js c sequence ciphertext =
     (if c = CodecBinary
      then Inr ([binaryFrameVersion, binaryFrameKindData] @ be_put 8 sequence @ ciphertext)
      else case js_encodeFrame js \<lparr>ef_Type = ''e2ee'', ef_Version = e2eeVersion, ef_Sequence = sequence,
                                   ef_Ciphertext = b64_encode ciphertext\<rparr> of
             None \<Rightarrow> Inl EncodeFrameFailed
           | Some raw \<Rightarrow> Inr raw)"

definition decodeFrame :: "json_codec \<Rightarrow> FrameCodec \<Rightarrow> bytes \<Rightarrow> frame_error + (u64 \<times> bytes)" where
  "decodeFrame js c rawFrame =
     (if c = CodecBinary
      then if length rawFrame < binaryFrameHeaderSize then Inl InvalidEncryptedFrame
           else if rawFrame ! 0 \<noteq> binaryFrameVersion \<or> rawFrame ! 1 \<noteq> binaryFrameKindData
           then Inl UnsupportedEncryptedFrame
           else Inr (be_get (take 8 (drop 2 rawFrame)), drop binaryFrameHeaderSize rawFrame)
      else case js_decodeFrame js rawFrame of
             None \<Rightarrow> Inl InvalidEncryptedFrame
           | Some frame \<Rightarrow>
               if ef_Type frame \<noteq> ''e2ee'' \<or> ef_Version frame \<noteq> e2eeVersion then Inl UnsupportedEncryptedFrame
               else case b64_decode (ef_Ciphertext frame) of
                      None \<Rightarrow> Inl InvalidFrameCiphertext
                    | Some ciphertext \<Rightarrow> Inr (ef_Sequence frame, ciphertext))"

section \<open>Sessions\<close>

record e2eeSession =
  es_send :: aead
  es_receive :: aead
  es_codec :: FrameCodec
  es_sendDirection :: string
  es_receiveDirection :: string
  es_sendSequence :: u64
  es_receiveSequence :: u64

definition e2eeFrameNonce :: "u64 \<Rightarrow> bytes" where
  "e2eeFrameNonce sequence = replicate 4 0 @ be_put 8 sequence"

definition e2eeAAD :: "string \<Rightarrow> u64 \<Rightarrow> bytes" where
  "e2eeAAD direction sequence = str_bytes ''herdr-e2ee-v2 '' @ str_bytes direction @ [0] @ be_put 8 sequence"

definition newE2EEAEAD :: "crypto \<Rightarrow> bytes \<Rightarrow> aead option" where
  "newE2EEAEAD cr key = (if length key \<in> {16, 24, 32} then Some (cr_gcm cr key) else None)"

datatype session_error = CreateSendCipher | CreateReceiveCipher

definition newE2EESession :: "crypto \<Rightarrow> bytes \<Rightarrow> bytes \<Rightarrow> string \<Rightarrow> string \<Rightarrow> session_error + e2eeSession" where
  "newE2EESession cr sendKey receiveKey sendDirection receiveDirection =
     (case newE2EEAEAD cr sendKey of
        None \<Rightarrow> Inl CreateSendCipher
      | Some send \<Rightarrow>
          (case newE2EEAEAD cr receiveKey of
             None \<Rightarrow> Inl CreateReceiveCipher
           | Some receive \<Rightarrow>
               Inr \<lparr>es_send = send, es_receive = receive, es_codec = CodecJSON,
                    es_sendDirection = sendDirection, es_receiveDirection = receiveDirection,
                    es_sendSequence = 0, es_receiveSequence = 0\<rparr>))"

definition seal :: "json_codec \<Rightarrow> e2eeSession \<Rightarrow> bytes \<Rightarrow> e2eeSession \<times> (frame_error + bytes)" where
  "seal js s plaintext =
     (if es_sendSequence s > maxE2EESequence then (s, Inl SequenceExhausted)
      else
        let sequence = es_sendSequence s;
            ciphertext = aead_Seal (es_send s) (e2eeFrameNonce sequence) plaintext
                           (e2eeAAD (es_sendDirection s) sequence)
        in case encodeFrame js (es_codec s) sequence ciphertext of
             Inl err \<Rightarrow> (s, Inl err)
           | Inr frame \<Rightarrow> (s\<lparr>es_sendSequence := es_sendSequence s + 1\<rparr>, Inr frame))"

definition open_frame :: "json_codec \<Rightarrow> e2eeSession \<Rightarrow> bytes \<Rightarrow> e2eeSession \<times> (frame_error + bytes)" where
  "open_frame js s rawFrame =
     (case decodeFrame js (es_codec s) rawFrame of
        Inl err \<Rightarrow> (s, Inl err)
      | Inr (sequence, ciphertext) \<Rightarrow>
          if sequence > maxE2EESequence \<or> sequence \<noteq> es_receiveSequence s then (s, Inl InvalidFrameSequence)
          else case aead_Open (es_receive s) (e2eeFrameNonce sequence) ciphertext
                      (e2eeAAD (es_receiveDirection s) sequence) of
                 None \<Rightarrow> (s, Inl FrameAuthenticationFailed)
               | Some plaintext \<Rightarrow> (s\<lparr>es_receiveSequence := es_receiveSequence s + 1\<rparr>, Inr plaintext))"

section \<open>Proofs, transcripts and hellos\<close>

definition nul :: char where "nul = CHR 0x00"
definition e2eeClientProofLabel :: bytes where "e2eeClientProofLabel = str_bytes (''herdr-e2ee-v2 client'' @ [nul])"
definition e2eeServerProofLabel :: bytes where "e2eeServerProofLabel = str_bytes (''herdr-e2ee-v2 server'' @ [nul])"
definition e2eeKeySaltLabel :: bytes where "e2eeKeySaltLabel = str_bytes (''herdr-e2ee-v2 key'' @ [nul])"

definition e2eeAuthTag :: "crypto \<Rightarrow> bytes \<Rightarrow> bytes list \<Rightarrow> bytes" where
  "e2eeAuthTag cr secret parts = cr_hmac cr secret (concat parts)"

definition e2eeAuthBinding :: "E2EEAuthSelector \<Rightarrow> bytes" where
  "e2eeAuthBinding selector =
     str_bytes (''herdr-e2ee-v2 auth'' @ [nul]) @ str_bytes (sel_Kind selector) @ [0]
       @ str_bytes (sel_ID selector) @ [0] @ str_bytes (FormatUint (unat (sel_Version selector))) @ [0]"

definition e2eeTranscript :: "bytes \<Rightarrow> bytes \<Rightarrow> bytes \<Rightarrow> bytes \<Rightarrow> bytes \<Rightarrow> bytes" where
  "e2eeTranscript binding clientNonce clientPublic serverNonce serverPublic =
     binding @ clientNonce @ clientPublic @ serverNonce @ serverPublic"

definition decodeE2EEField :: "string \<Rightarrow> nat \<Rightarrow> bytes option" where
  "decodeE2EEField value n =
     (case b64_decode value of None \<Rightarrow> None
      | Some decoded \<Rightarrow> if length decoded \<noteq> n then None else Some decoded)"

datatype 'e handshake_error =
    AuthenticationUnavailable
  | ReadClientHello | InvalidClientHello | UnsupportedClientHello | InvalidClientSelector
  | InvalidClientNonce | InvalidClientPublicKey | InvalidClientProof
  | ErrDeviceAuthRejected | NoLongerValid | ResolveAuthentication 'e | InvalidSecret
  | RecordRejected 'e | GenerateServerKey | GenerateServerNonce | DeriveSharedSecret
  | DeriveClientKey | DeriveServerKey | CreateSession session_error
  | EncodeServerHello | WriteServerHello | ReadClientFinish | ClientFinishNotAuthenticated
  | InvalidClientFinish | CompleteAuthentication 'e | InvalidIdentity | InvalidIssuedCredential
  | EncodeServerFinish | EncryptServerFinish frame_error | WriteServerFinish

definition parseE2EEClientHello :: "crypto \<Rightarrow> json_codec \<Rightarrow> bytes \<Rightarrow> 'e handshake_error + parsedE2EEClientHello" where
  "parseE2EEClientHello cr js rawHello =
     (case js_decodeHello js rawHello of
        None \<Rightarrow> Inl InvalidClientHello
      | Some hello \<Rightarrow>
          if ch_Type hello \<noteq> ''e2ee_client_hello'' \<or> ch_Version hello \<noteq> e2eeVersion then Inl UnsupportedClientHello
          else if (ch_AuthKind hello \<noteq> E2EEAuthCredential \<and> ch_AuthKind hello \<noteq> E2EEAuthInvitation)
                  \<or> ch_AuthID hello = [] \<or> length (ch_AuthID hello) > 128 \<or> ch_AuthVersion hello = 0
                  \<or> length (ch_Locale hello) > 32
          then Inl InvalidClientSelector
          else case decodeE2EEField (ch_Nonce hello) e2eeNonceBytes of
            None \<Rightarrow> Inl InvalidClientNonce
          | Some clientNonce \<Rightarrow>
              (case decodeE2EEField (ch_PublicKey hello) e2eePublicKeyBytes of
                 None \<Rightarrow> Inl InvalidClientPublicKey
               | Some clientPublicBytes \<Rightarrow>
                   (case decodeE2EEField (ch_Proof hello) sha256Size of
                      None \<Rightarrow> Inl InvalidClientProof
                    | Some clientProof \<Rightarrow>
                        if \<not> cr_validPoint cr clientPublicBytes then Inl InvalidClientPublicKey
                        else Inr \<lparr>ph_selector = \<lparr>sel_Kind = ch_AuthKind hello, sel_ID = ch_AuthID hello,
                                     sel_Version = ch_AuthVersion hello, sel_Locale = ch_Locale hello\<rparr>,
                                  ph_nonce = clientNonce, ph_publicBytes = clientPublicBytes,
                                  ph_proof = clientProof\<rparr>)))"

definition bytes_str :: "bytes \<Rightarrow> string" where
  "bytes_str bs = map (\<lambda>b. char_of (unat b)) bs"

definition parseE2EEClientFinish :: "json_codec \<Rightarrow> bytes \<Rightarrow> 'e handshake_error + unit" where
  "parseE2EEClientFinish js plaintext =
     (if \<not> ValidString (bytes_str plaintext) then Inl InvalidClientFinish
      else case js_decodeFinish js plaintext of
             None \<Rightarrow> Inl InvalidClientFinish
           | Some finish \<Rightarrow>
               if cf_Type finish \<noteq> ''e2ee_client_finish'' \<or> cf_Version finish \<noteq> e2eeVersion
               then Inl InvalidClientFinish else Inr ())"

definition validAuthenticatedIdentity :: "AuthenticatedIdentity \<Rightarrow> bool" where
  "validAuthenticatedIdentity identity =
     (if ai_DeviceID identity = [] \<or> ai_CredentialID identity = [] \<or> ai_CredentialVersion identity = 0
         \<or> ai_Locale identity = [] then False
      else ai_Role identity = ''controller'' \<or> ai_Role identity = ''reader'')"

section \<open>The server handshake\<close>

text \<open>One connection: the frames still to be read, the outcome of each write, the frames written.\<close>

record frame_conn =
  fc_in :: "bytes list"
  fc_writes :: "bool list"
  fc_out :: "bytes list"
  fc_Codec :: FrameCodec

definition ReadFrame :: "frame_conn \<Rightarrow> frame_conn \<times> bytes option" where
  "ReadFrame conn = (case fc_in conn of [] \<Rightarrow> (conn, None) | f # fs \<Rightarrow> (conn\<lparr>fc_in := fs\<rparr>, Some f))"

definition WriteFrame :: "frame_conn \<Rightarrow> bytes \<Rightarrow> frame_conn \<times> bool" where
  "WriteFrame conn f = (case fc_writes conn of
       True # ws \<Rightarrow> (conn\<lparr>fc_writes := ws, fc_out := fc_out conn @ [f]\<rparr>, True)
     | _ \<Rightarrow> (conn\<lparr>fc_writes := tl (fc_writes conn)\<rparr>, False))"

text \<open>
  \<open>E2EEAuthResolver\<close>, over the state \<open>'s\<close> of the authority and its errors \<open>'e\<close>.
\<close>

record ('s, 'e) resolver =
  rs_ResolveE2EESecret :: "'s \<Rightarrow> E2EEAuthSelector \<Rightarrow> 's \<times> ('e + bytes)"
  rs_CompleteE2EEAuth :: "'s \<Rightarrow> E2EEAuthSelector \<Rightarrow> bool \<Rightarrow> 's \<times> ('e + E2EEAuthResult)"
  rs_IsE2EEAuthRejected :: "'e \<Rightarrow> bool"

text \<open>
  The last part of the handshake, once the peer's finish message has been decrypted and
  parsed: completion, the checks on its result, the encrypted server finish.
\<close>

definition handshake_complete ::
  "json_codec \<Rightarrow> ('s, 'e) resolver \<Rightarrow> 's \<Rightarrow> frame_conn \<Rightarrow> E2EEAuthSelector \<Rightarrow> e2eeSession \<Rightarrow>
     's \<times> frame_conn \<times> ('e handshake_error + e2eeSession \<times> AuthenticatedIdentity)" where
  "handshake_complete js res st conn selector session =
     (case rs_CompleteE2EEAuth res st selector True of
        (st', Inl err) \<Rightarrow>
          (st', conn, Inl (if rs_IsE2EEAuthRejected res err then NoLongerValid else CompleteAuthentication err))
      | (st', Inr authResult) \<Rightarrow>
          let identity = ar_Identity authResult; secret = ar_CredentialSecret authResult in
          if \<not> validAuthenticatedIdentity identity then (st', conn, Inl InvalidIdentity)
          else if secret \<noteq> [] \<and> (length secret \<noteq> e2eeSecretBytes \<or> sel_Kind selector \<noteq> E2EEAuthInvitation)
          then (st', conn, Inl InvalidIssuedCredential)
          else
            (case js_encodeFinish js \<lparr>sf_Type = ''e2ee_server_finish'', sf_Version = e2eeVersion,
                    sf_Identity = identity, sf_CredentialSecret = b64_encode secret\<rparr> of
               None \<Rightarrow> (st', conn, Inl EncodeServerFinish)
             | Some encodedFinish \<Rightarrow>
                 (case seal js session encodedFinish of
                    (_, Inl err) \<Rightarrow> (st', conn, Inl (EncryptServerFinish err))
                  | (session', Inr encryptedFinish) \<Rightarrow>
                      (case WriteFrame conn encryptedFinish of
                         (conn', False) \<Rightarrow> (st', conn', Inl WriteServerFinish)
                       | (conn', True) \<Rightarrow> (st', conn', Inr (session', identity))))))"

text \<open>The exchange of keys, from an authenticated hello to the decrypted client finish.\<close>

definition handshake_keys ::
  "crypto \<Rightarrow> json_codec \<Rightarrow> bytes option \<Rightarrow> bytes option \<Rightarrow> frame_conn \<Rightarrow> bytes \<Rightarrow> parsedE2EEClientHello \<Rightarrow>
     frame_conn \<times> ('e handshake_error + e2eeSession)" where
  "handshake_keys cr js serverPrivate serverNonce conn secret clientHello =
     (case serverPrivate of None \<Rightarrow> (conn, Inl GenerateServerKey) | Some private \<Rightarrow>
     (case serverNonce of None \<Rightarrow> (conn, Inl GenerateServerNonce) | Some nonce \<Rightarrow>
     (case cr_ecdh cr private (ph_publicBytes clientHello) of
        None \<Rightarrow> (conn, Inl DeriveSharedSecret)
      | Some sharedSecret \<Rightarrow>
          let serverPublicBytes = cr_public cr private;
              transcript = e2eeTranscript (e2eeAuthBinding (ph_selector clientHello)) (ph_nonce clientHello)
                             (ph_publicBytes clientHello) nonce serverPublicBytes;
              serverProof = e2eeAuthTag cr secret [e2eeServerProofLabel, transcript];
              keySalt = e2eeAuthTag cr secret [e2eeKeySaltLabel, transcript]
          in (case cr_hkdf cr sharedSecret keySalt ''herdr-e2ee-v2 c2s'' 32 of
                None \<Rightarrow> (conn, Inl DeriveClientKey)
              | Some clientKey \<Rightarrow>
             (case cr_hkdf cr sharedSecret keySalt ''herdr-e2ee-v2 s2c'' 32 of
                None \<Rightarrow> (conn, Inl DeriveServerKey)
              | Some serverKey \<Rightarrow>
             (case newE2EESession cr serverKey clientKey e2eeServerDirection e2eeClientDirection of
                Inl err \<Rightarrow> (conn, Inl (CreateSession err))
              | Inr session0 \<Rightarrow>
                  let session = session0\<lparr>es_codec := fc_Codec conn\<rparr> in
                  (case js_encodeServerHello js \<lparr>sh_Type = ''e2ee_server_hello'', sh_Version = e2eeVersion,
                          sh_Nonce = b64_encode nonce, sh_PublicKey = b64_encode serverPublicBytes,
                          sh_Proof = b64_encode serverProof\<rparr> of
                     None \<Rightarrow> (conn, Inl EncodeServerHello)
                   | Some response \<Rightarrow>
                  (case WriteFrame conn response of
                     (conn1, False) \<Rightarrow> (conn1, Inl WriteServerHello)
                   | (conn1, True) \<Rightarrow>
                  (case ReadFrame conn1 of
                     (conn2, None) \<Rightarrow> (conn2, Inl ReadClientFinish)
                   | (conn2, Some rawFinish) \<Rightarrow>
                  (case open_frame js session rawFinish of
                     (_, Inl _) \<Rightarrow> (conn2, Inl ClientFinishNotAuthenticated)
                   | (session', Inr plaintextFinish) \<Rightarrow>
                  (case parseE2EEClientFinish js plaintextFinish of
                     Inl err \<Rightarrow> (conn2, Inl err)
                   | Inr _ \<Rightarrow> (conn2, Inr session')))))))))))) "

definition performServerE2EEHandshake ::
  "crypto \<Rightarrow> json_codec \<Rightarrow> bytes option \<Rightarrow> bytes option \<Rightarrow> ('s, 'e) resolver option \<Rightarrow> 's \<Rightarrow> frame_conn \<Rightarrow>
     's \<times> frame_conn \<times> ('e handshake_error + e2eeSession \<times> AuthenticatedIdentity)" where
  "performServerE2EEHandshake cr js serverPrivate serverNonce resolver st conn =
     (case resolver of None \<Rightarrow> (st, conn, Inl AuthenticationUnavailable) | Some res \<Rightarrow>
     (case ReadFrame conn of
        (conn1, None) \<Rightarrow> (st, conn1, Inl ReadClientHello)
      | (conn1, Some rawHello) \<Rightarrow>
     (case parseE2EEClientHello cr js rawHello of
        Inl err \<Rightarrow> (st, conn1, Inl err)
      | Inr clientHello \<Rightarrow>
     (case rs_ResolveE2EESecret res st (ph_selector clientHello) of
        (st1, Inl err) \<Rightarrow>
          (st1, conn1, Inl (if rs_IsE2EEAuthRejected res err then ErrDeviceAuthRejected else ResolveAuthentication err))
      | (st1, Inr secret) \<Rightarrow>
          if length secret \<noteq> e2eeSecretBytes then (st1, conn1, Inl InvalidSecret)
          else if ph_proof clientHello \<noteq> e2eeAuthTag cr secret [e2eeClientProofLabel,
                    e2eeAuthBinding (ph_selector clientHello), ph_nonce clientHello, ph_publicBytes clientHello]
          then (case rs_CompleteE2EEAuth res st1 (ph_selector clientHello) False of
                  (st2, Inl err) \<Rightarrow>
                    (st2, conn1, Inl (if rs_IsE2EEAuthRejected res err then ErrDeviceAuthRejected else RecordRejected err))
                | (st2, Inr _) \<Rightarrow> (st2, conn1, Inl ErrDeviceAuthRejected))
          else (case handshake_keys cr js serverPrivate serverNonce conn1 secret clientHello of
                  (conn2, Inl err) \<Rightarrow> (st1, conn2, Inl err)
                | (conn2, Inr session) \<Rightarrow>
                    handshake_complete js res st1 conn2 (ph_selector clientHello) session)))))"

section \<open>Codec and session lemmas\<close>

text \<open>Documented behaviour of the parameters: a frame survives the JSON codec, a sealed message opens.\<close>

definition json_frames :: "json_codec \<Rightarrow> bool" where
  "json_frames js \<longleftrightarrow> (\<forall>sequence ciphertext.
     let fr = \<lparr>ef_Type = ''e2ee'', ef_Version = e2eeVersion, ef_Sequence = sequence, ef_Ciphertext = b64_encode ciphertext\<rparr>
     in \<exists>raw. js_encodeFrame js fr = Some raw \<and> js_decodeFrame js raw = Some fr)"

definition aead_correct :: "aead \<Rightarrow> bool" where
  "aead_correct a \<longleftrightarrow> (\<forall>n p d. aead_Open a n (aead_Seal a n p d) d = Some p)"

lemma unat_maxE2EESequence [simp]: "unat maxE2EESequence = 2 ^ 53 - 1"
  by (simp add: maxE2EESequence_def)

lemma sequence_in_range: "s \<le> maxE2EESequence \<longleftrightarrow> unat s < 2 ^ 53"
  by (simp add: word_le_nat_alt) linarith

lemma unat_Suc_sequence:
  assumes "s \<le> maxE2EESequence"
  shows "unat (s + 1) = Suc (unat s)"
  using assms unat_word_ariths(1) [of s 1] by (simp add: sequence_in_range)

lemma e2eeFrameNonce_inject [simp]: "e2eeFrameNonce s = e2eeFrameNonce t \<longleftrightarrow> s = t"
  by (simp add: e2eeFrameNonce_def)

lemma decode_encode:
  assumes "encodeFrame js c sequence ciphertext = Inr raw" and "c = CodecJSON \<longrightarrow> json_frames js"
  shows "decodeFrame js c raw = Inr (sequence, ciphertext)"
proof (cases c)
  case CodecBinary
  with assms(1) have "raw = [binaryFrameVersion, binaryFrameKindData] @ be_put 8 sequence @ ciphertext"
    by (simp add: encodeFrame_def)
  with CodecBinary show ?thesis by (simp add: decodeFrame_def binaryFrameHeaderSize_def)
next
  case CodecJSON
  with assms show ?thesis
    unfolding json_frames_def Let_def
    by (auto simp: encodeFrame_def decodeFrame_def split: option.splits dest!: spec [of _ sequence] spec [of _ ciphertext])
qed

lemma encodeFrame_total:
  "c = CodecJSON \<longrightarrow> json_frames js \<Longrightarrow> \<exists>raw. encodeFrame js c sequence ciphertext = Inr raw"
proof (cases c)
  case CodecJSON
  assume "c = CodecJSON \<longrightarrow> json_frames js"
  with CodecJSON obtain raw where "js_encodeFrame js \<lparr>ef_Type = ''e2ee'', ef_Version = e2eeVersion,
      ef_Sequence = sequence, ef_Ciphertext = b64_encode ciphertext\<rparr> = Some raw"
    unfolding json_frames_def Let_def by blast
  with CodecJSON show ?thesis by (simp add: encodeFrame_def)
qed (simp add: encodeFrame_def)

text \<open>The two ends of one direction of a connection.\<close>

definition peer :: "e2eeSession \<Rightarrow> e2eeSession \<Rightarrow> bool" where
  "peer s r \<longleftrightarrow> es_receive r = es_send s \<and> es_codec r = es_codec s
     \<and> es_receiveDirection r = es_sendDirection s \<and> es_receiveSequence r = es_sendSequence s"

definition advance :: "e2eeSession \<Rightarrow> e2eeSession" where
  "advance r = r\<lparr>es_receiveSequence := es_receiveSequence r + 1\<rparr>"

lemma seal_open:
  assumes "seal js s p = (s', Inr raw)" and "peer s r" and "aead_correct (es_send s)"
    and "es_codec s = CodecJSON \<longrightarrow> json_frames js"
  shows "open_frame js r raw = (advance r, Inr p) \<and> peer s' (advance r)"
proof -
  let ?c = "aead_Seal (es_send s) (e2eeFrameNonce (es_sendSequence s)) p (e2eeAAD (es_sendDirection s) (es_sendSequence s))"
  from assms(1) have n: "\<not> es_sendSequence s > maxE2EESequence"
    and e: "encodeFrame js (es_codec s) (es_sendSequence s) ?c = Inr raw"
    and s': "s' = s\<lparr>es_sendSequence := es_sendSequence s + 1\<rparr>"
    by (auto simp: seal_def Let_def split: if_splits sum.splits)
  from decode_encode [OF e assms(4)] n assms(2,3) s' show ?thesis
    by (auto simp: open_frame_def peer_def aead_correct_def advance_def)
qed

lemma seal_succeeds:
  assumes "unat (es_sendSequence s) < 2 ^ 53" and "es_codec s = CodecJSON \<longrightarrow> json_frames js"
  shows "\<exists>raw. seal js s p = (s\<lparr>es_sendSequence := es_sendSequence s + 1\<rparr>, Inr raw)"
proof -
  have "\<not> es_sendSequence s > maxE2EESequence" using assms(1) by (simp add: sequence_in_range not_less)
  then show ?thesis
    using encodeFrame_total [OF assms(2)] by (auto simp: seal_def Let_def split: sum.splits) (metis Inl_Inr_False)
qed

text \<open>An encrypted session is a frame stream whose every frame is one message.\<close>

definition open_push :: "json_codec \<Rightarrow> e2eeSession \<Rightarrow> bytes \<Rightarrow> e2eeSession \<times> (frame_error + bytes option)" where
  "open_push js r raw = (case open_frame js r raw of (r', Inl e) \<Rightarrow> (r', Inl e) | (r', Inr p) \<Rightarrow> (r', Inr (Some p)))"

definition sealed_carries :: "json_codec \<Rightarrow> e2eeSession \<Rightarrow> bytes list \<Rightarrow> bytes \<Rightarrow> e2eeSession \<Rightarrow> bool" where
  "sealed_carries js r raws p r' \<longleftrightarrow> (\<exists>s s' raw. raws = [raw] \<and> peer s r \<and> aead_correct (es_send s)
     \<and> (es_codec s = CodecJSON \<longrightarrow> json_frames js) \<and> seal js s p = (s', Inr raw) \<and> r' = advance r)"

interpretation sealed: frame_stream "open_push js" "\<lambda>_. True" "sealed_carries js" for js
  by unfold_locales (auto simp: sealed_carries_def open_push_def dest!: seal_open)

text \<open>Sealing a list of messages.\<close>

fun seal_all :: "json_codec \<Rightarrow> e2eeSession \<Rightarrow> bytes list \<Rightarrow> e2eeSession \<times> (frame_error + bytes list)" where
  "seal_all js s [] = (s, Inr [])"
| "seal_all js s (p # ps) = (case seal js s p of
      (s', Inl err) \<Rightarrow> (s', Inl err)
    | (s', Inr raw) \<Rightarrow> (case seal_all js s' ps of
          (s'', Inl err) \<Rightarrow> (s'', Inl err)
        | (s'', Inr raws) \<Rightarrow> (s'', Inr (raw # raws))))"

lemma seal_all_carries:
  assumes "unat (es_sendSequence s) + length ps \<le> 2 ^ 53" and "peer s r" and "aead_correct (es_send s)"
    and "es_codec s = CodecJSON \<longrightarrow> json_frames js"
  shows "\<exists>s' raws r'. seal_all js s ps = (s', Inr raws) \<and> length raws = length ps
     \<and> sealed.carries_all js r raws ps r' \<and> peer s' r'"
  using assms
proof (induction ps arbitrary: s r)
  case Nil
  then show ?case using sealed.carries_none by fastforce
next
  case (Cons p ps)
  let ?s = "s\<lparr>es_sendSequence := es_sendSequence s + 1\<rparr>"
  from Cons.prems obtain raw where raw: "seal js s p = (?s, Inr raw)"
    using seal_succeeds [of s js p] by auto
  from seal_open [OF raw Cons.prems(2-4)] have p': "peer ?s (advance r)" by simp
  have "unat (es_sendSequence s + 1) = Suc (unat (es_sendSequence s))"
    by (rule unat_Suc_sequence) (use Cons.prems(1) in \<open>simp add: sequence_in_range\<close>)
  with Cons.IH [of ?s "advance r"] Cons.prems p' obtain s' raws r' where
    IH: "seal_all js ?s ps = (s', Inr raws)" "length raws = length ps"
      "sealed.carries_all js (advance r) raws ps r'" "peer s' r'"
    by auto
  have "sealed_carries js r [raw] p (advance r)"
    using Cons.prems raw by (auto simp: sealed_carries_def)
  from sealed.carries_next [OF this IH(3)] IH raw show ?case by auto
qed

lemma seal_all_frames:
  assumes "seal_all js s ps = (s', Inr raws)"
  shows "length raws = length ps \<and> unat (es_sendSequence s) + length ps \<le> max (2 ^ 53) (unat (es_sendSequence s))
     \<and> (\<forall>k < length ps. let n = es_sendSequence s + of_nat k in
          encodeFrame js (es_codec s) n
            (aead_Seal (es_send s) (e2eeFrameNonce n) (ps ! k) (e2eeAAD (es_sendDirection s) n)) = Inr (raws ! k))"
  using assms
proof (induction ps arbitrary: s raws)
  case Nil
  then show ?case by simp
next
  case (Cons p ps)
  let ?s = "s\<lparr>es_sendSequence := es_sendSequence s + 1\<rparr>"
  from Cons.prems obtain raw raws' where raw: "seal js s p = (?s, Inr raw)" and all: "seal_all js ?s ps = (s', Inr raws')"
    and raws: "raws = raw # raws'" and n: "es_sendSequence s \<le> maxE2EESequence"
    and e: "encodeFrame js (es_codec s) (es_sendSequence s) (aead_Seal (es_send s) (e2eeFrameNonce (es_sendSequence s)) p
              (e2eeAAD (es_sendDirection s) (es_sendSequence s))) = Inr raw"
    by (auto simp: seal_def Let_def split: prod.splits sum.splits if_splits)
  note IH = Cons.IH [OF all]
  have "unat (es_sendSequence s) < 2 ^ 53" "unat (es_sendSequence s + 1) = Suc (unat (es_sendSequence s))"
    using n by (simp_all add: sequence_in_range unat_Suc_sequence)
  moreover have "let m = es_sendSequence s + of_nat k in
          encodeFrame js (es_codec s) m
            (aead_Seal (es_send s) (e2eeFrameNonce m) ((p # ps) ! k) (e2eeAAD (es_sendDirection s) m)) = Inr (raws ! k)"
    if "k < length (p # ps)" for k
    using that IH e raws by (cases k) (auto simp: Let_def add.assoc)
  ultimately show ?case using IH raws by auto
qed

section \<open>Frames from the network\<close>

text \<open>Feeding arbitrary raw frames to a receiver and keeping what it accepts.\<close>

fun open_each :: "json_codec \<Rightarrow> e2eeSession \<Rightarrow> bytes list \<Rightarrow> e2eeSession \<times> bytes list" where
  "open_each js r [] = (r, [])"
| "open_each js r (raw # raws) = (case open_frame js r raw of
      (r', Inl _) \<Rightarrow> open_each js r' raws
    | (r', Inr p) \<Rightarrow> (let (r'', ps) = open_each js r' raws in (r'', p # ps)))"

lemma open_frame_cases:
  obtains (refused) err where "open_frame js r raw = (r, Inl err)"
  | (accepted) ciphertext p where "open_frame js r raw = (advance r, Inr p)"
      "decodeFrame js (es_codec r) raw = Inr (es_receiveSequence r, ciphertext)"
      "es_receiveSequence r \<le> maxE2EESequence"
      "aead_Open (es_receive r) (e2eeFrameNonce (es_receiveSequence r)) ciphertext
         (e2eeAAD (es_receiveDirection r) (es_receiveSequence r)) = Some p"
proof (cases "open_frame js r raw")
  case (Pair r' res)
  then show thesis
    using refused accepted
    by (cases res) (auto simp: open_frame_def advance_def not_less split: sum.splits prod.splits option.splits if_splits)
qed

lemma open_each_sequence:
  assumes "open_each js r raws = (r', ps)"
  shows "unat (es_receiveSequence r') = unat (es_receiveSequence r) + length ps \<and> es_codec r' = es_codec r"
  using assms
proof (induction raws arbitrary: r ps)
  case Nil
  then show ?case by simp
next
  case (Cons raw raws)
  show ?case
  proof (cases rule: open_frame_cases [of js r raw])
    case (refused err)
    with Cons show ?thesis by simp
  next
    case (accepted ciphertext p)
    from Cons.prems accepted(1) obtain ps' where "open_each js (advance r) raws = (r', ps')" "ps = p # ps'"
      by (auto split: prod.splits)
    with Cons.IH unat_Suc_sequence [OF accepted(3)] show ?thesis by (fastforce simp: advance_def)
  qed
qed

lemma unat_u64_less: "unat (w :: u64) < 2 ^ 64"
  by (rule order.strict_trans2 [OF unsigned_less]) simp

lemma of_nat_u64_inject:
  assumes "(of_nat j :: u64) = of_nat k" and "j < 2 ^ 64" and "k < 2 ^ 64"
  shows "j = k"
proof -
  have "unat (of_nat i :: u64) = i" if "i < 2 ^ 64" for i
    using that by (simp add: unsigned_of_nat take_bit_nat_eq_self)
  then show ?thesis using assms by metis
qed

text \<open>
  The integrity of ciphertexts (INT-CTXT), for one run: whatever opens among the tried triples of
  nonce, ciphertext and associated data was sealed with that nonce and associated data. The
  triples the receiver tries come from the frames of the network, the sealed ones from the
  messages of the sender.
\<close>

definition unforged :: "aead \<Rightarrow> (bytes \<times> bytes \<times> bytes) list \<Rightarrow> (bytes \<times> bytes \<times> bytes) list \<Rightarrow> bool" where
  "unforged a queries tried \<longleftrightarrow>
     list_all (\<lambda>(n, c, d). aead_Open a n c d \<noteq> None \<longrightarrow> list_ex (\<lambda>(n', p, d'). n' = n \<and> d' = d \<and> c = aead_Seal a n p d) queries) tried"

definition seal_queries :: "e2eeSession \<Rightarrow> bytes list \<Rightarrow> (bytes \<times> bytes \<times> bytes) list" where
  "seal_queries s ps = map (\<lambda>k. let n = es_sendSequence s + of_nat k in (e2eeFrameNonce n, ps ! k, e2eeAAD (es_sendDirection s) n)) [0..<length ps]"

definition open_tries :: "json_codec \<Rightarrow> e2eeSession \<Rightarrow> bytes list \<Rightarrow> (bytes \<times> bytes \<times> bytes) list" where
  "open_tries js r raws = concat (map (\<lambda>raw. case decodeFrame js (es_codec r) raw of
     Inl _ \<Rightarrow> [] | Inr (n, c) \<Rightarrow> [(e2eeFrameNonce n, c, e2eeAAD (es_receiveDirection r) n)]) raws)"

lemma unforged_opens:
  assumes "unforged a (seal_queries s ps) (open_tries js r raws)" and "aead_correct a" and "raw \<in> set raws"
    and "decodeFrame js (es_codec r) raw = Inr (n, c)" and "aead_Open a (e2eeFrameNonce n) c (e2eeAAD (es_receiveDirection r) n) = Some p"
  shows "\<exists>k < length ps. n = es_sendSequence s + of_nat k \<and> p = ps ! k"
proof -
  have "(e2eeFrameNonce n, c, e2eeAAD (es_receiveDirection r) n) \<in> set (open_tries js r raws)"
    using assms(3,4) by (force simp: open_tries_def)
  with assms(1,5) obtain p' where "(e2eeFrameNonce n, p', e2eeAAD (es_receiveDirection r) n) \<in> set (seal_queries s ps)"
    and c: "c = aead_Seal a (e2eeFrameNonce n) p' (e2eeAAD (es_receiveDirection r) n)"
    by (fastforce simp: unforged_def list_all_iff list_ex_iff)
  then obtain k where "k < length ps" "n = es_sendSequence s + of_nat k" "p' = ps ! k" by (auto simp: seal_queries_def Let_def)
  moreover have "p = p'" using assms(2,5) by (simp add: c aead_correct_def)
  ultimately show ?thesis by blast
qed

lemma open_each_prefix:
  assumes "open_each js r raws = (r', out)"
    and "\<And>raw n c p. raw \<in> set raws \<Longrightarrow> decodeFrame js (es_codec r) raw = Inr (n, c)
           \<Longrightarrow> aead_Open (es_receive r) (e2eeFrameNonce n) c (e2eeAAD (es_receiveDirection r) n) = Some p
           \<Longrightarrow> \<exists>k < length ps. n = first + of_nat k \<and> p = ps ! k"
    and "es_receiveSequence r = first + of_nat j" and "j \<le> length ps" and "length ps < 2 ^ 64"
  shows "\<exists>m \<le> length ps. out = take (m - j) (drop j ps)"
  using assms
proof (induction raws arbitrary: r out j)
  case Nil
  then show ?case by (auto intro!: exI [of _ j])
next
  case (Cons raw raws)
  have later: "\<exists>k < length ps. n = first + of_nat k \<and> p = ps ! k"
    if "raw' \<in> set raws" "decodeFrame js (es_codec r) raw' = Inr (n, c)"
      "aead_Open (es_receive r) (e2eeFrameNonce n) c (e2eeAAD (es_receiveDirection r) n) = Some p" for raw' n c p
    by (rule Cons.prems(2) [OF _ that(2,3)]) (simp add: that(1))
  show ?case
  proof (cases rule: open_frame_cases [of js r raw])
    case (refused err)
    with Cons.prems(1) have "open_each js r raws = (r', out)" by simp
    from Cons.IH [OF this later Cons.prems(3-5)] show ?thesis .
  next
    case (accepted ciphertext p)
    from Cons.prems(1) accepted(1) obtain out' where out: "open_each js (advance r) raws = (r', out')" "out = p # out'"
      by (auto split: prod.splits)
    from Cons.prems(2) [OF _ accepted(2,4)] obtain k where k: "k < length ps" "p = ps ! k"
      and "first + of_nat j = first + (of_nat k :: u64)"
      using Cons.prems(3) by auto
    then have "(of_nat j :: u64) = of_nat k" by simp
    then have jk: "j = k"
      by (rule of_nat_u64_inject) (use k Cons.prems(4,5) in auto)
    have "\<exists>m \<le> length ps. out' = take (m - Suc j) (drop (Suc j) ps)"
      by (rule Cons.IH [OF out(1)]) (use Cons.prems(3-5) k jk later in \<open>simp_all add: advance_def\<close>)
    then obtain m where m: "m \<le> length ps" "out' = take (m - Suc j) (drop (Suc j) ps)" by blast
    have "drop j ps = p # drop (Suc j) ps" and "max m (Suc j) - j = Suc (m - Suc j)"
      using k jk by (auto simp: take_drop_Cons_nth)
    then have "out = take (max m (Suc j) - j) (drop j ps)"
      using m(2) out(2) by simp
    then show ?thesis using m(1) k jk by (intro exI [of _ "max m (Suc j)"]) auto
  qed
qed

section \<open>What the proofs bind\<close>

lemma split_at_last:
  assumes "x \<notin> set a" and "x \<notin> set b" and "r @ x # a = t @ x # b"
  shows "a = b \<and> r = t"
proof -
  have "rev a @ x # rev r = rev b @ x # rev t" using arg_cong [OF assms(3), of rev] by simp
  from split_at_first [OF _ _ this] assms(1,2) show ?thesis by simp
qed

lemma zero_in_str_bytes: "0 \<in> set (str_bytes s) \<longleftrightarrow> nul \<in> set s"
proof -
  have "byte_of nul = 0" by (simp add: nul_def byte_of_def)
  then have "byte_of c = 0 \<longleftrightarrow> c = nul" for c by (metis byte_of_inject)
  then show ?thesis by (auto simp: str_bytes_def)
qed

definition known_kind :: "E2EEAuthSelector \<Rightarrow> bool" where
  "known_kind sel \<longleftrightarrow> sel_Kind sel = E2EEAuthCredential \<or> sel_Kind sel = E2EEAuthInvitation"

lemma known_kind_no_nul: "known_kind sel \<Longrightarrow> 0 \<notin> set (str_bytes (sel_Kind sel))"
  by (auto simp: known_kind_def zero_in_str_bytes E2EEAuthCredential_def E2EEAuthInvitation_def nul_def)

lemma e2eeAuthBinding_inject:
  assumes "e2eeAuthBinding s = e2eeAuthBinding t" and "known_kind s" and "known_kind t"
  shows "sel_Kind s = sel_Kind t \<and> sel_ID s = sel_ID t \<and> sel_Version s = sel_Version t"
proof -
  let ?rest = "\<lambda>s. str_bytes (sel_ID s) @ 0 # str_bytes (FormatUint (unat (sel_Version s)))"
  from assms(1) have "str_bytes (sel_Kind s) @ 0 # ?rest s = str_bytes (sel_Kind t) @ 0 # ?rest t"
    by (simp add: e2eeAuthBinding_def)
  from split_at_first [OF known_kind_no_nul [OF assms(2)] known_kind_no_nul [OF assms(3)] this]
  have kind: "sel_Kind s = sel_Kind t" and rest: "?rest s = ?rest t" by auto
  have "0 \<notin> set (str_bytes (FormatUint n))" for n
    using FormatUint_no_nul by (simp add: zero_in_str_bytes nul_def)
  from split_at_last [OF this this rest] kind show ?thesis
    by (auto dest!: FormatUint_inject simp: word_unat_eq_iff)
qed



lemma parseE2EEClientHello_shape:
  assumes "parseE2EEClientHello cr js raw = Inr hello"
  shows "known_kind (ph_selector hello) \<and> length (ph_nonce hello) = 32 \<and> length (ph_publicBytes hello) = 65
     \<and> length (ph_proof hello) = 32 \<and> sel_ID (ph_selector hello) \<noteq> [] \<and> sel_Version (ph_selector hello) \<noteq> 0"
  using assms
  by (auto simp: parseE2EEClientHello_def decodeE2EEField_def known_kind_def e2eeNonceBytes_def e2eePublicKeyBytes_def
      sha256Size_def split: option.splits if_splits)

section \<open>The handshake\<close>

definition proof_matches :: "crypto \<Rightarrow> bytes \<Rightarrow> parsedE2EEClientHello \<Rightarrow> bool" where
  "proof_matches cr secret hello \<longleftrightarrow>
     ph_proof hello = e2eeAuthTag cr secret [e2eeClientProofLabel, e2eeAuthBinding (ph_selector hello),
       ph_nonce hello, ph_publicBytes hello]"

lemma ReadFrame_facts:
  "ReadFrame conn = (conn', Some f) \<longleftrightarrow> (\<exists>fs. fc_in conn = f # fs \<and> conn' = conn\<lparr>fc_in := fs\<rparr>)"
  "ReadFrame conn = (conn', None) \<longleftrightarrow> fc_in conn = [] \<and> conn' = conn"
  by (auto simp: ReadFrame_def split: list.splits)

lemma WriteFrame_True:
  "WriteFrame conn f = (conn', True) \<Longrightarrow>
     fc_out conn' = fc_out conn @ [f] \<and> fc_in conn' = fc_in conn \<and> fc_Codec conn' = fc_Codec conn"
  by (auto simp: WriteFrame_def split: list.splits bool.splits)

lemma newE2EESession_fresh:
  "newE2EESession cr k k' d d' = Inr s \<Longrightarrow> es_sendSequence s = 0 \<and> es_receiveSequence s = 0
     \<and> es_sendDirection s = d \<and> es_receiveDirection s = d'"
  by (auto simp: newE2EESession_def split: option.splits)

lemma seal_sequence:
  "seal js s p = (s', Inr raw) \<Longrightarrow> s' = s\<lparr>es_sendSequence := es_sendSequence s + 1\<rparr>"
  by (auto simp: seal_def Let_def split: if_splits sum.splits)

lemma handshake_keys_success:
  assumes "handshake_keys cr js serverPrivate serverNonce conn secret hello = (conn', Inr session)"
  shows "es_sendSequence session = 0 \<and> es_receiveSequence session = 1 \<and> es_codec session = fc_Codec conn
     \<and> es_sendDirection session = e2eeServerDirection \<and> es_receiveDirection session = e2eeClientDirection
     \<and> (\<exists>response. fc_out conn' = fc_out conn @ [response]) \<and> (\<exists>rawFinish. fc_in conn = rawFinish # fc_in conn')"
proof -
  from assms obtain session0 response conn1 rawFinish plaintext k k' where
    new: "newE2EESession cr k k' e2eeServerDirection e2eeClientDirection = Inr session0"
    and w: "WriteFrame conn response = (conn1, True)" and r: "ReadFrame conn1 = (conn', Some rawFinish)"
    and op: "open_frame js (session0\<lparr>es_codec := fc_Codec conn\<rparr>) rawFinish = (session, Inr plaintext)"
    by (auto simp: handshake_keys_def Let_def split: option.splits sum.splits prod.splits bool.splits)
  from op have "session = advance (session0\<lparr>es_codec := fc_Codec conn\<rparr>)"
    by (cases rule: open_frame_cases [of js "session0\<lparr>es_codec := fc_Codec conn\<rparr>" rawFinish]) auto
  with newE2EESession_fresh [OF new] WriteFrame_True [OF w] r show ?thesis
    by (auto simp: advance_def ReadFrame_facts)
qed

lemma handshake_complete_success:
  assumes "handshake_complete js res st conn selector session = (st', conn', Inr (session', identity))"
  shows "\<exists>a. rs_CompleteE2EEAuth res st selector True = (st', Inr a) \<and> identity = ar_Identity a
     \<and> validAuthenticatedIdentity identity
     \<and> (ar_CredentialSecret a \<noteq> [] \<longrightarrow> length (ar_CredentialSecret a) = e2eeSecretBytes \<and> sel_Kind selector = E2EEAuthInvitation)
     \<and> session' = session\<lparr>es_sendSequence := es_sendSequence session + 1\<rparr>
     \<and> (\<exists>finish. fc_out conn' = fc_out conn @ [finish]) \<and> fc_in conn' = fc_in conn"
  using assms
  by (auto simp: handshake_complete_def Let_def dest!: WriteFrame_True seal_sequence
      split: option.splits sum.splits prod.splits bool.splits if_splits)

text \<open>The possible outcomes of a handshake up to the check of the proof.\<close>

lemma handshake_cases:
  assumes "performServerE2EEHandshake cr js serverPrivate serverNonce (Some res) st conn = (st', conn', result)"
  obtains (early) err where "result = Inl err" "fc_out conn' = fc_out conn" "st' = st"
      "err = ReadClientHello \<or> (\<exists>rawHello. parseE2EEClientHello cr js rawHello = Inl err)"
  | (unresolved) rawHello rest hello e err where "fc_in conn = rawHello # rest" "result = Inl err" "fc_out conn' = fc_out conn"
      "parseE2EEClientHello cr js rawHello = (Inr hello :: 'e handshake_error + _)"
      "rs_ResolveE2EESecret res st (ph_selector hello) = (st', Inl (e :: 'e))"
      "err = (if rs_IsE2EEAuthRejected res e then ErrDeviceAuthRejected else ResolveAuthentication e)"
  | (badsecret) rawHello rest hello secret where "fc_in conn = rawHello # rest" "result = Inl InvalidSecret"
      "fc_out conn' = fc_out conn" "parseE2EEClientHello cr js rawHello = (Inr hello :: 'e handshake_error + _)"
      "rs_ResolveE2EESecret res st (ph_selector hello) = (st', Inr secret)" "length secret \<noteq> e2eeSecretBytes"
  | (badproof) rawHello rest hello secret st1 r err where "fc_in conn = rawHello # rest" "result = Inl err"
      "fc_out conn' = fc_out conn" "parseE2EEClientHello cr js rawHello = (Inr hello :: 'e handshake_error + _)"
      "rs_ResolveE2EESecret res st (ph_selector hello) = (st1, Inr secret)" "length secret = e2eeSecretBytes"
      "\<not> proof_matches cr secret hello"
      "rs_CompleteE2EEAuth res st1 (ph_selector hello) False = (st', r)"
      "err = ErrDeviceAuthRejected \<or> (\<exists>e. err = RecordRejected e)"
  | (verified) rawHello rest hello secret st1 conn2 kr where "fc_in conn = rawHello # rest"
      "parseE2EEClientHello cr js rawHello = (Inr hello :: 'e handshake_error + _)"
      "rs_ResolveE2EESecret res st (ph_selector hello) = (st1, Inr secret)" "length secret = e2eeSecretBytes"
      "proof_matches cr secret hello"
      "handshake_keys cr js serverPrivate serverNonce (conn\<lparr>fc_in := rest\<rparr>) secret hello = (conn2, kr)"
      "(case kr of Inl err \<Rightarrow> (st1, conn2, Inl err)
        | Inr session \<Rightarrow> handshake_complete js res st1 conn2 (ph_selector hello) session) = (st', conn', result)"
proof (cases "fc_in conn")
  case Nil
  then show thesis using assms early by (auto simp: performServerE2EEHandshake_def ReadFrame_def)
next
  case (Cons rawHello rest)
  let ?conn = "conn\<lparr>fc_in := rest\<rparr>"
  have read: "ReadFrame conn = (?conn, Some rawHello)" using Cons by (simp add: ReadFrame_def)
  show thesis
  proof (cases "parseE2EEClientHello cr js rawHello :: 'e handshake_error + _")
    case (Inl err)
    with assms read have "st' = st" "conn' = ?conn" "result = Inl err"
      by (simp_all add: performServerE2EEHandshake_def)
    with Inl show thesis by (intro early [of err]) auto
  next
    case (Inr hello)
    obtain st1 sr where sr: "rs_ResolveE2EESecret res st (ph_selector hello) = (st1, sr)" by fastforce
    show thesis
    proof (cases sr)
      case (Inl e)
      then show thesis
        using assms read Inr sr unresolved [OF Cons] by (auto simp: performServerE2EEHandshake_def)
    next
      fix secret assume secret: "sr = Inr secret"
      consider "length secret \<noteq> e2eeSecretBytes" | "length secret = e2eeSecretBytes" "\<not> proof_matches cr secret hello"
        | "length secret = e2eeSecretBytes" "proof_matches cr secret hello" by blast
      then show thesis
      proof cases
        case 1
        then show thesis using assms read Inr sr secret badsecret [OF Cons] by (auto simp: performServerE2EEHandshake_def)
      next
        case 2
        then show thesis
          using assms read Inr sr secret badproof [OF Cons]
          by (auto simp: performServerE2EEHandshake_def proof_matches_def split: prod.splits sum.splits)
      next
        case 3
        then show thesis
          using assms read Inr sr secret verified [OF Cons]
          by (auto simp: performServerE2EEHandshake_def proof_matches_def split: prod.splits sum.splits)
      qed
    qed
  qed
qed

lemma handshake_success:
  fixes res :: "('s, 'e) resolver"
  assumes "performServerE2EEHandshake cr js serverPrivate serverNonce (Some res) st conn = (st', conn', Inr (session, identity))"
  shows "\<exists>rawHello rawFinish hello secret st1 a. fc_in conn = rawHello # rawFinish # fc_in conn'
     \<and> parseE2EEClientHello cr js rawHello = (Inr hello :: 'e handshake_error + _)
     \<and> rs_ResolveE2EESecret res st (ph_selector hello) = (st1, Inr secret) \<and> length secret = e2eeSecretBytes
     \<and> proof_matches cr secret hello
     \<and> rs_CompleteE2EEAuth res st1 (ph_selector hello) True = (st', Inr (a :: E2EEAuthResult)) \<and> identity = ar_Identity a
     \<and> validAuthenticatedIdentity identity
     \<and> (ar_CredentialSecret a = [] \<or>
        length (ar_CredentialSecret a) = e2eeSecretBytes \<and> sel_Kind (ph_selector hello) = E2EEAuthInvitation)
     \<and> es_sendSequence session = 1 \<and> es_receiveSequence session = 1 \<and> es_codec session = fc_Codec conn
     \<and> (\<exists>response finish. fc_out conn' = fc_out conn @ [response, finish])"
  using assms
proof (cases rule: handshake_cases)
  case (verified rawHello rest hello secret st1 conn2 kr)
  then obtain s where kr: "kr = Inr s" by (cases kr) auto
  from verified(6) kr have K: "es_sendSequence s = 0" "es_receiveSequence s = 1" "es_codec s = fc_Codec conn"
    "\<exists>response. fc_out conn2 = fc_out conn @ [response]" "\<exists>rawFinish. rest = rawFinish # fc_in conn2"
    by (auto dest!: handshake_keys_success)
  from verified(7) kr have "handshake_complete js res st1 conn2 (ph_selector hello) s = (st', conn', Inr (session, identity))"
    by simp
  from handshake_complete_success [OF this] obtain a where
    "rs_CompleteE2EEAuth res st1 (ph_selector hello) True = (st', Inr a)" "identity = ar_Identity a"
    "validAuthenticatedIdentity identity"
    "ar_CredentialSecret a = [] \<or> length (ar_CredentialSecret a) = e2eeSecretBytes \<and> sel_Kind (ph_selector hello) = E2EEAuthInvitation"
    "session = s\<lparr>es_sendSequence := es_sendSequence s + 1\<rparr>"
    "\<exists>finish. fc_out conn' = fc_out conn2 @ [finish]" "fc_in conn' = fc_in conn2"
    by blast
  with K verified(1-5) show ?thesis by auto
qed simp_all

section \<open>The contract of the authority\<close>

text \<open>
  What the transport relies on: secrets have the size the proofs assume, a refused proof is
  never completed with an identity, identities are well formed, a secret is handed out for
  an invitation only, and the authority's own invariant survives its operations.
\<close>

locale e2ee_authority =
  fixes res :: "('s, 'e) resolver" and inv :: "'s \<Rightarrow> bool"
  assumes resolve_law: "inv st \<Longrightarrow> rs_ResolveE2EESecret res st selector = (st', r) \<Longrightarrow>
      inv st' \<and> (\<forall>secret. r = Inr secret \<longrightarrow> length secret = e2eeSecretBytes)"
    and complete_law: "inv st \<Longrightarrow> rs_CompleteE2EEAuth res st selector authenticated = (st', c) \<Longrightarrow>
      inv st' \<and> (\<forall>a. c = Inr a \<longrightarrow> authenticated \<and> validAuthenticatedIdentity (ar_Identity a) \<and>
        (ar_CredentialSecret a = [] \<or>
         length (ar_CredentialSecret a) = e2eeSecretBytes \<and> sel_Kind selector = E2EEAuthInvitation))"
begin

lemma complete_step:
  assumes "inv st" and "handshake_complete js res st conn selector session = (st', conn', result)"
  shows "inv st' \<and> result \<noteq> Inl InvalidSecret \<and> result \<noteq> Inl InvalidIdentity \<and> result \<noteq> Inl InvalidIssuedCredential"
proof (cases "rs_CompleteE2EEAuth res st selector True")
  case (Pair st1 c)
  from complete_law [OF assms(1) Pair] have law: "inv st1" "\<forall>a. c = Inr a \<longrightarrow> validAuthenticatedIdentity (ar_Identity a) \<and>
        (ar_CredentialSecret a = [] \<or> length (ar_CredentialSecret a) = e2eeSecretBytes \<and> sel_Kind selector = E2EEAuthInvitation)"
    by auto
  have "st' = st1"
    using assms(2) Pair
    by (auto simp: handshake_complete_def Let_def split: option.splits sum.splits prod.splits bool.splits if_splits)
  moreover have "result \<noteq> Inl InvalidSecret \<and> result \<noteq> Inl InvalidIdentity \<and> result \<noteq> Inl InvalidIssuedCredential"
    using assms(2) Pair law(2)
    by (auto simp: handshake_complete_def Let_def split: option.splits sum.splits prod.splits bool.splits if_splits)
  ultimately show ?thesis using law(1) by simp
qed

lemma keys_errors:
  "handshake_keys cr js serverPrivate serverNonce conn secret hello = (conn', Inl err) \<Longrightarrow>
     err \<noteq> InvalidSecret \<and> err \<noteq> InvalidIdentity \<and> err \<noteq> InvalidIssuedCredential"
  by (auto simp: handshake_keys_def Let_def parseE2EEClientFinish_def
      split: option.splits sum.splits prod.splits bool.splits if_splits)

lemma parse_errors:
  "parseE2EEClientHello cr js raw = Inl err \<Longrightarrow>
     err \<noteq> InvalidSecret \<and> err \<noteq> InvalidIdentity \<and> err \<noteq> InvalidIssuedCredential"
  by (auto simp: parseE2EEClientHello_def split: option.splits if_splits)

lemma handshake_keeps_inv:
  assumes "inv st" and "performServerE2EEHandshake cr js serverPrivate serverNonce (Some res) st conn = (st', conn', result)"
  shows "inv st'"
  using assms(2)
proof (cases rule: handshake_cases)
  case early
  with assms(1) show ?thesis by simp
next
  case unresolved
  with resolve_law [OF assms(1)] show ?thesis by blast
next
  case badsecret
  with resolve_law [OF assms(1)] show ?thesis by blast
next
  case (badproof rawHello rest hello secret st1 r err)
  with resolve_law [OF assms(1)] complete_law show ?thesis by blast
next
  case (verified rawHello rest hello secret st1 conn2 kr)
  with resolve_law [OF assms(1)] have "inv st1" by blast
  with verified(7) complete_step show ?thesis by (auto split: sum.splits)
qed

lemma handshake_trusts_authority:
  assumes "inv st" and "performServerE2EEHandshake cr js serverPrivate serverNonce (Some res) st conn = (st', conn', result)"
  shows "result \<noteq> Inl InvalidSecret \<and> result \<noteq> Inl InvalidIdentity \<and> result \<noteq> Inl InvalidIssuedCredential"
  using assms(2)
proof (cases rule: handshake_cases)
  case (early err)
  then show ?thesis using parse_errors by blast
next
  case (unresolved rawHello rest hello e err)
  then show ?thesis by (auto split: if_splits)
next
  case badsecret
  with resolve_law [OF assms(1)] show ?thesis by blast
next
  case badproof
  then show ?thesis by auto
next
  case (verified rawHello rest hello secret st1 conn2 kr)
  with resolve_law [OF assms(1)] have "inv st1" by blast
  with verified(6,7) show ?thesis by (cases kr) (auto dest: keys_errors complete_step)
qed

end

section \<open>Properties\<close>

text \<open>
  messages sealed by one end of a session are delivered by the other end, complete and in
  order, until the 53-bit sequence space is used up, with the binary and with the JSON codec.
\<close>

theorem session_roundtrip:
  assumes "peer s r" and "aead_correct (es_send s)" and "es_codec s = CodecJSON \<longrightarrow> json_frames js"
    and "unat (es_sendSequence s) + length ps \<le> 2 ^ 53"
  shows "\<exists>s' raws r'. seal_all js s ps = (s', Inr raws) \<and> length raws = length ps
     \<and> drain (open_push js) r raws = (r', Inr ps) \<and> peer s' r'"
  using seal_all_carries [OF assms(4,1-3)] sealed.deliver_all by blast

text \<open>
  C25: every frame of a session is sealed under the nonce and the associated data of its own
  sequence number, and the nonces of a session are pairwise distinct, so that no nonce is
  used twice with one key however long the session runs.
\<close>

theorem nonces_never_repeat:
  assumes "seal_all js s ps = (s', Inr raws)"
  shows "(\<forall>k < length ps. let n = es_sendSequence s + of_nat k in
            encodeFrame js (es_codec s) n
              (aead_Seal (es_send s) (e2eeFrameNonce n) (ps ! k) (e2eeAAD (es_sendDirection s) n)) = Inr (raws ! k))
     \<and> distinct (map (\<lambda>k. e2eeFrameNonce (es_sendSequence s + of_nat k)) [0..<length ps])"
proof -
  note F = seal_all_frames [OF assms]
  have "length ps < 2 ^ 64"
    using F unat_u64_less [of "es_sendSequence s"] by (auto simp: max_def split: if_splits)
  then have "inj_on (\<lambda>k. e2eeFrameNonce (es_sendSequence s + of_nat k)) {0..<length ps}"
    by (intro inj_onI) (auto intro: of_nat_u64_inject)
  with F show ?thesis by (simp add: distinct_map)
qed

text \<open>
  C19: whatever frames the network delivers (dropped, duplicated, reordered, corrupted or
  invented), what the receiver accepts is a prefix of what its peer sealed, in order and each
  message once. The cipher is any correct one, and no frame of the network carries a ciphertext that
  opens under the nonce and the associated data the receiver uses for it unless the peer sealed it
  with them (the integrity of ciphertexts that AES-GCM is used for).
\<close>

theorem network_cannot_forge:
  assumes "peer s r" and "aead_correct (es_send s)" and "seal_all js s ps = (s', Inr sealed)"
    and "unforged (es_receive r) (seal_queries s ps) (open_tries js r raws)"
  shows "\<exists>m \<le> length ps. snd (open_each js r raws) = take m ps"
proof -
  obtain r' out where run: "open_each js r raws = (r', out)" by fastforce
  have eq: "es_receive r = es_send s" "es_receiveSequence r = es_sendSequence s" using assms(1) by (simp_all add: peer_def)
  have len: "length ps < 2 ^ 64"
    using seal_all_frames [OF assms(3)] unat_u64_less [of "es_sendSequence s"] by (auto simp: max_def split: if_splits)
  have "\<exists>k < length ps. n = es_receiveSequence r + of_nat k \<and> p = ps ! k"
    if "raw \<in> set raws" "decodeFrame js (es_codec r) raw = Inr (n, c)"
      "aead_Open (es_receive r) (e2eeFrameNonce n) c (e2eeAAD (es_receiveDirection r) n) = Some p" for raw n c p
    unfolding eq(2) by (rule unforged_opens [OF assms(4) _ that]) (simp add: eq(1) assms(2))
  from open_each_prefix [OF run this, where j = 0] len run show ?thesis by simp
qed

text \<open>
  a frame the receiver accepted is never accepted again, whatever arrives in between.
\<close>

theorem replay_refused:
  assumes "open_frame js r raw = (r1, Inr p)"
  shows "\<exists>err. snd (open_frame js (fst (open_each js r1 raws)) raw) = Inl err"
proof -
  obtain r2 out where run: "open_each js r1 raws = (r2, out)" by fastforce
  from assms obtain ciphertext where dec: "decodeFrame js (es_codec r) raw = Inr (es_receiveSequence r, ciphertext)"
    and le: "es_receiveSequence r \<le> maxE2EESequence" and r1: "r1 = advance r"
    by (cases rule: open_frame_cases [of js r raw]) auto
  from open_each_sequence [OF run] r1 unat_Suc_sequence [OF le]
  have "es_receiveSequence r2 \<noteq> es_receiveSequence r" and "es_codec r2 = es_codec r"
    by (auto simp: advance_def)
  with dec run show ?thesis by (simp add: open_frame_def)
qed

text \<open>
  the inputs of the keyed hash are unambiguous although the identifier may contain any
  byte: equal client-proof inputs mean the same selector kind, identifier and version, the
  same nonce and the same key, equal transcripts mean the same session, and the inputs of
  the client proof, the server proof and the key salt never coincide.
\<close>

theorem auth_inputs_bind:
  assumes "known_kind s" and "known_kind t"
    and "length n = length n'" and "length k = length k'" and "length m = length m'" and "length l = length l'"
  shows "(e2eeAuthBinding s @ n @ k = e2eeAuthBinding t @ n' @ k' \<longrightarrow>
            sel_Kind s = sel_Kind t \<and> sel_ID s = sel_ID t \<and> sel_Version s = sel_Version t \<and> n = n' \<and> k = k')
     \<and> (e2eeTranscript (e2eeAuthBinding s) n k m l = e2eeTranscript (e2eeAuthBinding t) n' k' m' l' \<longrightarrow>
            sel_Kind s = sel_Kind t \<and> sel_ID s = sel_ID t \<and> sel_Version s = sel_Version t \<and>
            n = n' \<and> k = k' \<and> m = m' \<and> l = l')
     \<and> e2eeClientProofLabel @ x \<noteq> e2eeServerProofLabel @ y \<and> e2eeClientProofLabel @ x \<noteq> e2eeKeySaltLabel @ y
     \<and> e2eeServerProofLabel @ x \<noteq> e2eeKeySaltLabel @ y"
proof -
  have cancel: "a @ u = b @ v \<longleftrightarrow> a = b \<and> u = v" if "length u = length v" for a b u v :: bytes
    using that by simp
  have len1: "length (n @ k) = length (n' @ k')" and len2: "length (n @ k @ m @ l) = length (n' @ k' @ m' @ l')"
    using assms(3-6) by simp_all
  have parts: "n @ k = n' @ k' \<longleftrightarrow> n = n' \<and> k = k'"
    "n @ k @ m @ l = n' @ k' @ m' @ l' \<longleftrightarrow> n = n' \<and> k = k' \<and> m = m' \<and> l = l'"
    using assms(3-6) by simp_all
  have labels: "e2eeClientProofLabel @ x \<noteq> e2eeServerProofLabel @ y \<and> e2eeClientProofLabel @ x \<noteq> e2eeKeySaltLabel @ y
     \<and> e2eeServerProofLabel @ x \<noteq> e2eeKeySaltLabel @ y"
    by (simp add: e2eeClientProofLabel_def e2eeServerProofLabel_def e2eeKeySaltLabel_def str_bytes_def)
  show ?thesis
    unfolding e2eeTranscript_def cancel [OF len1] cancel [OF len2] parts
    using e2eeAuthBinding_inject [OF _ assms(1,2)] labels by blast
qed

text \<open>
  C2: a handshake that yields a session has authenticated the peer: the hello parsed, the
  authority returned a 32-byte secret for its selector, the client proof is the keyed hash
  of that selector, nonce and key under that secret, the client finish opened as frame 0,
  and the identity is the one the authority completed. Exactly two frames were written, and
  a credential secret can only have been issued for an invitation.
\<close>

theorem handshake_authenticates:
  fixes res :: "('s, 'e) resolver"
  assumes "performServerE2EEHandshake cr js serverPrivate serverNonce (Some res) st conn = (st', conn', Inr (session, identity))"
  shows "\<exists>rawHello rawFinish hello secret st1 a. fc_in conn = rawHello # rawFinish # fc_in conn'
     \<and> parseE2EEClientHello cr js rawHello = (Inr hello :: 'e handshake_error + _)
     \<and> rs_ResolveE2EESecret res st (ph_selector hello) = (st1, Inr secret) \<and> length secret = e2eeSecretBytes
     \<and> proof_matches cr secret hello
     \<and> rs_CompleteE2EEAuth res st1 (ph_selector hello) True = (st', Inr (a :: E2EEAuthResult)) \<and> identity = ar_Identity a
     \<and> validAuthenticatedIdentity identity
     \<and> (ar_CredentialSecret a = [] \<or>
        length (ar_CredentialSecret a) = e2eeSecretBytes \<and> sel_Kind (ph_selector hello) = E2EEAuthInvitation)
     \<and> es_sendSequence session = 1 \<and> es_receiveSequence session = 1 \<and> es_codec session = fc_Codec conn
     \<and> (\<exists>response finish. fc_out conn' = fc_out conn @ [response, finish])"
  by (rule handshake_success [OF assms])

text \<open>
  without a valid proof the server is silent: if no secret of the authority makes the
  client proof match, nothing is written to the connection, no session results, and the
  authority is at most asked to record the failure, never to complete the authentication.
\<close>

theorem handshake_silent_without_proof:
  fixes res :: "('s, 'e) resolver"
  assumes "performServerE2EEHandshake cr js serverPrivate serverNonce (Some res) st conn = (st', conn', result)"
    and "\<forall>rawHello rest hello st1 secret. fc_in conn = rawHello # rest \<longrightarrow>
       parseE2EEClientHello cr js rawHello = (Inr hello :: 'e handshake_error + _) \<longrightarrow>
       rs_ResolveE2EESecret res st (ph_selector hello) = (st1, Inr secret) \<longrightarrow> \<not> proof_matches cr secret hello"
  shows "fc_out conn' = fc_out conn \<and> (\<exists>err. result = Inl (err :: 'e handshake_error)) \<and>
     (st' = st \<or> (\<exists>selector. st' = fst (rs_ResolveE2EESecret res st selector) \<or>
        st' = fst (rs_CompleteE2EEAuth res (fst (rs_ResolveE2EESecret res st selector)) selector False)))"
  using assms(1)
proof (cases rule: handshake_cases)
  case (badproof rawHello rest hello secret st1 r err)
  then show ?thesis by (metis fst_conv)
next
  case verified
  with assms(2) show ?thesis by blast
qed (auto, (metis fst_conv)+)

section \<open>Witnesses\<close>

definition demo_aead :: aead where
  "demo_aead = \<lparr>aead_Seal = (\<lambda>n p d. p), aead_Open = (\<lambda>n c d. Some c)\<rparr>"

definition demo_session :: "aead \<Rightarrow> e2eeSession" where
  "demo_session a = \<lparr>es_send = a, es_receive = a, es_codec = CodecBinary, es_sendDirection = ''c2s'',
     es_receiveDirection = ''c2s'', es_sendSequence = 5, es_receiveSequence = 5\<rparr>"

definition demo_hello :: e2eeClientHello where
  "demo_hello = \<lparr>ch_Type = ''e2ee_client_hello'', ch_Version = 2, ch_AuthKind = E2EEAuthCredential, ch_AuthID = ''id'',
     ch_AuthVersion = 1, ch_Locale = ''en'', ch_Nonce = b64_encode (replicate 32 0),
     ch_PublicKey = b64_encode (replicate 65 0), ch_Proof = b64_encode (replicate 32 9)\<rparr>"

definition demo_json :: json_codec where
  "demo_json = \<lparr>js_decodeHello = (\<lambda>_. Some demo_hello), js_encodeServerHello = (\<lambda>_. Some [1]),
     js_decodeFinish = (\<lambda>_. Some \<lparr>cf_Type = ''e2ee_client_finish'', cf_Version = 2\<rparr>),
     js_encodeFinish = (\<lambda>_. Some [2]), js_encodeFrame = (\<lambda>_. None), js_decodeFrame = (\<lambda>_. None)\<rparr>"

definition demo_crypto :: "bytes \<Rightarrow> crypto" where
  "demo_crypto tag = \<lparr>cr_hmac = (\<lambda>_ _. tag), cr_hkdf = (\<lambda>_ _ _ n. Some (replicate n 0)), cr_gcm = (\<lambda>_. demo_aead),
     cr_validPoint = (\<lambda>_. True), cr_public = (\<lambda>_. replicate 65 4), cr_ecdh = (\<lambda>_ _. Some [1])\<rparr>"

definition demo_identity :: AuthenticatedIdentity where
  "demo_identity = \<lparr>ai_DeviceID = ''d'', ai_CredentialID = ''id'', ai_Role = ''reader'', ai_Locale = ''en'',
     ai_CredentialVersion = 1\<rparr>"

definition demo_resolver :: "(nat, unit) resolver" where
  "demo_resolver = \<lparr>rs_ResolveE2EESecret = (\<lambda>s _. (s, Inr (replicate 32 0))),
     rs_CompleteE2EEAuth = (\<lambda>s _ b. (Suc s, if b then Inr \<lparr>ar_Identity = demo_identity, ar_CredentialSecret = []\<rparr> else Inl ())),
     rs_IsE2EEAuthRejected = (\<lambda>_. True)\<rparr>"

definition demo_conn :: frame_conn where
  "demo_conn = \<lparr>fc_in = [[], [2, 0, 0, 0, 0, 0, 0, 0, 0, 0]], fc_writes = [True, True], fc_out = [], fc_Codec = CodecBinary\<rparr>"

theorem session_roundtrip_witness:
  "\<exists>s' raws r'. seal_all demo_json (demo_session demo_aead) [[7], [8, 9]] = (s', Inr raws) \<and>
     length raws = length [[7 :: byte], [8, 9]] \<and>
     drain (open_push demo_json) (demo_session demo_aead) raws = (r', Inr [[7], [8, 9]]) \<and> peer s' r'"
  by (rule session_roundtrip) (simp_all add: peer_def demo_session_def aead_correct_def demo_aead_def)

theorem nonces_never_repeat_witness:
  "\<exists>s' raws. seal_all demo_json (demo_session demo_aead) [[7], [8]] = (s', Inr raws) \<and>
     distinct (map (\<lambda>k. e2eeFrameNonce (es_sendSequence (demo_session demo_aead) + of_nat k)) [0..<length [[7 :: byte], [8]]])"
proof -
  have "\<exists>s' raws. seal_all demo_json (demo_session demo_aead) [[7], [8]] = (s', Inr raws)"
    by (simp add: demo_session_def seal_def encodeFrame_def Let_def maxE2EESequence_def)
  then show ?thesis using nonces_never_repeat by blast
qed

text \<open>A cipher with a tag: it is correct, and the second and third frame carry no valid tag.\<close>

definition tagged_aead :: aead where
  "tagged_aead = \<lparr>aead_Seal = (\<lambda>n p d. p @ d), aead_Open = (\<lambda>n c d. if drop (length c - length d) c = d then Some (take (length c - length d) c) else None)\<rparr>"

lemma tagged_correct: "aead_correct tagged_aead"
  by (simp add: aead_correct_def tagged_aead_def)

definition tagged_frame :: "byte \<Rightarrow> bytes \<Rightarrow> bytes" where
  "tagged_frame n p = [2, 0, 0, 0, 0, 0, 0, 0, 0, n] @ p @ e2eeAAD ''c2s'' (ucast n)"

theorem network_cannot_forge_witness:
  "\<exists>m \<le> length [[7 :: byte], [8]]. snd (open_each demo_json (demo_session tagged_aead)
     [[1], [2, 0, 0, 0, 0, 0, 0, 0, 0, 5, 7], tagged_frame 6 [8], tagged_frame 5 [7], tagged_frame 5 [7], tagged_frame 6 [8]]) = take m [[7], [8]]"
proof (rule network_cannot_forge)
  show "peer (demo_session tagged_aead) (demo_session tagged_aead)" "aead_correct (es_send (demo_session tagged_aead))"
    by (simp_all add: peer_def demo_session_def tagged_correct)
  have "be_put 8 (5 :: u64) = [0, 0, 0, 0, 0, 0, 0, 5]" "be_put 8 (6 :: u64) = [0, 0, 0, 0, 0, 0, 0, 6]" by code_simp+
  then show "seal_all demo_json (demo_session tagged_aead) [[7], [8]] = (fst (seal_all demo_json (demo_session tagged_aead) [[7], [8]]), Inr [tagged_frame 5 [7], tagged_frame 6 [8]])"
    by (simp add: demo_session_def seal_def encodeFrame_def Let_def maxE2EESequence_def tagged_aead_def tagged_frame_def
        binaryFrameVersion_def binaryFrameKindData_def)
  show "unforged (es_receive (demo_session tagged_aead)) (seal_queries (demo_session tagged_aead) [[7], [8]])
     (open_tries demo_json (demo_session tagged_aead)
       [[1], [2, 0, 0, 0, 0, 0, 0, 0, 0, 5, 7], tagged_frame 6 [8], tagged_frame 5 [7], tagged_frame 5 [7], tagged_frame 6 [8]])"
    by code_simp
qed

theorem replay_refused_witness:
  "\<exists>err. snd (open_frame demo_json (fst (open_each demo_json (advance (demo_session demo_aead)) [[1]])) [2, 0, 0, 0, 0, 0, 0, 0, 0, 5, 7]) = Inl err"
  by (rule replay_refused [where r = "demo_session demo_aead" and p = "[7]"])
    (simp add: demo_session_def demo_aead_def open_frame_def decodeFrame_def binaryFrameHeaderSize_def binaryFrameVersion_def
      binaryFrameKindData_def be_get_def be_step_def maxE2EESequence_def advance_def)

theorem auth_inputs_bind_witness:
  "let s = \<lparr>sel_Kind = ''credential'', sel_ID = ''a'', sel_Version = 1, sel_Locale = ''en''\<rparr>;
       t = \<lparr>sel_Kind = ''invitation'', sel_ID = ''a'', sel_Version = 1, sel_Locale = ''en''\<rparr>
   in e2eeAuthBinding s @ [1] @ [2] \<noteq> e2eeAuthBinding t @ [1] @ [2]"
  using auth_inputs_bind [of "\<lparr>sel_Kind = ''credential'', sel_ID = ''a'', sel_Version = 1, sel_Locale = ''en''\<rparr>"
      "\<lparr>sel_Kind = ''invitation'', sel_ID = ''a'', sel_Version = 1, sel_Locale = ''en''\<rparr>" "[1]" "[1]" "[2]" "[2]" "[]" "[]" "[]" "[]"]
  unfolding Let_def by (auto simp: known_kind_def E2EEAuthCredential_def E2EEAuthInvitation_def)

lemma demo_parse: "parseE2EEClientHello cr demo_json raw = (if cr_validPoint cr (replicate 65 0) then
    Inr \<lparr>ph_selector = \<lparr>sel_Kind = E2EEAuthCredential, sel_ID = ''id'', sel_Version = 1, sel_Locale = ''en''\<rparr>,
      ph_nonce = replicate 32 0, ph_publicBytes = replicate 65 0, ph_proof = replicate 32 9\<rparr> else Inl InvalidClientPublicKey)"
  by (simp add: parseE2EEClientHello_def demo_json_def demo_hello_def e2eeVersion_def decodeE2EEField_def
      e2eeNonceBytes_def e2eePublicKeyBytes_def sha256Size_def)

lemma demo_handshake:
  "\<exists>st' conn' session. performServerE2EEHandshake (demo_crypto (replicate 32 9)) demo_json (Some [1]) (Some (replicate 32 3))
     (Some demo_resolver) 0 demo_conn = (st', conn', Inr (session, demo_identity))"
  unfolding performServerE2EEHandshake_def demo_parse
  by (simp add: demo_conn_def ReadFrame_def demo_crypto_def demo_resolver_def e2eeSecretBytes_def e2eeAuthTag_def handshake_keys_def Let_def
      newE2EESession_def newE2EEAEAD_def demo_json_def WriteFrame_def open_frame_def decodeFrame_def binaryFrameHeaderSize_def
      binaryFrameVersion_def binaryFrameKindData_def be_get_def be_step_def maxE2EESequence_def demo_aead_def
      parseE2EEClientFinish_def bytes_str_def ValidString_def e2eeVersion_def handshake_complete_def validAuthenticatedIdentity_def
      demo_identity_def seal_def encodeFrame_def)

theorem handshake_authenticates_witness:
  "\<exists>st' conn' session rawHello rawFinish. performServerE2EEHandshake (demo_crypto (replicate 32 9)) demo_json (Some [1])
       (Some (replicate 32 3)) (Some demo_resolver) 0 demo_conn = (st', conn', Inr (session, demo_identity))
     \<and> fc_in demo_conn = rawHello # rawFinish # fc_in conn' \<and> es_sendSequence session = 1"
proof -
  from demo_handshake obtain st' conn' session where
    run: "performServerE2EEHandshake (demo_crypto (replicate 32 9)) demo_json (Some [1]) (Some (replicate 32 3))
     (Some demo_resolver) 0 demo_conn = (st', conn', Inr (session, demo_identity))" by blast
  from run handshake_authenticates [OF run] show ?thesis by blast
qed

theorem handshake_silent_without_proof_witness:
  "fc_out (fst (snd (performServerE2EEHandshake (demo_crypto (replicate 32 8)) demo_json (Some [1]) (Some (replicate 32 3))
     (Some demo_resolver) 0 demo_conn))) = fc_out demo_conn"
proof -
  let ?cr = "demo_crypto (replicate 32 8)"
  obtain st' conn' result where run: "performServerE2EEHandshake ?cr demo_json (Some [1]) (Some (replicate 32 3))
     (Some demo_resolver) 0 demo_conn = (st', conn', result)" using prod_cases3 by blast
  have "\<not> proof_matches ?cr secret hello"
    if "parseE2EEClientHello ?cr demo_json raw = (Inr hello :: unit handshake_error + _)" for raw hello secret
    using that unfolding demo_parse
    by (auto simp: demo_crypto_def proof_matches_def e2eeAuthTag_def replicate_eq_replicate)
  with handshake_silent_without_proof [OF run] run show ?thesis by simp
qed

end
