(* ===== verification/Localize.thy ===== *)
theory Localize
  imports GoLib
begin

text \<open>
  Package \<^verbatim>\<open>internal/localize\<close> (\<^verbatim>\<open>locale.go\<close>): the supported locales and the normalisation of
  locale tags that the credential store and the push policies apply.
\<close>

section \<open>Locales\<close>

definition English :: string where "English = ''en''"
definition SimplifiedChinese :: string where "SimplifiedChinese = ''zh-CN''"

definition lower_char :: "char \<Rightarrow> char" where
  "lower_char c = (let n = of_char c :: nat in if 65 \<le> n \<and> n \<le> 90 then char_of (n + 32) else c)"

text \<open>
  \<^verbatim>\<open>strings.ToLower\<close> on ASCII; the letters it maps to ASCII from outside (the Kelvin sign and
  the dotted capital I) occur in neither supported tag.
\<close>

definition NormalizeLocale :: "string \<Rightarrow> string" where
  "NormalizeLocale v =
     (let tag = map lower_char (map (\<lambda>c. if c = CHR ''_'' then CHR ''-'' else c) (TrimSpace v))
      in if tag = ''zh-cn'' \<or> take 6 tag = ''zh-cn-'' then SimplifiedChinese
         else if tag = ''en'' \<or> take 3 tag = ''en-'' then English
         else English)"

lemma NormalizeLocale_cases: "NormalizeLocale v = English \<or> NormalizeLocale v = SimplifiedChinese"
  by (simp add: NormalizeLocale_def Let_def)

lemma NormalizeLocale_ne [simp]: "NormalizeLocale v \<noteq> []"
  by (simp add: NormalizeLocale_def Let_def English_def SimplifiedChinese_def)

text \<open>Normalising twice is normalising once.\<close>

lemma NormalizeLocale_idem [simp]: "NormalizeLocale (NormalizeLocale v) = NormalizeLocale v"
proof -
  have "TrimSpace English = English" "TrimSpace SimplifiedChinese = SimplifiedChinese"
    by (simp_all add: English_def SimplifiedChinese_def TrimSpace_def trim_segs_def utf8_segs_ascii IsSpace_def)
  moreover have "char_of (99 :: nat) = CHR ''c''" "char_of (110 :: nat) = CHR ''n''" by code_simp+
  ultimately have "NormalizeLocale English = English" "NormalizeLocale SimplifiedChinese = SimplifiedChinese"
    by (simp_all add: NormalizeLocale_def Let_def English_def SimplifiedChinese_def lower_char_def)
  then show ?thesis using NormalizeLocale_cases [of v] by auto
qed

end
