(* ===== verification/DeviceAuth.thy ===== *)
theory DeviceAuth
  imports E2EE Localize
begin

text \<open>
  Package \<^verbatim>\<open>internal/deviceauth\<close> (\<^verbatim>\<open>store.go\<close>, \<^verbatim>\<open>resolver.go\<close>): the credential store of the relay and its role as the authentication
  authority of the encrypted transport. Every method holds the store's mutex, so each is one
  atomic step. The clock is the sequence of its readings, the random source the bytes still
  to be read, the file its decoded contents, and each write of the file may fail before or
  after the rename made it visible.
\<close>

section \<open>Records\<close>

definition storeSchemaVersion :: int where "storeSchemaVersion = 1"
definition secretBytes :: nat where "secretBytes = 32"
definition identifierBytes :: nat where "identifierBytes = 18"
definition invitationLifetime :: duration where "invitationLifetime = 10 * minute"
definition bootstrapInvitationID :: string where "bootstrapInvitationID = ''bootstrap''"
definition maxInviteAttempts :: int where "maxInviteAttempts = 5"
definition maxNameBytes :: nat where "maxNameBytes = 80"
definition maxLocaleBytes :: nat where "maxLocaleBytes = 32"
definition RoleController :: string where "RoleController = ''controller''"
definition RoleReader :: string where "RoleReader = ''reader''"

datatype auth_error =
    ErrNotFound | ErrRevoked | ErrLastController | ErrInvalidRole | ErrInvalidName | ErrInvalidLocale
  | ErrInvitationExpired | ErrInvitationBurned | ErrRateLimited | ErrAuthentication
  | ErrBootstrapSecret | ErrRandom | ErrUniqueIdentifier | ErrPersist

record Credential =
  cd_DeviceID :: string
  cd_CredentialID :: string
  cd_Name :: string
  cd_Role :: string
  cd_Locale :: string
  cd_PairedAt :: time
  cd_LastSeenAt :: time
  cd_Version :: u64
  cd_Revoked :: bool
  cd_Current :: bool

record Invitation =
  in_InvitationID :: string
  in_Version :: u64
  in_Secret :: string
  in_ExpiresAt :: time
  in_Name :: string
  in_Role :: string
  in_Locale :: string

record credentialRecord =
  rec_Credential :: Credential
  rec_Secret :: string

record invitationRecord = Invitation +
  in_FailedAttempts :: int
  in_NextAttemptAt :: time
  in_PendingCredentialID :: string

record diskState =
  ds_SchemaVersion :: int
  ds_Invitation :: "invitationRecord option"
  ds_Credentials :: "credentialRecord list"

record Store =
  dv_now :: "nat \<Rightarrow> time"
  dv_reads :: nat
  dv_random :: bytes
  dv_fault :: "nat \<Rightarrow> write_fault"
  dv_writes :: nat
  dv_rearmBootstrap :: bool
  dv_state :: diskState
  dv_disk :: "diskState option"

section \<open>Validation\<close>

definition validText :: "string \<Rightarrow> nat \<Rightarrow> bool" where
  "validText v maxBytes =
     (if v = [] \<or> length v > maxBytes \<or> \<not> ValidString v then False
      else \<forall>c \<in> set (rune_seq v). \<not> IsControl c)"

definition validateMetadata :: "string \<Rightarrow> string \<Rightarrow> string \<Rightarrow> auth_error + (string \<times> string)" where
  "validateMetadata name0 role locale0 =
     (let name = TrimSpace name0; locale = TrimSpace locale0 in
      if \<not> validText name maxNameBytes then Inl ErrInvalidName
      else if role \<noteq> RoleController \<and> role \<noteq> RoleReader then Inl ErrInvalidRole
      else if \<not> validText locale maxLocaleBytes \<or> ContainsAny locale ('' /'' @ [CHR 0x5C])
      then Inl ErrInvalidLocale
      else Inr (name, locale))"

definition validSecret :: "string \<Rightarrow> bool" where
  "validSecret encoded = (case b64_decode encoded of None \<Rightarrow> False | Some decoded \<Rightarrow> length decoded = secretBytes)"

definition metadata_ok :: "string \<Rightarrow> string \<Rightarrow> string \<Rightarrow> bool" where
  "metadata_ok name role locale = (case validateMetadata name role locale of Inl _ \<Rightarrow> False | Inr _ \<Rightarrow> True)"

text \<open>The loop of \<open>validateState\<close>; \<open>None\<close> is an error, otherwise the identifiers of the active credentials.\<close>

fun validate_credentials :: "credentialRecord list \<Rightarrow> string set \<Rightarrow> string set \<Rightarrow> string set \<Rightarrow> string set option" where
  "validate_credentials [] seenDevices seenCredentials active = Some active"
| "validate_credentials (r # rs) seenDevices seenCredentials active =
     (let c = rec_Credential r in
      if cd_DeviceID c = [] \<or> cd_CredentialID c = [] \<or> cd_Version c = 0 then None
      else if cd_DeviceID c \<in> seenDevices then None
      else if cd_CredentialID c \<in> seenCredentials then None
      else if \<not> metadata_ok (cd_Name c) (cd_Role c) (cd_Locale c) then None
      else if cd_Revoked c
      then if rec_Secret r \<noteq> [] then None
           else validate_credentials rs (insert (cd_DeviceID c) seenDevices) (insert (cd_CredentialID c) seenCredentials) active
      else if \<not> validSecret (rec_Secret r) then None
      else validate_credentials rs (insert (cd_DeviceID c) seenDevices) (insert (cd_CredentialID c) seenCredentials)
             (insert (cd_CredentialID c) active))"

definition validateState :: "diskState \<Rightarrow> bool" where
  "validateState state =
     (case validate_credentials (ds_Credentials state) {} {} {} of
        None \<Rightarrow> False
      | Some active \<Rightarrow>
          (case ds_Invitation state of
             None \<Rightarrow> True
           | Some ivt \<Rightarrow>
               if in_InvitationID ivt = [] \<or> in_Version ivt = 0 \<or> \<not> validSecret (in_Secret ivt) then False
               else if in_FailedAttempts ivt < 0 \<or> in_FailedAttempts ivt \<ge> maxInviteAttempts then False
               else if \<not> metadata_ok (in_Name ivt) (in_Role ivt) (in_Locale ivt) then False
               else in_PendingCredentialID ivt = [] \<or> in_PendingCredentialID ivt \<in> active))"

section \<open>Clock, random source and file\<close>

definition read_clock :: "Store \<Rightarrow> time \<times> Store" where
  "read_clock s = (dv_now s (dv_reads s), s\<lparr>dv_reads := Suc (dv_reads s)\<rparr>)"

definition randomValue :: "Store \<Rightarrow> nat \<Rightarrow> Store \<times> (auth_error + string)" where
  "randomValue s n =
     (if length (dv_random s) < n then (s\<lparr>dv_random := []\<rparr>, Inl ErrRandom)
      else (s\<lparr>dv_random := drop n (dv_random s)\<rparr>, Inr (b64_encode (take n (dv_random s)))))"

definition persistLocked :: "Store \<Rightarrow> Store \<times> bool" where
  "persistLocked s =
     (let s' = s\<lparr>dv_writes := Suc (dv_writes s)\<rparr> in
      case dv_fault s (dv_writes s) of
        NoFault \<Rightarrow> (s'\<lparr>dv_disk := Some (dv_state s)\<rparr>, True)
      | FaultBeforeRename \<Rightarrow> (s', False)
      | FaultAfterRename \<Rightarrow> (s'\<lparr>dv_disk := Some (dv_state s)\<rparr>, False))"

definition set_invitation :: "Store \<Rightarrow> invitationRecord option \<Rightarrow> Store" where
  "set_invitation s ivt = s\<lparr>dv_state := (dv_state s)\<lparr>ds_Invitation := ivt\<rparr>\<rparr>"

definition set_credentials :: "Store \<Rightarrow> credentialRecord list \<Rightarrow> Store" where
  "set_credentials s cs = s\<lparr>dv_state := (dv_state s)\<lparr>ds_Credentials := cs\<rparr>\<rparr>"

abbreviation s_invitation :: "Store \<Rightarrow> invitationRecord option" where
  "s_invitation s \<equiv> ds_Invitation (dv_state s)"

abbreviation s_credentials :: "Store \<Rightarrow> credentialRecord list" where
  "s_credentials s \<equiv> ds_Credentials (dv_state s)"

text \<open>
  The file when the store is opened: absent, unreadable or undecodable, or one JSON value of some
  number of bytes. The decoder reads at most 4 MiB of it, so a longer value ends too early.
\<close>

datatype store_file = FileMissing | FileUnreadable | FileDecoded nat diskState

definition maxStoreBytes :: nat where "maxStoreBytes = 4 * 2 ^ 20"

definition load_state :: "Store \<Rightarrow> store_file \<Rightarrow> Store option" where
  "load_state s file = (case file of
       FileMissing \<Rightarrow> Some s
     | FileUnreadable \<Rightarrow> None
     | FileDecoded bytes state \<Rightarrow>
         if bytes > maxStoreBytes then None
         else if ds_SchemaVersion state \<noteq> storeSchemaVersion then None
         else if \<not> validateState state then None
         else Some (s\<lparr>dv_state := state\<rparr>))"

definition Open_store :: "(nat \<Rightarrow> time) \<Rightarrow> bytes \<Rightarrow> (nat \<Rightarrow> write_fault) \<Rightarrow> bool \<Rightarrow> store_file \<Rightarrow> Store option" where
  "Open_store now random fault rearm file =
     (let s = \<lparr>dv_now = now, dv_reads = 0, dv_random = random, dv_fault = fault, dv_writes = 0, dv_rearmBootstrap = rearm,
               dv_state = \<lparr>ds_SchemaVersion = storeSchemaVersion, ds_Invitation = None, ds_Credentials = []\<rparr>,
               dv_disk = (case file of FileDecoded _ state \<Rightarrow> Some state | _ \<Rightarrow> None)\<rparr>
      in case load_state s file of
           None \<Rightarrow> None
         | Some s1 \<Rightarrow> (case persistLocked s1 of (s2, True) \<Rightarrow> Some s2 | (_, False) \<Rightarrow> None))"

section \<open>Operations of the store\<close>

definition invitationFromRecord :: "invitationRecord \<Rightarrow> Invitation" where
  "invitationFromRecord r =
     \<lparr>in_InvitationID = in_InvitationID r, in_Version = in_Version r, in_Secret = in_Secret r, in_ExpiresAt = in_ExpiresAt r,
      in_Name = in_Name r, in_Role = in_Role r, in_Locale = in_Locale r\<rparr>"

definition CreateInvitation :: "Store \<Rightarrow> string \<Rightarrow> string \<Rightarrow> string \<Rightarrow> Store \<times> (auth_error + Invitation)" where
  "CreateInvitation s name0 role locale0 =
     (case validateMetadata name0 role locale0 of Inl err \<Rightarrow> (s, Inl err) | Inr (name, locale) \<Rightarrow>
     (case randomValue s identifierBytes of (s1, Inl err) \<Rightarrow> (s1, Inl err) | (s1, Inr ident) \<Rightarrow>
     (case randomValue s1 secretBytes of (s2, Inl err) \<Rightarrow> (s2, Inl err) | (s2, Inr secret) \<Rightarrow>
       let (now, s3) = read_clock s2;
           record = \<lparr>in_InvitationID = ident, in_Version = 1, in_Secret = secret, in_ExpiresAt = now + invitationLifetime,
                     in_Name = name, in_Role = role, in_Locale = locale,
                     in_FailedAttempts = 0, in_NextAttemptAt = 0, in_PendingCredentialID = []\<rparr>;
           previous = s_invitation s3
       in case persistLocked (set_invitation s3 (Some record)) of
            (s4, False) \<Rightarrow> (set_invitation s4 previous, Inl ErrPersist)
          | (s4, True) \<Rightarrow> (s4, Inr (invitationFromRecord record)))))"

definition bootstrapRecord :: "bytes \<Rightarrow> string \<Rightarrow> string \<Rightarrow> time \<Rightarrow> invitationRecord" where
  "bootstrapRecord secret name locale now =
     \<lparr>in_InvitationID = bootstrapInvitationID, in_Version = 1, in_Secret = b64_encode secret,
      in_ExpiresAt = now + invitationLifetime, in_Name = name, in_Role = RoleController, in_Locale = locale,
      in_FailedAttempts = 0, in_NextAttemptAt = 0, in_PendingCredentialID = []\<rparr>"

definition armBootstrapLocked :: "Store \<Rightarrow> bytes \<Rightarrow> string \<Rightarrow> string \<Rightarrow> time \<Rightarrow> Store \<times> (auth_error + unit)" where
  "armBootstrapLocked s secret name locale now =
     (let previous = s_invitation s
      in case persistLocked (set_invitation s (Some (bootstrapRecord secret name locale now))) of
           (s', False) \<Rightarrow> (set_invitation s' previous, Inl ErrPersist)
         | (s', True) \<Rightarrow> (s', Inr ()))"

definition EnsureBootstrapInvitation :: "Store \<Rightarrow> bytes \<Rightarrow> string \<Rightarrow> string \<Rightarrow> Store \<times> (auth_error + unit)" where
  "EnsureBootstrapInvitation s secret name0 locale0 =
     (case validateMetadata name0 RoleController locale0 of Inl err \<Rightarrow> (s, Inl err) | Inr (name, locale) \<Rightarrow>
      if length secret \<noteq> secretBytes then (s, Inl ErrBootstrapSecret)
      else if s_credentials s \<noteq> [] \<and> \<not> dv_rearmBootstrap s then (s, Inr ())
      else let (now, s1) = read_clock s in
           case s_invitation s1 of
             Some record \<Rightarrow>
               if now < in_ExpiresAt record \<and> (\<not> dv_rearmBootstrap s1 \<or> in_FailedAttempts record < maxInviteAttempts)
               then (s1, Inr ()) else armBootstrapLocked s1 secret name locale now
           | None \<Rightarrow> armBootstrapLocked s1 secret name locale now)"

definition ArmBootstrapInvitation :: "Store \<Rightarrow> bytes \<Rightarrow> string \<Rightarrow> string \<Rightarrow> Store \<times> (auth_error + unit)" where
  "ArmBootstrapInvitation s secret name0 locale0 =
     (case validateMetadata name0 RoleController locale0 of Inl err \<Rightarrow> (s, Inl err) | Inr (name, locale) \<Rightarrow>
      if length secret \<noteq> secretBytes then (s, Inl ErrBootstrapSecret)
      else let (now, s1) = read_clock s in armBootstrapLocked s1 secret name locale now)"

definition ListCredentials :: "Store \<Rightarrow> string \<Rightarrow> Credential list" where
  "ListCredentials s currentCredentialID =
     map (\<lambda>r. (rec_Credential r)\<lparr>cd_Current := (cd_CredentialID (rec_Credential r) = currentCredentialID)\<rparr>) (s_credentials s)"

fun credential_index_from :: "credentialRecord list \<Rightarrow> string \<Rightarrow> nat \<Rightarrow> nat option" where
  "credential_index_from [] credentialID i = None"
| "credential_index_from (r # rs) credentialID i =
     (if cd_CredentialID (rec_Credential r) = credentialID then Some i else credential_index_from rs credentialID (Suc i))"

definition credentialIndex :: "Store \<Rightarrow> string \<Rightarrow> nat option" where
  "credentialIndex s credentialID = credential_index_from (s_credentials s) credentialID 0"

definition AuthorizeCredential :: "Store \<Rightarrow> string \<Rightarrow> u64 \<Rightarrow> Credential option" where
  "AuthorizeCredential s credentialID version =
     (case credentialIndex s credentialID of
        None \<Rightarrow> None
      | Some index \<Rightarrow>
          let credential = rec_Credential (s_credentials s ! index)
          in if cd_Revoked credential \<or> cd_Version credential \<noteq> version then None else Some credential)"

definition RenameCredential :: "Store \<Rightarrow> string \<Rightarrow> string \<Rightarrow> Store \<times> (auth_error + Credential)" where
  "RenameCredential s credentialID name0 =
     (let name = TrimSpace name0 in
      if \<not> validText name maxNameBytes then (s, Inl ErrInvalidName)
      else case credentialIndex s credentialID of
             None \<Rightarrow> (s, Inl ErrNotFound)
           | Some index \<Rightarrow>
               let previous = s_credentials s ! index;
                   renamed = previous\<lparr>rec_Credential := (rec_Credential previous)\<lparr>cd_Name := name\<rparr>\<rparr>
               in case persistLocked (set_credentials s ((s_credentials s)[index := renamed])) of
                    (s', False) \<Rightarrow> (set_credentials s' ((s_credentials s')[index := previous]), Inl ErrPersist)
                  | (s', True) \<Rightarrow> (s', Inr (rec_Credential (s_credentials s' ! index))))"

definition activeControllerCountLocked :: "Store \<Rightarrow> nat" where
  "activeControllerCountLocked s =
     length (filter (\<lambda>r. \<not> cd_Revoked (rec_Credential r) \<and> cd_Role (rec_Credential r) = RoleController) (s_credentials s))"

definition revoke_record :: "credentialRecord \<Rightarrow> credentialRecord" where
  "revoke_record r =
     (if cd_Revoked (rec_Credential r) then r
      else r\<lparr>rec_Credential := (rec_Credential r)\<lparr>cd_Revoked := True, cd_Version := cd_Version (rec_Credential r) + 1\<rparr>,
             rec_Secret := []\<rparr>)"

text \<open>An invitation waiting for the credential is withdrawn.\<close>

definition drop_pending :: "Store \<Rightarrow> string \<Rightarrow> Store" where
  "drop_pending s cid = (case s_invitation s of
      Some ivt \<Rightarrow> if in_PendingCredentialID ivt = cid then set_invitation s None else s
    | None \<Rightarrow> s)"

definition RevokeCredential :: "Store \<Rightarrow> string \<Rightarrow> Store \<times> (auth_error + Credential)" where
  "RevokeCredential s credentialID =
     (case credentialIndex s credentialID of
        None \<Rightarrow> (s, Inl ErrNotFound)
      | Some index \<Rightarrow>
          let record = s_credentials s ! index in
          if \<not> cd_Revoked (rec_Credential record) \<and> cd_Role (rec_Credential record) = RoleController
             \<and> activeControllerCountLocked s = 1
          then (s, Inl ErrLastController)
          else
            let previousInvitation = s_invitation s;
                s1 = set_credentials s ((s_credentials s)[index := revoke_record record]);
                s2 = drop_pending s1 credentialID
            in case persistLocked s2 of
                 (s3, False) \<Rightarrow>
                   (set_invitation (set_credentials s3 ((s_credentials s3)[index := record])) previousInvitation, Inl ErrPersist)
               | (s3, True) \<Rightarrow> (s3, Inr (rec_Credential (s_credentials s3 ! index))))"

definition ResetWithBootstrap :: "Store \<Rightarrow> bytes \<Rightarrow> string \<Rightarrow> string \<Rightarrow> Store \<times> (auth_error + unit)" where
  "ResetWithBootstrap s secret name0 locale0 =
     (case validateMetadata name0 RoleController locale0 of Inl err \<Rightarrow> (s, Inl err) | Inr (name, locale) \<Rightarrow>
      if length secret \<noteq> secretBytes then (s, Inl ErrBootstrapSecret)
      else let previous = dv_state s; (now, s1) = read_clock s
           in case persistLocked (s1\<lparr>dv_state := \<lparr>ds_SchemaVersion = storeSchemaVersion,
                     ds_Invitation = Some (bootstrapRecord secret name locale now), ds_Credentials = []\<rparr>\<rparr>) of
                (s2, False) \<Rightarrow> (s2\<lparr>dv_state := previous\<rparr>, Inl ErrPersist)
              | (s2, True) \<Rightarrow> (s2, Inr ()))"

section \<open>The store as the authority of the transport\<close>

definition IsE2EEAuthRejected :: "auth_error \<Rightarrow> bool" where
  "IsE2EEAuthRejected err \<longleftrightarrow>
     err = ErrAuthentication \<or> err = ErrRevoked \<or> err = ErrInvitationExpired \<or> err = ErrInvitationBurned"

definition decodeStoredSecret :: "string \<Rightarrow> auth_error + bytes" where
  "decodeStoredSecret encoded =
     (case b64_decode encoded of None \<Rightarrow> Inl ErrAuthentication
      | Some secret \<Rightarrow> if length secret \<noteq> secretBytes then Inl ErrAuthentication else Inr secret)"

definition resolve_checked :: "Store \<Rightarrow> invitationRecord \<Rightarrow> time \<Rightarrow> Store \<times> (auth_error + bytes)" where
  "resolve_checked s record now =
     (if in_FailedAttempts record \<ge> maxInviteAttempts then (s, Inl ErrInvitationBurned)
      else if now < in_NextAttemptAt record then (s, Inl ErrRateLimited)
      else (s, decodeStoredSecret (in_Secret record)))"

definition ResolveE2EESecret :: "Store \<Rightarrow> E2EEAuthSelector \<Rightarrow> Store \<times> (auth_error + bytes)" where
  "ResolveE2EESecret s0 selector =
     (let (now, s) = read_clock s0 in
      if sel_Kind selector = E2EEAuthInvitation
      then case s_invitation s of
             None \<Rightarrow> (s, Inl ErrAuthentication)
           | Some record \<Rightarrow>
               if in_InvitationID record \<noteq> sel_ID selector \<or> in_Version record \<noteq> sel_Version selector
               then (s, Inl ErrAuthentication)
               else if \<not> now < in_ExpiresAt record
               then if in_InvitationID record = bootstrapInvitationID \<and> (s_credentials s = [] \<or> dv_rearmBootstrap s)
                    then let refreshed = record\<lparr>in_ExpiresAt := now + invitationLifetime\<rparr>
                         in case persistLocked (set_invitation s (Some refreshed)) of
                              (s', False) \<Rightarrow>
                                (set_invitation s' (Some (refreshed\<lparr>in_ExpiresAt := in_ExpiresAt record\<rparr>)), Inl ErrPersist)
                            | (s', True) \<Rightarrow> resolve_checked s' refreshed now
                    else case persistLocked (set_invitation s None) of
                           (s', False) \<Rightarrow> (set_invitation s' (Some record), Inl ErrPersist)
                         | (s', True) \<Rightarrow> (s', Inl ErrInvitationExpired)
               else resolve_checked s record now
      else if sel_Kind selector = E2EEAuthCredential
      then case credentialIndex s (sel_ID selector) of
             None \<Rightarrow> (s, Inl ErrAuthentication)
           | Some index \<Rightarrow>
               let record = s_credentials s ! index
               in if cd_Revoked (rec_Credential record) then (s, Inl ErrRevoked)
                  else if cd_Version (rec_Credential record) \<noteq> sel_Version selector then (s, Inl ErrAuthentication)
                  else (s, decodeStoredSecret (rec_Secret record))
      else (s, Inl ErrAuthentication))"

definition recordFailedInvitationLocked :: "Store \<Rightarrow> E2EEAuthSelector \<Rightarrow> Store \<times> auth_error" where
  "recordFailedInvitationLocked s0 selector =
     (case s_invitation s0 of
        None \<Rightarrow> (s0, ErrAuthentication)
      | Some record \<Rightarrow>
          if in_InvitationID record \<noteq> sel_ID selector \<or> in_Version record \<noteq> sel_Version selector
          then (s0, ErrAuthentication)
          else if in_InvitationID record = bootstrapInvitationID then (s0, ErrAuthentication)
          else
            let (now, s) = read_clock s0 in
            if \<not> now < in_ExpiresAt record
            then case persistLocked (set_invitation s None) of
                   (s', False) \<Rightarrow> (set_invitation s' (Some record), ErrPersist)
                 | (s', True) \<Rightarrow> (s', ErrInvitationExpired)
            else
              let attempts = in_FailedAttempts record + 1;
                  burned = (attempts \<ge> maxInviteAttempts);
                  delay = second * 2 ^ nat (attempts - 1);
                  next = (if burned then None
                          else Some (record\<lparr>in_FailedAttempts := attempts, in_NextAttemptAt := now + delay\<rparr>))
              in case persistLocked (set_invitation s next) of
                   (s', False) \<Rightarrow> (set_invitation s' (Some record), ErrPersist)
                 | (s', True) \<Rightarrow> (s', if burned then ErrInvitationBurned else ErrAuthentication))"

fun uniqueDeviceIDLocked :: "nat \<Rightarrow> Store \<Rightarrow> Store \<times> (auth_error + string)" where
  "uniqueDeviceIDLocked 0 s = (s, Inl ErrUniqueIdentifier)"
| "uniqueDeviceIDLocked (Suc n) s =
     (case randomValue s identifierBytes of
        (s', Inl err) \<Rightarrow> (s', Inl err)
      | (s', Inr ident) \<Rightarrow>
          if \<forall>r \<in> set (s_credentials s'). cd_DeviceID (rec_Credential r) \<noteq> ident then (s', Inr ident)
          else uniqueDeviceIDLocked n s')"

fun uniqueCredentialIDLocked :: "nat \<Rightarrow> Store \<Rightarrow> Store \<times> (auth_error + string)" where
  "uniqueCredentialIDLocked 0 s = (s, Inl ErrUniqueIdentifier)"
| "uniqueCredentialIDLocked (Suc n) s =
     (case randomValue s identifierBytes of
        (s', Inl err) \<Rightarrow> (s', Inl err)
      | (s', Inr ident) \<Rightarrow> if credentialIndex s' ident = None then (s', Inr ident) else uniqueCredentialIDLocked n s')"

definition credentialAuthResult :: "credentialRecord \<Rightarrow> bool \<Rightarrow> auth_error + E2EEAuthResult" where
  "credentialAuthResult record issueSecret =
     (let c = rec_Credential record;
          identity = \<lparr>ai_DeviceID = cd_DeviceID c, ai_CredentialID = cd_CredentialID c, ai_Role = cd_Role c,
                      ai_Locale = cd_Locale c, ai_CredentialVersion = cd_Version c\<rparr>
      in if \<not> issueSecret then Inr \<lparr>ar_Identity = identity, ar_CredentialSecret = []\<rparr>
         else case decodeStoredSecret (rec_Secret record) of
                Inl err \<Rightarrow> Inl err
              | Inr secret \<Rightarrow> Inr \<lparr>ar_Identity = identity, ar_CredentialSecret = secret\<rparr>)"

text \<open>The new credential of a first redemption, once its identifiers and secret are drawn.\<close>

definition issue_credential ::
  "Store \<Rightarrow> E2EEAuthSelector \<Rightarrow> invitationRecord \<Rightarrow> time \<Rightarrow> string \<Rightarrow> string \<Rightarrow> string \<Rightarrow> Store \<times> (auth_error + E2EEAuthResult)" where
  "issue_credential s selector record now deviceID credentialID secret =
     (case decodeStoredSecret secret of Inl err \<Rightarrow> (s, Inl err) | Inr secretBytesValue \<Rightarrow>
      let locale = NormalizeLocale (sel_Locale selector);
          credential = \<lparr>rec_Credential = \<lparr>cd_DeviceID = deviceID, cd_CredentialID = credentialID, cd_Name = in_Name record,
               cd_Role = in_Role record, cd_Locale = locale, cd_PairedAt = now, cd_LastSeenAt = now, cd_Version = 1,
               cd_Revoked = False, cd_Current = False\<rparr>, rec_Secret = secret\<rparr>;
          s1 = set_credentials (set_invitation s (Some (record\<lparr>in_PendingCredentialID := credentialID\<rparr>)))
                 (s_credentials s @ [credential])
      in case persistLocked s1 of
           (s2, False) \<Rightarrow>
             (set_credentials (set_invitation s2 (Some (record\<lparr>in_PendingCredentialID := []\<rparr>)))
                (take (length (s_credentials s2) - 1) (s_credentials s2)), Inl ErrPersist)
         | (s2, True) \<Rightarrow>
             (s2, Inr \<lparr>ar_Identity = \<lparr>ai_DeviceID = deviceID, ai_CredentialID = credentialID, ai_Role = in_Role record,
                         ai_Locale = locale, ai_CredentialVersion = 1\<rparr>,
                       ar_CredentialSecret = secretBytesValue\<rparr>))"

definition redeemInvitationLocked :: "Store \<Rightarrow> E2EEAuthSelector \<Rightarrow> Store \<times> (auth_error + E2EEAuthResult)" where
  "redeemInvitationLocked s0 selector =
     (case s_invitation s0 of
        None \<Rightarrow> (s0, Inl ErrAuthentication)
      | Some record \<Rightarrow>
          if in_InvitationID record \<noteq> sel_ID selector \<or> in_Version record \<noteq> sel_Version selector
          then (s0, Inl ErrAuthentication)
          else
            let (now, s) = read_clock s0 in
            if \<not> now < in_ExpiresAt record
            then case persistLocked (set_invitation s None) of
                   (s', False) \<Rightarrow> (set_invitation s' (Some record), Inl ErrPersist)
                 | (s', True) \<Rightarrow> (s', Inl ErrInvitationExpired)
            else if in_PendingCredentialID record \<noteq> []
            then case credentialIndex s (in_PendingCredentialID record) of
                   None \<Rightarrow> (s, Inl ErrAuthentication)
                 | Some index \<Rightarrow> (s, credentialAuthResult (s_credentials s ! index) True)
            else
              (case uniqueDeviceIDLocked 8 s of (s1, Inl err) \<Rightarrow> (s1, Inl err) | (s1, Inr deviceID) \<Rightarrow>
              (case uniqueCredentialIDLocked 8 s1 of (s2, Inl err) \<Rightarrow> (s2, Inl err) | (s2, Inr credentialID) \<Rightarrow>
              (case randomValue s2 secretBytes of (s3, Inl err) \<Rightarrow> (s3, Inl err) | (s3, Inr secret) \<Rightarrow>
                 issue_credential s3 selector record now deviceID credentialID secret))))"

definition completeCredentialLocked :: "Store \<Rightarrow> E2EEAuthSelector \<Rightarrow> Store \<times> (auth_error + E2EEAuthResult)" where
  "completeCredentialLocked s0 selector =
     (case credentialIndex s0 (sel_ID selector) of
        None \<Rightarrow> (s0, Inl ErrAuthentication)
      | Some index \<Rightarrow>
          let record = s_credentials s0 ! index; c = rec_Credential record in
          if cd_Revoked c \<or> cd_Version c \<noteq> sel_Version selector then (s0, Inl ErrAuthentication)
          else
            let previousInvitation = s_invitation s0;
                (now, s) = read_clock s0;
                seen = record\<lparr>rec_Credential := c\<lparr>cd_LastSeenAt := now, cd_Locale := NormalizeLocale (sel_Locale selector)\<rparr>\<rparr>;
                s1 = set_credentials s ((s_credentials s)[index := seen]);
                s2 = drop_pending s1 (cd_CredentialID c)
            in case persistLocked s2 of
                 (s3, False) \<Rightarrow>
                   (set_invitation (set_credentials s3 ((s_credentials s3)[index :=
                       seen\<lparr>rec_Credential := (rec_Credential seen)\<lparr>cd_LastSeenAt := cd_LastSeenAt c, cd_Locale := cd_Locale c\<rparr>\<rparr>]))
                      previousInvitation, Inl ErrPersist)
               | (s3, True) \<Rightarrow> (s3, credentialAuthResult (s_credentials s3 ! index) False))"

definition CompleteE2EEAuth :: "Store \<Rightarrow> E2EEAuthSelector \<Rightarrow> bool \<Rightarrow> Store \<times> (auth_error + E2EEAuthResult)" where
  "CompleteE2EEAuth s selector authenticated =
     (if \<not> authenticated
      then if sel_Kind selector \<noteq> E2EEAuthInvitation then (s, Inl ErrAuthentication)
           else let (s', err) = recordFailedInvitationLocked s selector in (s', Inl err)
      else if sel_Kind selector = E2EEAuthInvitation then redeemInvitationLocked s selector
      else if sel_Kind selector = E2EEAuthCredential then completeCredentialLocked s selector
      else (s, Inl ErrAuthentication))"

definition store_resolver :: "(Store, auth_error) resolver" where
  "store_resolver = \<lparr>rs_ResolveE2EESecret = ResolveE2EESecret, rs_CompleteE2EEAuth = CompleteE2EEAuth,
     rs_IsE2EEAuthRejected = IsE2EEAuthRejected\<rparr>"

section \<open>Well-formed states\<close>

abbreviation rec_dev :: "credentialRecord \<Rightarrow> string" where "rec_dev r \<equiv> cd_DeviceID (rec_Credential r)"
abbreviation rec_cid :: "credentialRecord \<Rightarrow> string" where "rec_cid r \<equiv> cd_CredentialID (rec_Credential r)"
abbreviation rec_revoked :: "credentialRecord \<Rightarrow> bool" where "rec_revoked r \<equiv> cd_Revoked (rec_Credential r)"

definition rec_ok :: "credentialRecord \<Rightarrow> bool" where
  "rec_ok r \<longleftrightarrow> rec_dev r \<noteq> [] \<and> rec_cid r \<noteq> [] \<and> cd_Version (rec_Credential r) \<noteq> 0
     \<and> metadata_ok (cd_Name (rec_Credential r)) (cd_Role (rec_Credential r)) (cd_Locale (rec_Credential r))
     \<and> (if rec_revoked r then rec_Secret r = [] else validSecret (rec_Secret r))"

definition creds_ok :: "credentialRecord list \<Rightarrow> bool" where
  "creds_ok cs \<longleftrightarrow> (\<forall>r \<in> set cs. rec_ok r) \<and> distinct (map rec_dev cs) \<and> distinct (map rec_cid cs)"

definition active_ids :: "credentialRecord list \<Rightarrow> string set" where
  "active_ids cs = rec_cid ` {r \<in> set cs. \<not> rec_revoked r}"

definition invite_ok :: "invitationRecord \<Rightarrow> bool" where
  "invite_ok i \<longleftrightarrow> in_InvitationID i \<noteq> [] \<and> in_Version i \<noteq> 0 \<and> validSecret (in_Secret i)
     \<and> 0 \<le> in_FailedAttempts i \<and> in_FailedAttempts i < maxInviteAttempts
     \<and> metadata_ok (in_Name i) (in_Role i) (in_Locale i)"

lemma validate_credentials_iff:
  "validate_credentials rs D C A = Some A' \<longleftrightarrow>
     creds_ok rs \<and> rec_dev ` set rs \<inter> D = {} \<and> rec_cid ` set rs \<inter> C = {} \<and> A' = A \<union> active_ids rs"
proof (induction rs arbitrary: D C A)
  case Nil
  then show ?case by (auto simp: creds_ok_def active_ids_def)
next
  case (Cons r rs)
  show ?case
    by (auto simp: Cons.IH creds_ok_def rec_ok_def active_ids_def Let_def)
qed

lemma validateState_iff:
  "validateState st \<longleftrightarrow> creds_ok (ds_Credentials st) \<and>
     (\<forall>i. ds_Invitation st = Some i \<longrightarrow> invite_ok i \<and>
        (in_PendingCredentialID i = [] \<or> in_PendingCredentialID i \<in> active_ids (ds_Credentials st)))"
proof (cases "validate_credentials (ds_Credentials st) {} {} {}")
  case None
  then have "\<not> creds_ok (ds_Credentials st)"
    using validate_credentials_iff [of "ds_Credentials st" "{}" "{}" "{}"] by auto
  with None show ?thesis by (simp add: validateState_def)
next
  case (Some A)
  then have "creds_ok (ds_Credentials st)" "A = active_ids (ds_Credentials st)"
    using validate_credentials_iff [of "ds_Credentials st" "{}" "{}" "{}"] by auto
  with Some show ?thesis by (auto simp: validateState_def invite_ok_def split: option.splits if_splits)
qed

text \<open>A state the store may be in: loadable, and no live version so high that revoking wraps it.\<close>

definition state_ok :: "diskState \<Rightarrow> bool" where
  "state_ok st \<longleftrightarrow> ds_SchemaVersion st = storeSchemaVersion \<and> validateState st
     \<and> (\<forall>r \<in> set (ds_Credentials st). \<not> rec_revoked r \<longrightarrow> cd_Version (rec_Credential r) + 1 \<noteq> 0)"

lemma state_okD:
  assumes "state_ok st"
  shows "ds_SchemaVersion st = storeSchemaVersion" and "creds_ok (ds_Credentials st)"
    and "ds_Invitation st = Some i \<Longrightarrow> invite_ok i"
    and "ds_Invitation st = Some i \<Longrightarrow> in_PendingCredentialID i = [] \<or> in_PendingCredentialID i \<in> active_ids (ds_Credentials st)"
    and "r \<in> set (ds_Credentials st) \<Longrightarrow> \<not> rec_revoked r \<Longrightarrow> cd_Version (rec_Credential r) + 1 \<noteq> 0"
  using assms by (auto simp: state_ok_def validateState_iff)

lemma state_okI:
  assumes "ds_SchemaVersion st = storeSchemaVersion" and "creds_ok (ds_Credentials st)"
    and "\<And>i. ds_Invitation st = Some i \<Longrightarrow> invite_ok i \<and>
        (in_PendingCredentialID i = [] \<or> in_PendingCredentialID i \<in> active_ids (ds_Credentials st))"
    and "\<And>r. r \<in> set (ds_Credentials st) \<Longrightarrow> \<not> rec_revoked r \<Longrightarrow> cd_Version (rec_Credential r) + 1 \<noteq> 0"
  shows "state_ok st"
  using assms by (auto simp: state_ok_def validateState_iff)

lemma validSecret_encode [simp]: "validSecret (b64_encode bs) \<longleftrightarrow> length bs = secretBytes"
  by (simp add: validSecret_def)

lemma decodeStoredSecret_valid:
  "validSecret s \<Longrightarrow> \<exists>bs. decodeStoredSecret s = Inr bs \<and> length bs = secretBytes"
  by (auto simp: validSecret_def decodeStoredSecret_def split: option.splits)

lemma decodeStoredSecret_length: "decodeStoredSecret s = Inr bs \<Longrightarrow> length bs = secretBytes \<and> validSecret s"
  by (auto simp: validSecret_def decodeStoredSecret_def split: option.splits if_splits)

lemma validateMetadata_ok:
  "validateMetadata name role locale = Inr (name', locale') \<Longrightarrow> metadata_ok name' role locale'"
  by (auto simp: metadata_ok_def validateMetadata_def Let_def split: if_splits)

lemma metadata_ok_iff:
  "metadata_ok name role locale \<longleftrightarrow> validText (TrimSpace name) maxNameBytes \<and> (role = RoleController \<or> role = RoleReader)
     \<and> validText (TrimSpace locale) maxLocaleBytes \<and> \<not> ContainsAny (TrimSpace locale) ('' /'' @ [CHR 0x5C])"
  by (auto simp: metadata_ok_def validateMetadata_def Let_def)

lemma metadata_locales:
  "TrimSpace English = English" "TrimSpace SimplifiedChinese = SimplifiedChinese"
  "validText English maxLocaleBytes" "validText SimplifiedChinese maxLocaleBytes"
  "\<not> ContainsAny English ('' /'' @ [CHR 0x5C])" "\<not> ContainsAny SimplifiedChinese ('' /'' @ [CHR 0x5C])"
proof -
  have en: "utf8_segs English = map (\<lambda>c. (of_char c, [c])) English"
    and zh: "utf8_segs SimplifiedChinese = map (\<lambda>c. (of_char c, [c])) SimplifiedChinese"
    by (rule utf8_segs_ascii, simp add: English_def SimplifiedChinese_def)+
  show "TrimSpace English = English" "TrimSpace SimplifiedChinese = SimplifiedChinese"
    unfolding TrimSpace_def en zh by (simp_all add: trim_segs_def IsSpace_def English_def SimplifiedChinese_def)
  show "validText English maxLocaleBytes" "validText SimplifiedChinese maxLocaleBytes"
    unfolding validText_def ValidString_def rune_seq_def en zh
    by (simp_all add: maxLocaleBytes_def IsControl_def RuneError_def English_def SimplifiedChinese_def)
  show "\<not> ContainsAny English ('' /'' @ [CHR 0x5C])" "\<not> ContainsAny SimplifiedChinese ('' /'' @ [CHR 0x5C])"
    by (simp_all add: ContainsAny_def English_def SimplifiedChinese_def)
qed

lemma metadata_ok_normalized:
  assumes "metadata_ok name role locale"
  shows "metadata_ok name role (NormalizeLocale v)"
proof -
  have "NormalizeLocale v = English \<or> NormalizeLocale v = SimplifiedChinese"
    by (simp add: NormalizeLocale_def Let_def)
  then show ?thesis using assms metadata_locales unfolding metadata_ok_iff by metis
qed

lemma metadata_ok_renamed:
  "metadata_ok name role locale \<Longrightarrow> validText (TrimSpace n) maxNameBytes \<Longrightarrow> metadata_ok (TrimSpace n) role locale"
  by (auto simp: metadata_ok_iff)

section \<open>Looking credentials up\<close>

lemma credential_index_from_Some:
  "credential_index_from rs cid i = Some j \<Longrightarrow> i \<le> j \<and> j - i < length rs \<and> rec_cid (rs ! (j - i)) = cid"
proof (induction rs arbitrary: i)
  case Nil
  then show ?case by simp
next
  case (Cons r rs)
  then show ?case
    by (cases "rec_cid r = cid") (force simp: nth_Cons' dest!: Cons.IH)+
qed

lemma credential_index_from_None:
  "credential_index_from rs cid i = None \<longleftrightarrow> cid \<notin> rec_cid ` set rs"
  by (induction rs arbitrary: i) auto

lemma credentialIndex_Some:
  "credentialIndex s cid = Some j \<Longrightarrow> j < length (s_credentials s) \<and> rec_cid (s_credentials s ! j) = cid"
  using credential_index_from_Some [of "s_credentials s" cid 0 j] by (simp add: credentialIndex_def)

lemma credentialIndex_None: "credentialIndex s cid = None \<longleftrightarrow> cid \<notin> rec_cid ` set (s_credentials s)"
  by (simp add: credentialIndex_def credential_index_from_None)

lemma distinct_map_nth_inject:
  "distinct (map f xs) \<Longrightarrow> i < length xs \<Longrightarrow> j < length xs \<Longrightarrow> f (xs ! i) = f (xs ! j) \<longleftrightarrow> i = j"
  using nth_eq_iff_index_eq [of "map f xs" i j] by simp

lemma credentialIndex_unique:
  assumes "creds_ok (s_credentials s)" and "j < length (s_credentials s)"
  shows "credentialIndex s (rec_cid (s_credentials s ! j)) = Some j"
proof -
  let ?cid = "rec_cid (s_credentials s ! j)"
  have "?cid \<in> rec_cid ` set (s_credentials s)" using assms(2) by simp
  then obtain i where i: "credentialIndex s ?cid = Some i" using credentialIndex_None by fastforce
  from credentialIndex_Some [OF i] assms have "i = j"
    using distinct_map_nth_inject [of rec_cid "s_credentials s" i j] by (auto simp: creds_ok_def)
  with i show ?thesis by simp
qed

lemma credentialIndex_cong: "s_credentials s = s_credentials t \<Longrightarrow> credentialIndex s cid = credentialIndex t cid"
  by (simp add: credentialIndex_def)

lemma creds_ok_update:
  assumes "creds_ok cs" and "i < length cs" and "rec_ok r" and "rec_dev r = rec_dev (cs ! i)" and "rec_cid r = rec_cid (cs ! i)"
  shows "creds_ok (cs[i := r])"
proof -
  have "map rec_dev (cs[i := r]) = map rec_dev cs" and "map rec_cid (cs[i := r]) = map rec_cid cs"
    using assms(4,5) by (simp_all add: map_update list_update_same_conv assms(2))
  with assms(1,3) set_update_subset_insert [of cs i r] show ?thesis by (auto simp: creds_ok_def)
qed

lemma active_ids_update:
  assumes "i < length cs" and "distinct (map rec_cid cs)" and "rec_cid r = rec_cid (cs ! i)"
  shows "active_ids (cs[i := r]) = (if rec_revoked r then active_ids cs - {rec_cid r} else insert (rec_cid r) (active_ids cs))"
proof -
  have inj: "rec_cid (cs ! j) = rec_cid (cs ! i) \<longleftrightarrow> j = i" if "j < length cs" for j
    using distinct_map_nth_inject [OF assms(2)] assms(1) that by blast
  have "cid \<in> active_ids ys \<longleftrightarrow> (\<exists>j < length ys. rec_cid (ys ! j) = cid \<and> \<not> rec_revoked (ys ! j))" for ys cid
    by (auto simp: active_ids_def in_set_conv_nth)
  note mem = this
  show ?thesis
  proof (rule set_eqI)
    fix cid
    show "cid \<in> active_ids (cs[i := r]) \<longleftrightarrow>
        cid \<in> (if rec_revoked r then active_ids cs - {rec_cid r} else insert (rec_cid r) (active_ids cs))"
      using assms(1,3) inj by (auto simp: mem nth_list_update split: if_splits) metis
  qed
qed

section \<open>Every operation keeps the store well formed\<close>

text \<open>
  What an operation that tries to install the state \<open>d\<close> may leave behind: the old state in
  memory, with the old state or \<open>d\<close> in the file, or \<open>d\<close> in both.
\<close>

definition attempted :: "Store \<Rightarrow> Store \<Rightarrow> diskState \<Rightarrow> bool" where
  "attempted s s' d \<longleftrightarrow> (dv_state s' = dv_state s \<and> (dv_disk s' = dv_disk s \<or> dv_disk s' = Some d))
     \<or> (dv_state s' = d \<and> dv_disk s' = Some d)"

text \<open>
  How the credentials may change outside a reset: not at all, one record in place without
  reviving it and without revoking the last active controller, or one new record.
\<close>

definition controllers :: "credentialRecord list \<Rightarrow> nat" where
  "controllers cs = length (filter (\<lambda>r. \<not> rec_revoked r \<and> cd_Role (rec_Credential r) = RoleController) cs)"

definition evolves :: "credentialRecord list \<Rightarrow> credentialRecord list \<Rightarrow> bool" where
  "evolves cs cs' \<longleftrightarrow> cs' = cs
     \<or> (\<exists>i r. i < length cs \<and> cs' = cs[i := r] \<and> rec_cid r = rec_cid (cs ! i)
          \<and> cd_Role (rec_Credential r) = cd_Role (rec_Credential (cs ! i)) \<and> (rec_revoked (cs ! i) \<longrightarrow> rec_revoked r)
          \<and> (rec_revoked r \<longrightarrow> rec_revoked (cs ! i) \<or> cd_Role (rec_Credential r) \<noteq> RoleController \<or> controllers cs \<noteq> 1))
     \<or> (\<exists>r. cs' = cs @ [r] \<and> rec_cid r \<notin> rec_cid ` set cs)"

lemma evolves_refl [simp]: "evolves cs cs"
  by (simp add: evolves_def)

lemma evolves_update:
  assumes "i < length cs" and "rec_cid r = rec_cid (cs ! i)" and "cd_Role (rec_Credential r) = cd_Role (rec_Credential (cs ! i))"
    and "rec_revoked (cs ! i) \<Longrightarrow> rec_revoked r"
    and "rec_revoked r \<Longrightarrow> rec_revoked (cs ! i) \<or> cd_Role (rec_Credential r) \<noteq> RoleController \<or> controllers cs \<noteq> 1"
  shows "evolves cs (cs[i := r])"
  unfolding evolves_def using assms by blast

lemma evolves_append: "rec_cid r \<notin> rec_cid ` set cs \<Longrightarrow> evolves cs (cs @ [r])"
  unfolding evolves_def by blast

definition sound_step :: "bool \<Rightarrow> Store \<Rightarrow> Store \<Rightarrow> bool" where
  "sound_step k s s' \<longleftrightarrow> (\<exists>d. attempted s s' d \<and>
     (state_ok (dv_state s) \<longrightarrow> state_ok d \<and> (k \<longrightarrow> evolves (s_credentials s) (ds_Credentials d))))"

lemma sound_step_refl: "dv_state s' = dv_state s \<Longrightarrow> dv_disk s' = dv_disk s \<Longrightarrow> sound_step k s s'"
  by (auto simp: sound_step_def attempted_def)

text \<open>One persist: the state to install has been put in memory, a failure restores the old one.\<close>

lemma persist_cases:
  assumes "persistLocked s1 = (s2, ok)"
  shows "dv_state s2 = dv_state s1" and "ok \<Longrightarrow> dv_disk s2 = Some (dv_state s1)"
    and "dv_disk s2 = dv_disk s1 \<or> dv_disk s2 = Some (dv_state s1)"
    and "dv_now s2 = dv_now s1" and "dv_reads s2 = dv_reads s1" and "dv_fault s2 = dv_fault s1"
    and "dv_rearmBootstrap s2 = dv_rearmBootstrap s1" and "dv_random s2 = dv_random s1"
  using assms by (auto simp: persistLocked_def Let_def split: write_fault.splits)

lemma sound_persist:
  assumes "persistLocked s1 = (s2, ok)" and "dv_disk s1 = dv_disk s"
    and "state_ok (dv_state s) \<Longrightarrow> state_ok (dv_state s1) \<and> (k \<longrightarrow> evolves (s_credentials s) (s_credentials s1))"
    and "s' = (if ok then s2 else s2\<lparr>dv_state := dv_state s\<rparr>)"
  shows "sound_step k s s'"
  unfolding sound_step_def attempted_def
  using persist_cases(1-3) [OF assms(1)] assms(2-4) by (intro exI [of _ "dv_state s1"]) auto

lemma set_store_simps [simp]:
  "dv_state (set_invitation s i) = (dv_state s)\<lparr>ds_Invitation := i\<rparr>"
  "dv_state (set_credentials s cs) = (dv_state s)\<lparr>ds_Credentials := cs\<rparr>"
  "dv_disk (set_invitation s i) = dv_disk s" "dv_disk (set_credentials s cs) = dv_disk s"
  "dv_now (set_invitation s i) = dv_now s" "dv_now (set_credentials s cs) = dv_now s"
  "dv_reads (set_invitation s i) = dv_reads s" "dv_reads (set_credentials s cs) = dv_reads s"
  "dv_fault (set_invitation s i) = dv_fault s" "dv_fault (set_credentials s cs) = dv_fault s"
  "dv_rearmBootstrap (set_invitation s i) = dv_rearmBootstrap s" "dv_rearmBootstrap (set_credentials s cs) = dv_rearmBootstrap s"
  by (simp_all add: set_invitation_def set_credentials_def)

lemma set_credentials_same: "set_credentials s cs = s\<lparr>dv_state := d\<rparr> \<longleftrightarrow> (dv_state s)\<lparr>ds_Credentials := cs\<rparr> = d"
  by (cases s) (auto simp: set_credentials_def)

lemma set_invitation_same: "set_invitation s i = s\<lparr>dv_state := d\<rparr> \<longleftrightarrow> (dv_state s)\<lparr>ds_Invitation := i\<rparr> = d"
  by (cases s) (auto simp: set_invitation_def)

lemma set_both_same:
  "set_invitation (set_credentials s cs) i = s\<lparr>dv_state := d\<rparr> \<longleftrightarrow> (dv_state s)\<lparr>ds_Credentials := cs, ds_Invitation := i\<rparr> = d"
  "set_credentials (set_invitation s i) cs = s\<lparr>dv_state := d\<rparr> \<longleftrightarrow> (dv_state s)\<lparr>ds_Invitation := i, ds_Credentials := cs\<rparr> = d"
  by (cases s; auto simp: set_credentials_def set_invitation_def)+

lemma diskState_update_same [simp]:
  "(d :: diskState)\<lparr>ds_Invitation := ds_Invitation d\<rparr> = d" "d\<lparr>ds_Credentials := ds_Credentials d\<rparr> = d"
  by (cases d; simp)+

lemma state_ok_no_invitation: "state_ok st \<Longrightarrow> state_ok (st\<lparr>ds_Invitation := None\<rparr>)"
  by (auto simp: state_ok_def validateState_iff)

lemma state_ok_invitation:
  "state_ok st \<Longrightarrow> invite_ok i \<Longrightarrow> in_PendingCredentialID i = [] \<or> in_PendingCredentialID i \<in> active_ids (ds_Credentials st) \<Longrightarrow>
     state_ok (st\<lparr>ds_Invitation := Some i\<rparr>)"
  by (auto simp: state_ok_def validateState_iff)

lemma read_clock_simps [simp]:
  "fst (read_clock s) = dv_now s (dv_reads s)" "snd (read_clock s) = s\<lparr>dv_reads := Suc (dv_reads s)\<rparr>"
  by (simp_all add: read_clock_def)

lemma randomValue_facts:
  assumes "randomValue s n = (s', r)"
  shows "dv_state s' = dv_state s" and "dv_disk s' = dv_disk s" and "dv_now s' = dv_now s" and "dv_reads s' = dv_reads s"
    and "dv_fault s' = dv_fault s" and "dv_rearmBootstrap s' = dv_rearmBootstrap s"
    and "\<And>v. r = Inr v \<Longrightarrow> \<exists>bs. v = b64_encode bs \<and> length bs = n"
  using assms by (auto simp: randomValue_def split: if_splits)

lemma b64_encode_ne: "0 < length bs \<Longrightarrow> b64_encode bs \<noteq> []"
  by (rule notI) (use length_b64_encode [of bs] in \<open>simp add: div_eq_0_iff\<close>)

lemma bootstrapRecord_ok:
  "metadata_ok name RoleController locale \<Longrightarrow> length secret = secretBytes \<Longrightarrow> invite_ok (bootstrapRecord secret name locale now)
     \<and> in_PendingCredentialID (bootstrapRecord secret name locale now) = []"
  by (simp add: invite_ok_def bootstrapRecord_def bootstrapInvitationID_def maxInviteAttempts_def)

lemma CreateInvitation_sound: "CreateInvitation s name role locale = (s', r) \<Longrightarrow> sound_step k s s'"
proof -
  assume run: "CreateInvitation s name role locale = (s', r)"
  show "sound_step k s s'"
  proof (cases "validateMetadata name role locale")
    case (Inl err)
    with run show ?thesis by (auto simp: CreateInvitation_def intro: sound_step_refl)
  next
    case (Inr nl)
    obtain name' locale' where nl: "nl = (name', locale')" by fastforce
    obtain s1 r1 where r1: "randomValue s identifierBytes = (s1, r1)" by fastforce
    obtain s2 r2 where r2: "randomValue s1 secretBytes = (s2, r2)" by fastforce
    note R = randomValue_facts [OF r1] randomValue_facts [OF r2]
    show ?thesis
    proof (cases "\<exists>i k. r1 = Inr i \<and> r2 = Inr k")
      case False
      with run Inr nl r1 r2 have "s' = s1 \<or> s' = s2"
        by (auto simp: CreateInvitation_def split: sum.splits)
      with R show ?thesis by (auto intro: sound_step_refl)
    next
      case True
      then obtain i k where ik: "r1 = Inr i" "r2 = Inr k" by blast
      let ?rec = "\<lparr>in_InvitationID = i, in_Version = 1, in_Secret = k, in_ExpiresAt = dv_now s2 (dv_reads s2) + invitationLifetime,
                     in_Name = name', in_Role = role, in_Locale = locale',
                     in_FailedAttempts = 0, in_NextAttemptAt = 0, in_PendingCredentialID = []\<rparr>"
      let ?s3 = "set_invitation (s2\<lparr>dv_reads := Suc (dv_reads s2)\<rparr>) (Some ?rec)"
      obtain s4 ok where p: "persistLocked ?s3 = (s4, ok)" by fastforce
      have "invite_ok ?rec"
      proof -
        obtain bs where "i = b64_encode bs" "length bs = identifierBytes" using R(7) [OF ik(1)] by blast
        then have "i \<noteq> []" using b64_encode_ne [of bs] by (simp add: identifierBytes_def)
        moreover have "validSecret k" using R(14) [OF ik(2)] by auto
        moreover have "metadata_ok name' role locale'" using validateMetadata_ok Inr nl by simp
        ultimately show ?thesis by (simp add: invite_ok_def maxInviteAttempts_def)
      qed
      then show ?thesis
        using run Inr nl r1 r2 ik p persist_cases(1) [OF p]
        by (intro sound_persist [OF p])
          (auto simp: CreateInvitation_def read_clock_def R set_invitation_same intro!: state_ok_invitation split: bool.splits)
    qed
  qed
qed

lemma armBootstrapLocked_sound:
  assumes "armBootstrapLocked s secret name locale now = (s', r)" and "metadata_ok name RoleController locale" and "length secret = secretBytes"
  shows "sound_step k s s'"
proof -
  obtain s2 ok where p: "persistLocked (set_invitation s (Some (bootstrapRecord secret name locale now))) = (s2, ok)" by fastforce
  show ?thesis
    using assms(1) p persist_cases(1) [OF p] bootstrapRecord_ok [OF assms(2,3), of now]
    by (intro sound_persist [OF p])
      (auto simp: armBootstrapLocked_def set_invitation_same intro!: state_ok_invitation split: bool.splits)
qed

lemma sound_step_clock: "sound_step k (s\<lparr>dv_reads := n\<rparr>) s' \<longleftrightarrow> sound_step k s s'"
  by (auto simp: sound_step_def attempted_def)

lemma sound_step_same [simp]: "sound_step k s s" "sound_step k s (s\<lparr>dv_reads := n\<rparr>)"
  by (auto intro: sound_step_refl)

lemma arm_validated_sound:
  assumes "armBootstrapLocked (s\<lparr>dv_reads := n\<rparr>) secret name locale now = (s', r)"
    and "validateMetadata name0 RoleController locale0 = Inr (name, locale)" and "length secret = secretBytes"
  shows "sound_step k s s'"
  using armBootstrapLocked_sound [OF assms(1) validateMetadata_ok [OF assms(2)] assms(3)] by (simp add: sound_step_clock)

lemma EnsureBootstrapInvitation_sound: "EnsureBootstrapInvitation s secret name locale = (s', r) \<Longrightarrow> sound_step k s s'"
  by (auto simp: EnsureBootstrapInvitation_def read_clock_def
      dest: arm_validated_sound split: sum.splits option.splits if_splits)

lemma ArmBootstrapInvitation_sound: "ArmBootstrapInvitation s secret name locale = (s', r) \<Longrightarrow> sound_step k s s'"
  by (auto simp: ArmBootstrapInvitation_def read_clock_def
      dest: arm_validated_sound split: sum.splits option.splits if_splits)

lemma ResetWithBootstrap_sound: "ResetWithBootstrap s secret name locale = (s', r) \<Longrightarrow> sound_step False s s'"
proof -
  assume run: "ResetWithBootstrap s secret name locale = (s', r)"
  show "sound_step False s s'"
  proof (cases "validateMetadata name RoleController locale")
    case (Inl err)
    with run show ?thesis by (auto simp: ResetWithBootstrap_def)
  next
    case (Inr nl)
    obtain name' locale' where nl: "nl = (name', locale')" by fastforce
    show ?thesis
    proof (cases "length secret = secretBytes")
      case False
      with run Inr nl show ?thesis by (auto simp: ResetWithBootstrap_def)
    next
      case True
      let ?rec = "bootstrapRecord secret name' locale' (dv_now s (dv_reads s))"
      let ?d = "\<lparr>ds_SchemaVersion = storeSchemaVersion, ds_Invitation = Some ?rec, ds_Credentials = []\<rparr>"
      obtain s2 ok where p: "persistLocked (s\<lparr>dv_reads := Suc (dv_reads s), dv_state := ?d\<rparr>) = (s2, ok)" by fastforce
      have "metadata_ok name' RoleController locale'" using validateMetadata_ok Inr nl by simp
      from bootstrapRecord_ok [OF this True] have "state_ok ?d"
        by (intro state_okI) (auto simp: creds_ok_def)
      with run Inr nl True p show ?thesis
        by (intro sound_persist [OF p]) (auto simp: ResetWithBootstrap_def read_clock_def split: bool.splits)
    qed
  qed
qed

text \<open>Replacing one credential by one with the same identifiers that is not revoked.\<close>

lemma state_ok_update:
  assumes "state_ok st" and "i < length (ds_Credentials st)" and "rec_ok r"
    and "rec_dev r = rec_dev (ds_Credentials st ! i)" and "rec_cid r = rec_cid (ds_Credentials st ! i)"
    and "\<not> rec_revoked r \<Longrightarrow> cd_Version (rec_Credential r) + 1 \<noteq> 0"
    and "rec_revoked r \<Longrightarrow> rec_revoked (ds_Credentials st ! i) \<or> (\<forall>j. ds_Invitation st = Some j \<longrightarrow> in_PendingCredentialID j \<noteq> rec_cid r)"
  shows "state_ok (st\<lparr>ds_Credentials := (ds_Credentials st)[i := r]\<rparr>)"
proof (rule state_okI)
  note ok = state_okD [OF assms(1)]
  have dist: "distinct (map rec_cid (ds_Credentials st))" using ok(2) by (simp add: creds_ok_def)
  show "creds_ok (ds_Credentials (st\<lparr>ds_Credentials := (ds_Credentials st)[i := r]\<rparr>))"
    using creds_ok_update [OF ok(2) assms(2-5)] by simp
  show "cd_Version (rec_Credential q) + 1 \<noteq> 0"
    if "q \<in> set (ds_Credentials (st\<lparr>ds_Credentials := (ds_Credentials st)[i := r]\<rparr>))" "\<not> rec_revoked q" for q
    using that ok(5) assms(6) set_update_subset_insert [of "ds_Credentials st" i r] by auto
  show "invite_ok j \<and> (in_PendingCredentialID j = [] \<or>
      in_PendingCredentialID j \<in> active_ids (ds_Credentials (st\<lparr>ds_Credentials := (ds_Credentials st)[i := r]\<rparr>)))"
    if j: "ds_Invitation (st\<lparr>ds_Credentials := (ds_Credentials st)[i := r]\<rparr>) = Some j" for j
  proof -
    have "rec_cid r \<notin> active_ids (ds_Credentials st)" if "rec_revoked (ds_Credentials st ! i)"
      using that dist assms(2,5) distinct_map_nth_inject [OF dist]
      by (auto simp: active_ids_def in_set_conv_nth)
    with j ok(3,4) assms(7) show ?thesis
      by (auto simp: active_ids_update [OF assms(2) dist assms(5)])
  qed
qed (use state_okD(1) [OF assms(1)] in simp)

lemma persist_restored:
  assumes "persistLocked s1 = (s2, ok)" and "dv_disk s1 = dv_disk s"
    and "state_ok (dv_state s) \<Longrightarrow> state_ok (dv_state s1) \<and> (k \<longrightarrow> evolves (s_credentials s) (s_credentials s1))"
    and "s' = (if ok then s2 else s3)" and "dv_state s3 = dv_state s" and "dv_disk s3 = dv_disk s2"
  shows "sound_step k s s'"
  unfolding sound_step_def attempted_def
  using persist_cases(1-3) [OF assms(1)] assms(2-6) by (intro exI [of _ "dv_state s1"]) auto

lemma RenameCredential_sound:
  assumes "RenameCredential s cid name = (s', r)"
  shows "sound_step k s s'"
proof (cases "validText (TrimSpace name) maxNameBytes \<and> credentialIndex s cid \<noteq> None")
  case False
  with assms show ?thesis by (auto simp: RenameCredential_def Let_def split: option.splits if_splits)
next
  case True
  then obtain i where i: "credentialIndex s cid = Some i" by auto
  let ?old = "s_credentials s ! i"
  let ?new = "?old\<lparr>rec_Credential := (rec_Credential ?old)\<lparr>cd_Name := TrimSpace name\<rparr>\<rparr>"
  let ?s1 = "set_credentials s ((s_credentials s)[i := ?new])"
  obtain s2 ok where p: "persistLocked ?s1 = (s2, ok)" by fastforce
  have lt: "i < length (s_credentials s)" using credentialIndex_Some [OF i] by simp
  have "state_ok (dv_state ?s1)" if "state_ok (dv_state s)"
  proof -
    note ok = state_okD [OF that]
    have "rec_ok ?old" using ok(2) lt by (auto simp: creds_ok_def)
    then have "rec_ok ?new" using True by (auto simp: rec_ok_def intro: metadata_ok_renamed)
    with lt ok(5) [of ?old] show ?thesis unfolding set_store_simps by (intro state_ok_update [OF that]) auto
  qed
  note ok1 = this
  let ?s3 = "set_credentials s2 ((s_credentials s2)[i := ?old])"
  have s': "s' = (if ok then s2 else ?s3)"
    using assms True i p by (auto simp: RenameCredential_def Let_def split: bool.splits)
  have "evolves (s_credentials s) ((s_credentials s)[i := ?new])"
    by (rule evolves_update [OF lt]) simp_all
  with ok1 persist_cases(1) [OF p] show ?thesis
    by (intro persist_restored [OF p _ _ s']) simp_all
qed

lemma revoke_record_facts [simp]:
  "rec_dev (revoke_record r) = rec_dev r" "rec_cid (revoke_record r) = rec_cid r" "rec_revoked (revoke_record r)"
  by (simp_all add: revoke_record_def)

lemma revoke_record_ok: "rec_ok r \<Longrightarrow> \<not> rec_revoked r \<longrightarrow> cd_Version (rec_Credential r) + 1 \<noteq> 0 \<Longrightarrow> rec_ok (revoke_record r)"
  by (auto simp: rec_ok_def revoke_record_def)

lemma drop_pending_facts:
  "s_credentials (drop_pending s cid) = s_credentials s" "dv_disk (drop_pending s cid) = dv_disk s"
  "s_invitation (drop_pending s cid) = Some j \<Longrightarrow> s_invitation s = Some j \<and> in_PendingCredentialID j \<noteq> cid"
  by (auto simp: drop_pending_def split: option.splits if_splits)

lemma state_ok_drop_pending:
  assumes "state_ok (dv_state s)" and "i < length (s_credentials s)" and "rec_ok r" and "rec_dev r = rec_dev (s_credentials s ! i)"
    and "rec_cid r = rec_cid (s_credentials s ! i)" and "\<not> rec_revoked r \<Longrightarrow> cd_Version (rec_Credential r) + 1 \<noteq> 0"
  shows "state_ok (dv_state (drop_pending (set_credentials s ((s_credentials s)[i := r])) (rec_cid r)))"
proof -
  let ?st = "dv_state (drop_pending s (rec_cid r))"
  have "state_ok ?st"
    using assms(1) state_ok_no_invitation by (auto simp: drop_pending_def split: option.splits)
  moreover have "dv_state (drop_pending (set_credentials s ((s_credentials s)[i := r])) (rec_cid r))
      = ?st\<lparr>ds_Credentials := (ds_Credentials ?st)[i := r]\<rparr>"
    by (cases "dv_state s") (auto simp: drop_pending_def split: option.splits)
  moreover have "state_ok (?st\<lparr>ds_Credentials := (ds_Credentials ?st)[i := r]\<rparr>)" if "state_ok ?st"
    using assms(2-6) drop_pending_facts(3) [of s "rec_cid r"]
    by (intro state_ok_update [OF that]) (auto simp: drop_pending_facts(1))
  ultimately show ?thesis by simp
qed

lemma diskState_restore:
  "ds_SchemaVersion d = ds_SchemaVersion d' \<Longrightarrow> ds_Credentials d = ds_Credentials d' \<Longrightarrow> ds_Invitation d = ds_Invitation d' \<Longrightarrow> d = (d' :: diskState)"
  by simp

lemma drop_pending_schema [simp]: "ds_SchemaVersion (dv_state (drop_pending s cid)) = ds_SchemaVersion (dv_state s)"
  by (auto simp: drop_pending_def split: option.splits)

lemma RevokeCredential_sound:
  assumes "RevokeCredential s cid = (s', r)"
  shows "sound_step k s s'"
proof (cases "credentialIndex s cid")
  case None
  with assms show ?thesis by (auto simp: RevokeCredential_def)
next
  case (Some i)
  let ?old = "s_credentials s ! i"
  let ?s1 = "drop_pending (set_credentials s ((s_credentials s)[i := revoke_record ?old])) cid"
  obtain s2 ok where p: "persistLocked ?s1 = (s2, ok)" by fastforce
  have lt: "i < length (s_credentials s)" and cid: "rec_cid ?old = cid" using credentialIndex_Some [OF Some] by simp_all
  show ?thesis
  proof (cases "\<not> rec_revoked ?old \<and> cd_Role (rec_Credential ?old) = RoleController \<and> activeControllerCountLocked s = 1")
    case True
    with assms Some show ?thesis by (auto simp: RevokeCredential_def Let_def)
  next
    case False
    have "state_ok (dv_state ?s1)" if "state_ok (dv_state s)"
    proof -
      have "rec_ok ?old" using state_okD(2) [OF that] lt by (auto simp: creds_ok_def)
      then have "rec_ok (revoke_record ?old)"
        using state_okD(5) [OF that, of ?old] lt by (intro revoke_record_ok) auto
      from state_ok_drop_pending [OF that lt this] cid show ?thesis by simp
    qed
    note ok1 = this
    let ?s3 = "set_invitation (set_credentials s2 ((s_credentials s2)[i := ?old])) (s_invitation s)"
    have s': "s' = (if ok then s2 else ?s3)"
      using assms unfolding RevokeCredential_def Some option.case Let_def if_not_P [OF False] p
      by (cases ok) simp_all
    moreover have "dv_state ?s3 = dv_state s"
      by (rule diskState_restore) (simp_all add: persist_cases(1) [OF p] drop_pending_facts(1,2))
    moreover have "evolves (s_credentials s) ((s_credentials s)[i := revoke_record ?old])"
      by (rule evolves_update [OF lt])
        (use False in \<open>auto simp: revoke_record_def activeControllerCountLocked_def controllers_def\<close>)
    ultimately show ?thesis
      using ok1 by (intro persist_restored [OF p _ _ s']) (simp_all add: drop_pending_facts(1,2))
  qed
qed

text \<open>Replacing the invitation, the shape of every expiry and attempt step.\<close>

lemma invitation_step_sound:
  assumes "persistLocked (set_invitation s1 i) = (s2, ok)" and "dv_state s1 = dv_state s" and "dv_disk s1 = dv_disk s"
    and "state_ok (dv_state s) \<Longrightarrow> state_ok ((dv_state s)\<lparr>ds_Invitation := i\<rparr>)"
    and "s' = (if ok then s2 else set_invitation s2 (s_invitation s))"
  shows "sound_step k s s'"
  using persist_cases(1) [OF assms(1)] assms(2-4)
  by (intro persist_restored [OF assms(1) _ _ assms(5)]) simp_all

lemma state_ok_touched:
  assumes "s_invitation s = Some j" and "invite_ok j \<Longrightarrow> invite_ok i" and "in_PendingCredentialID i = in_PendingCredentialID j"
    and "state_ok (dv_state s)"
  shows "state_ok ((dv_state s)\<lparr>ds_Invitation := Some i\<rparr>)"
  using state_okD(3,4) [OF assms(4,1)] assms(2-4) by (intro state_ok_invitation) auto

lemma resolve_checked_state [simp]: "fst (resolve_checked s record now) = s"
  by (simp add: resolve_checked_def)

lemma refreshed_back: "record\<lparr>in_ExpiresAt := t, in_ExpiresAt := in_ExpiresAt record\<rparr> = (record :: invitationRecord)"
  by simp

lemma ResolveE2EESecret_sound:
  assumes "ResolveE2EESecret s selector = (s', r)"
  shows "sound_step k s s'"
proof -
  let ?c = "s\<lparr>dv_reads := Suc (dv_reads s)\<rparr>"
  let ?now = "dv_now s (dv_reads s)"
  have plain: "s' = ?c \<Longrightarrow> sound_step k s s'" by simp
  show ?thesis
  proof (cases "\<exists>rcd. sel_Kind selector = E2EEAuthInvitation \<and> s_invitation s = Some rcd \<and>
      in_InvitationID rcd = sel_ID selector \<and> in_Version rcd = sel_Version selector \<and> \<not> ?now < in_ExpiresAt rcd")
    case False
    then have "s' = ?c"
      using assms by (auto simp: ResolveE2EESecret_def read_clock_def resolve_checked_def Let_def split: option.splits if_splits)
    then show ?thesis by (rule plain)
  next
    case True
    then obtain rcd where R: "sel_Kind selector = E2EEAuthInvitation" "s_invitation s = Some rcd"
      "in_InvitationID rcd = sel_ID selector" "in_Version rcd = sel_Version selector" "\<not> ?now < in_ExpiresAt rcd" by blast
    show ?thesis
    proof (cases "in_InvitationID rcd = bootstrapInvitationID \<and> (s_credentials s = [] \<or> dv_rearmBootstrap s)")
      case True
      let ?rec = "rcd\<lparr>in_ExpiresAt := ?now + invitationLifetime\<rparr>"
      obtain s2 ok where p: "persistLocked (set_invitation ?c (Some ?rec)) = (s2, ok)" by fastforce
      have "state_ok ((dv_state s)\<lparr>ds_Invitation := Some ?rec\<rparr>)" if "state_ok (dv_state s)"
        by (rule state_ok_touched [OF R(2) _ _ that]) (auto simp: invite_ok_def)
      with assms R True p show ?thesis
        by (intro invitation_step_sound [OF p])
          (auto simp: ResolveE2EESecret_def read_clock_def Let_def resolve_checked_def split: bool.splits if_splits)
    next
      case False
      obtain s2 ok where p: "persistLocked (set_invitation ?c None) = (s2, ok)" by fastforce
      with assms R False show ?thesis
        by (intro invitation_step_sound [OF p])
          (auto simp: ResolveE2EESecret_def read_clock_def Let_def state_ok_no_invitation split: bool.splits)
    qed
  qed
qed

lemma recordFailedInvitationLocked_sound:
  assumes "recordFailedInvitationLocked s selector = (s', e)"
  shows "sound_step k s s'"
proof -
  let ?c = "s\<lparr>dv_reads := Suc (dv_reads s)\<rparr>"
  let ?now = "dv_now s (dv_reads s)"
  show ?thesis
  proof (cases "\<exists>rcd. s_invitation s = Some rcd \<and> in_InvitationID rcd = sel_ID selector \<and>
      in_Version rcd = sel_Version selector \<and> in_InvitationID rcd \<noteq> bootstrapInvitationID")
    case False
    then have "s' = s"
      using assms by (auto simp: recordFailedInvitationLocked_def split: option.splits if_splits)
    then show ?thesis by simp
  next
    case True
    then obtain rcd where R: "s_invitation s = Some rcd"
      "in_InvitationID rcd = sel_ID selector" "in_Version rcd = sel_Version selector"
      "in_InvitationID rcd \<noteq> bootstrapInvitationID" by blast
    show ?thesis
    proof (cases "?now < in_ExpiresAt rcd")
      case False
      obtain s2 ok where p: "persistLocked (set_invitation ?c None) = (s2, ok)" by fastforce
      with assms R False show ?thesis
        by (intro invitation_step_sound [OF p])
          (auto simp: recordFailedInvitationLocked_def read_clock_def Let_def state_ok_no_invitation split: bool.splits)
    next
      case True
      let ?n = "in_FailedAttempts rcd + 1"
      let ?i = "if ?n \<ge> maxInviteAttempts then None
        else Some (rcd\<lparr>in_FailedAttempts := ?n, in_NextAttemptAt := ?now + second * 2 ^ nat (?n - 1)\<rparr>)"
      obtain s2 ok where p: "persistLocked (set_invitation ?c ?i) = (s2, ok)" by fastforce
      have "state_ok ((dv_state s)\<lparr>ds_Invitation := ?i\<rparr>)" if "state_ok (dv_state s)"
        using that R(1) by (auto simp: state_ok_no_invitation invite_ok_def intro!: state_ok_touched [OF R(1)])
      moreover have "s' = (if ok then s2 else set_invitation s2 (s_invitation s))"
        using assms R True p unfolding recordFailedInvitationLocked_def read_clock_def Let_def
        by (simp split: bool.splits)
      ultimately show ?thesis by (intro invitation_step_sound [OF p]) simp_all
    qed
  qed
qed

lemma randomValue_ne:
  assumes "randomValue s identifierBytes = (s', Inr v)"
  shows "v \<noteq> []"
proof -
  obtain bs where "v = b64_encode bs" "length bs = identifierBytes" using randomValue_facts(7) [OF assms] by blast
  then show ?thesis using b64_encode_ne [of bs] by (simp add: identifierBytes_def)
qed

lemma uniqueDeviceIDLocked_facts:
  assumes "uniqueDeviceIDLocked n s = (s', r)"
  shows "dv_state s' = dv_state s \<and> dv_disk s' = dv_disk s \<and> dv_fault s' = dv_fault s \<and> dv_now s' = dv_now s \<and> dv_reads s' = dv_reads s
     \<and> (\<forall>v. r = Inr v \<longrightarrow> v \<noteq> [] \<and> v \<notin> rec_dev ` set (s_credentials s))"
  using assms
proof (induction n arbitrary: s)
  case 0
  then show ?case by auto
next
  case (Suc n)
  obtain s1 r1 where r1: "randomValue s identifierBytes = (s1, r1)" by fastforce
  note R = randomValue_facts [OF r1]
  have "v \<noteq> []" if "r1 = Inr v" for v
    using randomValue_ne r1 that by simp
  with Suc.prems Suc.IH [of s1] R(1-6) r1 show ?case
    by (auto split: sum.splits if_splits)
qed

lemma uniqueCredentialIDLocked_facts:
  assumes "uniqueCredentialIDLocked n s = (s', r)"
  shows "dv_state s' = dv_state s \<and> dv_disk s' = dv_disk s \<and> dv_fault s' = dv_fault s \<and> dv_now s' = dv_now s \<and> dv_reads s' = dv_reads s
     \<and> (\<forall>v. r = Inr v \<longrightarrow> v \<noteq> [] \<and> v \<notin> rec_cid ` set (s_credentials s))"
  using assms
proof (induction n arbitrary: s)
  case 0
  then show ?case by auto
next
  case (Suc n)
  obtain s1 r1 where r1: "randomValue s identifierBytes = (s1, r1)" by fastforce
  note R = randomValue_facts [OF r1]
  have "v \<noteq> []" if "r1 = Inr v" for v
    using randomValue_ne r1 that by simp
  with Suc.prems Suc.IH [of s1] R(1-6) r1 show ?case
    by (auto simp: credentialIndex_None split: sum.splits if_splits)
qed

lemma state_ok_issue:
  assumes "state_ok st" and "ds_Invitation st = Some record" and "rec_ok r" and "\<not> rec_revoked r" and "cd_Version (rec_Credential r) = 1"
    and "rec_dev r \<notin> rec_dev ` set (ds_Credentials st)" and "rec_cid r \<notin> rec_cid ` set (ds_Credentials st)"
  shows "state_ok (st\<lparr>ds_Invitation := Some (record\<lparr>in_PendingCredentialID := rec_cid r\<rparr>), ds_Credentials := ds_Credentials st @ [r]\<rparr>)"
proof (rule state_okI)
  note ok = state_okD [OF assms(1)]
  show "creds_ok (ds_Credentials (st\<lparr>ds_Invitation := Some (record\<lparr>in_PendingCredentialID := rec_cid r\<rparr>), ds_Credentials := ds_Credentials st @ [r]\<rparr>))"
    using ok(2) assms(3,6,7) by (auto simp: creds_ok_def)
qed (use state_okD [OF assms(1)] assms(2,4,5) in \<open>auto simp: invite_ok_def active_ids_def\<close>)

lemma issue_credential_sound:
  assumes "issue_credential s selector record now dev cid secret = (s', r)" and "s_invitation s = Some record"
    and "in_PendingCredentialID record = []" and "dev \<noteq> []" and "cid \<noteq> []"
    and "dev \<notin> rec_dev ` set (s_credentials s)" and "cid \<notin> rec_cid ` set (s_credentials s)"
  shows "sound_step k s s'"
proof (cases "decodeStoredSecret secret")
  case (Inl err)
  with assms(1) show ?thesis by (auto simp: issue_credential_def)
next
  case (Inr bs)
  let ?r = "\<lparr>rec_Credential = \<lparr>cd_DeviceID = dev, cd_CredentialID = cid, cd_Name = in_Name record,
               cd_Role = in_Role record, cd_Locale = NormalizeLocale (sel_Locale selector), cd_PairedAt = now, cd_LastSeenAt = now, cd_Version = 1,
               cd_Revoked = False, cd_Current = False\<rparr>, rec_Secret = secret\<rparr>"
  let ?s1 = "set_credentials (set_invitation s (Some (record\<lparr>in_PendingCredentialID := cid\<rparr>))) (s_credentials s @ [?r])"
  obtain s2 ok where p: "persistLocked ?s1 = (s2, ok)" by fastforce
  let ?s3 = "set_credentials (set_invitation s2 (Some (record\<lparr>in_PendingCredentialID := []\<rparr>)))
                (take (length (s_credentials s2) - 1) (s_credentials s2))"
  have s': "s' = (if ok then s2 else ?s3)"
    using assms(1) Inr p unfolding issue_credential_def Let_def by (cases ok) simp_all
  have "record\<lparr>in_PendingCredentialID := []\<rparr> = record" using assms(3) by simp
  then have "dv_state ?s3 = dv_state s"
    using persist_cases(1) [OF p] assms(2) by (intro diskState_restore) simp_all
  moreover have "state_ok (dv_state ?s1)" if "state_ok (dv_state s)"
  proof -
    have "metadata_ok (in_Name record) (in_Role record) (in_Locale record)"
      using state_okD(3) [OF that assms(2)] by (simp add: invite_ok_def)
    then have "rec_ok ?r"
      using assms(4,5) decodeStoredSecret_length [OF Inr] metadata_ok_normalized by (simp add: rec_ok_def)
    from state_ok_issue [OF that assms(2) this] assms(6,7) show ?thesis by simp
  qed
  moreover have "evolves (s_credentials s) (s_credentials ?s1)"
    using assms(7) by (simp add: evolves_append)
  ultimately show ?thesis by (intro persist_restored [OF p _ _ s']) simp_all
qed

lemma sound_step_trans_same:
  assumes "dv_state s1 = dv_state s" and "dv_disk s1 = dv_disk s" and "sound_step k s1 s'"
  shows "sound_step k s s'"
  using assms by (simp add: sound_step_def attempted_def)

lemma redeemInvitationLocked_sound:
  assumes "redeemInvitationLocked s selector = (s', r)"
  shows "sound_step k s s'"
proof -
  let ?c = "s\<lparr>dv_reads := Suc (dv_reads s)\<rparr>"
  let ?now = "dv_now s (dv_reads s)"
  show ?thesis
  proof (cases "\<exists>rcd. s_invitation s = Some rcd \<and> in_InvitationID rcd = sel_ID selector \<and> in_Version rcd = sel_Version selector")
    case False
    then have "s' = s" using assms by (auto simp: redeemInvitationLocked_def split: option.splits if_splits)
    then show ?thesis by simp
  next
    case True
    then obtain rcd where R: "s_invitation s = Some rcd" "in_InvitationID rcd = sel_ID selector" "in_Version rcd = sel_Version selector"
      by blast
    consider (expired) "\<not> ?now < in_ExpiresAt rcd" | (again) "?now < in_ExpiresAt rcd" "in_PendingCredentialID rcd \<noteq> []"
      | (fresh) "?now < in_ExpiresAt rcd" "in_PendingCredentialID rcd = []" by blast
    then show ?thesis
    proof cases
      case expired
      obtain s2 ok where p: "persistLocked (set_invitation ?c None) = (s2, ok)" by fastforce
      with assms R expired show ?thesis
        by (intro invitation_step_sound [OF p])
          (auto simp: redeemInvitationLocked_def read_clock_def Let_def state_ok_no_invitation split: bool.splits)
    next
      case again
      with assms R have "s' = ?c"
        by (auto simp: redeemInvitationLocked_def read_clock_def Let_def split: option.splits)
      then show ?thesis by simp
    next
      case fresh
      obtain s1 r1 where u1: "uniqueDeviceIDLocked 8 ?c = (s1, r1)" by fastforce
      obtain s2 r2 where u2: "uniqueCredentialIDLocked 8 s1 = (s2, r2)" by fastforce
      obtain s3 r3 where u3: "randomValue s2 secretBytes = (s3, r3)" by fastforce
      note U = uniqueDeviceIDLocked_facts [OF u1] uniqueCredentialIDLocked_facts [OF u2] randomValue_facts [OF u3]
      have red: "redeemInvitationLocked s selector = (case r1 of Inl err \<Rightarrow> (s1, Inl err) | Inr dev \<Rightarrow>
          (case r2 of Inl err \<Rightarrow> (s2, Inl err) | Inr cid \<Rightarrow>
          (case r3 of Inl err \<Rightarrow> (s3, Inl err) | Inr secret \<Rightarrow> issue_credential s3 selector rcd ?now dev cid secret)))"
        using R fresh u1 u2 u3 unfolding redeemInvitationLocked_def read_clock_def Let_def by (simp split: sum.splits)
      show ?thesis
      proof (cases "\<exists>dev cid secret. r1 = Inr dev \<and> r2 = Inr cid \<and> r3 = Inr secret")
        case False
        with assms red have "s' = s1 \<or> s' = s2 \<or> s' = s3" by (auto split: sum.splits)
        with U show ?thesis by (auto intro: sound_step_refl)
      next
        case True
        then obtain dev cid secret where D: "r1 = Inr dev" "r2 = Inr cid" "r3 = Inr secret" by blast
        with assms red have "issue_credential s3 selector rcd ?now dev cid secret = (s', r)" by simp
        then have "sound_step k s3 s'"
          by (rule issue_credential_sound) (use U D R fresh in auto)
        then show ?thesis by (rule sound_step_trans_same [rotated 2]) (use U in simp_all)
      qed
    qed
  qed
qed

lemma completeCredentialLocked_sound:
  assumes "completeCredentialLocked s selector = (s', r)"
  shows "sound_step k s s'"
proof (cases "credentialIndex s (sel_ID selector)")
  case None
  with assms show ?thesis by (auto simp: completeCredentialLocked_def)
next
  case (Some i)
  let ?old = "s_credentials s ! i"
  show ?thesis
  proof (cases "rec_revoked ?old \<or> cd_Version (rec_Credential ?old) \<noteq> sel_Version selector")
    case True
    with assms Some show ?thesis by (auto simp: completeCredentialLocked_def Let_def)
  next
    case False
    let ?c = "s\<lparr>dv_reads := Suc (dv_reads s)\<rparr>"
    let ?new = "?old\<lparr>rec_Credential := (rec_Credential ?old)\<lparr>cd_LastSeenAt := dv_now s (dv_reads s),
       cd_Locale := NormalizeLocale (sel_Locale selector)\<rparr>\<rparr>"
    let ?s1 = "drop_pending (set_credentials ?c ((s_credentials s)[i := ?new])) (rec_cid ?old)"
    obtain s2 ok where p: "persistLocked ?s1 = (s2, ok)" by fastforce
    let ?prev = "?new\<lparr>rec_Credential := (rec_Credential ?new)\<lparr>cd_LastSeenAt := cd_LastSeenAt (rec_Credential ?old),
       cd_Locale := cd_Locale (rec_Credential ?old)\<rparr>\<rparr>"
    let ?s3 = "set_invitation (set_credentials s2 ((s_credentials s2)[i := ?prev])) (s_invitation s)"
    have lt: "i < length (s_credentials s)" using credentialIndex_Some [OF Some] by simp
    have s': "s' = (if ok then s2 else ?s3)"
      using assms p unfolding completeCredentialLocked_def Some option.case Let_def if_not_P [OF False] read_clock_def
      by (cases ok) simp_all
    have "?prev = ?old" by simp
    then have "dv_state ?s3 = dv_state s"
      by (intro diskState_restore) (simp_all add: persist_cases(1) [OF p] drop_pending_facts(1,2))
    moreover have "state_ok (dv_state ?s1)" if "state_ok (dv_state s)"
    proof -
      have old: "rec_ok ?old" using state_okD(2) [OF that] lt by (auto simp: creds_ok_def)
      then have "rec_ok ?new" by (auto simp: rec_ok_def intro: metadata_ok_normalized)
      with state_okD(5) [OF that, of ?old] lt that False show ?thesis
        using state_ok_drop_pending [of ?c i ?new] by simp
    qed
    moreover have "evolves (s_credentials s) ((s_credentials s)[i := ?new])"
      by (rule evolves_update [OF lt]) (use False in simp_all)
    ultimately show ?thesis by (intro persist_restored [OF p _ _ s']) (simp_all add: drop_pending_facts(1,2))
  qed
qed

lemma CompleteE2EEAuth_sound:
  assumes "CompleteE2EEAuth s selector authenticated = (s', r)"
  shows "sound_step k s s'"
  using assms recordFailedInvitationLocked_sound redeemInvitationLocked_sound completeCredentialLocked_sound
  by (auto simp: CompleteE2EEAuth_def split: if_splits prod.splits)

section \<open>The store as a durable store\<close>

datatype store_op =
    OpCreateInvitation string string string
  | OpEnsureBootstrap bytes string string
  | OpArmBootstrap bytes string string
  | OpRename string string
  | OpRevoke string
  | is_OpReset: OpReset bytes string string
  | OpResolve E2EEAuthSelector
  | OpComplete E2EEAuthSelector bool

fun store_step :: "Store \<Rightarrow> store_op \<Rightarrow> Store" where
  "store_step s (OpCreateInvitation name role locale) = fst (CreateInvitation s name role locale)"
| "store_step s (OpEnsureBootstrap secret name locale) = fst (EnsureBootstrapInvitation s secret name locale)"
| "store_step s (OpArmBootstrap secret name locale) = fst (ArmBootstrapInvitation s secret name locale)"
| "store_step s (OpRename cid name) = fst (RenameCredential s cid name)"
| "store_step s (OpRevoke cid) = fst (RevokeCredential s cid)"
| "store_step s (OpReset secret name locale) = fst (ResetWithBootstrap s secret name locale)"
| "store_step s (OpResolve selector) = fst (ResolveE2EESecret s selector)"
| "store_step s (OpComplete selector authenticated) = fst (CompleteE2EEAuth s selector authenticated)"

lemmas store_ops_sound =
  CreateInvitation_sound EnsureBootstrapInvitation_sound ArmBootstrapInvitation_sound RenameCredential_sound
  RevokeCredential_sound ResetWithBootstrap_sound ResolveE2EESecret_sound CompleteE2EEAuth_sound

lemma store_step_sound: "sound_step (\<not> is_OpReset op) s (store_step s op)"
  by (cases op) (auto intro: store_ops_sound [OF prod.collapse [symmetric]])

interpretation devices: durable_store store_step dv_state dv_disk state_ok
proof
  fix s :: Store and op
  assume ok: "state_ok (dv_state s)"
  from store_step_sound [of op s] obtain d where d: "attempted s (store_step s op) d" "state_ok d"
    using ok by (auto simp: sound_step_def)
  then show "dv_state (store_step s op) = dv_state s \<or> dv_disk (store_step s op) = Some (dv_state (store_step s op))"
    and "state_ok (dv_state (store_step s op))"
    and "dv_disk (store_step s op) = dv_disk s \<or> (\<exists>d. dv_disk (store_step s op) = Some d \<and> state_ok d)"
    using ok by (auto simp: attempted_def)
qed

section \<open>What survives every operation\<close>

lemma store_step_evolves:
  assumes "state_ok (dv_state s)" and "\<not> is_OpReset op"
  shows "evolves (s_credentials s) (s_credentials (store_step s op))"
  using store_step_sound [of op s] assms by (auto simp: sound_step_def attempted_def)

lemma count_update_same:
  assumes "i < length xs" and "P (xs ! i) \<longleftrightarrow> P x"
  shows "length (filter P (xs[i := x])) = length (filter P xs)"
proof -
  have "map P (xs[i := x]) = map P xs" using assms by (simp add: map_update list_update_same_conv)
  then have "length (filter id (map P (xs[i := x]))) = length (filter id (map P xs))" by simp
  then show ?thesis by (simp add: filter_map o_def)
qed

lemma count_update_drop:
  assumes "i < length xs" and "P (xs ! i)" and "\<not> P x"
  shows "length (filter P (xs[i := x])) = length (filter P xs) - 1"
proof -
  have "length (filter P xs) = Suc (length (filter P (take i xs)) + length (filter P (drop (Suc i) xs)))"
    using arg_cong [OF id_take_nth_drop [OF assms(1)], of "\<lambda>l. length (filter P l)"] assms(2) by simp
  moreover have "length (filter P (xs[i := x])) = length (filter P (take i xs)) + length (filter P (drop (Suc i) xs))"
    using assms(3) by (simp add: upd_conv_take_nth_drop [OF assms(1)])
  ultimately show ?thesis by simp
qed

lemma evolves_controllers:
  assumes "evolves cs cs'" and "0 < controllers cs"
  shows "0 < controllers cs'"
  using assms(1) unfolding evolves_def
proof (elim disjE exE conjE)
  fix i r
  let ?P = "\<lambda>r. \<not> rec_revoked r \<and> cd_Role (rec_Credential r) = RoleController"
  assume i: "i < length cs" and cs': "cs' = cs[i := r]" and role: "cd_Role (rec_Credential r) = cd_Role (rec_Credential (cs ! i))"
    and keep: "rec_revoked (cs ! i) \<longrightarrow> rec_revoked r"
    and last: "rec_revoked r \<longrightarrow> rec_revoked (cs ! i) \<or> cd_Role (rec_Credential r) \<noteq> RoleController \<or> controllers cs \<noteq> 1"
  show ?thesis
  proof (cases "?P (cs ! i) \<longleftrightarrow> ?P r")
    case True
    from count_update_same [OF i True] assms(2) cs' show ?thesis by (simp add: controllers_def)
  next
    case False
    then have P: "?P (cs ! i)" "\<not> ?P r" using role keep by auto
    from count_update_drop [OF i P] have "controllers cs' = controllers cs - 1" unfolding cs' controllers_def .
    moreover have "controllers cs \<noteq> 1" using P last role by auto
    ultimately show ?thesis using assms(2) by linarith
  qed
qed (use assms(2) in \<open>auto simp: controllers_def\<close>)

definition revoked_in :: "string \<Rightarrow> credentialRecord list \<Rightarrow> bool" where
  "revoked_in cid cs \<longleftrightarrow> (\<exists>r \<in> set cs. rec_cid r = cid \<and> rec_revoked r)"

lemma evolves_revoked:
  assumes "evolves cs cs'" and "creds_ok cs" and "revoked_in cid cs"
  shows "revoked_in cid cs'"
  using assms(1) unfolding evolves_def
proof (elim disjE exE conjE)
  fix i r
  assume i: "i < length cs" and cs': "cs' = cs[i := r]" and cid: "rec_cid r = rec_cid (cs ! i)"
    and keep: "rec_revoked (cs ! i) \<longrightarrow> rec_revoked r"
  from assms(3) obtain j where j: "j < length cs" "rec_cid (cs ! j) = cid" "rec_revoked (cs ! j)"
    by (auto simp: revoked_in_def in_set_conv_nth)
  then have "rec_cid (cs' ! j) = cid" "rec_revoked (cs' ! j)" "j < length cs'"
    using cs' cid keep i by (auto simp: nth_list_update)
  then show ?thesis by (auto simp: revoked_in_def)
qed (use assms(3) in \<open>auto simp: revoked_in_def\<close>)

lemma run_evolves:
  assumes "state_ok (dv_state s)" and "\<forall>op \<in> set ops. \<not> is_OpReset op"
  shows "(0 < controllers (s_credentials s) \<longrightarrow> 0 < controllers (s_credentials (run_ops store_step s ops)))
     \<and> (revoked_in cid (s_credentials s) \<longrightarrow> revoked_in cid (s_credentials (run_ops store_step s ops)))"
  using assms
proof (induction ops arbitrary: s)
  case Nil
  then show ?case by simp
next
  case (Cons op ops)
  have "evolves (s_credentials s) (s_credentials (store_step s op))"
    using Cons.prems by (intro store_step_evolves) auto
  with Cons.IH [of "store_step s op"] Cons.prems devices.mem_ok [of s op] show ?case
    using evolves_controllers evolves_revoked state_okD(2) by fastforce
qed

lemma revoked_refused:
  assumes "creds_ok (s_credentials s)" and "revoked_in cid (s_credentials s)"
  shows "AuthorizeCredential s cid v = None"
    and "sel_Kind selector = E2EEAuthCredential \<Longrightarrow> sel_ID selector = cid \<Longrightarrow> snd (ResolveE2EESecret s selector) = Inl ErrRevoked"
    and "sel_Kind selector = E2EEAuthCredential \<Longrightarrow> sel_ID selector = cid \<Longrightarrow> CompleteE2EEAuth s selector b = (s, Inl ErrAuthentication)"
proof -
  from assms(2) obtain j where j: "j < length (s_credentials s)" "rec_cid (s_credentials s ! j) = cid" "rec_revoked (s_credentials s ! j)"
    by (auto simp: revoked_in_def in_set_conv_nth)
  with credentialIndex_unique [OF assms(1) j(1)] have i: "credentialIndex s cid = Some j" by simp
  then have i': "credentialIndex (s\<lparr>dv_reads := n\<rparr>) cid = Some j" for n by (simp add: credentialIndex_def)
  show "AuthorizeCredential s cid v = None" using i j by (simp add: AuthorizeCredential_def)
  show "snd (ResolveE2EESecret s selector) = Inl ErrRevoked"
    if "sel_Kind selector = E2EEAuthCredential" "sel_ID selector = cid"
    using that i' j by (simp add: ResolveE2EESecret_def read_clock_def E2EEAuthCredential_def E2EEAuthInvitation_def)
  show "CompleteE2EEAuth s selector b = (s, Inl ErrAuthentication)"
    if "sel_Kind selector = E2EEAuthCredential" "sel_ID selector = cid"
    using that i j by (simp add: CompleteE2EEAuth_def completeCredentialLocked_def E2EEAuthCredential_def E2EEAuthInvitation_def)
qed

section \<open>The contract of the authority holds\<close>

lemma ResolveE2EESecret_length:
  "ResolveE2EESecret s selector = (s', Inr secret) \<Longrightarrow> length secret = secretBytes"
  by (auto simp: ResolveE2EESecret_def read_clock_def resolve_checked_def Let_def dest!: decodeStoredSecret_length
      split: option.splits if_splits bool.splits prod.splits)

text \<open>A completed authentication names a live credential of the store.\<close>

definition live_result :: "E2EEAuthSelector \<Rightarrow> credentialRecord \<Rightarrow> E2EEAuthResult \<Rightarrow> bool" where
  "live_result selector r a \<longleftrightarrow> \<not> rec_revoked r
     \<and> ar_Identity a = \<lparr>ai_DeviceID = rec_dev r, ai_CredentialID = rec_cid r, ai_Role = cd_Role (rec_Credential r),
          ai_Locale = cd_Locale (rec_Credential r), ai_CredentialVersion = cd_Version (rec_Credential r)\<rparr>
     \<and> (sel_Kind selector = E2EEAuthCredential \<and> ar_CredentialSecret a = [] \<and> rec_cid r = sel_ID selector
        \<or> sel_Kind selector = E2EEAuthInvitation \<and> decodeStoredSecret (rec_Secret r) = Inr (ar_CredentialSecret a))"

lemma active_index:
  assumes "creds_ok (s_credentials s)" and "cid \<in> active_ids (s_credentials s)" and "credentialIndex s cid = Some i"
  shows "\<not> rec_revoked (s_credentials s ! i)"
proof -
  from assms(2) obtain j where j: "j < length (s_credentials s)" "rec_cid (s_credentials s ! j) = cid" "\<not> rec_revoked (s_credentials s ! j)"
    by (auto simp: active_ids_def in_set_conv_nth)
  with credentialIndex_unique [OF assms(1) j(1)] assms(3) show ?thesis by simp
qed

lemma issue_credential_live:
  assumes "issue_credential s selector rcd now dev cid secret = (s', Inr a)" and "sel_Kind selector = E2EEAuthInvitation"
  shows "\<exists>r \<in> set (s_credentials s'). live_result selector r a"
  using assms by (auto simp: issue_credential_def Let_def live_result_def persist_cases(1) split: sum.splits prod.splits bool.splits)

lemma redeem_live:
  assumes "redeemInvitationLocked s selector = (s', Inr a)" and "sel_Kind selector = E2EEAuthInvitation" and "state_ok (dv_state s)"
  shows "\<exists>r \<in> set (s_credentials s'). live_result selector r a"
proof -
  let ?c = "s\<lparr>dv_reads := Suc (dv_reads s)\<rparr>"
  let ?now = "dv_now s (dv_reads s)"
  from assms(1) obtain rcd where R: "s_invitation s = Some rcd" "in_InvitationID rcd = sel_ID selector" "in_Version rcd = sel_Version selector"
    "?now < in_ExpiresAt rcd"
    by (auto simp: redeemInvitationLocked_def read_clock_def Let_def split: option.splits if_splits prod.splits bool.splits)
  show ?thesis
  proof (cases "in_PendingCredentialID rcd = []")
    case True
    with assms(1) R obtain s3 dev cid secret where "issue_credential s3 selector rcd ?now dev cid secret = (s', Inr a)"
      by (auto simp: redeemInvitationLocked_def read_clock_def Let_def split: prod.splits sum.splits)
    then show ?thesis using assms(2) by (rule issue_credential_live)
  next
    case False
    let ?cid = "in_PendingCredentialID rcd"
    from assms(1) R False obtain i where i: "credentialIndex ?c ?cid = Some i" and s': "s' = ?c"
      and a: "credentialAuthResult (s_credentials s ! i) True = Inr a"
      by (auto simp: redeemInvitationLocked_def read_clock_def Let_def split: option.splits)
    have "?cid \<in> active_ids (s_credentials s)" using state_okD(4) [OF assms(3) R(1)] False by simp
    then have "\<not> rec_revoked (s_credentials s ! i)"
      using active_index [of ?c ?cid i] i state_okD(2) [OF assms(3)] by simp
    moreover have "i < length (s_credentials s)" using credentialIndex_Some [OF i] by simp
    ultimately show ?thesis
      using a s' assms(2)
      by (intro bexI [of _ "s_credentials s ! i"]) (auto simp: live_result_def credentialAuthResult_def Let_def split: sum.splits)
  qed
qed

lemma complete_live:
  assumes "completeCredentialLocked s selector = (s', Inr a)" and "sel_Kind selector = E2EEAuthCredential"
  shows "\<exists>r \<in> set (s_credentials s'). live_result selector r a"
proof (cases "credentialIndex s (sel_ID selector)")
  case None
  with assms(1) show ?thesis by (simp add: completeCredentialLocked_def)
next
  case (Some i)
  let ?old = "s_credentials s ! i"
  have lt: "i < length (s_credentials s)" and cid: "rec_cid ?old = sel_ID selector" using credentialIndex_Some [OF Some] by simp_all
  from assms(1) Some have live: "\<not> (rec_revoked ?old \<or> cd_Version (rec_Credential ?old) \<noteq> sel_Version selector)"
    by (auto simp: completeCredentialLocked_def Let_def split: if_splits)
  let ?c = "s\<lparr>dv_reads := Suc (dv_reads s)\<rparr>"
  let ?new = "?old\<lparr>rec_Credential := (rec_Credential ?old)\<lparr>cd_LastSeenAt := dv_now s (dv_reads s),
       cd_Locale := NormalizeLocale (sel_Locale selector)\<rparr>\<rparr>"
  let ?s1 = "drop_pending (set_credentials ?c ((s_credentials s)[i := ?new])) (rec_cid ?old)"
  obtain s2 ok where p: "persistLocked ?s1 = (s2, ok)" by fastforce
  have "(if ok then (s2, credentialAuthResult (s_credentials s2 ! i) False) else (s', Inl ErrPersist)) = (s', Inr a)"
    using assms(1) p unfolding completeCredentialLocked_def Some option.case Let_def if_not_P [OF live] read_clock_def
    by (cases ok) auto
  then have "s' = s2 \<and> credentialAuthResult (s_credentials s2 ! i) False = Inr a"
    by (cases ok) auto
  then have s': "s' = s2" and a: "credentialAuthResult (s_credentials s2 ! i) False = Inr a" by blast+
  have cs: "s_credentials s2 = (s_credentials s)[i := ?new]"
    by (simp add: persist_cases(1) [OF p] drop_pending_facts(1))
  then have "?new \<in> set (s_credentials s')" using s' lt by (simp add: set_update_memI)
  moreover have "live_result selector ?new a"
    using a cs lt live cid assms(2) by (auto simp: live_result_def credentialAuthResult_def Let_def)
  ultimately show ?thesis ..
qed

lemma CompleteE2EEAuth_live:
  assumes "CompleteE2EEAuth s selector b = (s', Inr a)" and "state_ok (dv_state s)"
  shows "b \<and> (\<exists>r \<in> set (s_credentials s'). live_result selector r a)"
  using assms redeem_live complete_live by (auto simp: CompleteE2EEAuth_def split: if_splits prod.splits)

lemma live_result_valid:
  assumes "live_result selector r a" and "rec_ok r"
  shows "validAuthenticatedIdentity (ar_Identity a)
     \<and> (ar_CredentialSecret a = [] \<or> length (ar_CredentialSecret a) = e2eeSecretBytes \<and> sel_Kind selector = E2EEAuthInvitation)"
proof -
  have "cd_Locale (rec_Credential r) \<noteq> []"
    using assms(2) by (auto simp: rec_ok_def metadata_ok_iff validText_def)
  moreover have "cd_Role (rec_Credential r) = ''controller'' \<or> cd_Role (rec_Credential r) = ''reader''"
    using assms(2) by (simp add: rec_ok_def metadata_ok_iff RoleController_def RoleReader_def)
  ultimately show ?thesis
    using assms decodeStoredSecret_length [of "rec_Secret r" "ar_CredentialSecret a"]
    by (auto simp: live_result_def validAuthenticatedIdentity_def rec_ok_def secretBytes_def e2eeSecretBytes_def)
qed

interpretation authority: e2ee_authority store_resolver "\<lambda>s. state_ok (dv_state s)"
proof
  fix st st' :: Store and selector r
  assume ok: "state_ok (dv_state st)" and run: "rs_ResolveE2EESecret store_resolver st selector = (st', r)"
  then have "ResolveE2EESecret st selector = (st', r)" by (simp add: store_resolver_def)
  with devices.mem_ok [OF ok, of "OpResolve selector"] ResolveE2EESecret_length
  show "state_ok (dv_state st') \<and> (\<forall>secret. r = Inr secret \<longrightarrow> length secret = e2eeSecretBytes)"
    by (auto simp: secretBytes_def e2eeSecretBytes_def)
next
  fix st st' :: Store and selector authenticated c
  assume ok: "state_ok (dv_state st)" and run: "rs_CompleteE2EEAuth store_resolver st selector authenticated = (st', c)"
  then have run': "CompleteE2EEAuth st selector authenticated = (st', c)" by (simp add: store_resolver_def)
  have ok': "state_ok (dv_state st')" using devices.mem_ok [OF ok, of "OpComplete selector authenticated"] run' by simp
  have "authenticated \<and> validAuthenticatedIdentity (ar_Identity a) \<and> (ar_CredentialSecret a = [] \<or>
         length (ar_CredentialSecret a) = e2eeSecretBytes \<and> sel_Kind selector = E2EEAuthInvitation)" if "c = Inr a" for a
  proof -
    from CompleteE2EEAuth_live [of st selector authenticated st' a] run' that ok obtain r where
      "authenticated" "r \<in> set (s_credentials st')" "live_result selector r a" by auto
    with live_result_valid state_okD(2) [OF ok'] show ?thesis by (auto simp: creds_ok_def)
  qed
  with ok' show "state_ok (dv_state st') \<and> (\<forall>a. c = Inr a \<longrightarrow> authenticated \<and> validAuthenticatedIdentity (ar_Identity a) \<and>
        (ar_CredentialSecret a = [] \<or> length (ar_CredentialSecret a) = e2eeSecretBytes \<and> sel_Kind selector = E2EEAuthInvitation))"
    by blast
qed

section \<open>Guessing an invitation\<close>

text \<open>
  Handshakes whose proof does not match, interleaved: the store is locked for the resolution of
  the secret and again for the failed completion, and other handshakes run in between. The state
  is the store, the handshakes under way and how often a secret was handed out for a comparison.
\<close>

datatype guess_event = GuessArrives E2EEAuthSelector | GuessFails nat

type_synonym guessing = "Store \<times> E2EEAuthSelector list \<times> nat"

fun guess_event_step :: "guessing \<Rightarrow> guess_event \<Rightarrow> guessing" where
  "guess_event_step (s, under_way, compared) (GuessArrives selector) =
     (case ResolveE2EESecret s selector of
        (s1, Inl _) \<Rightarrow> (s1, under_way, compared)
      | (s1, Inr _) \<Rightarrow> (s1, under_way @ [selector], Suc compared))"
| "guess_event_step (s, under_way, compared) (GuessFails k) =
     (if k < length under_way
      then (fst (CompleteE2EEAuth s (under_way ! k) False), take k under_way @ drop (Suc k) under_way, compared)
      else (s, under_way, compared))"

fun at_most_under_way :: "nat \<Rightarrow> guessing \<Rightarrow> guess_event list \<Rightarrow> bool" where
  "at_most_under_way K st [] \<longleftrightarrow> length (fst (snd st)) \<le> K"
| "at_most_under_way K st (ev # evs) \<longleftrightarrow> length (fst (snd st)) \<le> K \<and> at_most_under_way K (guess_event_step st ev) evs"

fun guesses_invitation :: "guess_event \<Rightarrow> bool" where
  "guesses_invitation (GuessArrives selector) = (sel_Kind selector = E2EEAuthInvitation)"
| "guesses_invitation (GuessFails k) = True"

definition faultless :: "Store \<Rightarrow> bool" where
  "faultless s \<longleftrightarrow> (\<forall>n. dv_fault s n = NoFault)"

lemma persist_faultless:
  "faultless s \<Longrightarrow> persistLocked s = (s\<lparr>dv_writes := Suc (dv_writes s), dv_disk := Some (dv_state s)\<rparr>, True)"
  by (simp add: faultless_def persistLocked_def Let_def)

lemma faultless_simps [simp]:
  "faultless (set_invitation s i) = faultless s" "faultless (s\<lparr>dv_reads := n\<rparr>) = faultless s"
  "faultless (s\<lparr>dv_writes := m, dv_disk := d\<rparr>) = faultless s"
  by (simp_all add: faultless_def)

lemma resolve_no_invitation:
  assumes "s_invitation s = None" and "sel_Kind selector = E2EEAuthInvitation"
  shows "ResolveE2EESecret s selector = (s\<lparr>dv_reads := Suc (dv_reads s)\<rparr>, Inl ErrAuthentication)"
  using assms by (simp add: ResolveE2EESecret_def read_clock_def)

lemma resolve_invitation:
  assumes "s_invitation s = Some i" and "in_InvitationID i \<noteq> bootstrapInvitationID" and "faultless s"
    and "sel_Kind selector = E2EEAuthInvitation" and "ResolveE2EESecret s selector = (s', r)"
  shows "faultless s'" "s_invitation s' = Some i \<or> s_invitation s' = None \<and> (\<exists>e. r = Inl e)"
    "r = Inr secret \<Longrightarrow> s_invitation s' = Some i \<and> in_InvitationID i = sel_ID selector \<and> in_Version i = sel_Version selector"
  using assms
  by (auto simp: ResolveE2EESecret_def read_clock_def persist_faultless resolve_checked_def Let_def split: if_splits)

lemma failed_invitation:
  assumes "s_invitation s = Some i" and "in_InvitationID i \<noteq> bootstrapInvitationID" and "faultless s"
    and "sel_Kind selector = E2EEAuthInvitation" and "in_InvitationID i = sel_ID selector" and "in_Version i = sel_Version selector"
    and "CompleteE2EEAuth s selector False = (s', r)"
  shows "faultless s'" "s_invitation s' = None \<or> in_FailedAttempts i + 1 < maxInviteAttempts
      \<and> (\<exists>t. s_invitation s' = Some (i\<lparr>in_FailedAttempts := in_FailedAttempts i + 1, in_NextAttemptAt := t\<rparr>))"
  using assms
  by (auto simp: CompleteE2EEAuth_def recordFailedInvitationLocked_def read_clock_def persist_faultless Let_def split: if_splits prod.splits)

lemma failed_no_invitation:
  "s_invitation s = None \<Longrightarrow> sel_Kind selector = E2EEAuthInvitation \<Longrightarrow> fst (CompleteE2EEAuth s selector False) = s"
  by (simp add: CompleteE2EEAuth_def recordFailedInvitationLocked_def)

text \<open>
  While the invitation is there every comparison is a recorded failure or under way; the bound is
  reached by the last comparison before it goes.
\<close>

definition guess_books :: "nat \<Rightarrow> invitationRecord \<Rightarrow> guessing \<Rightarrow> bool" where
  "guess_books K i st \<longleftrightarrow> (case st of (s, under_way, compared) \<Rightarrow>
     faultless s \<and> int compared \<le> int K + (maxInviteAttempts - 1 - in_FailedAttempts i)
     \<and> list_all (\<lambda>sel. sel_Kind sel = E2EEAuthInvitation) under_way
     \<and> (case s_invitation s of
          None \<Rightarrow> True
        | Some j \<Rightarrow> in_InvitationID j \<noteq> bootstrapInvitationID \<and> in_FailedAttempts j < maxInviteAttempts
            \<and> list_all (\<lambda>sel. in_InvitationID j = sel_ID sel \<and> in_Version j = sel_Version sel) under_way
            \<and> int compared = in_FailedAttempts j - in_FailedAttempts i + int (length under_way)))"

lemma list_all_without: "list_all P xs \<Longrightarrow> list_all P (take k xs @ drop (Suc k) xs)"
  by (auto simp: list_all_iff dest: in_set_takeD in_set_dropD)

lemma guess_arrives_books:
  assumes "guess_books K i (s, under_way, compared)" and kind: "sel_Kind selector = E2EEAuthInvitation"
    and room: "length (fst (snd (guess_event_step (s, under_way, compared) (GuessArrives selector)))) \<le> K"
  shows "guess_books K i (guess_event_step (s, under_way, compared) (GuessArrives selector))"
proof -
  obtain s' r where r: "ResolveE2EESecret s selector = (s', r)" by fastforce
  show ?thesis
  proof (cases "s_invitation s")
    case None
    then show ?thesis using assms(1) resolve_no_invitation [OF None kind] by (simp add: guess_books_def)
  next
    case (Some j)
    have b: "faultless s" "in_InvitationID j \<noteq> bootstrapInvitationID" using assms(1) Some by (simp_all add: guess_books_def)
    note R = resolve_invitation [OF Some b(2,1) kind r]
    show ?thesis
    proof (cases r)
      case (Inl e)
      then show ?thesis using assms(1) Some r R(1,2) by (auto simp: guess_books_def)
    next
      case (Inr secret)
      note M = R(3) [OF Inr]
      have "length under_way < K" using room r Inr by simp
      then show ?thesis using assms(1) Some r Inr M R(1) kind by (auto simp: guess_books_def)
    qed
  qed
qed

lemma guess_fails_books:
  assumes "guess_books K i (s, under_way, compared)"
  shows "guess_books K i (guess_event_step (s, under_way, compared) (GuessFails k))"
proof (cases "k < length under_way")
  case True
  obtain s' r where r: "CompleteE2EEAuth s (under_way ! k) False = (s', r)" by fastforce
  have kinds: "list_all (\<lambda>sel. sel_Kind sel = E2EEAuthInvitation) under_way" using assms by (simp add: guess_books_def)
  then have kind: "sel_Kind (under_way ! k) = E2EEAuthInvitation" using True by (simp add: list_all_length)
  have len: "length (take k under_way @ drop (Suc k) under_way) = length under_way - 1" using True by simp
  show ?thesis
  proof (cases "s_invitation s")
    case None
    then have "s' = s" using failed_no_invitation [OF None kind] r by simp
    then show ?thesis using assms True r None list_all_without [OF kinds, of k] by (simp add: guess_books_def)
  next
    case (Some j)
    have b: "faultless s" "in_InvitationID j \<noteq> bootstrapInvitationID"
        "list_all (\<lambda>sel. in_InvitationID j = sel_ID sel \<and> in_Version j = sel_Version sel) under_way"
      using assms Some by (simp_all add: guess_books_def)
    then have "in_InvitationID j = sel_ID (under_way ! k)" "in_Version j = sel_Version (under_way ! k)" using True by (simp_all add: list_all_length)
    note F = failed_invitation [OF Some b(2,1) kind this r]
    show ?thesis
      using assms True r Some F len list_all_without [OF kinds, of k] list_all_without [OF b(3), of k] by (auto simp: guess_books_def)
  qed
qed (use assms in simp)

lemma guesses_bound:
  assumes "guess_books K i st" and "at_most_under_way K st evs" and "list_all guesses_invitation evs"
  shows "guess_books K i (run_ops guess_event_step st evs)"
  using assms
proof (induction evs arbitrary: st)
  case (Cons ev evs)
  obtain s under_way compared where st: "st = (s, under_way, compared)" by (cases st)
  have "length (fst (snd (guess_event_step st ev))) \<le> K" using Cons.prems(2) by (cases evs) simp_all
  then have "guess_books K i (guess_event_step st ev)"
    using Cons.prems(1,3) guess_arrives_books guess_fails_books unfolding st by (cases ev) auto
  then show ?case using Cons by simp
qed simp

section \<open>Redeeming an invitation\<close>

lemma redeem_pending:
  assumes "redeemInvitationLocked s selector = (s', Inr a)"
  shows "\<exists>rcd. s_invitation s' = Some rcd \<and> in_InvitationID rcd = sel_ID selector \<and> in_Version rcd = sel_Version selector
     \<and> in_PendingCredentialID rcd \<noteq> []
     \<and> (\<exists>i < length (s_credentials s'). rec_cid (s_credentials s' ! i) = in_PendingCredentialID rcd
          \<and> credentialAuthResult (s_credentials s' ! i) True = Inr a)"
proof -
  let ?c = "s\<lparr>dv_reads := Suc (dv_reads s)\<rparr>"
  let ?now = "dv_now s (dv_reads s)"
  from assms obtain rcd where R: "s_invitation s = Some rcd" "in_InvitationID rcd = sel_ID selector" "in_Version rcd = sel_Version selector"
    "?now < in_ExpiresAt rcd"
    by (auto simp: redeemInvitationLocked_def read_clock_def Let_def split: option.splits if_splits prod.splits bool.splits)
  show ?thesis
  proof (cases "in_PendingCredentialID rcd = []")
    case True
    obtain s1 r1 where u1: "uniqueDeviceIDLocked 8 ?c = (s1, r1)" by fastforce
    obtain s2 r2 where u2: "uniqueCredentialIDLocked 8 s1 = (s2, r2)" by fastforce
    obtain s3 r3 where u3: "randomValue s2 secretBytes = (s3, r3)" by fastforce
    from assms R True u1 u2 u3 obtain dev cid secret where r2: "r2 = Inr cid"
      and iss: "issue_credential s3 selector rcd ?now dev cid secret = (s', Inr a)"
      by (auto simp: redeemInvitationLocked_def read_clock_def Let_def split: sum.splits)
    have "cid \<noteq> []" using uniqueCredentialIDLocked_facts [OF u2] r2 by simp
    with iss R(2,3) show ?thesis
      by (auto simp: issue_credential_def Let_def credentialAuthResult_def nth_append persist_cases(1)
          intro!: exI [of _ "length (s_credentials s3)"] split: sum.splits prod.splits bool.splits)
  next
    case False
    let ?cid = "in_PendingCredentialID rcd"
    from assms R False obtain i where i: "credentialIndex ?c ?cid = Some i" and s': "s' = ?c"
      and a: "credentialAuthResult (s_credentials s ! i) True = Inr a"
      by (auto simp: redeemInvitationLocked_def read_clock_def Let_def split: option.splits)
    from credentialIndex_Some [OF i] a s' R False show ?thesis by auto
  qed
qed

lemma redeem_state_ok: "redeemInvitationLocked s selector = (s', r) \<Longrightarrow> state_ok (dv_state s) \<Longrightarrow> state_ok (dv_state s')"
  using redeemInvitationLocked_sound [of s selector s' r False] by (auto simp: sound_step_def attempted_def)

section \<open>Properties\<close>

text \<open>
  C20: the size of its file is the only reason for which the credential store refuses a file it
  wrote itself: after any sequence of operations, with any write failing before or after it became
  visible, the state in memory and the file both pass the checks of \<open>load\<close>, so that a restart takes
  exactly the state of the file unless its JSON encoding (of whatever length \<open>encodedBytes\<close> gives it) exceeds the
  4 MiB that are read; and every state the memory reached had been in the file.
\<close>

theorem store_restart_safe:
  assumes "state_ok (dv_state s)" and "dv_disk s = Some (dv_state s)"
  shows "state_ok (dv_state (run_ops store_step s ops))
     \<and> (\<forall>d. dv_disk (run_ops store_step s ops) = Some d \<longrightarrow>
          load_state s0 (FileDecoded (encodedBytes d) d) = (if encodedBytes d \<le> maxStoreBytes then Some (s0\<lparr>dv_state := d\<rparr>) else None))
     \<and> (\<exists>xs ys. ops = xs @ ys \<and> dv_disk (run_ops store_step s xs) = Some (dv_state (run_ops store_step s ops)))"
proof (intro conjI)
  show "state_ok (dv_state (run_ops store_step s ops))" by (rule devices.run_mem_ok [OF assms(1)])
  have "state_ok d" if "dv_disk (run_ops store_step s ops) = Some d" for d
    using devices.run_disk_ok [OF assms(1) _ that] assms by simp
  then show "\<forall>d. dv_disk (run_ops store_step s ops) = Some d \<longrightarrow>
      load_state s0 (FileDecoded (encodedBytes d) d) = (if encodedBytes d \<le> maxStoreBytes then Some (s0\<lparr>dv_state := d\<rparr>) else None)"
    by (simp add: load_state_def state_ok_def)
  show "\<exists>xs ys. ops = xs @ ys \<and> dv_disk (run_ops store_step s xs) = Some (dv_state (run_ops store_step s ops))"
  proof (cases "dv_state (run_ops store_step s ops) = dv_state s")
    case True
    with assms(2) show ?thesis by (intro exI [of _ "[]"] exI [of _ ops]) simp
  next
    case False
    then show ?thesis by (rule devices.run_change_was_written [OF assms(1)])
  qed
qed

text \<open>
  C22: the operator cannot be locked out: once there is an active controller, no sequence of
  operations other than a reset leaves the store without one, because revoking the last one
  is refused.
\<close>

theorem a_controller_remains:
  assumes "state_ok (dv_state s)" and "0 < activeControllerCountLocked s" and "\<forall>op \<in> set ops. \<not> is_OpReset op"
  shows "0 < activeControllerCountLocked (run_ops store_step s ops)"
  using run_evolves [OF assms(1,3)] assms(2) by (simp add: activeControllerCountLocked_def controllers_def)

text \<open>
  C23: revocation is final: whatever operations follow short of a reset, a revoked credential
  is not authorized at any version, its secret is not returned to the transport, and no
  authentication with it completes.
\<close>

theorem revocation_is_final:
  assumes "state_ok (dv_state s)" and "revoked_in cid (s_credentials s)" and "\<forall>op \<in> set ops. \<not> is_OpReset op"
    and "sel_Kind selector = E2EEAuthCredential" and "sel_ID selector = cid"
  shows "let s' = run_ops store_step s ops in
     AuthorizeCredential s' cid v = None \<and> snd (ResolveE2EESecret s' selector) = Inl ErrRevoked
     \<and> CompleteE2EEAuth s' selector authenticated = (s', Inl ErrAuthentication)"
proof -
  have rev: "revoked_in cid (s_credentials (run_ops store_step s ops))" using run_evolves [OF assms(1,3)] assms(2) by blast
  have ok: "creds_ok (s_credentials (run_ops store_step s ops))"
    by (rule state_okD(2) [OF devices.run_mem_ok [OF assms(1)]])
  show ?thesis
    unfolding Let_def using revoked_refused(1) [OF ok rev] revoked_refused(2,3) [OF ok rev assms(4,5)] by (intro conjI)
qed

text \<open>
  C24: guessing an invitation other than the bootstrap one is bounded, also by handshakes that run
  in parallel: when at most \<open>K\<close> handshakes are between the resolution of their secret and their
  failed completion at any time, the secret of the invitation is compared at most \<open>K - 1\<close> times more
  than attempts are left, so at most five times for a fresh invitation and handshakes one after the
  other. The failed attempts can be written to the file; while no write succeeds none is counted.
\<close>

theorem invitation_guess_limit:
  assumes "s_invitation s = Some i" and "in_InvitationID i \<noteq> bootstrapInvitationID" and "in_FailedAttempts i < maxInviteAttempts"
    and "faultless s" and "list_all guesses_invitation evs" and "at_most_under_way K (s, [], 0) evs"
    and "run_ops guess_event_step (s, [], 0) evs = (s', under_way, compared)"
  shows "int compared \<le> (maxInviteAttempts - in_FailedAttempts i) + (int K - 1)"
proof -
  have "guess_books K i (s, [], 0)" using assms(1-4) by (simp add: guess_books_def)
  from guesses_bound [OF this assms(6,5)] show ?thesis unfolding assms(7) by (simp add: guess_books_def)
qed

text \<open>
  failed attempts back off exponentially: after attempt number \<open>n + 1\<close> is recorded at some
  time, the invitation is not compared again for two to the power \<open>n\<close> seconds.
\<close>

theorem invitation_backoff:
  assumes "s_invitation s = Some i" and "in_InvitationID i = sel_ID selector" and "in_Version i = sel_Version selector"
    and "sel_Kind selector = E2EEAuthInvitation"
    and "recordFailedInvitationLocked s selector = (s', ErrAuthentication)" and "in_InvitationID i \<noteq> bootstrapInvitationID"
    and "dv_now s' (dv_reads s') < dv_now s (dv_reads s) + second * 2 ^ nat (in_FailedAttempts i)"
    and "dv_now s' (dv_reads s') < in_ExpiresAt i"
  shows "snd (ResolveE2EESecret s' selector) = Inl ErrRateLimited"
proof -
  let ?t = "dv_now s (dv_reads s) + second * 2 ^ nat (in_FailedAttempts i)"
  from assms(1-3,5,6) have "s_invitation s' = Some (i\<lparr>in_FailedAttempts := in_FailedAttempts i + 1, in_NextAttemptAt := ?t\<rparr>)"
    and "in_FailedAttempts i + 1 < maxInviteAttempts"
    by (auto simp: recordFailedInvitationLocked_def read_clock_def Let_def persist_cases(1) split: if_splits prod.splits bool.splits)
  with assms show ?thesis by (simp add: ResolveE2EESecret_def read_clock_def resolve_checked_def)
qed

text \<open>
  a lost response does not lose the enrolment and does not enrol twice: redeeming an
  invitation again before it expires returns the same identity and secret and changes
  nothing.
\<close>

theorem redemption_idempotent:
  assumes "state_ok (dv_state s)" and "redeemInvitationLocked s selector = (s', Inr a)"
    and "s_invitation s' = Some i" and "dv_now s' (dv_reads s') < in_ExpiresAt i"
  shows "redeemInvitationLocked s' selector = (s'\<lparr>dv_reads := Suc (dv_reads s')\<rparr>, Inr a)"
proof -
  from redeem_pending [OF assms(2)] assms(3) obtain j where m: "in_InvitationID i = sel_ID selector" "in_Version i = sel_Version selector"
    "in_PendingCredentialID i \<noteq> []" and j: "j < length (s_credentials s')" "rec_cid (s_credentials s' ! j) = in_PendingCredentialID i"
    "credentialAuthResult (s_credentials s' ! j) True = Inr a" by auto
  have "creds_ok (s_credentials s')" by (rule state_okD(2) [OF redeem_state_ok [OF assms(2,1)]])
  from credentialIndex_unique [OF this j(1)] j(2) have "credentialIndex (s'\<lparr>dv_reads := n\<rparr>) (in_PendingCredentialID i) = Some j" for n
    by (simp add: credentialIndex_def)
  with m j(3) assms(3,4) show ?thesis by (simp add: redeemInvitationLocked_def read_clock_def)
qed

text \<open>
  an invitation enrols one device: as soon as the credential it issued is used to log in,
  the invitation is gone and every later redemption is refused.
\<close>

theorem invitation_single_use:
  assumes "redeemInvitationLocked s invitation = (s1, Inr a)" and "state_ok (dv_state s)"
    and "sel_ID login = ai_CredentialID (ar_Identity a)" and "completeCredentialLocked s1 login = (s2, Inr b)"
  shows "s_invitation s2 = None \<and> redeemInvitationLocked s2 selector = (s2, Inl ErrAuthentication)"
proof -
  from redeem_pending [OF assms(1)] obtain i j where i: "s_invitation s1 = Some i"
    and j: "j < length (s_credentials s1)" "rec_cid (s_credentials s1 ! j) = in_PendingCredentialID i"
    and "credentialAuthResult (s_credentials s1 ! j) True = Inr a" by blast
  then have cid: "sel_ID login = in_PendingCredentialID i"
    using assms(3) by (auto simp: credentialAuthResult_def Let_def split: sum.splits)
  have "creds_ok (s_credentials s1)" by (rule state_okD(2) [OF redeem_state_ok [OF assms(1,2)]])
  from credentialIndex_unique [OF this j(1)] j(2) cid have idx: "credentialIndex s1 (sel_ID login) = Some j" by simp
  have "s_invitation s2 = None"
    using assms(4) idx i j cid
    by (auto simp: completeCredentialLocked_def read_clock_def drop_pending_def Let_def persist_cases(1)
        split: if_splits prod.splits bool.splits)
  then show ?thesis by (simp add: redeemInvitationLocked_def)
qed

text \<open>
  C21: the store is a lawful authority for the transport: with it, a server handshake keeps the
  store loadable and never ends in the errors for an unusable secret, a malformed identity
  or a wrongly issued credential; and a handshake that succeeds yields the identity of a
  credential that is authorized at that moment with the same role and device.
\<close>

theorem handshake_identity_authorized:
  assumes "state_ok (dv_state st)"
    and "performServerE2EEHandshake cr js serverPrivate serverNonce (Some store_resolver) st conn = (st', conn', result)"
  shows "state_ok (dv_state st') \<and> result \<noteq> Inl InvalidSecret \<and> result \<noteq> Inl InvalidIdentity \<and> result \<noteq> Inl InvalidIssuedCredential
     \<and> (\<forall>session identity. result = Inr (session, identity) \<longrightarrow>
          (\<exists>c. AuthorizeCredential st' (ai_CredentialID identity) (ai_CredentialVersion identity) = Some c
             \<and> cd_Role c = ai_Role identity \<and> cd_DeviceID c = ai_DeviceID identity))"
proof (intro conjI allI impI)
  show ok: "state_ok (dv_state st')" by (rule authority.handshake_keeps_inv [OF assms])
  show "result \<noteq> Inl InvalidSecret" "result \<noteq> Inl InvalidIdentity" "result \<noteq> Inl InvalidIssuedCredential"
    using authority.handshake_trusts_authority [OF assms] by blast+
  fix session identity
  assume "result = Inr (session, identity)"
  with assms(2) have run: "performServerE2EEHandshake cr js serverPrivate serverNonce (Some store_resolver) st conn = (st', conn', Inr (session, identity))"
    by simp
  from handshake_success [OF run] obtain hello :: parsedE2EEClientHello and secret st1 and a :: E2EEAuthResult where
    res: "ResolveE2EESecret st (ph_selector hello) = (st1, Inr secret)"
    and cmp: "CompleteE2EEAuth st1 (ph_selector hello) True = (st', Inr a)" and ident: "identity = ar_Identity a"
    unfolding store_resolver_def resolver.simps by blast
  have "state_ok (dv_state st1)" using devices.mem_ok [OF assms(1), of "OpResolve (ph_selector hello)"] res by simp
  from CompleteE2EEAuth_live [OF cmp this] obtain r where r: "r \<in> set (s_credentials st')" "live_result (ph_selector hello) r a" by blast
  then obtain j where j: "j < length (s_credentials st')" "s_credentials st' ! j = r" by (auto simp: in_set_conv_nth)
  from credentialIndex_unique [OF state_okD(2) [OF ok] j(1)] j(2) have "credentialIndex st' (rec_cid r) = Some j" by simp
  with r j ident show "\<exists>c. AuthorizeCredential st' (ai_CredentialID identity) (ai_CredentialVersion identity) = Some c
             \<and> cd_Role c = ai_Role identity \<and> cd_DeviceID c = ai_DeviceID identity"
    by (auto simp: AuthorizeCredential_def live_result_def)
qed

section \<open>Witnesses\<close>

definition sample_record :: "string \<Rightarrow> string \<Rightarrow> bool \<Rightarrow> credentialRecord" where
  "sample_record dev cid revoked = \<lparr>rec_Credential = \<lparr>cd_DeviceID = dev, cd_CredentialID = cid, cd_Name = ''n'',
     cd_Role = RoleController, cd_Locale = ''en'', cd_PairedAt = 0, cd_LastSeenAt = 0, cd_Version = 1, cd_Revoked = revoked,
     cd_Current = False\<rparr>, rec_Secret = (if revoked then [] else b64_encode (replicate 32 1))\<rparr>"

definition sample_invitation :: invitationRecord where
  "sample_invitation = \<lparr>in_InvitationID = ''i'', in_Version = 1, in_Secret = b64_encode (replicate 32 2), in_ExpiresAt = 10 ^ 12,
     in_Name = ''n'', in_Role = RoleController, in_Locale = ''en'', in_FailedAttempts = 3, in_NextAttemptAt = 0,
     in_PendingCredentialID = []\<rparr>"

definition sample_store :: Store where
  "sample_store = \<lparr>dv_now = (\<lambda>n. int n), dv_reads = 0, dv_random = replicate 200 5, dv_fault = (\<lambda>_. NoFault), dv_writes = 0,
     dv_rearmBootstrap = False,
     dv_state = \<lparr>ds_SchemaVersion = 1, ds_Invitation = Some sample_invitation,
       ds_Credentials = [sample_record ''a'' ''ca'' True, sample_record ''b'' ''cb'' False]\<rparr>,
     dv_disk = Some \<lparr>ds_SchemaVersion = 1, ds_Invitation = Some sample_invitation,
       ds_Credentials = [sample_record ''a'' ''ca'' True, sample_record ''b'' ''cb'' False]\<rparr>\<rparr>"

lemma sample_metadata: "metadata_ok ''n'' RoleController ''en''"
proof -
  have seg: "utf8_segs ''n'' = map (\<lambda>c. (of_char c, [c])) ''n''" by (rule utf8_segs_ascii) simp
  have "TrimSpace ''n'' = ''n''" unfolding TrimSpace_def seg by (simp add: trim_segs_def IsSpace_def)
  moreover have "validText ''n'' maxNameBytes"
    unfolding validText_def ValidString_def rune_seq_def seg by (simp add: maxNameBytes_def IsControl_def RuneError_def)
  moreover have "NormalizeLocale ''en'' = ''en''" if "TrimSpace ''en'' = ''en''"
    using that by (simp add: NormalizeLocale_def English_def lower_char_def)
  moreover have "metadata_ok ''n'' RoleController English"
    using metadata_locales calculation(1,2) by (simp add: metadata_ok_iff)
  ultimately show ?thesis by (simp add: English_def)
qed

lemma sample_ok: "state_ok (dv_state sample_store)" "dv_disk sample_store = Some (dv_state sample_store)"
proof -
  show "state_ok (dv_state sample_store)"
    by (rule state_okI)
      (auto simp: sample_store_def sample_record_def sample_invitation_def storeSchemaVersion_def creds_ok_def rec_ok_def
        invite_ok_def sample_metadata secretBytes_def maxInviteAttempts_def)
qed (simp add: sample_store_def)

definition sample_selector :: "string \<Rightarrow> string \<Rightarrow> E2EEAuthSelector" where
  "sample_selector kind ident = \<lparr>sel_Kind = kind, sel_ID = ident, sel_Version = 1, sel_Locale = ''en''\<rparr>"

theorem store_restart_safe_witness:
  "state_ok (dv_state (run_ops store_step sample_store [OpRevoke ''cb'', OpRename ''ca'' ''phone'']))"
  using store_restart_safe [OF sample_ok] by blast

theorem a_controller_remains_witness:
  "0 < activeControllerCountLocked (run_ops store_step sample_store [OpRevoke ''cb'', OpRevoke ''ca''])"
  by (rule a_controller_remains [OF sample_ok(1)])
    (simp_all add: activeControllerCountLocked_def sample_store_def sample_record_def)

theorem revocation_is_final_witness:
  "AuthorizeCredential (run_ops store_step sample_store [OpRename ''ca'' ''again'', OpRevoke ''cb'']) ''ca'' 1 = None"
  using revocation_is_final [OF sample_ok(1), of "''ca''" "[OpRename ''ca'' ''again'', OpRevoke ''cb'']"
      "sample_selector E2EEAuthCredential ''ca''"]
  unfolding Let_def by (auto simp: revoked_in_def sample_store_def sample_record_def sample_selector_def)

definition sample_guesses :: "guess_event list" where
  "sample_guesses = (let a = GuessArrives (sample_selector E2EEAuthInvitation ''i'') in [a, a, GuessFails 0, GuessFails 0, a, GuessFails 0, a])"

theorem invitation_guess_limit_witness:
  "snd (snd (run_ops guess_event_step (sample_store, [], 0) sample_guesses)) = 2
     \<and> int (snd (snd (run_ops guess_event_step (sample_store, [], 0) sample_guesses))) \<le> (5 - 3) + (int 2 - 1)"
proof -
  obtain s' under_way compared where r: "run_ops guess_event_step (sample_store, [], 0) sample_guesses = (s', under_way, compared)" by (rule prod_cases3)
  have "at_most_under_way 2 (sample_store, [], 0) sample_guesses \<and> snd (snd (run_ops guess_event_step (sample_store, [], 0) sample_guesses)) = 2"
    by code_simp
  then have "at_most_under_way 2 (sample_store, [], 0) sample_guesses" "compared = 2" using r by simp_all
  moreover have "list_all guesses_invitation sample_guesses" by (simp add: sample_guesses_def sample_selector_def Let_def)
  ultimately show ?thesis
    using invitation_guess_limit [of sample_store sample_invitation sample_guesses 2] r
    by (simp add: sample_store_def sample_invitation_def bootstrapInvitationID_def faultless_def maxInviteAttempts_def)
qed

lemma sample_failed:
  "\<exists>s'. recordFailedInvitationLocked sample_store (sample_selector E2EEAuthInvitation ''i'') = (s', ErrAuthentication)
     \<and> dv_now s' (dv_reads s') = 1"
  by (simp add: recordFailedInvitationLocked_def sample_store_def sample_invitation_def sample_selector_def bootstrapInvitationID_def
      read_clock_def persistLocked_def set_invitation_def maxInviteAttempts_def Let_def)

theorem invitation_backoff_witness:
  "snd (ResolveE2EESecret (fst (recordFailedInvitationLocked sample_store (sample_selector E2EEAuthInvitation ''i'')))
     (sample_selector E2EEAuthInvitation ''i'')) = Inl ErrRateLimited"
proof -
  from sample_failed obtain s' where s': "recordFailedInvitationLocked sample_store (sample_selector E2EEAuthInvitation ''i'') = (s', ErrAuthentication)"
    "dv_now s' (dv_reads s') = 1" by blast
  have "snd (ResolveE2EESecret s' (sample_selector E2EEAuthInvitation ''i'')) = Inl ErrRateLimited"
    by (rule invitation_backoff [where i = sample_invitation, OF _ _ _ _ s'(1)])
      (simp_all add: s'(2), simp_all add: sample_store_def sample_invitation_def sample_selector_def bootstrapInvitationID_def second_def)
  with s' show ?thesis by simp
qed

lemma b64_encode_longer: "length s < length (b64_encode bs) \<Longrightarrow> s \<noteq> b64_encode bs"
  by auto

lemma sample_unique:
  "uniqueDeviceIDLocked 8 (sample_store\<lparr>dv_reads := n\<rparr>) = (sample_store\<lparr>dv_reads := n, dv_random := replicate 182 5\<rparr>, Inr (b64_encode (replicate 18 5)))"
  "uniqueCredentialIDLocked 8 (sample_store\<lparr>dv_reads := n, dv_random := replicate 182 5\<rparr>)
     = (sample_store\<lparr>dv_reads := n, dv_random := replicate 164 5\<rparr>, Inr (b64_encode (replicate 18 5)))"
proof -
  have eight: "(8 :: nat) = Suc 7" by simp
  have ids: "''a'' \<noteq> b64_encode (replicate 18 5)" "''b'' \<noteq> b64_encode (replicate 18 5)"
    "''ca'' \<noteq> b64_encode (replicate 18 5)" "''cb'' \<noteq> b64_encode (replicate 18 5)"
    by (rule b64_encode_longer, simp)+
  show "uniqueDeviceIDLocked 8 (sample_store\<lparr>dv_reads := n\<rparr>) = (sample_store\<lparr>dv_reads := n, dv_random := replicate 182 5\<rparr>, Inr (b64_encode (replicate 18 5)))"
    unfolding eight uniqueDeviceIDLocked.simps
    by (simp add: randomValue_def identifierBytes_def sample_store_def sample_record_def ids)
  show "uniqueCredentialIDLocked 8 (sample_store\<lparr>dv_reads := n, dv_random := replicate 182 5\<rparr>)
     = (sample_store\<lparr>dv_reads := n, dv_random := replicate 164 5\<rparr>, Inr (b64_encode (replicate 18 5)))"
    unfolding eight uniqueCredentialIDLocked.simps
    by (simp add: randomValue_def identifierBytes_def sample_store_def sample_record_def credentialIndex_def ids)
qed

lemma sample_redeem:
  "\<exists>s' a i. redeemInvitationLocked sample_store (sample_selector E2EEAuthInvitation ''i'') = (s', Inr a)
     \<and> s_invitation s' = Some i \<and> dv_now s' (dv_reads s') < in_ExpiresAt i \<and> dv_fault s' = (\<lambda>_. NoFault)
     \<and> s_credentials s' = [sample_record ''a'' ''ca'' True, sample_record ''b'' ''cb'' False,
          \<lparr>rec_Credential = \<lparr>cd_DeviceID = b64_encode (replicate 18 5), cd_CredentialID = b64_encode (replicate 18 5), cd_Name = ''n'',
             cd_Role = RoleController, cd_Locale = NormalizeLocale ''en'', cd_PairedAt = 0, cd_LastSeenAt = 0, cd_Version = 1, cd_Revoked = False,
             cd_Current = False\<rparr>, rec_Secret = b64_encode (replicate 32 5)\<rparr>]
     \<and> ai_CredentialID (ar_Identity a) = b64_encode (replicate 18 5)"
proof -
  have inv: "s_invitation sample_store = Some sample_invitation" "dv_now sample_store (dv_reads sample_store) = 0"
    "sample_store\<lparr>dv_reads := Suc (dv_reads sample_store)\<rparr> = sample_store\<lparr>dv_reads := Suc 0\<rparr>"
    by (simp_all add: sample_store_def)
  have rv: "randomValue (sample_store\<lparr>dv_reads := n, dv_random := replicate 164 5\<rparr>) secretBytes
      = (sample_store\<lparr>dv_reads := n, dv_random := replicate 132 5\<rparr>, Inr (b64_encode (replicate 32 5)))" for n
    by (simp add: randomValue_def secretBytes_def)
  show ?thesis
    by (simp add: redeemInvitationLocked_def inv read_clock_def sample_unique rv sample_selector_def)
      (simp add: sample_invitation_def issue_credential_def decodeStoredSecret_def secretBytes_def persistLocked_def
        sample_store_def set_invitation_def set_credentials_def Let_def)
qed

theorem redemption_idempotent_witness:
  "\<exists>s' a. redeemInvitationLocked sample_store (sample_selector E2EEAuthInvitation ''i'') = (s', Inr a)
     \<and> redeemInvitationLocked s' (sample_selector E2EEAuthInvitation ''i'') = (s'\<lparr>dv_reads := Suc (dv_reads s')\<rparr>, Inr a)"
  using sample_redeem redemption_idempotent [OF sample_ok(1)] by blast

theorem invitation_single_use_witness:
  "\<exists>s1 s2 a b. redeemInvitationLocked sample_store (sample_selector E2EEAuthInvitation ''i'') = (s1, Inr a)
     \<and> completeCredentialLocked s1 (sample_selector E2EEAuthCredential (b64_encode (replicate 18 5))) = (s2, Inr b)
     \<and> s_invitation s2 = None"
proof -
  from sample_redeem obtain s1 a i where r: "redeemInvitationLocked sample_store (sample_selector E2EEAuthInvitation ''i'') = (s1, Inr a)"
    and i: "s_invitation s1 = Some i" and f: "dv_fault s1 = (\<lambda>_. NoFault)"
    and cs: "s_credentials s1 = [sample_record ''a'' ''ca'' True, sample_record ''b'' ''cb'' False,
          \<lparr>rec_Credential = \<lparr>cd_DeviceID = b64_encode (replicate 18 5), cd_CredentialID = b64_encode (replicate 18 5), cd_Name = ''n'',
             cd_Role = RoleController, cd_Locale = NormalizeLocale ''en'', cd_PairedAt = 0, cd_LastSeenAt = 0, cd_Version = 1, cd_Revoked = False,
             cd_Current = False\<rparr>, rec_Secret = b64_encode (replicate 32 5)\<rparr>]"
    and a: "ai_CredentialID (ar_Identity a) = b64_encode (replicate 18 5)" by blast
  let ?login = "sample_selector E2EEAuthCredential (b64_encode (replicate 18 5))"
  have ids: "''ca'' \<noteq> b64_encode (replicate 18 5)" "''cb'' \<noteq> b64_encode (replicate 18 5)"
    by (rule b64_encode_longer, simp)+
  have idx: "credentialIndex s1 (b64_encode (replicate 18 5)) = Some 2"
    by (simp add: credentialIndex_def cs sample_record_def ids)
  have "\<exists>s2 b. completeCredentialLocked s1 ?login = (s2, Inr b)"
    by (cases "in_PendingCredentialID i = b64_encode (replicate 18 5)")
      (simp_all add: completeCredentialLocked_def sample_selector_def idx cs read_clock_def persistLocked_def drop_pending_def
        i f credentialAuthResult_def Let_def)
  then obtain s2 b where c: "completeCredentialLocked s1 ?login = (s2, Inr b)" by blast
  from r c invitation_single_use [OF r sample_ok(1) _ c] a show ?thesis by (auto simp: sample_selector_def)
qed

text \<open>A device logs in with its credential through the whole handshake.\<close>

definition sample_json :: json_codec where
  "sample_json = demo_json\<lparr>js_decodeHello := (\<lambda>_. Some (demo_hello\<lparr>ch_AuthID := ''cb''\<rparr>))\<rparr>"

lemma sample_parse: "parseE2EEClientHello (demo_crypto tag) sample_json raw =
    Inr \<lparr>ph_selector = sample_selector E2EEAuthCredential ''cb'', ph_nonce = replicate 32 0, ph_publicBytes = replicate 65 0, ph_proof = replicate 32 9\<rparr>"
  by (simp add: parseE2EEClientHello_def sample_json_def demo_json_def demo_hello_def e2eeVersion_def decodeE2EEField_def demo_crypto_def
      e2eeNonceBytes_def e2eePublicKeyBytes_def sha256Size_def sample_selector_def)

lemma sample_login:
  "ResolveE2EESecret sample_store (sample_selector E2EEAuthCredential ''cb'') = (sample_store\<lparr>dv_reads := Suc 0\<rparr>, Inr (replicate 32 1))"
  "\<exists>st' a. CompleteE2EEAuth (sample_store\<lparr>dv_reads := Suc 0\<rparr>) (sample_selector E2EEAuthCredential ''cb'') True = (st', Inr a)
     \<and> ar_CredentialSecret a = [] \<and> ai_CredentialID (ar_Identity a) = ''cb'' \<and> validAuthenticatedIdentity (ar_Identity a)"
proof -
  have idx: "credentialIndex (sample_store\<lparr>dv_reads := n\<rparr>) ''cb'' = Some 1" for n
    by (simp add: credentialIndex_def sample_store_def sample_record_def)
  show "ResolveE2EESecret sample_store (sample_selector E2EEAuthCredential ''cb'') = (sample_store\<lparr>dv_reads := Suc 0\<rparr>, Inr (replicate 32 1))"
    by (simp add: ResolveE2EESecret_def read_clock_def sample_selector_def E2EEAuthInvitation_def E2EEAuthCredential_def idx Let_def)
      (simp add: sample_store_def sample_record_def decodeStoredSecret_def secretBytes_def)
  show "\<exists>st' a. CompleteE2EEAuth (sample_store\<lparr>dv_reads := Suc 0\<rparr>) (sample_selector E2EEAuthCredential ''cb'') True = (st', Inr a)
     \<and> ar_CredentialSecret a = [] \<and> ai_CredentialID (ar_Identity a) = ''cb'' \<and> validAuthenticatedIdentity (ar_Identity a)"
    using idx [of "Suc 0"]
    by (simp add: CompleteE2EEAuth_def sample_selector_def E2EEAuthInvitation_def E2EEAuthCredential_def completeCredentialLocked_def)
      (simp add: sample_store_def sample_record_def read_clock_def persistLocked_def drop_pending_def credentialAuthResult_def
        sample_invitation_def validAuthenticatedIdentity_def RoleController_def Let_def)
qed

lemma sample_handshake:
  "\<exists>st' conn' session identity. performServerE2EEHandshake (demo_crypto (replicate 32 9)) sample_json (Some [1]) (Some (replicate 32 3))
     (Some store_resolver) sample_store demo_conn = (st', conn', Inr (session, identity)) \<and> ai_CredentialID identity = ''cb''"
proof -
  obtain st' a where c: "CompleteE2EEAuth (sample_store\<lparr>dv_reads := Suc 0\<rparr>) (sample_selector E2EEAuthCredential ''cb'') True = (st', Inr a)"
    "ar_CredentialSecret a = []" "ai_CredentialID (ar_Identity a) = ''cb''" "validAuthenticatedIdentity (ar_Identity a)"
    using sample_login(2) by blast
  show ?thesis
    unfolding performServerE2EEHandshake_def sample_parse
    by (simp add: demo_conn_def ReadFrame_def demo_crypto_def store_resolver_def sample_login(1) e2eeSecretBytes_def e2eeAuthTag_def
        handshake_keys_def Let_def newE2EESession_def newE2EEAEAD_def sample_json_def demo_json_def WriteFrame_def open_frame_def decodeFrame_def
        binaryFrameHeaderSize_def binaryFrameVersion_def binaryFrameKindData_def be_get_def be_step_def maxE2EESequence_def demo_aead_def
        parseE2EEClientFinish_def bytes_str_def ValidString_def e2eeVersion_def handshake_complete_def c seal_def encodeFrame_def)
qed

theorem handshake_identity_authorized_witness:
  "\<exists>st' conn' session identity c. performServerE2EEHandshake (demo_crypto (replicate 32 9)) sample_json (Some [1]) (Some (replicate 32 3))
     (Some store_resolver) sample_store demo_conn = (st', conn', Inr (session, identity))
   \<and> ai_CredentialID identity = ''cb'' \<and> AuthorizeCredential st' ''cb'' (ai_CredentialVersion identity) = Some c
   \<and> cd_Role c = ai_Role identity \<and> cd_DeviceID c = ai_DeviceID identity \<and> state_ok (dv_state st')"
proof -
  obtain st' conn' session identity where run: "performServerE2EEHandshake (demo_crypto (replicate 32 9)) sample_json (Some [1]) (Some (replicate 32 3))
     (Some store_resolver) sample_store demo_conn = (st', conn', Inr (session, identity))" and cid: "ai_CredentialID identity = ''cb''"
    using sample_handshake by blast
  from handshake_identity_authorized [OF sample_ok(1) run] cid have "state_ok (dv_state st')"
    "\<exists>c. AuthorizeCredential st' ''cb'' (ai_CredentialVersion identity) = Some c \<and> cd_Role c = ai_Role identity \<and> cd_DeviceID c = ai_DeviceID identity" by auto
  with run cid show ?thesis by blast
qed

end
