(* ===== verification/PaneDelta.thy ===== *)
theory PaneDelta
  imports Prelude
begin

text \<open>
  Package \<^verbatim>\<open>internal/panedelta\<close>: the line delta the relay sends instead of a whole pane. \<open>Build\<close>
  finds runs of at least three lines of the previous content, \<open>Apply\<close> rebuilds the current
  content from them. \<open>None\<close> is the run-time panic of a slice out of range.
\<close>

section \<open>Lines\<close>

definition newline :: char where "newline = CHR 0x0A"

text \<open>\<^verbatim>\<open>strings.SplitAfter(s, "\n")\<close>\<close>

fun SplitAfter :: "string \<Rightarrow> string list" where
  "SplitAfter [] = [[]]"
| "SplitAfter (c # cs) =
     (if c = newline then [c] # SplitAfter cs
      else case SplitAfter cs of [] \<Rightarrow> [[c]] | l # ls \<Rightarrow> (c # l) # ls)"

lemma concat_SplitAfter [simp]: "concat (SplitAfter s) = s"
  by (induction s) (auto split: list.splits)

definition go_slice :: "'a list \<Rightarrow> int \<Rightarrow> int \<Rightarrow> 'a list option" where
  "go_slice xs lo hi =
     (if 0 \<le> lo \<and> lo \<le> hi \<and> hi \<le> int (length xs) then Some (take (nat (hi - lo)) (drop (nat lo) xs)) else None)"

section \<open>Operations\<close>

definition minimumCopyLines :: nat where "minimumCopyLines = 3"
definition maxCandidates :: nat where "maxCandidates = 64"

record Segment =
  seg_CopyStart :: int
  seg_CopyLines :: int
  seg_Text :: string

type_synonym lineKey = "string \<times> string \<times> string"

definition keyAt :: "string list \<Rightarrow> nat \<Rightarrow> lineKey" where
  "keyAt lines index = (lines ! index, lines ! (index + 1), lines ! (index + 2))"

function matching_loop :: "string list \<Rightarrow> string list \<Rightarrow> nat \<Rightarrow> nat \<Rightarrow> nat \<Rightarrow> nat" where
  "matching_loop previous current previousIndex currentIndex matched =
     (if previousIndex + matched < length previous \<and> currentIndex + matched < length current
         \<and> previous ! (previousIndex + matched) = current ! (currentIndex + matched)
      then matching_loop previous current previousIndex currentIndex (matched + 1) else matched)"
  by pat_completeness auto
termination
  by (relation "measure (\<lambda>(p, c, i, j, m). length c - (j + m))") auto

declare matching_loop.simps [simp del]

definition matchingLines :: "string list \<Rightarrow> string list \<Rightarrow> nat \<Rightarrow> nat \<Rightarrow> nat" where
  "matchingLines previous current previousIndex currentIndex = matching_loop previous current previousIndex currentIndex 0"

definition index_lines :: "string list \<Rightarrow> lineKey \<Rightarrow> nat list" where
  "index_lines previousLines =
     fold (\<lambda>index matches. let key = keyAt previousLines index
             in if length (matches key) < maxCandidates then matches(key := matches key @ [index]) else matches)
       [0..<length previousLines + 1 - minimumCopyLines] (\<lambda>_. [])"

definition best_match :: "string list \<Rightarrow> string list \<Rightarrow> nat \<Rightarrow> nat list \<Rightarrow> nat \<times> nat" where
  "best_match previousLines currentLines currentIndex candidates =
     fold (\<lambda>previousIndex (bestStart, bestLines).
             let matched = matchingLines previousLines currentLines previousIndex currentIndex
             in if matched > bestLines then (previousIndex, matched) else (bestStart, bestLines))
       candidates (0, 0)"

definition flushLiteral :: "string list \<Rightarrow> nat \<Rightarrow> nat \<Rightarrow> Segment list \<Rightarrow> Segment list" where
  "flushLiteral currentLines literalStart stop segments =
     (if stop \<le> literalStart then segments
      else segments @ [\<lparr>seg_CopyStart = 0, seg_CopyLines = 0,
                        seg_Text = concat (take (stop - literalStart) (drop literalStart currentLines))\<rparr>])"

function build_loop :: "string list \<Rightarrow> string list \<Rightarrow> (lineKey \<Rightarrow> nat list) \<Rightarrow> nat \<Rightarrow> nat \<Rightarrow> Segment list \<Rightarrow> Segment list" where
  "build_loop previousLines currentLines matches currentIndex literalStart segments =
     (if \<not> currentIndex < length currentLines \<or> currentIndex + minimumCopyLines > length currentLines
      then flushLiteral currentLines literalStart (length currentLines) segments
      else
        let (bestStart, bestLines) = best_match previousLines currentLines currentIndex (matches (keyAt currentLines currentIndex))
        in if bestLines < minimumCopyLines
           then build_loop previousLines currentLines matches (currentIndex + 1) literalStart segments
           else build_loop previousLines currentLines matches (currentIndex + bestLines) (currentIndex + bestLines)
                  (flushLiteral currentLines literalStart currentIndex segments @
                     [\<lparr>seg_CopyStart = int bestStart, seg_CopyLines = int bestLines, seg_Text = []\<rparr>]))"
  by pat_completeness auto
termination
  by (relation "measure (\<lambda>(p, c, m, i, l, s). length c - i)") (auto simp: minimumCopyLines_def)

declare build_loop.simps [simp del]

definition Build :: "string \<Rightarrow> string \<Rightarrow> Segment list" where
  "Build previous current =
     (let previousLines = SplitAfter previous; currentLines = SplitAfter current
      in build_loop previousLines currentLines (index_lines previousLines) 0 0 [])"

definition Efficient :: "Segment list \<Rightarrow> string \<Rightarrow> bool" where
  "Efficient segments current \<longleftrightarrow>
     sum_list (map (\<lambda>s. length (seg_Text s)) segments) + length segments * 64 < length current * 3 div 4"

fun apply_loop :: "string list \<Rightarrow> Segment list \<Rightarrow> string \<Rightarrow> (string \<times> bool) option" where
  "apply_loop lines [] output = Some (output, True)"
| "apply_loop lines (segment # segments) output =
     (if seg_CopyLines segment > 0
      then let stop = wrap64 (seg_CopyStart segment + seg_CopyLines segment)
           in if seg_CopyStart segment < 0 \<or> stop < seg_CopyStart segment \<or> stop > int (length lines) then Some ([], False)
              else case go_slice lines (seg_CopyStart segment) stop of
                     None \<Rightarrow> None
                   | Some copied \<Rightarrow> apply_loop lines segments (output @ concat copied)
      else apply_loop lines segments (output @ seg_Text segment))"

definition Apply :: "string \<Rightarrow> Segment list \<Rightarrow> (string \<times> bool) option" where
  "Apply previous segments = apply_loop (SplitAfter previous) segments []"

section \<open>Matches\<close>

text \<open>A run of \<open>n\<close> equal lines at \<open>i\<close> and \<open>j\<close>.\<close>

definition equal_run :: "string list \<Rightarrow> string list \<Rightarrow> nat \<Rightarrow> nat \<Rightarrow> nat \<Rightarrow> bool" where
  "equal_run xs ys i j n \<longleftrightarrow> n = 0 \<or> (i + n \<le> length xs \<and> j + n \<le> length ys \<and> (\<forall>k < n. xs ! (i + k) = ys ! (j + k)))"

lemma matching_loop_run: "equal_run p c i j m \<Longrightarrow> equal_run p c i j (matching_loop p c i j m)"
proof (induction p c i j m rule: matching_loop.induct)
  case (1 p c i j m)
  show ?case
  proof (cases "i + m < length p \<and> j + m < length c \<and> p ! (i + m) = c ! (j + m)")
    case True
    with 1(2) have "equal_run p c i j (m + 1)" by (auto simp: equal_run_def less_Suc_eq)
    with 1(1) [OF True] True show ?thesis by (subst matching_loop.simps) simp
  next
    case False
    with 1(2) show ?thesis by (subst matching_loop.simps) auto
  qed
qed

lemma matchingLines_run: "equal_run p c i j (matchingLines p c i j)"
  by (simp add: matchingLines_def matching_loop_run equal_run_def [of _ _ _ _ 0])

lemma best_match_run:
  assumes "best_match p c j candidates = (bestStart, bestLines)"
  shows "equal_run p c bestStart j bestLines"
proof -
  let ?f = "\<lambda>previousIndex (bestStart, bestLines).
             let matched = matchingLines p c previousIndex j
             in if matched > bestLines then (previousIndex, matched) else (bestStart, bestLines)"
  have "equal_run p c (fst (fold ?f cs b)) j (snd (fold ?f cs b))" if "equal_run p c (fst b) j (snd b)" for cs b
    using that by (induction cs arbitrary: b) (auto simp: Let_def matchingLines_run split: prod.splits)
  from this [of "(0, 0)" candidates] assms show ?thesis by (simp add: best_match_def equal_run_def)
qed

lemma equal_run_slices:
  assumes "equal_run xs ys i j n" and "0 < n"
  shows "take n (drop i xs) = take n (drop j ys)" and "i + n \<le> length xs" and "j + n \<le> length ys"
  using assms by (auto simp: equal_run_def intro!: nth_equalityI)

section \<open>Applying what was built\<close>

lemma apply_loop_append:
  "apply_loop lines segs out = Some (s, True) \<Longrightarrow> apply_loop lines (segs @ segs') out = apply_loop lines segs' s"
proof (induction segs arbitrary: out)
  case Nil
  then show ?case by simp
next
  case (Cons seg segs)
  then show ?case by (auto simp: Let_def split: if_splits option.splits)
qed

lemma apply_flushLiteral:
  assumes "apply_loop lines segs [] = Some (concat (take l cur), True)" and "l \<le> e"
  shows "apply_loop lines (flushLiteral cur l e segs) [] = Some (concat (take e cur), True)"
proof (cases "e = l")
  case True
  with assms(1) show ?thesis by (simp add: flushLiteral_def)
next
  case False
  have "take e cur = take l cur @ take (e - l) (drop l cur)"
    using assms(2) by (metis le_add_diff_inverse take_add)
  with False assms show ?thesis by (simp add: flushLiteral_def apply_loop_append [OF assms(1)])
qed

lemma apply_copy:
  assumes "apply_loop lines segs [] = Some (concat (take j cur), True)" and "equal_run lines cur i j n" and "0 < n"
    and "length lines < 2 ^ 63"
  shows "apply_loop lines (segs @ [\<lparr>seg_CopyStart = int i, seg_CopyLines = int n, seg_Text = []\<rparr>]) []
     = Some (concat (take (j + n) cur), True)"
proof -
  note R = equal_run_slices [OF assms(2,3)]
  have w: "wrap64 (int i + int n) = int i + int n"
    by (rule wrap64_id) (use R(2) assms(4) in \<open>simp_all add: minDuration_def maxDuration_def\<close>)
  have "go_slice lines (int i) (int i + int n) = Some (take n (drop i lines))"
    using R(2) by (simp add: go_slice_def)
  with w R assms(3) show ?thesis
    by (simp add: apply_loop_append [OF assms(1)] take_add)
qed

lemma build_loop_applies:
  assumes "l \<le> i" and "i \<le> length cur" and "apply_loop prev segs [] = Some (concat (take l cur), True)" and "length prev < 2 ^ 63"
  shows "apply_loop prev (build_loop prev cur ms i l segs) [] = Some (concat cur, True)"
  using assms
proof (induction prev cur ms i l segs rule: build_loop.induct)
  case (1 prev cur ms i l segs)
  show ?case
  proof (cases "\<not> i < length cur \<or> i + minimumCopyLines > length cur")
    case True
    have "apply_loop prev (flushLiteral cur l (length cur) segs) [] = Some (concat (take (length cur) cur), True)"
      by (rule apply_flushLiteral [OF 1(5)]) (use 1(3,4) in simp)
    with True show ?thesis by (subst build_loop.simps) simp
  next
    case False
    obtain bs bl where b: "best_match prev cur i (ms (keyAt cur i)) = (bs, bl)" by fastforce
    note R = best_match_run [OF b]
    show ?thesis
    proof (cases "bl < minimumCopyLines")
      case True
      with 1(1) [OF False b [symmetric] refl True] 1(3-6) False show ?thesis
        by (subst build_loop.simps) (simp add: b)
    next
      case large: False
      then have pos: "0 < bl" by (simp add: minimumCopyLines_def)
      let ?segs = "flushLiteral cur l i segs @ [\<lparr>seg_CopyStart = int bs, seg_CopyLines = int bl, seg_Text = []\<rparr>]"
      have "apply_loop prev ?segs [] = Some (concat (take (i + bl) cur), True)"
        by (rule apply_copy [OF apply_flushLiteral [OF 1(5,3)] R pos 1(6)])
      with 1(2) [OF False b [symmetric] refl large] equal_run_slices(3) [OF R pos] 1(6) have
        "apply_loop prev (build_loop prev cur ms (i + bl) (i + bl) ?segs) [] = Some (concat cur, True)" by simp
      with False large show ?thesis by (subst build_loop.simps) (simp add: b)
    qed
  qed
qed

lemma length_SplitAfter: "length (SplitAfter s) \<le> Suc (length s)"
  by (induction s) (auto split: list.splits)

section \<open>Properties\<close>

text \<open>
  C33: applying the delta that was built for two pane contents to the previous one gives
  exactly the current one, for every pair of contents (shorter than the address space).
\<close>

theorem delta_roundtrip:
  assumes "length previous < 2 ^ 62"
  shows "Apply previous (Build previous current) = Some (current, True)"
proof -
  have "length (SplitAfter previous) < 2 ^ 63" using length_SplitAfter [of previous] assms by simp
  from build_loop_applies [of 0 0 "SplitAfter current" "SplitAfter previous" "[]", OF _ _ _ this] show ?thesis
    by (simp add: Apply_def Build_def Let_def)
qed

theorem delta_roundtrip_witness:
  "Apply ''abc'' (Build ''abc'' ''abcd'') = Some (''abcd'', True)"
  by (rule delta_roundtrip) simp

text \<open>
  \<open>Apply\<close> is safe on segments it did not build: whatever a peer sends, negative, huge or
  overflowing copy ranges included, it never slices out of range; it accepts exactly the
  deltas all of whose copies lie within the previous lines.
\<close>

theorem apply_total:
  assumes "\<forall>s \<in> set segments. minDuration \<le> seg_CopyStart s \<and> seg_CopyStart s \<le> maxDuration \<and> seg_CopyLines s \<le> maxDuration"
    and "length previous < 2 ^ 62"
  shows "\<exists>out. Apply previous segments = Some (out,
     \<forall>s \<in> set segments. seg_CopyLines s > 0 \<longrightarrow>
       0 \<le> seg_CopyStart s \<and> seg_CopyStart s + seg_CopyLines s \<le> int (length (SplitAfter previous)))"
proof -
  let ?lines = "SplitAfter previous"
  let ?fits = "\<lambda>s. seg_CopyLines s > 0 \<longrightarrow> 0 \<le> seg_CopyStart s \<and> seg_CopyStart s + seg_CopyLines s \<le> int (length ?lines)"
  have "length ?lines < 2 ^ 63" using length_SplitAfter [of previous] assms(2) by simp
  then have len: "int (length ?lines) < 2 ^ 63" by simp
  have "\<exists>out. apply_loop ?lines segs acc = Some (out, \<forall>s \<in> set segs. ?fits s)"
    if "\<forall>s \<in> set segs. minDuration \<le> seg_CopyStart s \<and> seg_CopyStart s \<le> maxDuration \<and> seg_CopyLines s \<le> maxDuration" for segs acc
    using that
  proof (induction segs arbitrary: acc)
    case Nil
    then show ?case by simp
  next
    case (Cons s segs)
    let ?e = "wrap64 (seg_CopyStart s + seg_CopyLines s)"
    from Cons.prems have b: "minDuration \<le> seg_CopyStart s" "seg_CopyStart s \<le> maxDuration" "seg_CopyLines s \<le> maxDuration" by simp_all
    have "(0 \<le> seg_CopyStart s \<and> seg_CopyStart s \<le> ?e \<and> ?e \<le> int (length ?lines)) \<longleftrightarrow> ?fits s" if pos: "0 < seg_CopyLines s"
    proof (cases "0 \<le> seg_CopyStart s \<and> seg_CopyStart s + seg_CopyLines s \<ge> 2 ^ 63")
      case True
      have "?e = seg_CopyStart s + seg_CopyLines s - 2 ^ 64"
        using True b by (intro wrap64_over) (auto simp: maxDuration_def)
      with True b len pos show ?thesis by (auto simp: maxDuration_def)
    next
      case False
      then show ?thesis
      proof (cases "0 \<le> seg_CopyStart s")
        case True
        with False pos have "?e = seg_CopyStart s + seg_CopyLines s"
          by (intro wrap64_id) (auto simp: minDuration_def maxDuration_def)
        with pos True show ?thesis by auto
      qed (use pos in auto)
    qed
    with Cons.IH [of "acc @ seg_Text s"] Cons.IH Cons.prems show ?case
      by (auto simp: Let_def go_slice_def not_less split: if_splits)
  qed
  from this [OF assms(1)] show ?thesis by (simp add: Apply_def)
qed

theorem apply_total_witness:
  "\<exists>out. Apply ''abc'' [\<lparr>seg_CopyStart = 2 ^ 62, seg_CopyLines = 2 ^ 62, seg_Text = []\<rparr>] = Some (out,
     \<forall>s \<in> set [\<lparr>seg_CopyStart = 2 ^ 62, seg_CopyLines = 2 ^ 62, seg_Text = []\<rparr>]. seg_CopyLines s > 0 \<longrightarrow>
       0 \<le> seg_CopyStart s \<and> seg_CopyStart s + seg_CopyLines s \<le> int (length (SplitAfter ''abc'')))"
  by (rule apply_total) (simp_all add: minDuration_def maxDuration_def)

end
