(* ===== verification/SeqMatch.thy ===== *)
theory SeqMatch
  imports Prelude
begin

text \<open>
  Package \<^verbatim>\<open>internal/seqmatch\<close>: the Ratcliff/Obershelp matcher the pane history uses. The
  indices of the Go code are natural numbers here; \<open>j2len[-1]\<close>, which is never set, is the
  default value zero. The stack of spans is a list with its top in front.
\<close>

section \<open>Operations\<close>

record Match =
  m_A :: nat
  m_B :: nat
  m_Size :: nat

record Matcher =
  mt_a :: "string list"
  mt_b :: "string list"
  mt_b2j :: "string \<Rightarrow> nat list"

definition buildB2J :: "string list \<Rightarrow> string \<Rightarrow> nat list" where
  "buildB2J b = fold (\<lambda>j b2j. b2j(b ! j := b2j (b ! j) @ [j])) [0..<length b] (\<lambda>_. [])"

definition NewMatcher :: "string list \<Rightarrow> string list \<Rightarrow> Matcher" where
  "NewMatcher a b = \<lparr>mt_a = a, mt_b = b, mt_b2j = buildB2J b\<rparr>"

type_synonym best = "nat \<times> nat \<times> nat"

fun flm_row :: "nat \<Rightarrow> nat \<Rightarrow> nat \<Rightarrow> (nat \<Rightarrow> nat) \<Rightarrow> nat list \<Rightarrow> (nat \<Rightarrow> nat) \<Rightarrow> best \<Rightarrow> (nat \<Rightarrow> nat) \<times> best" where
  "flm_row i blo bhi j2len [] newj2len best = (newj2len, best)"
| "flm_row i blo bhi j2len (j # js) newj2len best =
     (if j < blo then flm_row i blo bhi j2len js newj2len best
      else if j \<ge> bhi then (newj2len, best)
      else let k = (if j = 0 then 0 else j2len (j - 1)) + 1;
               (besti, bestj, bestsize) = best
           in flm_row i blo bhi j2len js (newj2len(j := k))
                (if k > bestsize then (i + 1 - k, j + 1 - k, k) else best))"

fun flm_rows :: "Matcher \<Rightarrow> nat list \<Rightarrow> nat \<Rightarrow> nat \<Rightarrow> (nat \<Rightarrow> nat) \<Rightarrow> best \<Rightarrow> best" where
  "flm_rows m [] blo bhi j2len best = best"
| "flm_rows m (i # is) blo bhi j2len best =
     (let (newj2len, best') = flm_row i blo bhi j2len (mt_b2j m (mt_a m ! i)) (\<lambda>_. 0) best
      in flm_rows m is blo bhi newj2len best')"

definition FindLongestMatch :: "Matcher \<Rightarrow> nat \<Rightarrow> nat \<Rightarrow> nat \<Rightarrow> nat \<Rightarrow> Match" where
  "FindLongestMatch m alo ahi blo bhi =
     (let (besti, bestj, bestsize) = flm_rows m [alo..<ahi] blo bhi (\<lambda>_. 0) (alo, blo, 0)
      in \<lparr>m_A = besti, m_B = bestj, m_Size = bestsize\<rparr>)"

section \<open>The longest match\<close>

text \<open>The indices of the occurrences of a line, in increasing order.\<close>

lemma fold_b2j:
  assumes "\<forall>e. f e = filter (\<lambda>j. b ! j = e) [0..<n]" and "n \<le> m"
  shows "fold (\<lambda>j b2j. b2j(b ! j := b2j (b ! j) @ [j])) [n..<m] f e = filter (\<lambda>j. b ! j = e) [0..<m]"
  using assms
proof (induction "m - n" arbitrary: n f)
  case 0
  then show ?case by simp
next
  case (Suc d)
  then have n: "n < m" by simp
  have "fold (\<lambda>j b2j. b2j(b ! j := b2j (b ! j) @ [j])) [n..<m] f e
      = fold (\<lambda>j b2j. b2j(b ! j := b2j (b ! j) @ [j])) [Suc n..<m] (f(b ! n := f (b ! n) @ [n])) e"
    using n by (simp add: upt_conv_Cons)
  also have "\<dots> = filter (\<lambda>j. b ! j = e) [0..<m]"
    by (rule Suc.hyps(1)) (use Suc.hyps(2) Suc.prems n in auto)
  finally show ?case .
qed

lemma buildB2J_filter: "buildB2J b e = filter (\<lambda>j. b ! j = e) [0..<length b]"
  unfolding buildB2J_def by (rule fold_b2j) auto

text \<open>The length of the common run that ends at \<open>i\<close> and \<open>j\<close> within the window.\<close>

fun suf :: "string list \<Rightarrow> string list \<Rightarrow> nat \<Rightarrow> nat \<Rightarrow> nat \<Rightarrow> nat \<Rightarrow> nat" where
  "suf a b alo blo i j =
     (if a ! i = b ! j then (if alo < i \<and> blo < j then suf a b alo blo (i - 1) (j - 1) else 0) + 1 else 0)"

declare suf.simps [simp del]

definition equal_at :: "string list \<Rightarrow> string list \<Rightarrow> nat \<Rightarrow> nat \<Rightarrow> nat \<Rightarrow> bool" where
  "equal_at a b i j n \<longleftrightarrow> (\<forall>k < n. a ! (i + k) = b ! (j + k))"

lemma suf_bounds: "alo \<le> i \<Longrightarrow> blo \<le> j \<Longrightarrow> suf a b alo blo i j \<le> Suc i - alo \<and> suf a b alo blo i j \<le> Suc j - blo"
proof (induction a b alo blo i j rule: suf.induct)
  case (1 a b alo blo i j)
  have "alo \<le> i - 1" "blo \<le> j - 1" if "alo < i" "blo < j" using that by auto
  with 1 show ?case by (subst (1 2) suf.simps) (auto simp: Suc_diff_le)
qed

lemma suf_sound:
  "alo \<le> i \<Longrightarrow> blo \<le> j \<Longrightarrow> equal_at a b (Suc i - suf a b alo blo i j) (Suc j - suf a b alo blo i j) (suf a b alo blo i j)"
proof (induction a b alo blo i j rule: suf.induct)
  case (1 a b alo blo i j)
  show ?case
  proof (cases "a ! i = b ! j")
    case False
    then show ?thesis by (subst (1 2 3) suf.simps) (simp add: equal_at_def)
  next
    case True
    show ?thesis
    proof (cases "alo < i \<and> blo < j")
      case False
      with True show ?thesis by (subst (1 2 3) suf.simps) (auto simp: equal_at_def)
    next
      case inner: True
      let ?n = "suf a b alo blo (i - 1) (j - 1)"
      have s: "suf a b alo blo i j = Suc ?n" using True inner by (subst suf.simps) simp
      have bd: "?n \<le> i - alo" "?n \<le> j - blo" using suf_bounds [of alo "i - 1" blo "j - 1" a b] inner by auto
      have "alo \<le> i - 1" "blo \<le> j - 1" using inner by auto
      with 1(1) [OF True inner] inner have IH: "equal_at a b (i - ?n) (j - ?n) ?n" by simp
      have "a ! (i - ?n + k) = b ! (j - ?n + k)" if "k < Suc ?n" for k
      proof (cases "k = ?n")
        case eq: True
        have "i - ?n + ?n = i" "j - ?n + ?n = j" using bd by simp_all
        then show ?thesis unfolding eq using True by simp
      qed (use that IH in \<open>auto simp: equal_at_def\<close>)
      then show ?thesis by (simp add: s equal_at_def)
    qed
  qed
qed

lemma suf_complete:
  "alo \<le> i0 \<Longrightarrow> blo \<le> j0 \<Longrightarrow> equal_at a b i0 j0 (Suc n) \<Longrightarrow> Suc n \<le> suf a b alo blo (i0 + n) (j0 + n)"
proof (induction n)
  case 0
  then show ?case by (subst suf.simps) (simp add: equal_at_def)
next
  case (Suc n)
  have "equal_at a b i0 j0 (Suc n)" using Suc.prems(3) by (simp add: equal_at_def)
  with Suc have "Suc n \<le> suf a b alo blo (i0 + n) (j0 + n)" by simp
  moreover have "a ! (i0 + Suc n) = b ! (j0 + Suc n)" using Suc.prems(3) unfolding equal_at_def by blast
  ultimately show ?case using Suc.prems(1,2) by (subst suf.simps) simp
qed

text \<open>One row: the new table holds the run lengths of the row, the best match is at least as long as each.\<close>

definition table_ok :: "string list \<Rightarrow> string list \<Rightarrow> nat \<Rightarrow> nat \<Rightarrow> nat \<Rightarrow> nat \<Rightarrow> (nat \<Rightarrow> nat) \<Rightarrow> bool" where
  "table_ok a b alo blo bhi i t \<longleftrightarrow> (\<forall>j. t j = (if blo \<le> j \<and> j < bhi \<and> j < length b then suf a b alo blo i j else 0))"

definition best_ok :: "string list \<Rightarrow> string list \<Rightarrow> nat \<Rightarrow> nat \<Rightarrow> nat \<Rightarrow> nat \<Rightarrow> best \<Rightarrow> bool" where
  "best_ok a b alo blo bhi ihi best \<longleftrightarrow> (case best of (p, q, n) \<Rightarrow>
     alo \<le> p \<and> blo \<le> q \<and> equal_at a b p q n \<and> (0 < n \<longrightarrow> p + n \<le> ihi \<and> q + n \<le> bhi \<and> q + n \<le> length b))"

lemma flm_row_spec:
  assumes "alo \<le> i" and "i < ihi"
    and prev: "\<And>j. blo < j \<Longrightarrow> j < bhi \<Longrightarrow> j < length b \<Longrightarrow> t (j - 1) = (if alo < i then suf a b alo blo (i - 1) (j - 1) else 0)"
    and prev0: "\<And>j. j < blo \<Longrightarrow> t j = 0"
    and "flm_row i blo bhi t (filter (\<lambda>j. b ! j = a ! i) [fr..<length b]) new best = (new', best')"
    and "best_ok a b alo blo bhi ihi best"
    and "\<And>j. new j = (if blo \<le> j \<and> j < bhi \<and> j < fr \<and> j < length b then suf a b alo blo i j else 0)"
    and "\<And>j. blo \<le> j \<Longrightarrow> j < bhi \<Longrightarrow> j < fr \<Longrightarrow> j < length b \<Longrightarrow> suf a b alo blo i j \<le> snd (snd best)"
  shows "table_ok a b alo blo bhi i new' \<and> best_ok a b alo blo bhi ihi best' \<and> snd (snd best) \<le> snd (snd best')
     \<and> (\<forall>j. blo \<le> j \<and> j < bhi \<and> j < length b \<longrightarrow> suf a b alo blo i j \<le> snd (snd best'))"
  using assms(5-8)
proof (induction "length b - fr" arbitrary: fr new best)
  case 0
  then show ?case by (auto simp: table_ok_def)
next
  case (Suc d)
  then have lt: "fr < length b" by simp
  have cons: "[fr..<length b] = fr # [Suc fr..<length b]" using lt by (rule upt_conv_Cons)
  have zero: "suf a b alo blo i j = 0" if "b ! j \<noteq> a ! i" for j using that by (subst suf.simps) auto
  show ?case
  proof (cases "b ! fr = a ! i")
    case False
    show ?thesis
      by (rule Suc.hyps(1) [of "Suc fr" new best]) (use Suc False lt in \<open>auto simp: cons zero less_Suc_eq\<close>)
  next
    case True
    consider "fr < blo" | "blo \<le> fr" "bhi \<le> fr" | "blo \<le> fr" "fr < bhi" by linarith
    then show ?thesis
    proof cases
      case 1
      show ?thesis
        by (rule Suc.hyps(1) [of "Suc fr" new best]) (use Suc True lt 1 in \<open>auto simp: cons less_Suc_eq\<close>)
    next
      case 2
      with Suc.prems True lt show ?thesis by (auto simp: cons table_ok_def)
    next
      case 3
      let ?k = "(if fr = 0 then 0 else t (fr - 1)) + 1"
      have k: "?k = suf a b alo blo i fr"
      proof (cases "blo < fr")
        case True
        with prev [OF True 3(2) lt] \<open>b ! fr = a ! i\<close> show ?thesis by (subst suf.simps) simp
      next
        case False
        with 3 prev0 [of "fr - 1"] \<open>b ! fr = a ! i\<close> show ?thesis by (subst suf.simps) auto
      qed
      obtain p q n where best: "best = (p, q, n)" using prod_cases3 by blast
      let ?best = "if ?k > n then (i + 1 - ?k, fr + 1 - ?k, ?k) else best"
      have bd: "?k \<le> Suc i - alo" "?k \<le> Suc fr - blo"
        using suf_bounds [of alo i blo "fr" a b] assms(1) 3 unfolding k by auto
      have eq: "equal_at a b (Suc i - ?k) (Suc fr - ?k) ?k" unfolding k by (rule suf_sound [OF assms(1) 3(1)])
      have run: "flm_row i blo bhi t (filter (\<lambda>j. b ! j = a ! i) [Suc fr..<length b]) (new(fr := ?k)) ?best = (new', best')"
      proof -
        have "flm_row i blo bhi t (fr # js) new best = flm_row i blo bhi t js (new(fr := ?k)) ?best" for js
          using 3 by (simp add: best Let_def)
        with Suc.prems(1) True show ?thesis unfolding cons by simp
      qed
      have "best_ok a b alo blo bhi ihi ?best"
        using Suc.prems(2) bd eq assms(1,2) 3 lt by (auto simp: best best_ok_def)
      moreover have "(new(fr := ?k)) j = (if blo \<le> j \<and> j < bhi \<and> j < Suc fr \<and> j < length b then suf a b alo blo i j else 0)" for j
        using Suc.prems(3) [of j] 3 lt k by (auto simp: less_Suc_eq)
      moreover have "suf a b alo blo i j \<le> snd (snd ?best)" if "blo \<le> j" "j < bhi" "j < Suc fr" "j < length b" for j
        using Suc.prems(4) [of j] that k best by (auto simp: less_Suc_eq)
      ultimately have "table_ok a b alo blo bhi i new' \<and> best_ok a b alo blo bhi ihi best' \<and> snd (snd ?best) \<le> snd (snd best')
        \<and> (\<forall>j. blo \<le> j \<and> j < bhi \<and> j < length b \<longrightarrow> suf a b alo blo i j \<le> snd (snd best'))"
        by (intro Suc.hyps(1) [OF _ run]) (use Suc.hyps(2) in auto)
      moreover have "snd (snd best) \<le> snd (snd ?best)" using best by auto
      ultimately show ?thesis by (blast intro: order_trans)
    qed
  qed
qed

lemma flm_rows_spec:
  assumes "mt_b2j m = buildB2J (mt_b m)" and "flm_rows m [i..<ahi] blo bhi t best = best'" and "alo \<le> i"
    and "i = alo \<Longrightarrow> t = (\<lambda>_. 0)" and "alo < i \<Longrightarrow> table_ok (mt_a m) (mt_b m) alo blo bhi (i - 1) t"
    and "best_ok (mt_a m) (mt_b m) alo blo bhi ahi best"
  shows "best_ok (mt_a m) (mt_b m) alo blo bhi ahi best' \<and> snd (snd best) \<le> snd (snd best')
     \<and> (\<forall>r j. i \<le> r \<and> r < ahi \<and> blo \<le> j \<and> j < bhi \<and> j < length (mt_b m) \<longrightarrow>
          suf (mt_a m) (mt_b m) alo blo r j \<le> snd (snd best'))"
  using assms(2-6)
proof (induction "ahi - i" arbitrary: i t best)
  case 0
  then show ?case by auto
next
  case (Suc d)
  let ?a = "mt_a m" and ?b = "mt_b m"
  have lt: "i < ahi" using Suc.hyps(2) by simp
  obtain new best1 where row: "flm_row i blo bhi t (mt_b2j m (?a ! i)) (\<lambda>_. 0) best = (new, best1)"
    using prod.exhaust by blast
  have rest: "flm_rows m [Suc i..<ahi] blo bhi new best1 = best'"
    using Suc.prems(1) row lt by (simp add: upt_conv_Cons)
  have R: "table_ok ?a ?b alo blo bhi i new \<and> best_ok ?a ?b alo blo bhi ahi best1 \<and> snd (snd best) \<le> snd (snd best1)
     \<and> (\<forall>j. blo \<le> j \<and> j < bhi \<and> j < length ?b \<longrightarrow> suf ?a ?b alo blo i j \<le> snd (snd best1))"
  proof (rule flm_row_spec [where fr = 0 and t = t and new = "\<lambda>_. 0" and best = best])
    show "t (j - 1) = (if alo < i then suf ?a ?b alo blo (i - 1) (j - 1) else 0)" if "blo < j" "j < bhi" "j < length ?b" for j
      using Suc.prems(2-4) that by (cases "i = alo") (auto simp: table_ok_def)
    show "t j = 0" if "j < blo" for j
      using Suc.prems(2-4) that by (cases "i = alo") (auto simp: table_ok_def)
  qed (use row Suc.prems lt assms(1) in \<open>auto simp: buildB2J_filter\<close>)
  have "best_ok ?a ?b alo blo bhi ahi best' \<and> snd (snd best1) \<le> snd (snd best')
     \<and> (\<forall>r j. Suc i \<le> r \<and> r < ahi \<and> blo \<le> j \<and> j < bhi \<and> j < length ?b \<longrightarrow> suf ?a ?b alo blo r j \<le> snd (snd best'))"
    by (rule Suc.hyps(1) [OF _ rest]) (use Suc.hyps(2) Suc.prems(2) R in auto)
  moreover have "suf ?a ?b alo blo r j \<le> snd (snd best')"
    if "i \<le> r" "r < ahi" "blo \<le> j" "j < bhi" "j < length ?b" for r j
    using that R calculation by (cases "r = i") (auto intro: order_trans)
  ultimately show ?case using R by (blast intro: order_trans)
qed

definition matcher_ok :: "Matcher \<Rightarrow> bool" where
  "matcher_ok m \<longleftrightarrow> mt_b2j m = buildB2J (mt_b m)"

lemma matcher_ok_new [simp]: "matcher_ok (NewMatcher a b)"
  by (simp add: matcher_ok_def NewMatcher_def)

lemma FindLongestMatch_sound:
  assumes "matcher_ok m" and "FindLongestMatch m alo ahi blo bhi = match"
  shows "alo \<le> m_A match \<and> blo \<le> m_B match \<and> equal_at (mt_a m) (mt_b m) (m_A match) (m_B match) (m_Size match)
     \<and> (0 < m_Size match \<longrightarrow> m_A match + m_Size match \<le> ahi \<and> m_B match + m_Size match \<le> bhi
          \<and> m_B match + m_Size match \<le> length (mt_b m))"
  using flm_rows_spec [of m alo ahi blo bhi "\<lambda>_. 0" "(alo, blo, 0)" _ alo] assms
  by (auto simp: FindLongestMatch_def matcher_ok_def best_ok_def equal_at_def split: prod.splits)

lemma FindLongestMatch_longest:
  assumes "matcher_ok m" and "alo \<le> i" and "i + n \<le> ahi" and "blo \<le> j" and "j + n \<le> bhi" and "j + n \<le> length (mt_b m)"
    and "equal_at (mt_a m) (mt_b m) i j n"
  shows "n \<le> m_Size (FindLongestMatch m alo ahi blo bhi)"
proof (cases n)
  case (Suc k)
  obtain p q s where run: "flm_rows m [alo..<ahi] blo bhi (\<lambda>_. 0) (alo, blo, 0) = (p, q, s)" using prod_cases3 by blast
  from flm_rows_spec [OF _ run, of alo] assms(1) have
    "\<forall>r j. alo \<le> r \<and> r < ahi \<and> blo \<le> j \<and> j < bhi \<and> j < length (mt_b m) \<longrightarrow> suf (mt_a m) (mt_b m) alo blo r j \<le> s"
    by (auto simp: matcher_ok_def best_ok_def equal_at_def)
  moreover have "Suc k \<le> suf (mt_a m) (mt_b m) alo blo (i + k) (j + k)"
    using suf_complete [OF assms(2,4)] assms(7) Suc by blast
  moreover have "alo \<le> i + k" "i + k < ahi" "blo \<le> j + k" "j + k < bhi" "j + k < length (mt_b m)"
    using assms(2-6) Suc by simp_all
  ultimately have "Suc k \<le> s" by (blast intro: order_trans)
  with Suc run show ?thesis by (simp add: FindLongestMatch_def)
qed simp

section \<open>Matching blocks\<close>

text \<open>The rows of a match stay in the window, whatever the index says: this ends the loop below.\<close>

lemma flm_row_range:
  assumes "flm_row i blo bhi t js new best = (new', best')" and "alo \<le> i"
    and "\<And>j. t j \<le> i - alo" and "\<And>j. new j \<le> Suc i - alo"
    and "alo \<le> fst best \<and> (0 < snd (snd best) \<longrightarrow> fst best + snd (snd best) \<le> Suc i)"
  shows "(\<forall>j. new' j \<le> Suc i - alo) \<and> alo \<le> fst best' \<and> (0 < snd (snd best') \<longrightarrow> fst best' + snd (snd best') \<le> Suc i)"
  using assms(1,4,5)
proof (induction js arbitrary: new best)
  case Nil
  then show ?case by auto
next
  case (Cons j js)
  let ?k = "(if j = 0 then 0 else t (j - 1)) + 1"
  have k: "?k \<le> Suc i - alo" using assms(3) [of "j - 1"] assms(2) by auto
  consider "j < blo" | "blo \<le> j" "bhi \<le> j" | "blo \<le> j" "j < bhi" by linarith
  then show ?case
  proof cases
    case 3
    obtain p q n where best: "best = (p, q, n)" using prod_cases3 by blast
    have "flm_row i blo bhi t js (new(j := ?k)) (if ?k > n then (i + 1 - ?k, j + 1 - ?k, ?k) else best) = (new', best')"
      using Cons.prems(1) 3 unfolding flm_row.simps best Let_def by simp
    then show ?thesis
      by (rule Cons.IH) (use Cons.prems(2,3) k best assms(2) in auto)
  qed (use Cons in auto)
qed

lemma flm_rows_range:
  assumes "flm_rows m [i..<ahi] blo bhi t best = best'" and "alo \<le> i" and "\<And>j. t j \<le> i - alo"
    and "alo \<le> fst best \<and> (0 < snd (snd best) \<longrightarrow> fst best + snd (snd best) \<le> i)"
  shows "alo \<le> fst best' \<and> (0 < snd (snd best') \<longrightarrow> fst best' + snd (snd best') \<le> max i ahi)"
  using assms
proof (induction "ahi - i" arbitrary: i t best)
  case 0
  then show ?case by auto
next
  case (Suc d)
  then have lt: "i < ahi" by simp
  obtain new best1 where row: "flm_row i blo bhi t (mt_b2j m (mt_a m ! i)) (\<lambda>_. 0) best = (new, best1)"
    using prod.exhaust by blast
  have rest: "flm_rows m [Suc i..<ahi] blo bhi new best1 = best'"
    using Suc.prems(1) row lt by (simp add: upt_conv_Cons)
  have R: "(\<forall>j. new j \<le> Suc i - alo) \<and> alo \<le> fst best1 \<and> (0 < snd (snd best1) \<longrightarrow> fst best1 + snd (snd best1) \<le> Suc i)"
    by (rule flm_row_range [OF row]) (use Suc.prems in auto)
  have "alo \<le> fst best' \<and> (0 < snd (snd best') \<longrightarrow> fst best' + snd (snd best') \<le> max (Suc i) ahi)"
    by (rule Suc.hyps(1) [OF _ rest]) (use Suc R in auto)
  with lt show ?case by auto
qed

lemma FindLongestMatch_rows:
  assumes "0 < m_Size (FindLongestMatch m alo ahi blo bhi)"
  shows "alo \<le> m_A (FindLongestMatch m alo ahi blo bhi)
     \<and> m_A (FindLongestMatch m alo ahi blo bhi) + m_Size (FindLongestMatch m alo ahi blo bhi) \<le> ahi"
proof -
  obtain p q n where run: "flm_rows m [alo..<ahi] blo bhi (\<lambda>_. 0) (alo, blo, 0) = (p, q, n)" using prod_cases3 by blast
  have n: "0 < n" using assms run by (simp add: FindLongestMatch_def)
  then have "alo < ahi" using run by (cases "alo < ahi") auto
  with flm_rows_range [OF run, of alo] n run show ?thesis by (simp add: FindLongestMatch_def max_def)
qed

type_synonym span = "nat \<times> nat \<times> nat \<times> nat"

function blocks_loop :: "Matcher \<Rightarrow> span list \<Rightarrow> Match list \<Rightarrow> Match list" where
  "blocks_loop m [] blocks = blocks"
| "blocks_loop m ((alo, ahi, blo, bhi) # queue) blocks =
     (let match = FindLongestMatch m alo ahi blo bhi
      in if m_Size match > 0
         then let queue1 = (if alo < m_A match \<and> blo < m_B match then (alo, m_A match, blo, m_B match) # queue else queue);
                  queue2 = (if m_A match + m_Size match < ahi \<and> m_B match + m_Size match < bhi
                            then (m_A match + m_Size match, ahi, m_B match + m_Size match, bhi) # queue1 else queue1)
              in blocks_loop m queue2 (blocks @ [match])
         else blocks_loop m queue blocks)"
  by pat_completeness auto
termination
proof (relation "measure (\<lambda>(m, queue, blocks). sum_list (map (\<lambda>(alo, ahi, blo, bhi). 2 * (ahi - alo) + 1) queue))")
  fix m alo ahi blo bhi queue blocks match queue1 queue2
  assume m: "match = FindLongestMatch m alo ahi blo bhi" and pos: "0 < m_Size match"
    and q1: "queue1 = (if alo < m_A match \<and> blo < m_B match then (alo, m_A match, blo, m_B match) # queue else queue)"
    and q2: "queue2 = (if m_A match + m_Size match < ahi \<and> m_B match + m_Size match < bhi
                            then (m_A match + m_Size match, ahi, m_B match + m_Size match, bhi) # queue1 else queue1)"
  from FindLongestMatch_rows [of m alo ahi blo bhi] m pos have "alo \<le> m_A match" "m_A match + m_Size match \<le> ahi" by auto
  with pos show "((m, queue2, blocks @ [match]), (m, (alo, ahi, blo, bhi) # queue, blocks))
      \<in> measure (\<lambda>(m, queue, blocks). sum_list (map (\<lambda>(alo, ahi, blo, bhi). 2 * (ahi - alo) + 1) queue))"
    unfolding q1 q2 by auto
qed auto

declare blocks_loop.simps [simp del]

definition compareMatch :: "Match \<Rightarrow> Match \<Rightarrow> int" where
  "compareMatch a b =
     (if m_A a \<noteq> m_A b then if m_A a < m_A b then -1 else 1
      else if m_B a \<noteq> m_B b then if m_B a < m_B b then -1 else 1
      else 0)"

text \<open>
  The insertion sort: the sorted prefix is kept with its last element in front, the order in
  which the inner loop visits it.
\<close>

fun insert_match :: "Match \<Rightarrow> Match list \<Rightarrow> Match list" where
  "insert_match key [] = [key]"
| "insert_match key (x # xs) = (if compareMatch x key > 0 then x # insert_match key xs else key # x # xs)"

definition sortMatches :: "Match list \<Rightarrow> Match list" where
  "sortMatches ms = rev (fold insert_match ms [])"

fun merge_blocks :: "Match list \<Rightarrow> nat \<Rightarrow> nat \<Rightarrow> nat \<Rightarrow> Match list" where
  "merge_blocks [] i1 j1 k1 = (if k1 > 0 then [\<lparr>m_A = i1, m_B = j1, m_Size = k1\<rparr>] else [])"
| "merge_blocks (m2 # ms) i1 j1 k1 =
     (if i1 + k1 = m_A m2 \<and> j1 + k1 = m_B m2 then merge_blocks ms i1 j1 (k1 + m_Size m2)
      else (if k1 > 0 then [\<lparr>m_A = i1, m_B = j1, m_Size = k1\<rparr>] else []) @ merge_blocks ms (m_A m2) (m_B m2) (m_Size m2))"

definition GetMatchingBlocks :: "Matcher \<Rightarrow> Match list" where
  "GetMatchingBlocks m =
     (let la = length (mt_a m); lb = length (mt_b m);
          blocks = blocks_loop m [(0, la, 0, lb)] []
      in merge_blocks (sortMatches blocks) 0 0 0 @ [\<lparr>m_A = la, m_B = lb, m_Size = 0\<rparr>])"

section \<open>The blocks are a chain of common runs\<close>

text \<open>Regions of the two sequences; a match occupies one.\<close>

definition region :: "Match \<Rightarrow> span" where
  "region x = (m_A x, m_A x + m_Size x, m_B x, m_B x + m_Size x)"

definition before :: "span \<Rightarrow> span \<Rightarrow> bool" where
  "before x y \<longleftrightarrow> (case x of (alo, ahi, blo, bhi) \<Rightarrow> case y of (alo', ahi', blo', bhi') \<Rightarrow> ahi \<le> alo' \<and> bhi \<le> blo')"

definition apart :: "span \<Rightarrow> span \<Rightarrow> bool" where
  "apart x y \<longleftrightarrow> before x y \<or> before y x"

fun all_apart :: "span list \<Rightarrow> bool" where
  "all_apart [] = True"
| "all_apart (x # xs) = ((\<forall>y \<in> set xs. apart x y) \<and> all_apart xs)"

definition within :: "span \<Rightarrow> span \<Rightarrow> bool" where
  "within x y \<longleftrightarrow> (case x of (alo, ahi, blo, bhi) \<Rightarrow> case y of (alo', ahi', blo', bhi') \<Rightarrow>
     alo' \<le> alo \<and> alo \<le> ahi \<and> ahi \<le> ahi' \<and> blo' \<le> blo \<and> blo \<le> bhi \<and> bhi \<le> bhi')"

lemma apart_sym: "apart x y = apart y x"
  by (auto simp: apart_def)

lemma within_apart: "within x y \<Longrightarrow> apart y z \<Longrightarrow> apart x z"
  by (auto simp: within_def apart_def before_def split: prod.splits)

lemma all_apart_append:
  "all_apart (xs @ ys) \<longleftrightarrow> all_apart xs \<and> all_apart ys \<and> (\<forall>x \<in> set xs. \<forall>y \<in> set ys. apart x y)"
  by (induction xs) auto

lemma all_apart_split:
  assumes "all_apart (xs @ [r])" and "all_apart (qs @ bs)" and "\<And>s y. s \<in> set xs \<union> {r} \<Longrightarrow> y \<in> set qs \<union> set bs \<Longrightarrow> apart s y"
  shows "all_apart ((xs @ qs) @ bs @ [r])"
proof -
  have "apart y r" if "y \<in> set qs \<union> set bs" for y using assms(3) [of r y] that apart_sym by blast
  with assms show ?thesis by (simp add: all_apart_append)
qed

definition good_block :: "Matcher \<Rightarrow> Match \<Rightarrow> bool" where
  "good_block m x \<longleftrightarrow> 0 < m_Size x \<and> m_A x + m_Size x \<le> length (mt_a m) \<and> m_B x + m_Size x \<le> length (mt_b m)
     \<and> equal_at (mt_a m) (mt_b m) (m_A x) (m_B x) (m_Size x)"

definition span_ok :: "Matcher \<Rightarrow> span \<Rightarrow> bool" where
  "span_ok m s \<longleftrightarrow> within s (0, length (mt_a m), 0, length (mt_b m))"

lemma blocks_loop_chain:
  assumes "matcher_ok m" and "\<forall>s \<in> set queue. span_ok m s" and "\<forall>x \<in> set blocks. good_block m x"
    and "all_apart (queue @ map region blocks)"
  shows "(\<forall>x \<in> set (blocks_loop m queue blocks). good_block m x) \<and> all_apart (map region (blocks_loop m queue blocks))"
  using assms
proof (induction m queue blocks rule: blocks_loop.induct)
  case (1 m blocks)
  then show ?case by (simp add: blocks_loop.simps)
next
  case (2 m alo ahi blo bhi queue blocks)
  define x where "x = FindLongestMatch m alo ahi blo bhi"
  show ?case
  proof (cases "m_Size x > 0")
    case False
    with 2(2) [OF x_def] 2(3-6) show ?thesis
      by (subst (1 2) blocks_loop.simps) (simp add: x_def [symmetric])
  next
    case True
    let ?left = "if alo < m_A x \<and> blo < m_B x then [(alo, m_A x, blo, m_B x)] else []"
    let ?right = "if m_A x + m_Size x < ahi \<and> m_B x + m_Size x < bhi then [(m_A x + m_Size x, ahi, m_B x + m_Size x, bhi)] else []"
    let ?queue = "?right @ ?left @ queue"
    from FindLongestMatch_sound [OF 2(3), of alo ahi blo bhi x] True x_def
    have S: "alo \<le> m_A x" "blo \<le> m_B x" "equal_at (mt_a m) (mt_b m) (m_A x) (m_B x) (m_Size x)"
      "m_A x + m_Size x \<le> ahi" "m_B x + m_Size x \<le> bhi" by auto
    have ok: "span_ok m (alo, ahi, blo, bhi)" using 2(4) by simp
    have in_span: "\<forall>s \<in> set ?right \<union> set ?left \<union> {region x}. within s (alo, ahi, blo, bhi)"
      using S by (auto simp: within_def region_def)
    have "good_block m x" using S True ok by (auto simp: good_block_def span_ok_def within_def)
    then have good: "\<forall>y \<in> set (blocks @ [x]). good_block m y" using 2(5) by auto
    have spans: "\<forall>s \<in> set ?queue. span_ok m s"
      using 2(4) ok in_span by (auto simp: span_ok_def within_def)
    have outer: "\<forall>y \<in> set queue \<union> region ` set blocks. apart (alo, ahi, blo, bhi) y" using 2(6) by auto
    have "all_apart ((?right @ ?left) @ [region x])"
      using True by (auto simp: apart_def before_def region_def)
    moreover have "all_apart (queue @ map region blocks)" using 2(6) by simp
    moreover have "apart s y" if "s \<in> set (?right @ ?left) \<union> {region x}" "y \<in> set queue \<union> set (map region blocks)" for s y
    proof -
      have "within s (alo, ahi, blo, bhi)" using that(1) in_span unfolding set_append by blast
      moreover have "apart (alo, ahi, blo, bhi) y" using that(2) outer by simp
      ultimately show ?thesis by (rule within_apart)
    qed
    ultimately have "all_apart (((?right @ ?left) @ queue) @ map region blocks @ [region x])"
      by (rule all_apart_split)
    then have sep: "all_apart (?queue @ map region (blocks @ [x]))"
      unfolding append_assoc map_append list.map .
    have step: "blocks_loop m ((alo, ahi, blo, bhi) # queue) blocks = blocks_loop m ?queue (blocks @ [x])"
      using True by (subst blocks_loop.simps) (simp add: x_def [symmetric] Let_def)
    have "(\<forall>y \<in> set (blocks_loop m ?queue (blocks @ [x])). good_block m y) \<and> all_apart (map region (blocks_loop m ?queue (blocks @ [x])))"
      using 2(1) [OF x_def True refl refl] 2(3) spans good sep by (auto simp: if_distrib)
    with step show ?thesis by simp
  qed
qed

lemma blocks_loop_keeps: "set blocks \<subseteq> set (blocks_loop m queue blocks)"
proof (induction m queue blocks rule: blocks_loop.induct)
  case (1 m blocks)
  then show ?case by (simp add: blocks_loop.simps)
next
  case (2 m alo ahi blo bhi queue blocks)
  define x where "x = FindLongestMatch m alo ahi blo bhi"
  show ?case
  proof (cases "m_Size x > 0")
    case True
    from 2(1) [OF x_def True refl refl] True show ?thesis
      by (subst blocks_loop.simps) (simp add: x_def [symmetric] Let_def)
  next
    case False
    from 2(2) [OF x_def False] False show ?thesis
      by (subst blocks_loop.simps) (simp add: x_def [symmetric])
  qed
qed

text \<open>Sorting a set of blocks that are apart puts them in a chain.\<close>

lemma compareMatch_le: "compareMatch x y \<le> 0 \<longleftrightarrow> m_A x < m_A y \<or> (m_A x = m_A y \<and> m_B x \<le> m_B y)"
  by (auto simp: compareMatch_def)

lemma set_insert_match [simp]: "set (insert_match k xs) = insert k (set xs)"
  by (induction xs) auto

lemma insert_match_sorted:
  "sorted_wrt (\<lambda>x y. compareMatch y x \<le> 0) xs \<Longrightarrow> sorted_wrt (\<lambda>x y. compareMatch y x \<le> 0) (insert_match k xs)"
proof (induction xs)
  case Nil
  then show ?case by simp
next
  case (Cons x xs)
  show ?case
  proof (cases "compareMatch x k > 0")
    case True
    then have "compareMatch k x \<le> 0" by (auto simp: compareMatch_def split: if_splits)
    with Cons True show ?thesis by simp
  next
    case False
    then have le: "compareMatch x k \<le> 0" and "insert_match k (x # xs) = k # x # xs" by simp_all
    with Cons.prems show ?thesis by (auto simp: compareMatch_le)
  qed
qed

lemma fold_insert_sorted:
  "sorted_wrt (\<lambda>x y. compareMatch y x \<le> 0) acc \<Longrightarrow> sorted_wrt (\<lambda>x y. compareMatch y x \<le> 0) (fold insert_match ms acc)"
  by (induction ms arbitrary: acc) (auto simp: insert_match_sorted)

lemma set_fold_insert: "set (fold insert_match ms acc) = set ms \<union> set acc"
  by (induction ms arbitrary: acc) auto

lemma sortMatches_sorted: "sorted_wrt (\<lambda>x y. compareMatch x y \<le> 0) (sortMatches ms)"
  using fold_insert_sorted [of "[]" ms] by (simp add: sortMatches_def sorted_wrt_rev)

lemma set_sortMatches [simp]: "set (sortMatches ms) = set ms"
  by (simp add: sortMatches_def set_fold_insert)

lemma insert_match_apart:
  "all_apart (map region (insert_match k xs)) \<longleftrightarrow> (\<forall>x \<in> set xs. apart (region k) (region x)) \<and> all_apart (map region xs)"
  using apart_sym by (induction xs) auto

lemma fold_insert_apart:
  "all_apart (map region (ms @ acc)) \<Longrightarrow> all_apart (map region (fold insert_match ms acc))"
proof (induction ms arbitrary: acc)
  case Nil
  then show ?case by simp
next
  case (Cons m ms)
  have "all_apart (map region (ms @ insert_match m acc))"
    using Cons.prems apart_sym unfolding map_append all_apart_append
    by (auto simp: insert_match_apart all_apart_append)
  with Cons.IH show ?case by simp
qed

lemma all_apart_rev: "all_apart (rev xs) \<longleftrightarrow> all_apart xs"
  using apart_sym by (induction xs) (auto simp: all_apart_append)

lemma chain_of_sorted:
  assumes "all_apart (map region ys)" and "\<forall>x \<in> set ys. 0 < m_Size x" and "sorted_wrt (\<lambda>x y. compareMatch x y \<le> 0) ys"
  shows "sorted_wrt (\<lambda>x y. before (region x) (region y)) ys"
  using assms
proof (induction ys)
  case Nil
  then show ?case by simp
next
  case (Cons y ys)
  have "before (region y) (region z)" if "z \<in> set ys" for z
  proof -
    have "apart (region y) (region z)" "compareMatch y z \<le> 0" "0 < m_Size z" using Cons.prems that by auto
    then show ?thesis by (auto simp: apart_def before_def region_def compareMatch_le)
  qed
  with Cons show ?case by simp
qed

lemma sortMatches_chain:
  assumes "all_apart (map region ms)" and "\<forall>x \<in> set ms. 0 < m_Size x"
  shows "sorted_wrt (\<lambda>x y. before (region x) (region y)) (sortMatches ms)"
proof -
  have "all_apart (map region (sortMatches ms))"
    using fold_insert_apart [of ms "[]"] assms(1) all_apart_rev by (simp add: sortMatches_def rev_map [symmetric])
  moreover have "\<forall>x \<in> set (sortMatches ms). 0 < m_Size x" using assms(2) by simp
  moreover note sortMatches_sorted [of ms]
  ultimately show ?thesis by (rule chain_of_sorted)
qed

lemma equal_at_join:
  "equal_at a b i j k \<Longrightarrow> equal_at a b (i + k) (j + k) n \<Longrightarrow> equal_at a b i j (k + n)"
proof -
  assume 1: "equal_at a b i j k" and 2: "equal_at a b (i + k) (j + k) n"
  have "a ! (i + q) = b ! (j + q)" if "q < k + n" for q
    using 1 2 that by (cases "q < k") (auto simp: equal_at_def dest: spec [of _ "q - k"])
  then show ?thesis by (simp add: equal_at_def)
qed

lemma merge_blocks_spec:
  assumes "k1 = 0 \<and> i1 = 0 \<and> j1 = 0 \<or> good_block m \<lparr>m_A = i1, m_B = j1, m_Size = k1\<rparr>"
    and "\<forall>x \<in> set ms. good_block m x \<and> i1 + k1 \<le> m_A x \<and> j1 + k1 \<le> m_B x"
    and "sorted_wrt (\<lambda>x y. before (region x) (region y)) ms"
  shows "(\<forall>x \<in> set (merge_blocks ms i1 j1 k1). good_block m x \<and> i1 \<le> m_A x \<and> j1 \<le> m_B x)
     \<and> sorted_wrt (\<lambda>x y. before (region x) (region y)) (merge_blocks ms i1 j1 k1)
     \<and> (\<forall>x \<in> set ms. \<exists>y \<in> set (merge_blocks ms i1 j1 k1). m_Size x \<le> m_Size y)
     \<and> (0 < k1 \<longrightarrow> (\<exists>y \<in> set (merge_blocks ms i1 j1 k1). k1 \<le> m_Size y))"
  using assms
proof (induction ms arbitrary: i1 j1 k1)
  case Nil
  then show ?case by auto
next
  case (Cons x ms)
  let ?cur = "\<lparr>m_A = i1, m_B = j1, m_Size = k1\<rparr>"
  have x: "good_block m x" "i1 + k1 \<le> m_A x" "j1 + k1 \<le> m_B x" "0 < m_Size x" using Cons.prems(2) by (auto simp: good_block_def)
  have after: "\<forall>y \<in> set ms. good_block m y \<and> m_A x + m_Size x \<le> m_A y \<and> m_B x + m_Size x \<le> m_B y"
    using Cons.prems(2,3) by (auto simp: before_def region_def)
  show ?case
  proof (cases "i1 + k1 = m_A x \<and> j1 + k1 = m_B x")
    case True
    have "good_block m \<lparr>m_A = i1, m_B = j1, m_Size = k1 + m_Size x\<rparr>"
      using Cons.prems(1) x True equal_at_join [of "mt_a m" "mt_b m" i1 j1 k1 "m_Size x"] by (auto simp: good_block_def)
    moreover have "\<forall>y \<in> set ms. good_block m y \<and> i1 + (k1 + m_Size x) \<le> m_A y \<and> j1 + (k1 + m_Size x) \<le> m_B y"
      using after True by auto
    ultimately have IH: "(\<forall>y \<in> set (merge_blocks ms i1 j1 (k1 + m_Size x)). good_block m y \<and> i1 \<le> m_A y \<and> j1 \<le> m_B y)
     \<and> sorted_wrt (\<lambda>x y. before (region x) (region y)) (merge_blocks ms i1 j1 (k1 + m_Size x))
     \<and> (\<forall>z \<in> set ms. \<exists>y \<in> set (merge_blocks ms i1 j1 (k1 + m_Size x)). m_Size z \<le> m_Size y)
     \<and> (\<exists>y \<in> set (merge_blocks ms i1 j1 (k1 + m_Size x)). k1 + m_Size x \<le> m_Size y)"
      using Cons.IH [of "k1 + m_Size x" i1 j1] Cons.prems(3) x(4) by simp
    then obtain y where "y \<in> set (merge_blocks ms i1 j1 (k1 + m_Size x))" "k1 + m_Size x \<le> m_Size y" by blast
    then have "\<exists>y \<in> set (merge_blocks ms i1 j1 (k1 + m_Size x)). k1 \<le> m_Size y \<and> m_Size x \<le> m_Size y"
      by (intro bexI [of _ y]) simp_all
    with IH True show ?thesis by auto
  next
    case False
    have IH: "(\<forall>y \<in> set (merge_blocks ms (m_A x) (m_B x) (m_Size x)). good_block m y \<and> m_A x \<le> m_A y \<and> m_B x \<le> m_B y)
     \<and> sorted_wrt (\<lambda>x y. before (region x) (region y)) (merge_blocks ms (m_A x) (m_B x) (m_Size x))
     \<and> (\<forall>z \<in> set ms. \<exists>y \<in> set (merge_blocks ms (m_A x) (m_B x) (m_Size x)). m_Size z \<le> m_Size y)
     \<and> (\<exists>y \<in> set (merge_blocks ms (m_A x) (m_B x) (m_Size x)). m_Size x \<le> m_Size y)"
      using Cons.IH [of "m_Size x" "m_A x" "m_B x"] Cons.prems(3) x after by (cases x) simp
    have "before (region ?cur) (region y)" if "y \<in> set (merge_blocks ms (m_A x) (m_B x) (m_Size x))" for y
      using IH that x by (fastforce simp: before_def region_def)
    moreover have "i1 \<le> m_A y \<and> j1 \<le> m_B y" if "y \<in> set (merge_blocks ms (m_A x) (m_B x) (m_Size x))" for y
      using IH that x by fastforce
    moreover have "0 < k1 \<Longrightarrow> good_block m ?cur" using Cons.prems(1) by auto
    ultimately show ?thesis using IH False by auto
  qed
qed

lemma GetMatchingBlocks_chain:
  "\<exists>blocks. GetMatchingBlocks (NewMatcher a b) = blocks @ [\<lparr>m_A = length a, m_B = length b, m_Size = 0\<rparr>]
     \<and> (\<forall>x \<in> set blocks. 0 < m_Size x \<and> m_A x + m_Size x \<le> length a \<and> m_B x + m_Size x \<le> length b
          \<and> equal_at a b (m_A x) (m_B x) (m_Size x))
     \<and> sorted_wrt (\<lambda>x y. m_A x + m_Size x \<le> m_A y \<and> m_B x + m_Size x \<le> m_B y) blocks
     \<and> (\<forall>i j n. 0 < n \<and> i + n \<le> length a \<and> j + n \<le> length b \<and> equal_at a b i j n \<longrightarrow> (\<exists>x \<in> set blocks. n \<le> m_Size x))"
proof -
  let ?m = "NewMatcher a b"
  have ab: "mt_a ?m = a" "mt_b ?m = b" by (simp_all add: NewMatcher_def)
  let ?q = "[(0, length a, 0, length b)]"
  define raw where "raw = blocks_loop ?m ?q []"
  have raw: "(\<forall>x \<in> set raw. good_block ?m x) \<and> all_apart (map region raw)"
    unfolding raw_def using blocks_loop_chain [of ?m ?q "[]"] by (simp add: span_ok_def within_def ab)
  have pos: "\<forall>x \<in> set raw. 0 < m_Size x" using raw by (simp add: good_block_def)
  define blocks where "blocks = merge_blocks (sortMatches raw) 0 0 0"
  have M: "(\<forall>x \<in> set blocks. good_block ?m x) \<and> sorted_wrt (\<lambda>x y. before (region x) (region y)) blocks
     \<and> (\<forall>x \<in> set raw. \<exists>y \<in> set blocks. m_Size x \<le> m_Size y)"
    using merge_blocks_spec [of 0 0 0 ?m "sortMatches raw"] sortMatches_chain [of raw] raw pos by (simp add: blocks_def)
  have "\<exists>x \<in> set blocks. n \<le> m_Size x"
    if "0 < n" "i + n \<le> length a" "j + n \<le> length b" "equal_at a b i j n" for i j n
  proof -
    let ?x = "FindLongestMatch ?m 0 (length a) 0 (length b)"
    have n: "n \<le> m_Size ?x" using FindLongestMatch_longest [of ?m 0 i n "length a" 0 j "length b"] that ab by simp
    have "?x \<in> set raw"
    proof -
      let ?queue = "(if m_A ?x + m_Size ?x < length a \<and> m_B ?x + m_Size ?x < length b
          then [(m_A ?x + m_Size ?x, length a, m_B ?x + m_Size ?x, length b)] else [])
        @ (if 0 < m_A ?x \<and> 0 < m_B ?x then [(0, m_A ?x, 0, m_B ?x)] else [])"
      have "raw = blocks_loop ?m ?queue [?x]"
        using n that(1) unfolding raw_def by (subst blocks_loop.simps) (simp add: Let_def)
      then show ?thesis using blocks_loop_keeps [of "[?x]" ?m ?queue] by simp
    qed
    with M obtain y where "y \<in> set blocks" "m_Size ?x \<le> m_Size y" by blast
    with n show ?thesis by (intro bexI [of _ y]) simp_all
  qed
  then show ?thesis
    using M ab by (intro exI [of _ blocks])
      (auto simp: GetMatchingBlocks_def Let_def blocks_def raw_def good_block_def before_def region_def)
qed

text \<open>What users of the blocks rely on: each block is a common run within both sequences.\<close>

lemma GetMatchingBlocks_run:
  assumes "x \<in> set (GetMatchingBlocks (NewMatcher a b))"
  shows "m_A x + m_Size x \<le> length a" and "m_B x + m_Size x \<le> length b" and "equal_at a b (m_A x) (m_B x) (m_Size x)"
  using assms GetMatchingBlocks_chain [of a b] by (auto simp: equal_at_def)

section \<open>Properties\<close>

text \<open>
  \<open>FindLongestMatch\<close> returns a common run inside the window, and no common run inside the
  window is longer.
\<close>

theorem longest_match_exact:
  assumes "ahi \<le> length a" and "bhi \<le> length b"
  shows "let x = FindLongestMatch (NewMatcher a b) alo ahi blo bhi in
     equal_at a b (m_A x) (m_B x) (m_Size x)
     \<and> (0 < m_Size x \<longrightarrow> alo \<le> m_A x \<and> m_A x + m_Size x \<le> ahi \<and> blo \<le> m_B x \<and> m_B x + m_Size x \<le> bhi)
     \<and> (\<forall>i j n. alo \<le> i \<and> i + n \<le> ahi \<and> blo \<le> j \<and> j + n \<le> bhi \<and> equal_at a b i j n \<longrightarrow> n \<le> m_Size x)"
proof -
  let ?m = "NewMatcher a b"
  have ab: "mt_a ?m = a" "mt_b ?m = b" by (simp_all add: NewMatcher_def)
  have "n \<le> m_Size (FindLongestMatch ?m alo ahi blo bhi)"
    if "alo \<le> i" "i + n \<le> ahi" "blo \<le> j" "j + n \<le> bhi" "equal_at a b i j n" for i j n
    using FindLongestMatch_longest [of ?m alo i n ahi blo j bhi] that assms(2) ab by simp
  then show ?thesis
    using FindLongestMatch_sound [of ?m alo ahi blo bhi, OF _ refl] ab unfolding Let_def by auto
qed

text \<open>
  \<open>GetMatchingBlocks\<close> ends with the sentinel and before it lists common runs of the two
  sequences in strictly increasing, non-overlapping position in both, at least one of them
  as long as the longest common run.
\<close>

theorem matching_blocks_chain:
  "\<exists>blocks. GetMatchingBlocks (NewMatcher a b) = blocks @ [\<lparr>m_A = length a, m_B = length b, m_Size = 0\<rparr>]
     \<and> (\<forall>x \<in> set blocks. 0 < m_Size x \<and> m_A x + m_Size x \<le> length a \<and> m_B x + m_Size x \<le> length b
          \<and> equal_at a b (m_A x) (m_B x) (m_Size x))
     \<and> sorted_wrt (\<lambda>x y. m_A x + m_Size x \<le> m_A y \<and> m_B x + m_Size x \<le> m_B y) blocks
     \<and> (\<forall>i j n. 0 < n \<and> i + n \<le> length a \<and> j + n \<le> length b \<and> equal_at a b i j n \<longrightarrow> (\<exists>x \<in> set blocks. n \<le> m_Size x))"
  by (rule GetMatchingBlocks_chain)

theorem longest_match_exact_witness:
  "let x = FindLongestMatch (NewMatcher [''a'', ''b''] [''b'']) 0 2 0 1 in
     equal_at [''a'', ''b''] [''b''] (m_A x) (m_B x) (m_Size x)"
  using longest_match_exact [of 2 "[''a'', ''b'']" 1 "[''b'']" 0 0] by (simp add: Let_def)

theorem matching_blocks_chain_witness:
  "\<exists>blocks. GetMatchingBlocks (NewMatcher [''a'', ''b''] [''b'']) = blocks @ [\<lparr>m_A = 2, m_B = 1, m_Size = 0\<rparr>]
     \<and> (\<exists>x \<in> set blocks. 1 \<le> m_Size x)"
proof -
  have one: "0 < (1::nat) \<and> 1 + 1 \<le> length [''a'', ''b''] \<and> 0 + 1 \<le> length [''b''] \<and> equal_at [''a'', ''b''] [''b''] 1 0 1"
    by (simp add: equal_at_def)
  from matching_blocks_chain [of "[''a'', ''b'']" "[''b'']"] obtain blocks where
    "GetMatchingBlocks (NewMatcher [''a'', ''b''] [''b'']) = blocks @ [\<lparr>m_A = length [''a'', ''b''], m_B = length [''b''], m_Size = 0\<rparr>]"
    "\<exists>x \<in> set blocks. 1 \<le> m_Size x"
    using one by blast
  then show ?thesis by auto
qed

end
