(* ===== verification/History.thy ===== *)
theory History
  imports GoLib SeqMatch
begin

unbundle bit_operations_syntax

text \<open>
  Package \<^verbatim>\<open>internal/history\<close>: the scroll-back the relay keeps per pane by merging snapshots.
  The state files are modelled by what decoding them into an empty state gives; a write may
  fail, which the code ignores. The clock is an argument of the operations that read it.
\<close>

section \<open>Normalising a line\<close>

definition esc :: char where "esc = CHR 0x1B"
definition bel :: char where "bel = CHR 0x07"

definition is_csi_param :: "char \<Rightarrow> bool" where
  "is_csi_param c \<longleftrightarrow> (48 \<le> (of_char c :: nat) \<and> (of_char c :: nat) \<le> 57) \<or> c = CHR '';''"

definition is_letter :: "char \<Rightarrow> bool" where
  "is_letter c \<longleftrightarrow> (65 \<le> (of_char c :: nat) \<and> (of_char c :: nat) \<le> 90) \<or> (97 \<le> (of_char c :: nat) \<and> (of_char c :: nat) \<le> 122)"

text \<open>\<open>params* final\<close>, the tail of a control sequence.\<close>

fun csi_tail :: "(char \<Rightarrow> bool) \<Rightarrow> string \<Rightarrow> nat option" where
  "csi_tail final [] = None"
| "csi_tail final (c # cs) =
     (if is_csi_param c then map_option Suc (csi_tail final cs) else if final c then Some 1 else None)"

fun osc_tail :: "string \<Rightarrow> nat option" where
  "osc_tail [] = None"
| "osc_tail (c # cs) = (if c = bel then Some 1 else map_option Suc (osc_tail cs))"

text \<open>
  The expression \<^verbatim>\<open>ansiRe\<close> at the start of a string: its alternatives in order, the length of
  the first that matches.
\<close>

definition ansi_match :: "string \<Rightarrow> nat option" where
  "ansi_match s = (case s of
       e # c # cs \<Rightarrow>
         if e \<noteq> esc then None
         else if c = CHR ''['' \<and> csi_tail is_letter cs \<noteq> None then map_option (\<lambda>n. n + 2) (csi_tail is_letter cs)
         else if c = CHR '']'' \<and> osc_tail cs \<noteq> None then map_option (\<lambda>n. n + 2) (osc_tail cs)
         else if (c = CHR ''('' \<or> c = CHR '')'') \<and> cs \<noteq> [] \<and> hd cs \<in> set ''0123456789AB'' then Some 3
         else if c \<in> set ''>=<'' then Some 2
         else if c = CHR ''['' then
           (case cs of
              q # cs' \<Rightarrow> if q = CHR ''?'' then map_option (\<lambda>n. n + 3) (csi_tail (\<lambda>d. d \<in> set ''hlJKHfG'') cs')
                         else map_option (\<lambda>n. n + 2) (csi_tail (\<lambda>d. d \<in> set ''hlJKHfG'') cs)
            | [] \<Rightarrow> None)
         else None
     | _ \<Rightarrow> None)"

function strip_ansi :: "string \<Rightarrow> string" where
  "strip_ansi s = (case s of [] \<Rightarrow> [] | c # cs \<Rightarrow>
     (case ansi_match s of None \<Rightarrow> c # strip_ansi cs | Some n \<Rightarrow> strip_ansi (drop (n - 1) cs)))"
  by pat_completeness auto
termination
  by (relation "measure length") auto

declare strip_ansi.simps [simp del]

definition TrimRight :: "string \<Rightarrow> string \<Rightarrow> string" where
  "TrimRight s cutset = rev (dropWhile (\<lambda>c. c \<in> set cutset) (rev s))"

definition NormalizeLine :: "string \<Rightarrow> string" where
  "NormalizeLine line =
     TrimRight (filter (\<lambda>c. c \<noteq> CHR 0x0D) (strip_ansi line)) [CHR '' '', CHR 0x09, CHR 0x0A]"

definition normalizeLines :: "string list \<Rightarrow> string list" where
  "normalizeLines = map NormalizeLine"

section \<open>Snapshots\<close>

definition MaxLines :: nat where "MaxLines = 10000"
definition FooterLines :: nat where "FooterLines = 6"
definition SaveInterval :: duration where "SaveInterval = 10 * second"

fun Split_lines :: "string \<Rightarrow> string list" where
  "Split_lines [] = [[]]"
| "Split_lines (c # cs) =
     (if c = CHR 0x0A then [] # Split_lines cs
      else case Split_lines cs of [] \<Rightarrow> [[c]] | l # ls \<Rightarrow> (c # l) # ls)"

fun Join_lines :: "string list \<Rightarrow> string" where
  "Join_lines [] = []"
| "Join_lines [l] = l"
| "Join_lines (l # ls) = l @ [CHR 0x0A] @ Join_lines ls"

definition splitSnapshot :: "string \<Rightarrow> string list \<times> string list" where
  "splitSnapshot raw =
     (let lines = Split_lines raw
      in if length lines \<le> FooterLines then (lines, [])
         else (take (length lines - FooterLines) lines, drop (length lines - FooterLines) lines))"

definition hash_rune :: "u64 \<Rightarrow> nat \<Rightarrow> u64" where
  "hash_rune h c = h * 31 + of_nat c"

definition hex_digit :: "nat \<Rightarrow> char" where
  "hex_digit d = ''0123456789abcdef'' ! d"

definition hex16 :: "u64 \<Rightarrow> string" where
  "hex16 w = map (\<lambda>k. hex_digit (unat (take_bit 4 (drop_bit (4 * k) w)))) (rev [0..<16])"

definition hashLines :: "string list \<Rightarrow> string" where
  "hashLines lines = hex16 (foldl (\<lambda>h l. hash_rune (foldl hash_rune h (rune_seq l)) 10) 0 lines)"

fun tail_overlap_from :: "string list \<Rightarrow> string list \<Rightarrow> nat \<Rightarrow> nat" where
  "tail_overlap_from history current 0 = 0"
| "tail_overlap_from history current (Suc k) =
     (if \<forall>i \<in> set [0..<Suc k]. history ! (length history - Suc k + i) = current ! i then Suc k
      else tail_overlap_from history current k)"

definition tailOverlap :: "string list \<Rightarrow> string list \<Rightarrow> nat" where
  "tailOverlap history current = tail_overlap_from history current (min (length history) (length current))"

definition better_block :: "string list \<Rightarrow> Match \<Rightarrow> Match \<Rightarrow> Match" where
  "better_block history block best =
     (if m_Size block < 2 then best
      else if length (filter (\<lambda>i. history ! (m_A block + i) \<noteq> []) [0..<m_Size block]) < 2 then best
      else if m_Size block > m_Size best \<or> (m_Size block = m_Size best \<and> m_A block > m_A best) then block
      else best)"

definition sequenceMatch :: "string list \<Rightarrow> string list \<Rightarrow> Match" where
  "sequenceMatch history current =
     (let zero = \<lparr>m_A = 0, m_B = 0, m_Size = 0\<rparr>
      in if history = [] \<or> current = [] then zero
         else fold (better_block history) (GetMatchingBlocks (NewMatcher history current)) zero)"

section \<open>The manager\<close>

record PaneState =
  ps_History :: "string list"
  ps_Footer :: "string list"
  ps_StaleRefusals :: int
  ps_LastHash :: string

record history_manager =
  hm_states :: "string \<rightharpoonup> PaneState"
  hm_lastSave :: "string \<rightharpoonup> time"
  hm_files :: "string \<rightharpoonup> PaneState"

definition stateFile :: "string \<Rightarrow> string" where
  "stateFile paneID = map (\<lambda>c. if c = CHR '':'' then CHR ''_'' else c) (map (\<lambda>c. if c = CHR ''/'' then CHR ''_'' else c) paneID) @ ''.json''"

definition emptyPaneState :: PaneState where
  "emptyPaneState = \<lparr>ps_History = [], ps_Footer = [], ps_StaleRefusals = 0, ps_LastHash = []\<rparr>"

definition loadState :: "history_manager \<Rightarrow> string \<Rightarrow> history_manager \<times> PaneState" where
  "loadState m paneID = (case hm_states m paneID of
       Some s \<Rightarrow> (m, s)
     | None \<Rightarrow>
         let s = (case hm_files m (stateFile paneID) of Some d \<Rightarrow> d | None \<Rightarrow> emptyPaneState)
         in (m\<lparr>hm_states := (hm_states m)(paneID \<mapsto> s)\<rparr>, s))"

definition saveState :: "history_manager \<Rightarrow> bool \<Rightarrow> string \<Rightarrow> PaneState \<Rightarrow> history_manager" where
  "saveState m writeOK paneID state =
     (if writeOK then m\<lparr>hm_files := (hm_files m)(stateFile paneID \<mapsto> state)\<rparr> else m)"

definition maybeSave :: "history_manager \<Rightarrow> bool \<Rightarrow> time \<Rightarrow> string \<Rightarrow> PaneState \<Rightarrow> history_manager" where
  "maybeSave m writeOK now paneID state =
     (if (\<exists>t. hm_lastSave m paneID = Some t \<and> time_Sub now t < SaveInterval) then m
      else let m' = saveState m writeOK paneID state in m'\<lparr>hm_lastSave := (hm_lastSave m')(paneID \<mapsto> now)\<rparr>)"

definition joinContent :: "PaneState \<Rightarrow> int \<Rightarrow> string \<times> bool" where
  "joinContent state limit =
     (let history = ps_History state; footer = ps_Footer state;
          truncated = (limit > 0 \<and> int (length history + length footer) > limit);
          (historyLines, footerLines) =
            (if \<not> truncated then (history, footer)
             else if int (length footer) \<ge> limit then ([], drop (length footer - nat limit) footer)
             else (drop (length history - (nat limit - length footer)) history, footer));
          parts = (if historyLines \<noteq> [] then [Join_lines historyLines] else []) @
                  (if footerLines \<noteq> [] then [Join_lines footerLines] else [])
      in (Join_lines parts, truncated))"

definition applyMatch :: "PaneState \<Rightarrow> string list \<Rightarrow> Match \<Rightarrow> PaneState" where
  "applyMatch state body match =
     (let historyEnd = m_A match + m_Size match;
          currentEnd = m_B match + m_Size match;
          history = take (m_A match) (ps_History state) @ take (m_Size match) (drop (m_B match) body)
                    @ drop historyEnd (ps_History state);
          currentSuffix = drop currentEnd body;
          historyTail = length history - historyEnd
      in if currentSuffix = [] then state\<lparr>ps_History := history, ps_StaleRefusals := 0\<rparr>
         else if historyTail \<ge> length body then state\<lparr>ps_History := history @ body, ps_StaleRefusals := 0\<rparr>
         else if historyTail \<le> 3 then state\<lparr>ps_History := take historyEnd history @ currentSuffix, ps_StaleRefusals := 0\<rparr>
         else if ps_StaleRefusals state + 1 \<ge> 2
         then state\<lparr>ps_History := take historyEnd history @ currentSuffix, ps_StaleRefusals := 0\<rparr>
         else state\<lparr>ps_History := history, ps_StaleRefusals := ps_StaleRefusals state + 1\<rparr>)"

definition merge_body :: "PaneState \<Rightarrow> string list \<Rightarrow> PaneState" where
  "merge_body state body =
     (let normalized = normalizeLines body; histNorm = normalizeLines (ps_History state);
          overlap = tailOverlap histNorm normalized; match = sequenceMatch histNorm normalized
      in if overlap > 0
         then let historyStart = length (ps_History state) - overlap
              in state\<lparr>ps_History := (take historyStart (ps_History state) @ take overlap body) @ drop overlap body\<rparr>
         else if m_Size match \<ge> 2 then applyMatch state body match
         else state\<lparr>ps_History := ps_History state @ body, ps_StaleRefusals := 0\<rparr>)"

definition merge_pane :: "history_manager \<Rightarrow> bool \<Rightarrow> time \<Rightarrow> string \<Rightarrow> string \<Rightarrow> int \<Rightarrow> history_manager \<times> string \<times> bool" where
  "merge_pane m0 writeOK now paneID rawContent limit =
     (let (m, state) = loadState m0 paneID; (body, footer) = splitSnapshot rawContent in
      if body = [] then (m, joinContent state limit)
      else let hash = hashLines body in
           if hash = ps_LastHash state \<and> ps_StaleRefusals state = 0 then (m, joinContent state limit)
           else let state1 = merge_body (state\<lparr>ps_LastHash := hash, ps_Footer := footer\<rparr>) body;
                    state2 = (if length (ps_History state1) > MaxLines
                              then state1\<lparr>ps_History := drop (length (ps_History state1) - MaxLines) (ps_History state1)\<rparr>
                              else state1);
                    m1 = m\<lparr>hm_states := (hm_states m)(paneID \<mapsto> state2)\<rparr>
                in (maybeSave m1 writeOK now paneID state2, joinContent state2 limit))"

definition Content :: "history_manager \<Rightarrow> string \<Rightarrow> int \<Rightarrow> history_manager \<times> string" where
  "Content m paneID limit = (let (m', state) = loadState m paneID in (m', fst (joinContent state limit)))"

definition Discard :: "history_manager \<Rightarrow> string \<Rightarrow> history_manager" where
  "Discard m paneID = m\<lparr>hm_states := (hm_states m)(paneID := None), hm_lastSave := (hm_lastSave m)(paneID := None),
     hm_files := (hm_files m)(stateFile paneID := None)\<rparr>"

definition Reconcile :: "history_manager \<Rightarrow> string list \<Rightarrow> history_manager" where
  "Reconcile m activePaneIDs =
     m\<lparr>hm_files := map_delete_if (\<lambda>name _. name \<notin> stateFile ` set activePaneIDs) (hm_files m),
       hm_states := map_delete_if (\<lambda>paneID _. paneID \<notin> set activePaneIDs) (hm_states m),
       hm_lastSave := (\<lambda>paneID. if hm_states m paneID \<noteq> None \<and> paneID \<notin> set activePaneIDs then None else hm_lastSave m paneID)\<rparr>"

text \<open>\<open>Merge\<close>, \<open>MergeLimited\<close>, and \<open>SaveAll\<close> for one order in which the panes are visited.\<close>

definition Merge :: "history_manager \<Rightarrow> bool \<Rightarrow> time \<Rightarrow> string \<Rightarrow> string \<Rightarrow> history_manager \<times> string" where
  "Merge m writeOK now paneID rawContent = (let (m', content, _) = merge_pane m writeOK now paneID rawContent 0 in (m', content))"

definition MergeLimited :: "history_manager \<Rightarrow> bool \<Rightarrow> time \<Rightarrow> string \<Rightarrow> string \<Rightarrow> int \<Rightarrow> history_manager \<times> string \<times> bool" where
  "MergeLimited m writeOK now paneID rawContent limit = merge_pane m writeOK now paneID rawContent limit"

fun SaveAll :: "history_manager \<Rightarrow> (string \<times> bool) list \<Rightarrow> history_manager" where
  "SaveAll m [] = m"
| "SaveAll m ((paneID, writeOK) # panes) =
     SaveAll (case hm_states m paneID of None \<Rightarrow> m | Some state \<Rightarrow> saveState m writeOK paneID state) panes"

section \<open>Overlap and matches\<close>

lemma overlap_slices:
  assumes "k \<le> length h" and "k \<le> length c"
  shows "(\<forall>i < k. h ! (length h - k + i) = c ! i) \<longleftrightarrow> drop (length h - k) h = take k c"
  using assms by (auto simp: list_eq_iff_nth_eq)

lemma tail_overlap_from_spec:
  assumes "n \<le> length h" and "n \<le> length c"
  shows "let k = tail_overlap_from h c n in k \<le> n \<and> drop (length h - k) h = take k c
     \<and> (\<forall>j \<le> n. drop (length h - j) h = take j c \<longrightarrow> j \<le> k)"
  using assms
proof (induction h c n rule: tail_overlap_from.induct)
  case (1 h c)
  then show ?case by (simp add: Let_def)
next
  case (2 h c k)
  have eq: "(\<forall>i \<in> set [0..<Suc k]. h ! (length h - Suc k + i) = c ! i) \<longleftrightarrow> drop (length h - Suc k) h = take (Suc k) c"
    unfolding overlap_slices [OF 2(2,3), symmetric] by (simp only: set_upt atLeast0LessThan Ball_def lessThan_iff)
  show ?case
  proof (cases "drop (length h - Suc k) h = take (Suc k) c")
    case True
    then show ?thesis using eq by (simp add: Let_def)
  next
    case False
    then have "tail_overlap_from h c (Suc k) = tail_overlap_from h c k"
      by (simp only: tail_overlap_from.simps eq if_False)
    moreover have "\<not> (\<forall>i \<in> set [0..<Suc k]. h ! (length h - Suc k + i) = c ! i)" using False eq by blast
    ultimately show ?thesis using 2(1) 2(2,3) False unfolding Let_def by (auto simp: le_Suc_eq)
  qed
qed

lemma tailOverlap_spec:
  shows "tailOverlap h c \<le> length h" and "tailOverlap h c \<le> length c"
    and "drop (length h - tailOverlap h c) h = take (tailOverlap h c) c"
    and "j \<le> length h \<Longrightarrow> j \<le> length c \<Longrightarrow> drop (length h - j) h = take j c \<Longrightarrow> j \<le> tailOverlap h c"
  using tail_overlap_from_spec [of "min (length h) (length c)" h c] by (auto simp: tailOverlap_def Let_def)

definition run_in :: "string list \<Rightarrow> string list \<Rightarrow> Match \<Rightarrow> bool" where
  "run_in h c x \<longleftrightarrow> m_A x + m_Size x \<le> length h \<and> m_B x + m_Size x \<le> length c
     \<and> take (m_Size x) (drop (m_A x) h) = take (m_Size x) (drop (m_B x) c)"

lemma equal_at_slices:
  "i + n \<le> length a \<Longrightarrow> j + n \<le> length b \<Longrightarrow> equal_at a b i j n \<Longrightarrow> take n (drop i a) = take n (drop j b)"
  by (rule nth_equalityI) (auto simp: equal_at_def)

lemma fold_better_block:
  assumes "\<forall>x \<in> set bs. run_in h c x" and "run_in h c best"
  shows "run_in h c (fold (better_block h) bs best)"
  using assms by (induction bs arbitrary: best) (auto simp: better_block_def)

lemma sequenceMatch_run: "run_in h c (sequenceMatch h c)"
proof -
  have "run_in h c \<lparr>m_A = 0, m_B = 0, m_Size = 0\<rparr>" by (simp add: run_in_def)
  moreover have "\<forall>x \<in> set (GetMatchingBlocks (NewMatcher h c)). run_in h c x"
    by (auto simp: run_in_def intro: equal_at_slices dest: GetMatchingBlocks_run)
  ultimately show ?thesis unfolding sequenceMatch_def Let_def by (simp add: fold_better_block)
qed

section \<open>Merging keeps the scroll-back\<close>

lemma normalizeLines_simps [simp]:
  "length (normalizeLines ls) = length ls"
  "normalizeLines (xs @ ys) = normalizeLines xs @ normalizeLines ys"
  "normalizeLines (take n ls) = take n (normalizeLines ls)"
  "normalizeLines (drop n ls) = drop n (normalizeLines ls)"
  by (simp_all add: normalizeLines_def take_map drop_map)

text \<open>Copying a matching run over the history refreshes the raw lines, not their text.\<close>

lemma refresh_run:
  assumes "run_in (normalizeLines h) (normalizeLines b) x"
  shows "normalizeLines (take (m_A x) h @ take (m_Size x) (drop (m_B x) b) @ drop (m_A x + m_Size x) h) = normalizeLines h"
proof -
  have "take (m_A x) n @ take (m_Size x) (drop (m_A x) n) @ drop (m_A x + m_Size x) n = n" for n :: "string list"
    by (metis append_take_drop_id drop_drop add.commute)
  from this [of "normalizeLines h"] show ?thesis using assms by (simp add: run_in_def)
qed

definition keeps :: "PaneState \<Rightarrow> PaneState \<Rightarrow> nat \<Rightarrow> bool" where
  "keeps s t k \<longleftrightarrow> k \<le> length (ps_History s) \<and> k \<le> length (ps_History t)
     \<and> take k (normalizeLines (ps_History t)) = take k (normalizeLines (ps_History s))"

lemma applyMatch_keeps:
  assumes run: "run_in (normalizeLines (ps_History s)) (normalizeLines body) x"
  shows "\<exists>k. keeps s (applyMatch s body x) k \<and>
     (k = length (ps_History s) \<or> length (ps_History s) - k \<le> 3 \<or> 1 \<le> ps_StaleRefusals s)"
proof -
  define h where "h = take (m_A x) (ps_History s) @ take (m_Size x) (drop (m_B x) body) @ drop (m_A x + m_Size x) (ps_History s)"
  have n: "normalizeLines h = normalizeLines (ps_History s)" unfolding h_def by (rule refresh_run [OF run])
  then have len: "length h = length (ps_History s)" by (metis normalizeLines_simps(1))
  let ?e = "m_A x + m_Size x"
  have e: "?e \<le> length (ps_History s)" using run by (simp add: run_in_def)
  have all: "keeps s (s\<lparr>ps_History := h @ ls, ps_StaleRefusals := r\<rparr>) (length (ps_History s))" for ls r
    using n len by (simp add: keeps_def)
  have cut: "keeps s (s\<lparr>ps_History := take ?e h @ ls, ps_StaleRefusals := r\<rparr>) ?e" for ls r
    using n len e by (simp add: keeps_def)
  show ?thesis
    unfolding applyMatch_def Let_def h_def [symmetric]
    using all [where ls = "[]"] all cut len e
    by (auto intro: exI [of _ "length (ps_History s)"] exI [of _ ?e])
qed

lemma merge_body_keeps:
  "\<exists>k. keeps s (merge_body s body) k \<and>
     (k = length (ps_History s) \<or> length (ps_History s) - k \<le> 3 \<or> 1 \<le> ps_StaleRefusals s)"
proof -
  let ?h = "normalizeLines (ps_History s)" and ?b = "normalizeLines body"
  let ?o = "tailOverlap ?h ?b"
  have "keeps s (s\<lparr>ps_History := (take (length (ps_History s) - ?o) (ps_History s) @ take ?o body) @ drop ?o body\<rparr>)
          (length (ps_History s))"
    using tailOverlap_spec(1-3) [of ?h ?b] append_take_drop_id [of "length (ps_History s) - ?o" ?h]
    by (auto simp: keeps_def)
  moreover have "keeps s (s\<lparr>ps_History := ps_History s @ body, ps_StaleRefusals := 0\<rparr>) (length (ps_History s))"
    by (simp add: keeps_def)
  moreover note applyMatch_keeps [OF sequenceMatch_run, of s body]
  ultimately show ?thesis unfolding merge_body_def Let_def by auto
qed

text \<open>Where lines overlap, the merge appends exactly the lines that are new.\<close>

lemma merge_body_overlap:
  assumes "0 < tailOverlap (normalizeLines (ps_History s)) (normalizeLines body)"
  shows "normalizeLines (ps_History (merge_body s body)) =
     normalizeLines (ps_History s) @ drop (tailOverlap (normalizeLines (ps_History s)) (normalizeLines body)) (normalizeLines body)"
proof -
  let ?h = "normalizeLines (ps_History s)" and ?b = "normalizeLines body"
  have "take (length ?h - tailOverlap ?h ?b) ?h @ take (tailOverlap ?h ?b) ?b = ?h"
    using tailOverlap_spec(3) [of ?h ?b] by (metis append_take_drop_id)
  then show ?thesis using assms by (simp add: merge_body_def Let_def flip: append_assoc)
qed

section \<open>The returned content\<close>

lemma Join_lines_append:
  "xs \<noteq> [] \<Longrightarrow> ys \<noteq> [] \<Longrightarrow> Join_lines (xs @ ys) = Join_lines xs @ [CHR 0x0A] @ Join_lines ys"
  by (induction xs rule: Join_lines.induct) (auto simp: neq_Nil_conv)

lemma Join_parts:
  "Join_lines ((if xs \<noteq> [] then [Join_lines xs] else []) @ (if ys \<noteq> [] then [Join_lines ys] else [])) = Join_lines (xs @ ys)"
  by (simp add: Join_lines_append)

section \<open>The length of the kept history\<close>

datatype history_op =
    OpMerge bool time string string int
  | OpContent string int
  | OpDiscard string
  | OpReconcile "string list"
  | OpSaveAll "(string \<times> bool) list"

fun history_step :: "history_manager \<Rightarrow> history_op \<Rightarrow> history_manager" where
  "history_step m (OpMerge writeOK now paneID raw limit) = fst (MergeLimited m writeOK now paneID raw limit)"
| "history_step m (OpContent paneID limit) = fst (Content m paneID limit)"
| "history_step m (OpDiscard paneID) = Discard m paneID"
| "history_step m (OpReconcile panes) = Reconcile m panes"
| "history_step m (OpSaveAll panes) = SaveAll m panes"

definition short :: "PaneState \<Rightarrow> bool" where
  "short s \<longleftrightarrow> length (ps_History s) \<le> MaxLines"

definition all_short :: "history_manager \<Rightarrow> bool" where
  "all_short m \<longleftrightarrow> (\<forall>p s. hm_states m p = Some s \<longrightarrow> short s) \<and> (\<forall>f s. hm_files m f = Some s \<longrightarrow> short s)"

lemma loadState_short: "all_short m \<Longrightarrow> loadState m p = (m', s) \<Longrightarrow> all_short m' \<and> short s"
  by (auto simp: loadState_def all_short_def short_def emptyPaneState_def Let_def split: option.splits if_splits)

lemma all_short_state: "all_short m \<Longrightarrow> short s \<Longrightarrow> all_short (m\<lparr>hm_states := (hm_states m)(p \<mapsto> s)\<rparr>)"
  by (auto simp: all_short_def)

lemma saveState_short: "all_short m \<Longrightarrow> short s \<Longrightarrow> all_short (saveState m ok p s)"
  by (auto simp: saveState_def all_short_def)

lemma maybeSave_short: "all_short m \<Longrightarrow> short s \<Longrightarrow> all_short (maybeSave m ok now p s)"
  using saveState_short [of m s ok p] by (auto simp: maybeSave_def Let_def all_short_def)

lemma merge_pane_short:
  assumes "all_short m"
  shows "all_short (fst (merge_pane m ok now p raw limit))"
proof -
  obtain m1 s where l: "loadState m p = (m1, s)" by fastforce
  obtain body footer where b: "splitSnapshot raw = (body, footer)" by fastforce
  have m1: "all_short m1" using loadState_short [OF assms l] by simp
  define s1 where "s1 = merge_body (s\<lparr>ps_LastHash := hashLines body, ps_Footer := footer\<rparr>) body"
  let ?s2 = "if length (ps_History s1) > MaxLines
     then s1\<lparr>ps_History := drop (length (ps_History s1) - MaxLines) (ps_History s1)\<rparr> else s1"
  have s2: "short ?s2" by (auto simp: short_def)
  from maybeSave_short [OF all_short_state [OF m1 s2] s2] m1 show ?thesis
    by (simp add: merge_pane_def l b Let_def s1_def [symmetric])
qed

lemma SaveAll_short: "all_short m \<Longrightarrow> all_short (SaveAll m panes)"
proof (induction m panes rule: SaveAll.induct)
  case (2 m p ok panes)
  then show ?case
  proof (cases "hm_states m p")
    case (Some s)
    with 2(2) have "short s" by (simp add: all_short_def)
    with Some 2 saveState_short show ?thesis by simp
  qed simp
qed simp

lemma history_step_short: "all_short m \<Longrightarrow> all_short (history_step m op)"
proof (cases op)
  case (OpMerge ok now p raw limit)
  then show "all_short m \<Longrightarrow> ?thesis" by (simp add: MergeLimited_def merge_pane_short)
next
  case (OpContent p limit)
  then show "all_short m \<Longrightarrow> ?thesis" using loadState_short [of m p] by (auto simp: Content_def split: prod.splits)
next
  case (OpSaveAll panes)
  then show "all_short m \<Longrightarrow> ?thesis" by (simp add: SaveAll_short)
qed (auto simp: all_short_def Discard_def Reconcile_def map_delete_if_eq_Some)

section \<open>Properties\<close>

text \<open>
  \<open>tailOverlap\<close> is the longest overlap: the largest number of lines that are both the end
  of the history and the start of the snapshot.
\<close>

theorem overlap_exact:
  "tailOverlap h c = Max {k. k \<le> length h \<and> k \<le> length c \<and> drop (length h - k) h = take k c}"
proof -
  have "finite {k. k \<le> length h \<and> k \<le> length c \<and> drop (length h - k) h = take k c}"
    by (rule finite_subset [of _ "{..length h}"]) auto
  then show ?thesis using tailOverlap_spec(1-3) [of h c] tailOverlap_spec(4) [of _ h c]
    by (intro Max_eqI [symmetric]) auto
qed

text \<open>
  C36: a snapshot does not rewrite the scroll-back: up to terminal styling and trailing blanks the
  merge makes lines that extend the old history and keeps the last \<open>MaxLines\<close> of them. The lines may
  leave out the last three of the old history, and more of them only when an earlier snapshot that
  diverged is still counted as refused (the count is kept until a snapshot is merged otherwise than by
  overlap). Where the snapshot starts with the end of the history and is not the last one again,
  exactly its further lines are added.
\<close>

theorem merge_keeps_history:
  assumes "all_short m" and "loadState m p = (m1, s)" and "merge_pane m ok now p raw limit = (m', content)"
  shows "\<exists>s' ls. hm_states m' p = Some s' \<and> normalizeLines (ps_History s') = drop (length ls - MaxLines) ls
     \<and> (let h = normalizeLines (ps_History s); body = fst (splitSnapshot raw); b = normalizeLines body in
          (\<exists>k \<le> length h. k \<le> length ls \<and> take k ls = take k h
             \<and> (k = length h \<or> length h - k \<le> 3 \<or> 1 \<le> ps_StaleRefusals s))
          \<and> (0 < tailOverlap h b \<and> (hashLines body \<noteq> ps_LastHash s \<or> ps_StaleRefusals s \<noteq> 0) \<longrightarrow> ls = h @ drop (tailOverlap h b) b))"
proof -
  obtain body footer where b: "splitSnapshot raw = (body, footer)" by fastforce
  have len: "length (ps_History s) \<le> MaxLines" and at: "hm_states m1 p = Some s"
    using loadState_short [OF assms(1,2)] assms(2) by (auto simp: short_def loadState_def Let_def split: option.splits)
  define s0 where "s0 = s\<lparr>ps_LastHash := hashLines body, ps_Footer := footer\<rparr>"
  define s1 where "s1 = merge_body s0 body"
  show ?thesis
  proof (cases "body = [] \<or> hashLines body = ps_LastHash s \<and> ps_StaleRefusals s = 0")
    case True
    then have "m' = m1" using assms(2,3) b by (auto simp: merge_pane_def Let_def split: if_splits)
    then show ?thesis using at len True
      by (intro exI [of _ s] exI [of _ "normalizeLines (ps_History s)"]) (auto simp: b tailOverlap_def Let_def)
  next
    case False
    have s0: "ps_History s0 = ps_History s" "ps_StaleRefusals s0 = ps_StaleRefusals s" by (simp_all add: s0_def)
    define s2 where "s2 = (if length (ps_History s1) > MaxLines
       then s1\<lparr>ps_History := drop (length (ps_History s1) - MaxLines) (ps_History s1)\<rparr> else s1)"
    have "m' = maybeSave (m1\<lparr>hm_states := (hm_states m1)(p \<mapsto> s2)\<rparr>) ok now p s2"
      using assms(3) False
      unfolding merge_pane_def assms(2) b prod.case Let_def s0_def [symmetric] s1_def [symmetric] s2_def [symmetric] by (auto split: if_splits)
    then have "hm_states m' p = Some s2" by (simp add: maybeSave_def saveState_def Let_def)
    moreover have "normalizeLines (ps_History s2) = drop (length (normalizeLines (ps_History s1)) - MaxLines) (normalizeLines (ps_History s1))"
      by (auto simp: s2_def)
    moreover note merge_body_keeps [of s0 body, unfolded keeps_def s0 s1_def [symmetric]] merge_body_overlap [of s0 body, unfolded s0 s1_def [symmetric]]
    ultimately show ?thesis
      by (intro exI [of _ s2] exI [of _ "normalizeLines (ps_History s1)"]) (auto simp: b Let_def)
  qed
qed

definition demo_history :: history_manager where
  "demo_history = \<lparr>hm_states = [''p'' \<mapsto> emptyPaneState\<lparr>ps_History := [''a'', ''b'']\<rparr>], hm_lastSave = Map.empty, hm_files = Map.empty\<rparr>"

definition demo_snapshot :: string where
  "demo_snapshot = Join_lines [''b '', ''c'', [], [], [], [], [], []]"

theorem merge_keeps_history_witness:
  "\<exists>s' ls. hm_states (fst (merge_pane demo_history True 0 ''p'' demo_snapshot 0)) ''p'' = Some s'
     \<and> normalizeLines (ps_History s') = drop (length ls - MaxLines) ls \<and> ls = [''a'', ''b'', ''c'']"
proof -
  let ?s = "emptyPaneState\<lparr>ps_History := [''a'', ''b'']\<rparr>"
  obtain m' content where r: "merge_pane demo_history True 0 ''p'' demo_snapshot 0 = (m', content)" by (cases "merge_pane demo_history True 0 ''p'' demo_snapshot 0")
  have ok: "all_short demo_history" "loadState demo_history ''p'' = (demo_history, ?s)"
    by (simp_all add: all_short_def short_def demo_history_def loadState_def MaxLines_def)
  have body: "fst (splitSnapshot demo_snapshot) = [''b '', ''c'']" by code_simp
  have n: "normalizeLines (ps_History ?s) = [''a'', ''b'']" "normalizeLines [''b '', ''c''] = [''b'', ''c'']"
    by (simp_all add: normalizeLines_def NormalizeLine_def TrimRight_def strip_ansi.simps ansi_match_def esc_def)
  have "tailOverlap [''a'', ''b''] [''b'', ''c''] = 1" by (simp add: tailOverlap_def)
  moreover have "hashLines [''b '', ''c''] \<noteq> ps_LastHash ?s" by (simp add: hashLines_def hex16_def emptyPaneState_def)
  ultimately show ?thesis using merge_keeps_history [OF ok r] r unfolding body Let_def n by auto
qed

text \<open>
  no pane keeps more than \<open>MaxLines\<close> lines, in memory or in its file, whatever snapshots,
  reads, saves, failed writes and removals happen.
\<close>

theorem history_bounded:
  assumes "all_short m" and "hm_states (run_ops history_step m ops) p = Some s"
  shows "length (ps_History s) \<le> MaxLines"
proof -
  have "all_short (run_ops history_step m ops)"
    using assms(1) by (induction ops arbitrary: m) (auto intro: history_step_short)
  with assms(2) show ?thesis by (simp add: all_short_def short_def)
qed

text \<open>
  a limited read returns exactly the last \<open>limit\<close> lines of history and footer, and says that
  it truncated exactly when there were more; without a positive limit it returns all lines.
\<close>

theorem content_last_lines:
  "joinContent s limit =
     (let ls = ps_History s @ ps_Footer s
      in if 0 < limit \<and> limit < int (length ls) then (Join_lines (drop (length ls - nat limit) ls), True)
         else (Join_lines ls, False))"
proof (cases "0 < limit \<and> limit < int (length (ps_History s @ ps_Footer s))")
  case True
  show ?thesis
  proof (cases "limit \<le> int (length (ps_Footer s))")
    case footer: True
    with True have "drop (length (ps_History s @ ps_Footer s) - nat limit) (ps_History s @ ps_Footer s)
        = drop (length (ps_Footer s) - nat limit) (ps_Footer s)" by simp
    with True footer show ?thesis by (simp add: joinContent_def Let_def)
  next
    case False
    then have "drop (length (ps_History s @ ps_Footer s) - nat limit) (ps_History s @ ps_Footer s)
        = drop (length (ps_History s) - (nat limit - length (ps_Footer s))) (ps_History s) @ ps_Footer s" by simp
    with True False Join_parts show ?thesis by (simp add: joinContent_def Let_def del: drop_append)
  qed
next
  case False
  with Join_parts [of "ps_History s" "ps_Footer s"] show ?thesis by (auto simp: joinContent_def Let_def)
qed

theorem history_bounded_witness:
  "\<exists>s. hm_states (run_ops history_step \<lparr>hm_states = Map.empty, hm_lastSave = Map.empty, hm_files = Map.empty\<rparr>
       [OpContent ''p'' 5]) ''p'' = Some s \<and> length (ps_History s) \<le> MaxLines"
proof -
  let ?m = "\<lparr>hm_states = Map.empty, hm_lastSave = Map.empty, hm_files = Map.empty\<rparr> :: history_manager"
  have s: "hm_states (run_ops history_step ?m [OpContent ''p'' 5]) ''p'' = Some emptyPaneState"
    by (simp add: Content_def loadState_def Let_def)
  from history_bounded [OF _ this] s show ?thesis by (auto simp: all_short_def)
qed

lemma length_hex16 [simp]: "length (hex16 w) = 16"
  by (simp add: hex16_def)

text \<open>
  a snapshot is recognised by the hash of its body alone: of two snapshots that differ only
  in their last six lines, the second changes nothing and the content returned for it still
  shows the last six lines of the first.
\<close>

theorem same_body_same_content:
  assumes "hm_states m p = None" and "hm_files m (stateFile p) = None"
    and "fst (splitSnapshot raw2) = fst (splitSnapshot raw1)"
    and "MergeLimited m ok now p raw1 limit = (m1, shown)"
  shows "MergeLimited m1 ok' now' p raw2 limit = (m1, shown)"
proof -
  obtain body footer where b1: "splitSnapshot raw1 = (body, footer)" by fastforce
  obtain footer2 where b2: "splitSnapshot raw2 = (body, footer2)" using assms(3) b1 by (metis eq_fst_iff fst_conv)
  show ?thesis
  proof (cases "body = []")
    case True
    with assms b1 b2 show ?thesis
      by (auto simp: MergeLimited_def merge_pane_def loadState_def Let_def)
  next
    case False
    define s where "s = \<lparr>ps_History = drop (length body - MaxLines) body, ps_Footer = footer, ps_StaleRefusals = 0, ps_LastHash = hashLines body\<rparr>"
    have "hashLines body \<noteq> []" by (metis hashLines_def length_hex16 list.size(3) zero_neq_numeral)
    moreover have "merge_body (emptyPaneState\<lparr>ps_LastHash := hashLines body, ps_Footer := footer\<rparr>) body
        = \<lparr>ps_History = body, ps_Footer = footer, ps_StaleRefusals = 0, ps_LastHash = hashLines body\<rparr>"
      by (simp add: merge_body_def emptyPaneState_def normalizeLines_def tailOverlap_def sequenceMatch_def Let_def)
    ultimately have "m1 = maybeSave (m\<lparr>hm_states := (hm_states m)(p \<mapsto> s)\<rparr>) ok now p s \<and> shown = joinContent s limit"
      using assms(1,2,4) b1 False
      by (auto simp: MergeLimited_def merge_pane_def loadState_def Let_def emptyPaneState_def s_def)
    moreover have "hm_states (maybeSave (m\<lparr>hm_states := (hm_states m)(p \<mapsto> s)\<rparr>) ok now p s) p = Some s"
      by (simp add: maybeSave_def saveState_def Let_def)
    ultimately show ?thesis using False b2
      by (simp add: MergeLimited_def merge_pane_def loadState_def s_def Let_def)
  qed
qed

theorem same_body_same_content_witness:
  "\<exists>m1 shown. MergeLimited \<lparr>hm_states = Map.empty, hm_lastSave = Map.empty, hm_files = Map.empty\<rparr> True 0 ''p''
       (Join_lines [''x'', '''', '''', '''', '''', '''', ''> '']) 0 = (m1, shown)
     \<and> MergeLimited m1 True 1 ''p'' (Join_lines [''x'', '''', '''', '''', '''', '''', ''> hello'']) 0 = (m1, shown)"
proof -
  let ?m = "\<lparr>hm_states = Map.empty, hm_lastSave = Map.empty, hm_files = Map.empty\<rparr> :: history_manager"
  let ?a = "Join_lines [''x'', '''', '''', '''', '''', '''', ''> '']" and ?b = "Join_lines [''x'', '''', '''', '''', '''', '''', ''> hello'']"
  obtain m1 shown where m: "MergeLimited ?m True 0 ''p'' ?a 0 = (m1, shown)" by (metis surj_pair)
  have "fst (splitSnapshot ?b) = fst (splitSnapshot ?a)" by (simp add: splitSnapshot_def FooterLines_def)
  from same_body_same_content [OF _ _ this m, of True 1] m show ?thesis by auto
qed

end
