(* ===== verification/PushPolicy.thy ===== *)
theory PushPolicy
  imports Localize
begin

text \<open>
  Package \<^verbatim>\<open>internal/push\<close>, \<^verbatim>\<open>policy.go\<close>: which notifications a device wants and when one may be
  sent. Every method holds the engine's mutex. The file is its decoded document; a write may
  fail before or after it becomes visible. \<open>None\<close> stands for a nil map where the code
  distinguishes it from an empty one.
\<close>

section \<open>Event keys\<close>

definition CategoryAttention :: string where "CategoryAttention = ''attention''"
definition CategoryQuestion :: string where "CategoryQuestion = ''question''"
definition CategoryBrief :: string where "CategoryBrief = ''brief''"
definition CategoryFinished :: string where "CategoryFinished = ''finished''"
definition CategoryUpdate :: string where "CategoryUpdate = ''update''"
definition CategoryTest :: string where "CategoryTest = ''test''"

lemmas category_defs =
  CategoryAttention_def CategoryQuestion_def CategoryBrief_def CategoryFinished_def CategoryUpdate_def CategoryTest_def

record TargetRef =
  tr_ServerSessionID :: string
  tr_PaneID :: string
  tr_TerminalID :: string
  tr_Generation :: int
  tr_AgentSessionID :: string

record PushEventKey =
  k_DeviceID :: string
  k_ServerSessionID :: string
  k_PaneID :: string
  k_TerminalID :: string
  k_AgentSessionID :: string
  k_Generation :: int
  k_EventID :: string
  k_InteractionRevision :: int
  k_Category :: string

datatype push_error =
    InvalidEventKey | InvalidCategory | DeviceRequired | InvalidDuration | UpdateVersionRequired
  | PersistFailed | DecodeFailed | ReadFailed
  | InvalidEvent | EventExpired | DeviceMismatch | QueueLimit

definition validPushIdentifier :: "string \<Rightarrow> bool \<Rightarrow> bool" where
  "validPushIdentifier v required =
     (if v = [] then \<not> required else length v \<le> 256 \<and> ValidString v \<and> TrimSpace v = v)"

definition validPushTargetIdentifier :: "string \<Rightarrow> bool \<Rightarrow> bool" where
  "validPushTargetIdentifier v required = (if v = [] then \<not> required else ValidString v \<and> TrimSpace v = v)"

definition Validate_key :: "PushEventKey \<Rightarrow> push_error option" where
  "Validate_key k =
     (if \<not> validPushIdentifier (k_DeviceID k) True \<or> \<not> validPushIdentifier (k_EventID k) True
         \<or> \<not> validPushTargetIdentifier (k_ServerSessionID k) False \<or> \<not> validPushTargetIdentifier (k_PaneID k) False
         \<or> \<not> validPushTargetIdentifier (k_TerminalID k) False \<or> \<not> validPushTargetIdentifier (k_AgentSessionID k) False
      then Some InvalidEventKey
      else if k_Category k \<in> {CategoryAttention, CategoryQuestion, CategoryBrief, CategoryFinished}
      then (if k_ServerSessionID k = [] \<or> k_PaneID k = [] \<or> k_TerminalID k = [] \<or> k_Generation k < 0
            then Some InvalidEventKey else None)
      else if k_Category k \<in> {CategoryUpdate, CategoryTest} then None
      else Some InvalidCategory)"

definition Target :: "PushEventKey \<Rightarrow> TargetRef" where
  "Target k = \<lparr>tr_ServerSessionID = k_ServerSessionID k, tr_PaneID = k_PaneID k, tr_TerminalID = k_TerminalID k,
     tr_Generation = k_Generation k, tr_AgentSessionID = k_AgentSessionID k\<rparr>"

definition sameTarget :: "TargetRef \<Rightarrow> TargetRef \<Rightarrow> bool" where
  "sameTarget a b \<longleftrightarrow> tr_ServerSessionID a = tr_ServerSessionID b \<and> tr_PaneID a = tr_PaneID b
     \<and> tr_TerminalID a = tr_TerminalID b \<and> tr_Generation a = tr_Generation b \<and> tr_AgentSessionID a = tr_AgentSessionID b"

definition FormatInt :: "int \<Rightarrow> string" where
  "FormatInt n = (if n < 0 then CHR ''-'' # FormatUint (nat (- n)) else FormatUint (nat n))"

definition sep :: string where "sep = [CHR 0x00]"

definition policySlot :: "PushEventKey \<Rightarrow> string" where
  "policySlot k = k_DeviceID k @ sep @ k_ServerSessionID k @ sep @ k_PaneID k @ sep @ k_TerminalID k @ sep
     @ FormatInt (k_Generation k) @ sep @ k_AgentSessionID k @ sep @ k_Category k"

section \<open>Policies\<close>

record DevicePolicy =
  dp_DeviceID :: string
  dp_Locale :: string
  dp_Categories :: "(string \<times> bool) list option"
  dp_Settle :: duration
  dp_Cooldown :: duration
  dp_SnoozeUntil :: time
  dp_Snoozed :: bool
  dp_UpdateOnce :: bool
  dp_UpdateVersions :: "(string \<times> bool) list option"

text \<open>Reading a map of booleans: a missing key, and any key of a nil map, is false.\<close>

definition flag :: "(string \<times> bool) list option \<Rightarrow> string \<Rightarrow> bool" where
  "flag m k = (case m of None \<Rightarrow> False | Some kvs \<Rightarrow> map_of kvs k = Some True)"

definition DefaultDevicePolicy :: "string \<Rightarrow> string \<Rightarrow> DevicePolicy" where
  "DefaultDevicePolicy deviceID lang =
     \<lparr>dp_DeviceID = deviceID, dp_Locale = NormalizeLocale lang,
      dp_Categories = Some [(CategoryAttention, True), (CategoryQuestion, True), (CategoryBrief, True),
        (CategoryFinished, False), (CategoryUpdate, True), (CategoryTest, True)],
      dp_Settle = 2 * second, dp_Cooldown = 30 * second, dp_SnoozeUntil = 0, dp_Snoozed = False,
      dp_UpdateOnce = True, dp_UpdateVersions = Some []\<rparr>"

record PolicyDecision =
  pd_Deliver :: bool
  pd_DueAt :: time
  pd_Code :: string

definition refused :: "string \<Rightarrow> PolicyDecision" where
  "refused code = \<lparr>pd_Deliver = False, pd_DueAt = 0, pd_Code = code\<rparr>"

record policyFile =
  pf_GlobalSnoozeUntil :: time
  pf_Policies :: "string \<rightharpoonup> DevicePolicy"
  pf_LastAccepted :: "string \<rightharpoonup> time"

text \<open>
  The document in the file. The field \<open>doc_HasUpdateOnce\<close> tells for which devices its text
  contains the key \<^verbatim>\<open>update_once\<close>, which older files lack.
\<close>

record policyDoc =
  doc_GlobalSnoozeUntil :: time
  doc_Policies :: "(string \<rightharpoonup> DevicePolicy) option"
  doc_LastAccepted :: "(string \<rightharpoonup> time) option"
  doc_HasUpdateOnce :: "string \<Rightarrow> bool"

datatype policy_file = PolicyMissing | PolicyUnreadable | PolicyUndecodable | PolicyDocument policyDoc

record PolicyEngine =
  pe_state :: policyFile
  pe_viewedPanes :: "string \<rightharpoonup> TargetRef"
  pe_fault :: "nat \<Rightarrow> write_fault"
  pe_writes :: nat
  pe_disk :: "policyDoc option"

text \<open>Encoding leaves out an empty \<^verbatim>\<open>update_versions\<close> and always writes \<^verbatim>\<open>update_once\<close>.\<close>

definition encode_policy :: "DevicePolicy \<Rightarrow> DevicePolicy" where
  "encode_policy p = (if dp_UpdateVersions p = Some [] then p\<lparr>dp_UpdateVersions := None\<rparr> else p)"

definition encode_policies :: "policyFile \<Rightarrow> policyDoc" where
  "encode_policies st =
     \<lparr>doc_GlobalSnoozeUntil = pf_GlobalSnoozeUntil st, doc_Policies = Some (map_option encode_policy \<circ> pf_Policies st),
      doc_LastAccepted = Some (pf_LastAccepted st), doc_HasUpdateOnce = (\<lambda>_. True)\<rparr>"

definition persist_policies :: "PolicyEngine \<Rightarrow> PolicyEngine \<times> bool" where
  "persist_policies p =
     (let p' = p\<lparr>pe_writes := Suc (pe_writes p)\<rparr> in
      case pe_fault p (pe_writes p) of
        NoFault \<Rightarrow> (p'\<lparr>pe_disk := Some (encode_policies (pe_state p))\<rparr>, True)
      | FaultBeforeRename \<Rightarrow> (p', False)
      | FaultAfterRename \<Rightarrow> (p'\<lparr>pe_disk := Some (encode_policies (pe_state p))\<rparr>, False))"

definition empty_state :: policyFile where
  "empty_state = \<lparr>pf_GlobalSnoozeUntil = 0, pf_Policies = Map.empty, pf_LastAccepted = Map.empty\<rparr>"

definition decode_policies :: "policyDoc \<Rightarrow> policyFile" where
  "decode_policies d =
     \<lparr>pf_GlobalSnoozeUntil = doc_GlobalSnoozeUntil d,
      pf_Policies = (\<lambda>deviceID. case doc_Policies d of None \<Rightarrow> None | Some ps \<Rightarrow>
        map_option (\<lambda>policy. if doc_HasUpdateOnce d deviceID then policy else policy\<lparr>dp_UpdateOnce := True\<rparr>) (ps deviceID)),
      pf_LastAccepted = (case doc_LastAccepted d of None \<Rightarrow> Map.empty | Some m \<Rightarrow> m)\<rparr>"

definition newPolicyEngine :: "(nat \<Rightarrow> write_fault) \<Rightarrow> policy_file \<Rightarrow> push_error + PolicyEngine" where
  "newPolicyEngine fault f =
     (let start = (\<lambda>st disk. \<lparr>pe_state = st, pe_viewedPanes = Map.empty, pe_fault = fault, pe_writes = 0, pe_disk = disk\<rparr>)
      in case f of
           PolicyMissing \<Rightarrow> Inr (start empty_state None)
         | PolicyUnreadable \<Rightarrow> Inl ReadFailed
         | PolicyUndecodable \<Rightarrow> Inl DecodeFailed
         | PolicyDocument d \<Rightarrow> Inr (start (decode_policies d) (Some d)))"

definition allowed_categories :: "string list" where
  "allowed_categories = [CategoryAttention, CategoryQuestion, CategoryBrief, CategoryFinished, CategoryUpdate, CategoryTest]"

definition normalizePolicy :: "DevicePolicy \<Rightarrow> push_error + DevicePolicy" where
  "normalizePolicy policy0 =
     (if TrimSpace (dp_DeviceID policy0) = [] then Inl DeviceRequired
      else
        let policy = policy0\<lparr>dp_Locale := NormalizeLocale (dp_Locale policy0)\<rparr> in
        if dp_Settle policy < 0 \<or> dp_Cooldown policy < 0 then Inl InvalidDuration
        else
          let categories = (case dp_Categories policy of Some c \<Rightarrow> c
                | None \<Rightarrow> the (dp_Categories (DefaultDevicePolicy (dp_DeviceID policy) (dp_Locale policy))))
          in if \<not> list_all (\<lambda>(category, _). category \<in> set allowed_categories) categories then Inl InvalidCategory
             else Inr (policy\<lparr>dp_Categories := Some categories,
               dp_UpdateVersions := (case dp_UpdateVersions policy of None \<Rightarrow> Some [] | v \<Rightarrow> v)\<rparr>))"

section \<open>Operations\<close>

definition set_policy :: "PolicyEngine \<Rightarrow> string \<Rightarrow> DevicePolicy option \<Rightarrow> PolicyEngine" where
  "set_policy p deviceID v = p\<lparr>pe_state := (pe_state p)\<lparr>pf_Policies := (pf_Policies (pe_state p))(deviceID := v)\<rparr>\<rparr>"

definition set_accepted :: "PolicyEngine \<Rightarrow> (string \<rightharpoonup> time) \<Rightarrow> PolicyEngine" where
  "set_accepted p m = p\<lparr>pe_state := (pe_state p)\<lparr>pf_LastAccepted := m\<rparr>\<rparr>"

definition Set_policy :: "PolicyEngine \<Rightarrow> DevicePolicy \<Rightarrow> PolicyEngine \<times> push_error option" where
  "Set_policy p policy0 =
     (case normalizePolicy policy0 of
        Inl err \<Rightarrow> (p, Some err)
      | Inr policy \<Rightarrow>
          let previous = pf_Policies (pe_state p) (dp_DeviceID policy) in
          (case persist_policies (set_policy p (dp_DeviceID policy) (Some policy)) of
             (p', True) \<Rightarrow> (p', None)
           | (p', False) \<Rightarrow> (set_policy p' (dp_DeviceID policy) previous, Some PersistFailed)))"

definition RemoveDevice :: "PolicyEngine \<Rightarrow> string \<Rightarrow> PolicyEngine \<times> push_error option" where
  "RemoveDevice p deviceID =
     (let previousPolicy = pf_Policies (pe_state p) deviceID;
          hasPrefix = (\<lambda>slot _. take (length (deviceID @ sep)) slot = deviceID @ sep);
          accepted = pf_LastAccepted (pe_state p);
          previousViewed = pe_viewedPanes p deviceID;
          p1 = (set_accepted (set_policy p deviceID None) (map_delete_if hasPrefix accepted))
                 \<lparr>pe_viewedPanes := (pe_viewedPanes p)(deviceID := None)\<rparr>
      in case persist_policies p1 of
           (p', True) \<Rightarrow> (p', None)
         | (p', False) \<Rightarrow>
             let restored = (\<lambda>slot. case accepted slot of
                   Some t \<Rightarrow> if hasPrefix slot t then Some t else pf_LastAccepted (pe_state p') slot
                 | None \<Rightarrow> pf_LastAccepted (pe_state p') slot)
             in ((set_accepted (set_policy p' deviceID previousPolicy) restored)
                   \<lparr>pe_viewedPanes := (pe_viewedPanes p')(deviceID := previousViewed)\<rparr>, Some PersistFailed))"

definition clonePolicy :: "DevicePolicy \<Rightarrow> DevicePolicy" where
  "clonePolicy policy = policy\<lparr>
     dp_Categories := Some (case dp_Categories policy of None \<Rightarrow> [] | Some c \<Rightarrow> c),
     dp_UpdateVersions := Some (case dp_UpdateVersions policy of None \<Rightarrow> [] | Some v \<Rightarrow> v)\<rparr>"

definition Get_policy :: "PolicyEngine \<Rightarrow> string \<Rightarrow> string \<Rightarrow> DevicePolicy" where
  "Get_policy p deviceID lang =
     (case pf_Policies (pe_state p) deviceID of
        Some policy \<Rightarrow> clonePolicy policy
      | None \<Rightarrow> DefaultDevicePolicy deviceID lang)"

definition SetViewedPane :: "PolicyEngine \<Rightarrow> string \<Rightarrow> TargetRef option \<Rightarrow> PolicyEngine" where
  "SetViewedPane p deviceID target = p\<lparr>pe_viewedPanes := (pe_viewedPanes p)(deviceID := target)\<rparr>"

definition SetGlobalSnooze :: "PolicyEngine \<Rightarrow> time \<Rightarrow> PolicyEngine \<times> push_error option" where
  "SetGlobalSnooze p t =
     (let previous = pf_GlobalSnoozeUntil (pe_state p) in
      case persist_policies (p\<lparr>pe_state := (pe_state p)\<lparr>pf_GlobalSnoozeUntil := t\<rparr>\<rparr>) of
        (p', True) \<Rightarrow> (p', None)
      | (p', False) \<Rightarrow> (p'\<lparr>pe_state := (pe_state p')\<lparr>pf_GlobalSnoozeUntil := previous\<rparr>\<rparr>, Some PersistFailed))"

definition snooze_active :: "policyFile \<Rightarrow> DevicePolicy \<Rightarrow> time \<Rightarrow> bool" where
  "snooze_active st policy now \<longleftrightarrow>
     (dp_Snoozed policy \<and> dp_SnoozeUntil policy = 0) \<or> (dp_SnoozeUntil policy \<noteq> 0 \<and> now < dp_SnoozeUntil policy)
     \<or> now < pf_GlobalSnoozeUntil st"

definition policy_for :: "PolicyEngine \<Rightarrow> string \<Rightarrow> string \<Rightarrow> DevicePolicy" where
  "policy_for p deviceID lang =
     (case pf_Policies (pe_state p) deviceID of Some policy \<Rightarrow> policy | None \<Rightarrow> DefaultDevicePolicy deviceID lang)"

definition Decide :: "PolicyEngine \<Rightarrow> PushEventKey \<Rightarrow> string \<Rightarrow> time \<Rightarrow> PolicyDecision" where
  "Decide p key lang now =
     (let policy = policy_for p (k_DeviceID key) lang in
      if \<not> flag (dp_Categories policy) (k_Category key) then refused ''push_category_disabled''
      else if snooze_active (pe_state p) policy now then refused ''push_snoozed''
      else if (case pe_viewedPanes p (k_DeviceID key) of Some viewed \<Rightarrow> sameTarget viewed (Target key) | None \<Rightarrow> False)
      then refused ''push_viewed_pane''
      else
        let due = now + dp_Settle policy;
            due' = (case pf_LastAccepted (pe_state p) (policySlot key) of
                      Some lastAt \<Rightarrow> if lastAt \<noteq> 0 \<and> lastAt + dp_Cooldown policy > due then lastAt + dp_Cooldown policy else due
                    | None \<Rightarrow> due)
        in \<lparr>pd_Deliver = True, pd_DueAt = due', pd_Code = []\<rparr>)"

definition Allows :: "PolicyEngine \<Rightarrow> PushEventKey \<Rightarrow> string \<Rightarrow> time \<Rightarrow> bool" where
  "Allows p key lang now =
     (let policy = policy_for p (k_DeviceID key) lang in
      if \<not> flag (dp_Categories policy) (k_Category key) then False
      else if snooze_active (pe_state p) policy now then False
      else (case pe_viewedPanes p (k_DeviceID key) of None \<Rightarrow> True | Some viewed \<Rightarrow> \<not> sameTarget viewed (Target key)))"

definition MarkAccepted :: "PolicyEngine \<Rightarrow> PushEventKey \<Rightarrow> time \<Rightarrow> PolicyEngine \<times> push_error option" where
  "MarkAccepted p key acceptedAt =
     (let slot = policySlot key; previous = pf_LastAccepted (pe_state p) slot in
      case persist_policies (set_accepted p ((pf_LastAccepted (pe_state p))(slot \<mapsto> acceptedAt))) of
        (p', True) \<Rightarrow> (p', None)
      | (p', False) \<Rightarrow> (set_accepted p' ((pf_LastAccepted (pe_state p'))(slot := previous)), Some PersistFailed))"

text \<open>\<open>None\<close> is the run-time panic of an assignment to a nil map.\<close>

definition ClaimUpdateVersion :: "PolicyEngine \<Rightarrow> string \<Rightarrow> string \<Rightarrow> (PolicyEngine \<times> (push_error + bool)) option" where
  "ClaimUpdateVersion p deviceID version =
     (if TrimSpace deviceID = [] \<or> TrimSpace version = [] then Some (p, Inl UpdateVersionRequired)
      else
        let policy = policy_for p deviceID ''en'' in
        if \<not> dp_UpdateOnce policy then Some (p, Inr True)
        else if flag (dp_UpdateVersions policy) version then Some (p, Inr False)
        else case dp_UpdateVersions policy of
               None \<Rightarrow> None
             | Some versions \<Rightarrow>
                 let others = filter (\<lambda>kv. fst kv \<noteq> version) versions;
                     claimed = policy\<lparr>dp_UpdateVersions := Some ((version, True) # others)\<rparr>
                 in (case persist_policies (set_policy p deviceID (Some claimed)) of
                       (p', True) \<Rightarrow> Some (p', Inr True)
                     | (p', False) \<Rightarrow>
                         Some (set_policy p' deviceID (Some (policy\<lparr>dp_UpdateVersions := Some others\<rparr>)), Inl PersistFailed)))"

section \<open>Writes and rollbacks\<close>

definition policy_ok :: "DevicePolicy \<Rightarrow> bool" where
  "policy_ok policy \<longleftrightarrow> 0 \<le> dp_Settle policy \<and> 0 \<le> dp_Cooldown policy"

definition policies_ok :: "policyFile \<Rightarrow> bool" where
  "policies_ok st \<longleftrightarrow> (\<forall>d policy. pf_Policies st d = Some policy \<longrightarrow> policy_ok policy)"

lemma persist_policies_facts:
  assumes "persist_policies p = (p', written)"
  shows "pe_state p' = pe_state p" and "pe_viewedPanes p' = pe_viewedPanes p"
    and "written \<Longrightarrow> pe_disk p' = Some (encode_policies (pe_state p))"
    and "pe_disk p' = pe_disk p \<or> pe_disk p' = Some (encode_policies (pe_state p))"
  using assms by (auto simp: persist_policies_def Let_def split: write_fault.splits)

lemma normalizePolicy_ok: "normalizePolicy policy0 = Inr policy \<Longrightarrow> policy_ok policy"
  by (auto simp: normalizePolicy_def policy_ok_def Let_def split: if_splits option.splits)

text \<open>
  What an operation does to the state and its file: it leaves the state as it was, or the
  state it leaves is the one in the file; and the file never holds a state that a successful
  operation could not have produced.
\<close>

definition policy_sound :: "PolicyEngine \<Rightarrow> PolicyEngine \<Rightarrow> bool" where
  "policy_sound p p' \<longleftrightarrow>
     (pe_state p' = pe_state p \<or> pe_disk p' = Some (encode_policies (pe_state p')))
     \<and> (policies_ok (pe_state p) \<longrightarrow> policies_ok (pe_state p')
          \<and> (pe_disk p' = pe_disk p \<or> (\<exists>st. pe_disk p' = Some (encode_policies st) \<and> policies_ok st)))"

lemma policy_sound_refl: "pe_state p' = pe_state p \<Longrightarrow> pe_disk p' = pe_disk p \<Longrightarrow> policy_sound p p'"
  by (simp add: policy_sound_def)

text \<open>One rollback argument for every operation that changes the state and then persists it.\<close>

lemma persist_or_restore:
  assumes "persist_policies q = (q', written)"
    and "p' = (if written then q' else undo q')" and "pe_state (undo q') = pe_state p" and "pe_disk (undo q') = pe_disk q'"
    and "pe_disk q = pe_disk p" and "policies_ok (pe_state p) \<Longrightarrow> policies_ok (pe_state q)"
  shows "policy_sound p p'"
  using persist_policies_facts [OF assms(1)] assms(2-) by (cases written) (auto simp: policy_sound_def)

lemma set_policy_simps [simp]:
  "pe_disk (set_policy p d v) = pe_disk p" "pe_disk (set_accepted p m) = pe_disk p"
  "pe_state (set_policy p d v) = (pe_state p)\<lparr>pf_Policies := (pf_Policies (pe_state p))(d := v)\<rparr>"
  "pe_state (set_accepted p m) = (pe_state p)\<lparr>pf_LastAccepted := m\<rparr>"
  "pe_viewedPanes (set_policy p d v) = pe_viewedPanes p" "pe_viewedPanes (set_accepted p m) = pe_viewedPanes p"
  by (simp_all add: set_policy_def set_accepted_def)

lemma Set_policy_sound: "policy_sound p (fst (Set_policy p policy0))"
proof (cases "normalizePolicy policy0")
  case (Inl err)
  then show ?thesis by (simp add: Set_policy_def policy_sound_refl)
next
  case (Inr policy)
  let ?q = "set_policy p (dp_DeviceID policy) (Some policy)"
  let ?undo = "\<lambda>q'. set_policy q' (dp_DeviceID policy) (pf_Policies (pe_state p) (dp_DeviceID policy))"
  obtain q' written where w: "persist_policies ?q = (q', written)" by fastforce
  have "pe_state (?undo q') = pe_state p" using persist_policies_facts(1) [OF w] by simp
  moreover have "policies_ok (pe_state p) \<Longrightarrow> policies_ok (pe_state ?q)"
    using normalizePolicy_ok [OF Inr] by (auto simp: policies_ok_def)
  moreover have "fst (Set_policy p policy0) = (if written then q' else ?undo q')"
    using Inr w by (cases written) (simp_all add: Set_policy_def)
  ultimately show ?thesis by (intro persist_or_restore [OF w, where undo = ?undo]) auto
qed

lemma RemoveDevice_sound: "policy_sound p (fst (RemoveDevice p d))"
proof -
  define has where "has = (\<lambda>slot (_ :: time). take (length (d @ sep)) slot = d @ sep)"
  define q where "q = (set_accepted (set_policy p d None) (map_delete_if has (pf_LastAccepted (pe_state p))))
     \<lparr>pe_viewedPanes := (pe_viewedPanes p)(d := None)\<rparr>"
  define undo where "undo = (\<lambda>q'. (set_accepted (set_policy q' d (pf_Policies (pe_state p) d))
      (\<lambda>slot. case pf_LastAccepted (pe_state p) slot of
          Some t \<Rightarrow> if has slot t then Some t else pf_LastAccepted (pe_state q') slot
        | None \<Rightarrow> pf_LastAccepted (pe_state q') slot))\<lparr>pe_viewedPanes := (pe_viewedPanes q')(d := pe_viewedPanes p d)\<rparr>)"
  obtain q' written where w: "persist_policies q = (q', written)" by fastforce
  have q: "pe_state q' = (pe_state p)\<lparr>pf_Policies := (pf_Policies (pe_state p))(d := None),
      pf_LastAccepted := map_delete_if has (pf_LastAccepted (pe_state p))\<rparr>"
    using persist_policies_facts(1) [OF w] by (simp add: q_def)
  have "(\<lambda>slot. case pf_LastAccepted (pe_state p) slot of
          Some t \<Rightarrow> if has slot t then Some t else pf_LastAccepted (pe_state q') slot
        | None \<Rightarrow> pf_LastAccepted (pe_state q') slot) = pf_LastAccepted (pe_state p)"
    by (auto simp: q map_delete_if_def fun_eq_iff split: option.splits)
  then have "pe_state (undo q') = pe_state p" by (simp add: undo_def q)
  moreover have "policies_ok (pe_state p) \<Longrightarrow> policies_ok (pe_state q)"
    by (auto simp: policies_ok_def q_def split: if_splits)
  moreover have "fst (RemoveDevice p d) = (if written then q' else undo q')"
    using w unfolding q_def undo_def has_def RemoveDevice_def Let_def by (cases written) simp_all
  ultimately show ?thesis by (intro persist_or_restore [OF w, where undo = undo]) (auto simp: undo_def q_def)
qed

lemma SetGlobalSnooze_sound: "policy_sound p (fst (SetGlobalSnooze p t))"
proof -
  let ?q = "p\<lparr>pe_state := (pe_state p)\<lparr>pf_GlobalSnoozeUntil := t\<rparr>\<rparr>"
  let ?undo = "\<lambda>q'. q'\<lparr>pe_state := (pe_state q')\<lparr>pf_GlobalSnoozeUntil := pf_GlobalSnoozeUntil (pe_state p)\<rparr>\<rparr>"
  obtain q' written where w: "persist_policies ?q = (q', written)" by fastforce
  have "pe_state (?undo q') = pe_state p" using persist_policies_facts(1) [OF w] by simp
  moreover have "fst (SetGlobalSnooze p t) = (if written then q' else ?undo q')"
    using w by (cases written) (simp_all add: SetGlobalSnooze_def)
  ultimately show ?thesis by (intro persist_or_restore [OF w, where undo = ?undo]) (auto simp: policies_ok_def)
qed

lemma MarkAccepted_sound: "policy_sound p (fst (MarkAccepted p key t))"
proof -
  let ?q = "set_accepted p ((pf_LastAccepted (pe_state p))(policySlot key \<mapsto> t))"
  let ?undo = "\<lambda>q'. set_accepted q' ((pf_LastAccepted (pe_state q'))(policySlot key := pf_LastAccepted (pe_state p) (policySlot key)))"
  obtain q' written where w: "persist_policies ?q = (q', written)" by fastforce
  have "pe_state (?undo q') = pe_state p" using persist_policies_facts(1) [OF w] by simp
  moreover have "fst (MarkAccepted p key t) = (if written then q' else ?undo q')"
    using w by (cases written) (simp_all add: MarkAccepted_def Let_def)
  ultimately show ?thesis by (intro persist_or_restore [OF w, where undo = ?undo]) (auto simp: policies_ok_def)
qed

datatype policy_op =
    PolicySet DevicePolicy
  | PolicyRemove string
  | PolicyView string "TargetRef option"
  | PolicySnooze time
  | PolicyAccept PushEventKey time

fun policy_step :: "PolicyEngine \<Rightarrow> policy_op \<Rightarrow> PolicyEngine" where
  "policy_step p (PolicySet policy) = fst (Set_policy p policy)"
| "policy_step p (PolicyRemove d) = fst (RemoveDevice p d)"
| "policy_step p (PolicyView d target) = SetViewedPane p d target"
| "policy_step p (PolicySnooze t) = fst (SetGlobalSnooze p t)"
| "policy_step p (PolicyAccept key t) = fst (MarkAccepted p key t)"

lemma policy_step_sound: "policy_sound p (policy_step p op)"
  by (cases op) (simp_all add: Set_policy_sound RemoveDevice_sound SetGlobalSnooze_sound MarkAccepted_sound
      policy_sound_refl SetViewedPane_def)

definition doc_ok :: "policyDoc \<Rightarrow> bool" where
  "doc_ok d \<longleftrightarrow> (\<exists>st. d = encode_policies st \<and> policies_ok st)"

lemma encode_policy_simps [simp]:
  "dp_Categories (encode_policy policy) = dp_Categories policy"
  "dp_Settle (encode_policy policy) = dp_Settle policy" "dp_Cooldown (encode_policy policy) = dp_Cooldown policy"
  "dp_SnoozeUntil (encode_policy policy) = dp_SnoozeUntil policy" "dp_Snoozed (encode_policy policy) = dp_Snoozed policy"
  by (simp_all add: encode_policy_def)

lemma policies_ok_encode: "policies_ok st' \<Longrightarrow> encode_policies st = encode_policies st' \<Longrightarrow> policies_ok st"
proof -
  assume ok: "policies_ok st'" and eq: "encode_policies st = encode_policies st'"
  have "policy_ok policy" if "pf_Policies st d = Some policy" for d policy
  proof -
    have "map_option encode_policy (pf_Policies st d) = map_option encode_policy (pf_Policies st' d)"
      using arg_cong [OF eq, of doc_Policies] by (simp add: encode_policies_def fun_eq_iff)
    with that obtain policy' where p': "pf_Policies st' d = Some policy'" "encode_policy policy = encode_policy policy'"
      by (cases "pf_Policies st' d") auto
    then have "dp_Settle policy = dp_Settle policy'" "dp_Cooldown policy = dp_Cooldown policy'"
      using encode_policy_simps(2,3) by metis+
    with ok p'(1) show ?thesis by (auto simp: policies_ok_def policy_ok_def)
  qed
  then show ?thesis by (simp add: policies_ok_def)
qed

interpretation policies: durable_store policy_step "\<lambda>p. encode_policies (pe_state p)" pe_disk doc_ok
proof unfold_locales
  fix p op
  note S = policy_step_sound [of p op, unfolded policy_sound_def]
  show "encode_policies (pe_state (policy_step p op)) = encode_policies (pe_state p)
      \<or> pe_disk (policy_step p op) = Some (encode_policies (pe_state (policy_step p op)))"
    using S by auto
  assume "doc_ok (encode_policies (pe_state p))"
  then have ok: "policies_ok (pe_state p)" using policies_ok_encode by (auto simp: doc_ok_def)
  with S show "doc_ok (encode_policies (pe_state (policy_step p op)))" by (auto simp: doc_ok_def)
  from S ok show "pe_disk (policy_step p op) = pe_disk p \<or> (\<exists>d. pe_disk (policy_step p op) = Some d \<and> doc_ok d)"
    by (auto simp: doc_ok_def)
qed

section \<open>Reading back\<close>

lemma decode_encode_policies:
  "decode_policies (encode_policies st) = st\<lparr>pf_Policies := map_option encode_policy \<circ> pf_Policies st\<rparr>"
  by (cases st) (auto simp: decode_policies_def encode_policies_def fun_eq_iff option.map_ident)

text \<open>A decision depends on the policy of the device only through the fields the file keeps.\<close>

lemma Decide_decoded:
  assumes "pe_state q = decode_policies (encode_policies (pe_state p))" and "pe_viewedPanes q = pe_viewedPanes p"
  shows "Decide q key lang now = Decide p key lang now"
proof -
  let ?f = "policy_for p (k_DeviceID key) lang" and ?g = "policy_for q (k_DeviceID key) lang"
  have "dp_Categories ?g = dp_Categories ?f \<and> dp_Settle ?g = dp_Settle ?f \<and> dp_Cooldown ?g = dp_Cooldown ?f
      \<and> dp_SnoozeUntil ?g = dp_SnoozeUntil ?f \<and> dp_Snoozed ?g = dp_Snoozed ?f"
    by (simp add: policy_for_def assms decode_encode_policies split: option.splits)
  moreover have "pf_LastAccepted (pe_state q) = pf_LastAccepted (pe_state p)"
    "pf_GlobalSnoozeUntil (pe_state q) = pf_GlobalSnoozeUntil (pe_state p)"
    by (simp_all add: assms(1) decode_encode_policies)
  ultimately show ?thesis by (simp add: Decide_def snooze_active_def assms(2) Let_def cong: option.case_cong if_cong)
qed

lemma policies_ok_decode: "policies_ok st \<Longrightarrow> policies_ok (decode_policies (encode_policies st))"
  by (auto simp: policies_ok_def policy_ok_def decode_encode_policies)

section \<open>Slots\<close>

lemma FormatUint_no_minus: "CHR ''-'' \<notin> set (FormatUint n)"
proof (induction n rule: FormatUint.induct)
  case (1 n)
  have "digit_char d \<noteq> CHR ''-''" if "d < 10" for d using of_char_digit [OF that] by auto
  with 1 show ?case by (subst FormatUint.simps) (auto dest: sym)
qed

lemma FormatInt_inject: "FormatInt m = FormatInt n \<Longrightarrow> m = n"
proof -
  assume eq: "FormatInt m = FormatInt n"
  have m: "CHR ''-'' # a \<noteq> FormatUint b" for a b using FormatUint_no_minus [of b] by (metis list.set_intros(1))
  show "m = n"
  proof (cases "m < 0")
    case True
    with eq m have "n < 0" by (metis FormatInt_def)
    with True eq show ?thesis by (auto simp: FormatInt_def dest: FormatUint_inject)
  next
    case False
    with eq m have "\<not> n < 0" by (metis FormatInt_def)
    with False eq show ?thesis by (auto simp: FormatInt_def dest: FormatUint_inject)
  qed
qed

lemma FormatInt_no_nul: "CHR 0x00 \<notin> set (FormatInt n)"
  using FormatUint_no_nul by (simp add: FormatInt_def)

text \<open>The identifiers come from JSON text fields and process names; a slot is unambiguous when none contains a NUL.\<close>

definition nul_free :: "PushEventKey \<Rightarrow> bool" where
  "nul_free k \<longleftrightarrow> (\<forall>s \<in> {k_DeviceID k, k_ServerSessionID k, k_PaneID k, k_TerminalID k, k_AgentSessionID k}. CHR 0x00 \<notin> set s)"

fun join_sep :: "string list \<Rightarrow> string \<Rightarrow> string" where
  "join_sep [] t = t"
| "join_sep (x # xs) t = x @ sep @ join_sep xs t"

lemma join_sep_inject:
  "length xs = length ys \<Longrightarrow> \<forall>x \<in> set xs \<union> set ys. CHR 0x00 \<notin> set x \<Longrightarrow> join_sep xs t = join_sep ys u \<Longrightarrow> xs = ys \<and> t = u"
proof (induction xs ys rule: list_induct2)
  case (Cons x xs y ys)
  then have "x = y \<and> join_sep xs t = join_sep ys u"
    using split_at_first [of "CHR 0x00" x y "join_sep xs t" "join_sep ys u"] by (simp add: sep_def)
  with Cons show ?case by simp
qed simp

lemma policySlot_eq_iff:
  assumes "nul_free k" and "nul_free l"
  shows "policySlot k = policySlot l \<longleftrightarrow> k_DeviceID k = k_DeviceID l \<and> Target k = Target l \<and> k_Category k = k_Category l"
proof
  let ?f = "\<lambda>k. [k_DeviceID k, k_ServerSessionID k, k_PaneID k, k_TerminalID k, FormatInt (k_Generation k), k_AgentSessionID k]"
  assume "policySlot k = policySlot l"
  then have "join_sep (?f k) (k_Category k) = join_sep (?f l) (k_Category l)" by (simp add: policySlot_def)
  moreover have "\<forall>x \<in> set (?f k) \<union> set (?f l). CHR 0x00 \<notin> set x"
    using assms FormatInt_no_nul by (auto simp: nul_free_def)
  ultimately have "?f k = ?f l \<and> k_Category k = k_Category l" by (intro join_sep_inject) simp_all
  then show "k_DeviceID k = k_DeviceID l \<and> Target k = Target l \<and> k_Category k = k_Category l"
    by (auto simp: Target_def dest: FormatInt_inject)
qed (auto simp: policySlot_def Target_def)

section \<open>Properties\<close>

text \<open>
  a notification is queued exactly when sending it would be allowed now, never before the
  settle time of the device has passed; and once a notification was accepted, the next one of
  the same device, target and category is not due before the cooldown has passed, while every
  other decision stays as it was.
\<close>

theorem cooldown_per_target:
  assumes "MarkAccepted p key t = (p', None)" and "t \<noteq> 0" and "nul_free key" and "nul_free key'"
  shows "pd_Deliver (Decide p' key' lang now) = Allows p' key' lang now
     \<and> (pd_Deliver (Decide p' key' lang now) \<longrightarrow>
          now + dp_Settle (policy_for p' (k_DeviceID key') lang) \<le> pd_DueAt (Decide p' key' lang now))
     \<and> (if k_DeviceID key' = k_DeviceID key \<and> Target key' = Target key \<and> k_Category key' = k_Category key
        then pd_Deliver (Decide p' key' lang now) \<longrightarrow>
          t + dp_Cooldown (policy_for p' (k_DeviceID key') lang) \<le> pd_DueAt (Decide p' key' lang now)
        else Decide p' key' lang now = Decide p key' lang now)" (is "?allows \<and> ?settle \<and> ?cooldown")
proof -
  let ?q = "set_accepted p ((pf_LastAccepted (pe_state p))(policySlot key \<mapsto> t))"
  obtain q' written where w: "persist_policies ?q = (q', written)" by fastforce
  with assms(1) have "written \<and> p' = q'" by (cases written) (simp_all add: MarkAccepted_def Let_def)
  with persist_policies_facts(1,2) [OF w]
  have S: "pe_state p' = (pe_state p)\<lparr>pf_LastAccepted := (pf_LastAccepted (pe_state p))(policySlot key \<mapsto> t)\<rparr>"
    "pe_viewedPanes p' = pe_viewedPanes p" by simp_all
  have "?allows" by (simp add: Decide_def Allows_def refused_def Let_def split: option.splits)
  moreover have "?settle" by (simp add: Decide_def refused_def Let_def split: option.splits)
  moreover have "?cooldown"
    using policySlot_eq_iff [OF assms(4,3)] assms(2)
    by (simp add: Decide_def refused_def policy_for_def snooze_active_def S Let_def)
  ultimately show ?thesis by simp
qed

text \<open>
  the policies of an engine without a file survive a restart: whatever operations that roll back
  (all but \<open>ClaimUpdateVersion\<close>) and failed writes happen, the settings stay well formed in memory and in the file; every state that differs from the
  initial one has been in the file, and an engine that loads it from there decides alike, up to
  the viewed panes, which are not kept.
\<close>

theorem policies_survive_restart:
  fixes p0 :: PolicyEngine
  assumes "policies_ok (pe_state p0)" and "pe_disk p0 = None"
  shows "policies_ok (pe_state (run_ops policy_step p0 ops))
     \<and> (\<forall>d. pe_disk (run_ops policy_step p0 ops) = Some d \<longrightarrow> policies_ok (decode_policies d))
     \<and> (encode_policies (pe_state (run_ops policy_step p0 ops)) \<noteq> encode_policies (pe_state p0) \<longrightarrow>
          (\<exists>xs ys d q. ops = xs @ ys \<and> pe_disk (run_ops policy_step p0 xs) = Some d
             \<and> newPolicyEngine fault (PolicyDocument d) = Inr q
             \<and> (\<forall>key lang now. Decide q key lang now = Decide ((run_ops policy_step p0 ops)\<lparr>pe_viewedPanes := Map.empty\<rparr>) key lang now)))"
proof -
  define run where "run = run_ops policy_step p0"
  have ok: "doc_ok (encode_policies (pe_state p0))" using assms(1) by (auto simp: doc_ok_def)
  have "policies_ok (pe_state (run ops))"
    using policies.run_mem_ok [OF ok, of ops] policies_ok_encode by (auto simp: doc_ok_def run_def)
  moreover have "policies_ok (decode_policies d)" if "pe_disk (run ops) = Some d" for d
    using policies.run_disk_ok [OF ok] assms(2) that policies_ok_decode by (auto simp: doc_ok_def run_def)
  moreover have "\<exists>xs ys d q. ops = xs @ ys \<and> pe_disk (run xs) = Some d \<and> newPolicyEngine fault (PolicyDocument d) = Inr q
      \<and> (\<forall>key lang now. Decide q key lang now = Decide ((run ops)\<lparr>pe_viewedPanes := Map.empty\<rparr>) key lang now)"
    if changed: "encode_policies (pe_state (run ops)) \<noteq> encode_policies (pe_state p0)"
  proof -
    obtain xs ys where x: "ops = xs @ ys" "pe_disk (run xs) = Some (encode_policies (pe_state (run ops)))"
      using policies.run_change_was_written [OF ok changed [unfolded run_def]] by (auto simp: run_def)
    let ?q = "\<lparr>pe_state = decode_policies (encode_policies (pe_state (run ops))), pe_viewedPanes = Map.empty,
       pe_fault = fault, pe_writes = 0, pe_disk = Some (encode_policies (pe_state (run ops)))\<rparr>"
    have "Decide ?q key lang now = Decide ((run ops)\<lparr>pe_viewedPanes := Map.empty\<rparr>) key lang now" for key lang now
      by (rule Decide_decoded) simp_all
    with x show ?thesis
      by (intro exI [of _ xs] exI [of _ ys] exI [of _ "encode_policies (pe_state (run ops))"] exI [of _ ?q])
        (simp add: newPolicyEngine_def)
  qed
  ultimately show ?thesis unfolding run_def by blast
qed

definition fresh_engine :: PolicyEngine where
  "fresh_engine = \<lparr>pe_state = empty_state, pe_viewedPanes = Map.empty, pe_fault = (\<lambda>_. NoFault), pe_writes = 0, pe_disk = None\<rparr>"

definition sample_key :: PushEventKey where
  "sample_key = \<lparr>k_DeviceID = ''d'', k_ServerSessionID = ''s'', k_PaneID = ''p'', k_TerminalID = ''t'', k_AgentSessionID = [],
     k_Generation = 1, k_EventID = ''e'', k_InteractionRevision = 0, k_Category = CategoryQuestion\<rparr>"

lemma fresh_engine_writes: "persist_policies (fresh_engine\<lparr>pe_state := st\<rparr>)
    = (fresh_engine\<lparr>pe_state := st, pe_writes := 1, pe_disk := Some (encode_policies st)\<rparr>, True)"
  by (simp add: persist_policies_def fresh_engine_def)

theorem policies_survive_restart_witness:
  "\<exists>xs ys d q. [PolicySnooze 7] = xs @ ys \<and> pe_disk (run_ops policy_step fresh_engine xs) = Some d
     \<and> newPolicyEngine (\<lambda>_. NoFault) (PolicyDocument d) = Inr q
     \<and> (\<forall>key lang now. Decide q key lang now
          = Decide ((run_ops policy_step fresh_engine [PolicySnooze 7])\<lparr>pe_viewedPanes := Map.empty\<rparr>) key lang now)"
proof -
  have "policies_ok (pe_state fresh_engine)" "pe_disk fresh_engine = None"
    by (simp_all add: fresh_engine_def empty_state_def policies_ok_def)
  moreover have "encode_policies (pe_state (run_ops policy_step fresh_engine [PolicySnooze 7])) \<noteq> encode_policies (pe_state fresh_engine)"
    by (simp add: SetGlobalSnooze_def fresh_engine_writes encode_policies_def) (simp add: fresh_engine_def empty_state_def)
  ultimately show ?thesis
    using policies_survive_restart [of fresh_engine "[PolicySnooze 7]" "\<lambda>_. NoFault"] by blast
qed

theorem cooldown_per_target_witness:
  "\<exists>p'. MarkAccepted fresh_engine sample_key 5 = (p', None) \<and> pd_Deliver (Decide p' sample_key ''en'' 6)
     \<and> 5 + 30 * second \<le> pd_DueAt (Decide p' sample_key ''en'' 6)"
proof -
  let ?st = "empty_state\<lparr>pf_LastAccepted := [policySlot sample_key \<mapsto> 5]\<rparr>"
  let ?p = "fresh_engine\<lparr>pe_state := ?st, pe_writes := 1, pe_disk := Some (encode_policies ?st)\<rparr>"
  have a: "set_accepted fresh_engine ((pf_LastAccepted (pe_state fresh_engine))(policySlot sample_key \<mapsto> 5)) = fresh_engine\<lparr>pe_state := ?st\<rparr>"
    by (simp add: set_accepted_def fresh_engine_def empty_state_def)
  have m: "MarkAccepted fresh_engine sample_key 5 = (?p, None)"
    unfolding MarkAccepted_def Let_def a fresh_engine_writes by simp
  have n: "nul_free sample_key" by (simp add: nul_free_def sample_key_def)
  have f: "policy_for ?p (k_DeviceID sample_key) ''en'' = DefaultDevicePolicy (k_DeviceID sample_key) ''en''"
    by (simp add: policy_for_def empty_state_def)
  have "Allows ?p sample_key ''en'' 6"
    unfolding Allows_def f by (simp add: snooze_active_def fresh_engine_def empty_state_def DefaultDevicePolicy_def
        flag_def sample_key_def category_defs)
  moreover note cooldown_per_target [OF m _ n n, of "''en''" 6]
  ultimately show ?thesis using m unfolding f by (intro exI [of _ ?p]) (simp add: DefaultDevicePolicy_def)
qed

text \<open>
  A new version is announced once: after a claim of a version for a device that wants it
  once, the next claim is refused.
\<close>

theorem update_claimed_once:
  assumes "ClaimUpdateVersion p deviceID version = Some (p', Inr True)" and "dp_UpdateOnce (policy_for p deviceID ''en'')"
  shows "ClaimUpdateVersion p' deviceID version = Some (p', Inr False)"
proof -
  let ?policy = "policy_for p deviceID ''en''"
  from assms obtain versions where v: "dp_UpdateVersions ?policy = Some versions"
    "TrimSpace deviceID \<noteq> []" "TrimSpace version \<noteq> []" "\<not> flag (dp_UpdateVersions ?policy) version"
    by (auto simp: ClaimUpdateVersion_def Let_def split: if_splits option.splits)
  let ?new = "?policy\<lparr>dp_UpdateVersions := Some ((version, True) # filter (\<lambda>kv. fst kv \<noteq> version) versions)\<rparr>"
  obtain q written where w: "persist_policies (set_policy p deviceID (Some ?new)) = (q, written)" by fastforce
  with assms v have "written \<and> p' = q"
    by (cases written) (auto simp: ClaimUpdateVersion_def Let_def flag_def split: if_splits)
  then have "policy_for p' deviceID ''en'' = ?new"
    using persist_policies_facts(1) [OF w] by (simp add: policy_for_def)
  with assms(2) v show ?thesis by (simp add: ClaimUpdateVersion_def flag_def)
qed

text \<open>
  a version that was never claimed cannot be claimed after a restart: the file leaves out
  the empty set of claimed versions, loading it leaves a nil map, and the claim panics when it
  assigns to that map.
\<close>

theorem claim_panics_after_restart:
  "\<exists>p q. Set_policy fresh_engine (DefaultDevicePolicy ''d'' ''en'') = (p, None)
     \<and> newPolicyEngine (\<lambda>_. NoFault) (PolicyDocument (the (pe_disk p))) = Inr q
     \<and> ClaimUpdateVersion p ''d'' ''v2'' \<noteq> None \<and> ClaimUpdateVersion q ''d'' ''v2'' = None"
proof -
  let ?d = "DefaultDevicePolicy ''d'' ''en''"
  have t: "TrimSpace ''d'' = ''d''" "TrimSpace ''v2'' = ''v2''"
    by (simp_all add: TrimSpace_def trim_segs_def utf8_segs_ascii IsSpace_def)
  have n: "normalizePolicy ?d = Inr ?d"
    unfolding normalizePolicy_def by (simp add: DefaultDevicePolicy_def t second_def allowed_categories_def Let_def)
  let ?st = "empty_state\<lparr>pf_Policies := [''d'' \<mapsto> ?d]\<rparr>"
  let ?p = "fresh_engine\<lparr>pe_state := ?st, pe_writes := 1, pe_disk := Some (encode_policies ?st)\<rparr>"
  have "set_policy fresh_engine (dp_DeviceID ?d) (Some ?d) = fresh_engine\<lparr>pe_state := ?st\<rparr>"
    by (simp add: set_policy_def fresh_engine_def empty_state_def DefaultDevicePolicy_def)
  then have s: "Set_policy fresh_engine ?d = (?p, None)"
    unfolding Set_policy_def n by (simp add: fresh_engine_writes)
  let ?q = "\<lparr>pe_state = decode_policies (encode_policies ?st), pe_viewedPanes = Map.empty, pe_fault = (\<lambda>_. NoFault),
     pe_writes = 0, pe_disk = Some (encode_policies ?st)\<rparr>"
  have "newPolicyEngine (\<lambda>_. NoFault) (PolicyDocument (the (pe_disk ?p))) = Inr ?q" by (simp add: newPolicyEngine_def)
  moreover have "policy_for ?q ''d'' ''en'' = ?d\<lparr>dp_UpdateVersions := None\<rparr>"
    by (simp add: policy_for_def decode_encode_policies encode_policy_def) (simp add: DefaultDevicePolicy_def)
  then have "ClaimUpdateVersion ?q ''d'' ''v2'' = None"
    by (simp add: ClaimUpdateVersion_def t flag_def DefaultDevicePolicy_def)
  moreover have "policy_for ?p ''d'' ''en'' = ?d" by (simp add: policy_for_def)
  then have "ClaimUpdateVersion ?p ''d'' ''v2'' \<noteq> None"
    by (auto simp: ClaimUpdateVersion_def t flag_def DefaultDevicePolicy_def Let_def split: prod.splits bool.splits)
  ultimately show ?thesis using s by blast
qed

end
