(* ===== verification/FMaps.thy ===== *)
theory FMaps
  imports Main "HOL-Library.Finite_Map" "HOL-Library.Multiset" "HOL-Library.Char_ord" "HOL-Library.List_Lexorder"
begin

text \<open>
  Go maps whose size or contents the code enumerates, as finite maps with string keys ordered
  bytewise: ranged deletion and the values in the order of the keys.
\<close>

text \<open>Deleting from a map while ranging over it keeps the entries that do not satisfy the condition.\<close>

definition fm_drop_if :: "('v \<Rightarrow> bool) \<Rightarrow> ('k, 'v) fmap \<Rightarrow> ('k, 'v) fmap" where
  "fm_drop_if p m = fmfilter (\<lambda>k. case fmlookup m k of None \<Rightarrow> False | Some v \<Rightarrow> \<not> p v) m"

definition fm_values :: "(string, 'v) fmap \<Rightarrow> 'v list" where
  "fm_values m = map snd (sorted_list_of_fmap m)"

lemma fmlookup_drop_if [simp]:
  "fmlookup (fm_drop_if p m) k = (case fmlookup m k of None \<Rightarrow> None | Some v \<Rightarrow> if p v then None else Some v)"
  by (simp add: fm_drop_if_def split: option.splits)

lemma drop_if_restore [simp]: "fm_drop_if p m ++\<^sub>f fm_drop_if (\<lambda>v. \<not> p v) m = m"
  by (rule fmap_ext) (auto simp: fmlookup_dom_iff split: option.splits)

lemma fmdom_drop_if: "fcard (fmdom (fm_drop_if p m)) \<le> fcard (fmdom m)"
  by (rule fcard_mono) (auto simp: fm_drop_if_def)

lemma set_fm_values: "set (fm_values m) = {v. \<exists>k. fmlookup m k = Some v}"
  by (force simp: fm_values_def sorted_list_of_fmap_def fmlookup_dom_iff image_iff)

lemma fmempty_iff: "m = fmempty \<longleftrightarrow> (\<forall>k. fmlookup m k = None)"
  by (auto intro: fmap_ext)

text \<open>Sums over the values of a map.\<close>

definition fm_sum :: "('v \<Rightarrow> 'a::comm_monoid_add) \<Rightarrow> ('k, 'v) fmap \<Rightarrow> 'a" where
  "fm_sum f m = (\<Sum>k\<in>fset (fmdom m). f (the (fmlookup m k)))"

lemma fm_sum_empty [simp]: "fm_sum f fmempty = 0"
  by (simp add: fm_sum_def)

lemma fm_sum_drop: "fm_sum f (fmdrop k m) = (\<Sum>j\<in>fset (fmdom m) - {k}. f (the (fmlookup m j)))"
  unfolding fm_sum_def by (rule sum.cong) (auto simp: fmdom_drop)

lemma fm_sum_upd: "fm_sum f (fmupd k v m) = f v + fm_sum f (fmdrop k m)"
proof -
  have "fm_sum f (fmupd k v m) = f v + (\<Sum>j\<in>fset (fmdom m) - {k}. f (the (fmlookup (fmupd k v m) j)))"
    unfolding fm_sum_def by (subst sum.remove [of _ k]) auto
  also have "(\<Sum>j\<in>fset (fmdom m) - {k}. f (the (fmlookup (fmupd k v m) j))) = fm_sum f (fmdrop k m)"
    unfolding fm_sum_drop by (rule sum.cong) auto
  finally show ?thesis .
qed

lemma fm_sum_split: "fmlookup m k = Some v \<Longrightarrow> fm_sum f m = f v + fm_sum f (fmdrop k m)"
  unfolding fm_sum_drop unfolding fm_sum_def by (subst sum.remove [of _ k]) (auto intro: fmdomI)

lemma fmdrop_absent: "fmlookup m k = None \<Longrightarrow> fmdrop k m = m"
  by (rule fmap_ext) auto

lemma fm_sum_memberE:
  fixes f :: "'v \<Rightarrow> 'a multiset"
  assumes "x \<in># fm_sum f m"
  obtains k v where "fmlookup m k = Some v" "x \<in># f v"
proof -
  have *: "finite A \<Longrightarrow> x \<in># (\<Sum>k\<in>A. g k) \<Longrightarrow> \<exists>k\<in>A. x \<in># g k" for A and g :: "'k \<Rightarrow> 'a multiset"
    by (induction A rule: finite_induct) auto
  obtain k where "k |\<in>| fmdom m" "x \<in># f (the (fmlookup m k))"
    using * [of "fset (fmdom m)" "\<lambda>k. f (the (fmlookup m k))"] assms unfolding fm_sum_def by auto
  then show ?thesis by (intro that [of k "the (fmlookup m k)"]) (auto simp: fmlookup_dom_iff)
qed

end
