(* ===== verification/PushQueue.thy ===== *)
theory PushQueue
  imports PushPolicy FMaps "HOL-Library.Product_Lexorder"
begin

text \<open>
  Package \<^verbatim>\<open>internal/push\<close>, \<^verbatim>\<open>queue.go\<close>: the durable queue of notifications, its retries and its
  dispositions. A pass over the due entries holds the \<open>process\<close> lock but not the state lock
  while a notification is sent, so the model lets other operations change the queue during
  each send. The digests and the length of the encoded file are parameters; a write may fail
  before or after it becomes visible.
\<close>

section \<open>Events, entries and records\<close>

definition maxDeliveryAttempts :: int where "maxDeliveryAttempts = 6"
definition maxQueueEntries :: nat where "maxQueueEntries = 1024"
definition maxQueueBytes :: nat where "maxQueueBytes = 4 * 1024 * 1024"
definition maxPushPayloadBytes :: nat where "maxPushPayloadBytes = 3993"

record Subscription =
  sub_Endpoint :: string
  sub_P256dh :: string
  sub_Auth :: string
  sub_DeviceID :: string
  sub_Locale :: string
  sub_Platform :: string
  sub_UserAgent :: string
  sub_NotifyFinished :: bool
  sub_ClientID :: string

record PushEvent =
  ev_Key :: PushEventKey
  ev_Payload :: bytes
  ev_CreatedAt :: time
  ev_ExpiresAt :: time
  ev_Retract :: bool

definition Validate_event :: "PushEvent \<Rightarrow> time \<Rightarrow> push_error option" where
  "Validate_event e now =
     (case Validate_key (ev_Key e) of
        Some err \<Rightarrow> Some err
      | None \<Rightarrow>
          if ev_Payload e = [] \<or> length (ev_Payload e) > maxPushPayloadBytes \<or> ev_CreatedAt e = 0 \<or> ev_ExpiresAt e = 0
             \<or> \<not> ev_CreatedAt e < ev_ExpiresAt e
          then Some InvalidEvent
          else if \<not> now < ev_ExpiresAt e then Some EventExpired
          else None)"

record queueEntry =
  qe_ID :: string
  qe_Event :: PushEvent
  qe_Subscription :: Subscription
  qe_DueAt :: time
  qe_Attempts :: int

record deliveredRecord =
  dr_Key :: PushEventKey
  dr_Subscription :: Subscription
  dr_Tag :: string
  dr_AcceptedAt :: time

record queueFile =
  qf_Entries :: "(string, queueEntry) fmap"
  qf_Delivered :: "(string, deliveredRecord) fmap"

text \<open>\<open>deliveryID\<close> and \<open>notificationTag\<close> (digests of JSON text) and the length of the encoded file.\<close>

record push_codec =
  pc_deliveryID :: "PushEventKey \<Rightarrow> string \<Rightarrow> string"
  pc_notificationTag :: "PushEventKey \<Rightarrow> string"
  pc_size :: "queueFile \<Rightarrow> nat"

record durableQueue =
  dq_state :: queueFile
  dq_fault :: "nat \<Rightarrow> write_fault"
  dq_writes :: nat
  dq_disk :: "queueFile option"

datatype queue_file = QueueMissing | QueueUnreadable | QueueUndecodable | QueueDocument queueFile

definition newDurableQueue :: "(nat \<Rightarrow> write_fault) \<Rightarrow> queue_file \<Rightarrow> push_error + durableQueue" where
  "newDurableQueue fault f =
     (let start = (\<lambda>st disk. \<lparr>dq_state = st, dq_fault = fault, dq_writes = 0, dq_disk = disk\<rparr>)
      in case f of
           QueueMissing \<Rightarrow> Inr (start \<lparr>qf_Entries = fmempty, qf_Delivered = fmempty\<rparr> None)
         | QueueUnreadable \<Rightarrow> Inl ReadFailed
         | QueueUndecodable \<Rightarrow> Inl DecodeFailed
         | QueueDocument d \<Rightarrow> Inr (start d (Some d)))"

definition persist_queue :: "push_codec \<Rightarrow> durableQueue \<Rightarrow> durableQueue \<times> push_error option" where
  "persist_queue pc q =
     (let st = dq_state q in
      if fcard (fmdom (qf_Entries st)) + fcard (fmdom (qf_Delivered st)) > maxQueueEntries then (q, Some QueueLimit)
      else if pc_size pc st + 1 > maxQueueBytes then (q, Some QueueLimit)
      else
        let q' = q\<lparr>dq_writes := Suc (dq_writes q)\<rparr> in
        case dq_fault q (dq_writes q) of
          NoFault \<Rightarrow> (q'\<lparr>dq_disk := Some st\<rparr>, None)
        | FaultBeforeRename \<Rightarrow> (q', Some PersistFailed)
        | FaultAfterRename \<Rightarrow> (q'\<lparr>dq_disk := Some st\<rparr>, Some PersistFailed))"

section \<open>Changing the queue\<close>

definition set_entries :: "durableQueue \<Rightarrow> (string, queueEntry) fmap \<Rightarrow> durableQueue" where
  "set_entries q m = q\<lparr>dq_state := (dq_state q)\<lparr>qf_Entries := m\<rparr>\<rparr>"

definition set_delivered :: "durableQueue \<Rightarrow> (string, deliveredRecord) fmap \<Rightarrow> durableQueue" where
  "set_delivered q m = q\<lparr>dq_state := (dq_state q)\<lparr>qf_Delivered := m\<rparr>\<rparr>"

definition enqueue :: "push_codec \<Rightarrow> durableQueue \<Rightarrow> PushEvent \<Rightarrow> Subscription \<Rightarrow> time \<Rightarrow> durableQueue \<times> (push_error + string)" where
  "enqueue pc q event subscription dueAt =
     (if sub_DeviceID subscription = [] \<or> sub_DeviceID subscription \<noteq> k_DeviceID (ev_Key event) then (q, Inl DeviceMismatch)
      else
        let ident = pc_deliveryID pc (ev_Key event) (sub_Endpoint subscription);
            entry = \<lparr>qe_ID = ident, qe_Event = event, qe_Subscription = subscription, qe_DueAt = dueAt, qe_Attempts = 0\<rparr>;
            previous = fmlookup (qf_Entries (dq_state q)) ident
        in case persist_queue pc (set_entries q (fmupd ident entry (qf_Entries (dq_state q)))) of
             (q', None) \<Rightarrow> (q', Inr ident)
           | (q', Some err) \<Rightarrow>
               (set_entries q' (case previous of
                  Some e \<Rightarrow> fmupd ident e (qf_Entries (dq_state q'))
                | None \<Rightarrow> fmdrop ident (qf_Entries (dq_state q'))), Inl err))"

definition cancelKey :: "push_codec \<Rightarrow> durableQueue \<Rightarrow> PushEventKey \<Rightarrow> durableQueue \<times> push_error option" where
  "cancelKey pc q key =
     (let entries = qf_Entries (dq_state q);
          hit = (\<lambda>e. ev_Key (qe_Event e) = key);
          removed = fm_drop_if (\<lambda>e. \<not> hit e) entries
      in if removed = fmempty then (q, None)
         else case persist_queue pc (set_entries q (fm_drop_if hit entries)) of
                (q', None) \<Rightarrow> (q', None)
              | (q', Some err) \<Rightarrow> (set_entries q' (qf_Entries (dq_state q') ++\<^sub>f removed), Some err))"

definition removeSubscriptions :: "push_codec \<Rightarrow> durableQueue \<Rightarrow> string \<Rightarrow> string list \<Rightarrow> durableQueue \<times> push_error option" where
  "removeSubscriptions pc q deviceID endpoints =
     (if endpoints = [] then (q, None)
      else
        let hit = (\<lambda>s. sub_DeviceID s = deviceID \<and> sub_Endpoint s \<in> set endpoints);
            q1 = set_delivered (set_entries q (fm_drop_if (hit \<circ> qe_Subscription) (qf_Entries (dq_state q))))
                   (fm_drop_if (hit \<circ> dr_Subscription) (qf_Delivered (dq_state q)))
        in case persist_queue pc q1 of
             (q', None) \<Rightarrow> (q', None)
           | (q', Some err) \<Rightarrow>
               (set_delivered (set_entries q' (qf_Entries (dq_state q))) (qf_Delivered (dq_state q)), Some err))"

text \<open>
  The loop that re-addresses entries inserts into the map it ranges over. The visited keys are
  an argument: a run visits every key that was there and is not deleted before its turn, and
  any of the keys it inserts.
\<close>

fun readdress :: "push_codec \<Rightarrow> (Subscription \<Rightarrow> bool) \<Rightarrow> Subscription \<Rightarrow> string list \<Rightarrow> (string, queueEntry) fmap \<Rightarrow> (string, queueEntry) fmap" where
  "readdress pc hit replacement [] m = m"
| "readdress pc hit replacement (k # ks) m =
     readdress pc hit replacement ks
       (case fmlookup m k of
          None \<Rightarrow> m
        | Some entry \<Rightarrow>
            if \<not> hit (qe_Subscription entry) then m
            else let ident = pc_deliveryID pc (ev_Key (qe_Event entry)) (sub_Endpoint replacement);
                     entry' = entry\<lparr>qe_Subscription := replacement, qe_ID := ident\<rparr>;
                     m' = fmdrop k m
                 in if fmlookup m' ident = None then fmupd ident entry' m' else m')"

definition replaceSubscriptions :: "push_codec \<Rightarrow> durableQueue \<Rightarrow> string list \<Rightarrow> string \<Rightarrow> string list \<Rightarrow> Subscription \<Rightarrow> durableQueue \<times> push_error option" where
  "replaceSubscriptions pc q visited deviceID endpoints replacement =
     (let replace = filter (\<lambda>e. e \<noteq> []) endpoints;
          hit = (\<lambda>s. sub_DeviceID s = deviceID \<and> sub_Endpoint s \<in> set replace)
      in if replace = [] then (q, None)
         else
           let delivered = qf_Delivered (dq_state q);
               moved = fmmap (\<lambda>r. if hit (dr_Subscription r) then r\<lparr>dr_Subscription := replacement\<rparr> else r)
                 (fm_drop_if (\<lambda>r. hit (dr_Subscription r) \<and> sub_Endpoint (dr_Subscription r) \<noteq> sub_Endpoint replacement) delivered);
               q1 = set_delivered (set_entries q (readdress pc hit replacement visited (qf_Entries (dq_state q)))) moved
           in case persist_queue pc q1 of
                (q', None) \<Rightarrow> (q', None)
              | (q', Some err) \<Rightarrow>
                  (set_delivered (set_entries q' (qf_Entries (dq_state q))) delivered, Some err))"

definition removeDevice :: "push_codec \<Rightarrow> durableQueue \<Rightarrow> string \<Rightarrow> durableQueue \<times> push_error option" where
  "removeDevice pc q deviceID =
     (let entries = qf_Entries (dq_state q); delivered = qf_Delivered (dq_state q);
          hitE = (\<lambda>e. sub_DeviceID (qe_Subscription e) = deviceID);
          hitD = (\<lambda>r. sub_DeviceID (dr_Subscription r) = deviceID);
          removedEntries = fm_drop_if (\<lambda>e. \<not> hitE e) entries;
          removedDelivered = fm_drop_if (\<lambda>r. \<not> hitD r) delivered
      in case persist_queue pc (set_delivered (set_entries q (fm_drop_if hitE entries)) (fm_drop_if hitD delivered)) of
           (q', None) \<Rightarrow> (q', None)
         | (q', Some err) \<Rightarrow>
             (set_delivered (set_entries q' (qf_Entries (dq_state q') ++\<^sub>f removedEntries))
                (qf_Delivered (dq_state q') ++\<^sub>f removedDelivered), Some err))"

definition activeKeys :: "push_codec \<Rightarrow> durableQueue \<Rightarrow> PushEventKey list" where
  "activeKeys pc q =
     sort_key (pc_notificationTag pc)
       (remdups (map (ev_Key \<circ> qe_Event) (fm_values (qf_Entries (dq_state q))) @ map dr_Key (fm_values (qf_Delivered (dq_state q)))))"

definition deliveredFor :: "durableQueue \<Rightarrow> PushEventKey \<Rightarrow> deliveredRecord list" where
  "deliveredFor q key = filter (\<lambda>r. dr_Key r = key) (fm_values (qf_Delivered (dq_state q)))"

definition forgetDelivered :: "push_codec \<Rightarrow> durableQueue \<Rightarrow> PushEventKey \<Rightarrow> durableQueue \<times> push_error option" where
  "forgetDelivered pc q key =
     persist_queue pc (set_delivered q (fm_drop_if (\<lambda>r. dr_Key r = key) (qf_Delivered (dq_state q))))"

definition hasEntriesFor :: "durableQueue \<Rightarrow> PushEventKey \<Rightarrow> bool" where
  "hasEntriesFor q key = list_ex (\<lambda>e. ev_Key (qe_Event e) = key) (fm_values (qf_Entries (dq_state q)))"

section \<open>Retries\<close>

text \<open>The errors a send can report, as the code tells them apart.\<close>

datatype send_error = SendCanceled | PushStatus int | NetworkError | OtherError

definition isTerminalError :: "send_error \<Rightarrow> bool" where
  "isTerminalError err = (case err of PushStatus code \<Rightarrow> code = 404 \<or> code = 410 | _ \<Rightarrow> False)"

definition retryablePushError :: "send_error \<Rightarrow> bool" where
  "retryablePushError err = (case err of
       SendCanceled \<Rightarrow> False
     | PushStatus code \<Rightarrow> code = 408 \<or> code = 429 \<or> code \<ge> 500
     | NetworkError \<Rightarrow> True
     | OtherError \<Rightarrow> False)"

text \<open>The shift of a 64-bit duration drops the bits beyond its width.\<close>

definition retryDelay :: "int \<Rightarrow> duration" where
  "retryDelay attempts0 =
     (let attempts = (if attempts0 < 1 then 1 else attempts0);
          delay = wrap64 (second * 2 ^ nat (attempts - 1))
      in if delay > minute then minute else delay)"

definition sameQueueEntry :: "queueEntry \<Rightarrow> queueEntry \<Rightarrow> bool" where
  "sameQueueEntry l r \<longleftrightarrow> qe_ID l = qe_ID r \<and> ev_Key (qe_Event l) = ev_Key (qe_Event r)
     \<and> ev_CreatedAt (qe_Event l) = ev_CreatedAt (qe_Event r) \<and> ev_ExpiresAt (qe_Event l) = ev_ExpiresAt (qe_Event r)
     \<and> ev_Retract (qe_Event l) = ev_Retract (qe_Event r) \<and> ev_Payload (qe_Event l) = ev_Payload (qe_Event r)
     \<and> qe_Subscription l = qe_Subscription r \<and> qe_DueAt l = qe_DueAt r \<and> qe_Attempts l = qe_Attempts r"

section \<open>One pass over the due entries\<close>

datatype DeliveryDisposition =
  DeliveryAccepted | DeliveryRetrying | DeliveryDropped | DeliveryPruned | DeliveryExpired | DeliveryStale

text \<open>Only pruned results carry their event and subscription.\<close>

record DeliveryResult =
  dl_Key :: PushEventKey
  dl_Endpoint :: string
  dl_Disposition :: DeliveryDisposition
  dl_Attempts :: int
  dl_NextAttempt :: time
  dl_Pruned :: "(PushEvent \<times> Subscription) option"

definition dueEntries :: "durableQueue \<Rightarrow> time \<Rightarrow> queueEntry list" where
  "dueEntries q now =
     sort_key (\<lambda>e. (qe_DueAt e, qe_ID e)) (filter (\<lambda>e. \<not> qe_DueAt e > now) (fm_values (qf_Entries (dq_state q))))"

definition rescheduleInMemory :: "durableQueue \<Rightarrow> string \<Rightarrow> queueEntry \<Rightarrow> int \<Rightarrow> time \<Rightarrow> durableQueue \<times> bool" where
  "rescheduleInMemory q ident snapshot attempts nextAt =
     (case fmlookup (qf_Entries (dq_state q)) ident of
        None \<Rightarrow> (q, False)
      | Some current \<Rightarrow>
          if \<not> sameQueueEntry current snapshot then (q, False)
          else (set_entries q (fmupd ident (current\<lparr>qe_Attempts := attempts, qe_DueAt := nextAt\<rparr>) (qf_Entries (dq_state q))), True))"

definition finishInMemory :: "push_codec \<Rightarrow> durableQueue \<Rightarrow> string \<Rightarrow> queueEntry \<Rightarrow> DeliveryDisposition \<Rightarrow> time \<Rightarrow> durableQueue \<times> bool" where
  "finishInMemory pc q ident snapshot disposition now =
     (case fmlookup (qf_Entries (dq_state q)) ident of
        None \<Rightarrow> (q, False)
      | Some current \<Rightarrow>
          if \<not> sameQueueEntry current snapshot then (q, False)
          else
            let q1 = set_entries q (fmdrop ident (qf_Entries (dq_state q))) in
            (if disposition = DeliveryAccepted \<and> \<not> ev_Retract (qe_Event snapshot)
             then set_delivered q1 (fmupd ident
                    \<lparr>dr_Key = ev_Key (qe_Event snapshot), dr_Subscription = qe_Subscription snapshot,
                     dr_Tag = pc_notificationTag pc (ev_Key (qe_Event snapshot)), dr_AcceptedAt = now\<rparr>
                    (qf_Delivered (dq_state q1)))
             else q1, True))"

text \<open>
  What a pass meets: whether the context is cancelled at each check, the outcome of each send
  and what other operations do to the queue meanwhile, whether an event is still current, and
  the two callbacks. The acceptance callback keeps a state of its own.
\<close>

record 'a pass_env =
  pv_cancelled :: "nat \<Rightarrow> bool"
  pv_send :: "nat \<Rightarrow> send_error option"
  pv_during :: "nat \<Rightarrow> durableQueue \<Rightarrow> durableQueue"
  pv_current :: "(PushEventKey \<Rightarrow> bool) option"
  pv_accepted :: "('a \<Rightarrow> PushEventKey \<Rightarrow> time \<Rightarrow> 'a \<times> push_error option) option"
  pv_recover :: "(DeliveryResult list \<Rightarrow> durableQueue \<Rightarrow> durableQueue \<times> bool \<times> push_error option) option"

datatype pass_error = ContextError | PushError push_error

record 'a pass =
  ps_queue :: durableQueue
  ps_acc :: 'a
  ps_results :: "DeliveryResult list"
  ps_terminal :: "string list"
  ps_dirty :: bool
  ps_checks :: nat
  ps_sends :: nat

definition settle_entry :: "push_codec \<Rightarrow> 'a pass \<Rightarrow> queueEntry \<Rightarrow> DeliveryDisposition \<Rightarrow> int \<Rightarrow> time \<Rightarrow> 'a pass" where
  "settle_entry pc ps snapshot disposition attempts now =
     (case finishInMemory pc (ps_queue ps) (qe_ID snapshot) snapshot disposition now of
        (q, changed) \<Rightarrow> ps\<lparr>ps_queue := q, ps_dirty := changed \<or> ps_dirty ps,
          ps_results := ps_results ps @ [\<lparr>dl_Key = ev_Key (qe_Event snapshot), dl_Endpoint = sub_Endpoint (qe_Subscription snapshot),
             dl_Disposition = disposition, dl_Attempts = attempts, dl_NextAttempt = 0,
             dl_Pruned = (if disposition = DeliveryPruned then Some (qe_Event snapshot, qe_Subscription snapshot) else None)\<rparr>]\<rparr>)"

definition subscriptionKey :: "queueEntry \<Rightarrow> string" where
  "subscriptionKey e = sub_DeviceID (qe_Subscription e) @ sep @ sub_Endpoint (qe_Subscription e)"

text \<open>After a send that failed with \<open>err\<close>.\<close>

definition send_failed :: "push_codec \<Rightarrow> 'a pass \<Rightarrow> queueEntry \<Rightarrow> time \<Rightarrow> send_error \<Rightarrow> 'a pass" where
  "send_failed pc ps snapshot now err =
     (let attempts = qe_Attempts snapshot + 1; nextAt = now + retryDelay attempts in
      if isTerminalError err
      then settle_entry pc (ps\<lparr>ps_terminal := subscriptionKey snapshot # ps_terminal ps\<rparr>) snapshot DeliveryPruned attempts now
      else if retryablePushError err \<and> attempts < maxDeliveryAttempts \<and> nextAt < ev_ExpiresAt (qe_Event snapshot)
      then (case rescheduleInMemory (ps_queue ps) (qe_ID snapshot) snapshot attempts nextAt of
              (q, changed) \<Rightarrow> ps\<lparr>ps_queue := q, ps_dirty := changed \<or> ps_dirty ps,
                ps_results := ps_results ps @ [\<lparr>dl_Key = ev_Key (qe_Event snapshot), dl_Endpoint = sub_Endpoint (qe_Subscription snapshot),
                   dl_Disposition = DeliveryRetrying, dl_Attempts = attempts, dl_NextAttempt = nextAt, dl_Pruned = None\<rparr>]\<rparr>)
      else settle_entry pc ps snapshot DeliveryDropped attempts now)"

text \<open>One iteration of the loop; a second component \<open>Some e\<close> leaves the loop through \<open>finish(e)\<close>.\<close>

definition process_entry :: "push_codec \<Rightarrow> 'a pass_env \<Rightarrow> time \<Rightarrow> 'a pass \<Rightarrow> queueEntry \<Rightarrow> 'a pass \<times> pass_error option" where
  "process_entry pc env now ps0 snapshot =
     (let ps = ps0\<lparr>ps_checks := Suc (ps_checks ps0)\<rparr>; key = ev_Key (qe_Event snapshot) in
      if pv_cancelled env (ps_checks ps0) then (ps, Some ContextError)
      else if subscriptionKey snapshot \<in> set (ps_terminal ps)
      then (settle_entry pc ps snapshot DeliveryPruned (qe_Attempts snapshot) now, None)
      else if \<not> now < ev_ExpiresAt (qe_Event snapshot)
      then (settle_entry pc ps snapshot DeliveryExpired (qe_Attempts snapshot) now, None)
      else if (case pv_current env of None \<Rightarrow> True | Some current \<Rightarrow> \<not> current key)
      then (settle_entry pc ps snapshot DeliveryStale (qe_Attempts snapshot) now, None)
      else
        let ps1 = ps\<lparr>ps_queue := pv_during env (ps_sends ps) (ps_queue ps), ps_sends := Suc (ps_sends ps)\<rparr> in
        case pv_send env (ps_sends ps) of
          None \<Rightarrow>
            (case finishInMemory pc (ps_queue ps1) (qe_ID snapshot) snapshot DeliveryAccepted now of
               (q, changed) \<Rightarrow>
                 let ps2 = ps1\<lparr>ps_queue := q, ps_dirty := changed \<or> ps_dirty ps1\<rparr>;
                     record_result = (\<lambda>p. p\<lparr>ps_results := ps_results p @ [\<lparr>dl_Key = key, dl_Endpoint = sub_Endpoint (qe_Subscription snapshot),
                       dl_Disposition = DeliveryAccepted, dl_Attempts = qe_Attempts snapshot + 1, dl_NextAttempt = 0, dl_Pruned = None\<rparr>]\<rparr>)
                 in case pv_accepted env of
                      None \<Rightarrow> (record_result ps2, None)
                    | Some accepted \<Rightarrow>
                        (case accepted (ps_acc ps2) key now of
                           (a, None) \<Rightarrow> (record_result (ps2\<lparr>ps_acc := a\<rparr>), None)
                         | (a, Some err) \<Rightarrow> (ps2\<lparr>ps_acc := a\<rparr>, Some (PushError err))))
        | Some err \<Rightarrow>
            let ps2 = ps1\<lparr>ps_checks := Suc (ps_checks ps1)\<rparr> in
            if pv_cancelled env (ps_checks ps1) then (ps2, Some ContextError)
            else (send_failed pc ps2 snapshot now err, None))"

fun process_entries :: "push_codec \<Rightarrow> 'a pass_env \<Rightarrow> time \<Rightarrow> 'a pass \<Rightarrow> queueEntry list \<Rightarrow> 'a pass \<times> pass_error option" where
  "process_entries pc env now ps [] = (ps, None)"
| "process_entries pc env now ps (e # es) =
     (case process_entry pc env now ps e of
        (ps', Some cause) \<Rightarrow> (ps', Some cause)
      | (ps', None) \<Rightarrow> process_entries pc env now ps' es)"

record prunedRecovery =
  rc_deviceID :: string
  rc_endpoints :: "string list"
  rc_fallback :: "Subscription option"
  rc_results :: "DeliveryResult list"

text \<open>Queueing the pruned events again for the fallback, where they are not queued already.\<close>

fun requeue_results :: "push_codec \<Rightarrow> Subscription \<Rightarrow> time \<Rightarrow> DeliveryResult list \<Rightarrow> (string, queueEntry) fmap \<Rightarrow> (string, queueEntry) fmap \<times> bool" where
  "requeue_results pc fallback now [] m = (m, False)"
| "requeue_results pc fallback now (r # rs) m =
     (case dl_Pruned r of
        None \<Rightarrow> requeue_results pc fallback now rs m
      | Some (event, _) \<Rightarrow>
          let ident = pc_deliveryID pc (ev_Key event) (sub_Endpoint fallback) in
          if fmlookup m ident \<noteq> None then requeue_results pc fallback now rs m
          else (fst (requeue_results pc fallback now rs (fmupd ident \<lparr>qe_ID = ident, qe_Event = event,
                  qe_Subscription = fallback, qe_DueAt = now, qe_Attempts = 0\<rparr> m)), True))"

text \<open>One recovery; the keys the entry loop visits are an argument, as for \<open>readdress\<close>.\<close>

definition recover_one :: "push_codec \<Rightarrow> time \<Rightarrow> string list \<Rightarrow> prunedRecovery \<Rightarrow> durableQueue \<Rightarrow> durableQueue \<times> bool" where
  "recover_one pc now visited rc q =
     (let endpoints = filter (\<lambda>e. e \<noteq> []) (rc_endpoints rc);
          hit = (\<lambda>s. sub_DeviceID s = rc_deviceID rc \<and> sub_Endpoint s \<in> set endpoints);
          entries = qf_Entries (dq_state q); delivered = qf_Delivered (dq_state q);
          dirty = (list_ex (hit \<circ> qe_Subscription) (fm_values entries) \<or> list_ex (hit \<circ> dr_Subscription) (fm_values delivered));
          q1 = set_delivered q (fm_drop_if (hit \<circ> dr_Subscription) delivered)
      in case rc_fallback rc of
           None \<Rightarrow> (set_entries q1 (fm_drop_if (hit \<circ> qe_Subscription) entries), dirty)
         | Some fallback \<Rightarrow>
             (case requeue_results pc fallback now (rc_results rc) (readdress pc hit fallback visited entries) of
                (m, added) \<Rightarrow> (set_entries q1 m, dirty \<or> added)))"

fun recoverPrunedWhileProcessing :: "push_codec \<Rightarrow> time \<Rightarrow> (string list \<times> prunedRecovery) list \<Rightarrow> durableQueue \<Rightarrow> durableQueue \<times> bool" where
  "recoverPrunedWhileProcessing pc now [] q = (q, False)"
| "recoverPrunedWhileProcessing pc now ((visited, rc) # rcs) q =
     (case recover_one pc now visited rc q of
        (q1, dirty) \<Rightarrow> (case recoverPrunedWhileProcessing pc now rcs q1 of (q2, dirty') \<Rightarrow> (q2, dirty \<or> dirty')))"

fun restorePrunedWhileProcessing :: "push_codec \<Rightarrow> durableQueue \<Rightarrow> DeliveryResult list \<Rightarrow> time \<Rightarrow> durableQueue \<times> bool" where
  "restorePrunedWhileProcessing pc q [] now = (q, False)"
| "restorePrunedWhileProcessing pc q (r # rs) now =
     (case (if dl_Disposition r \<noteq> DeliveryPruned then None else dl_Pruned r) of
        None \<Rightarrow> restorePrunedWhileProcessing pc q rs now
      | Some (event, subscription) \<Rightarrow>
          let ident = pc_deliveryID pc (ev_Key event) (sub_Endpoint subscription) in
          if fmlookup (qf_Entries (dq_state q)) ident \<noteq> None then restorePrunedWhileProcessing pc q rs now
          else
            let dueAt0 = now + retryDelay (dl_Attempts r);
                dueAt = (if \<not> dueAt0 < ev_ExpiresAt event then now else dueAt0);
                q1 = set_entries q (fmupd ident \<lparr>qe_ID = ident, qe_Event = event, qe_Subscription = subscription,
                       qe_DueAt = dueAt, qe_Attempts = dl_Attempts r\<rparr> (qf_Entries (dq_state q)))
            in (fst (restorePrunedWhileProcessing pc q1 rs now), True))"

definition flush :: "push_codec \<Rightarrow> bool \<Rightarrow> durableQueue \<Rightarrow> durableQueue \<times> push_error option" where
  "flush pc dirty q = (if \<not> dirty then (q, None) else persist_queue pc q)"

definition finish_pass :: "push_codec \<Rightarrow> 'a pass_env \<Rightarrow> time \<Rightarrow> 'a pass \<Rightarrow> pass_error option \<Rightarrow> durableQueue \<times> pass_error option" where
  "finish_pass pc env now ps cause =
     (case pv_recover env of
        Some recoverPruned \<Rightarrow>
          (case recoverPruned (ps_results ps) (ps_queue ps) of
             (q, recovered, Some err) \<Rightarrow>
               (case restorePrunedWhileProcessing pc q (ps_results ps) now of
                  (q1, restored) \<Rightarrow>
                    (case flush pc (restored \<or> recovered \<or> ps_dirty ps) q1 of
                       (q2, Some persistErr) \<Rightarrow> (q2, Some (PushError persistErr))
                     | (q2, None) \<Rightarrow> (q2, Some (PushError err))))
           | (q, recovered, None) \<Rightarrow>
               (case flush pc (recovered \<or> ps_dirty ps) q of
                  (q1, Some err) \<Rightarrow> (q1, Some (PushError err))
                | (q1, None) \<Rightarrow> (q1, cause)))
      | None \<Rightarrow>
          (case flush pc (ps_dirty ps) (ps_queue ps) of
             (q1, Some err) \<Rightarrow> (q1, Some (PushError err))
           | (q1, None) \<Rightarrow> (q1, cause)))"

definition processDueWithRecovery ::
  "push_codec \<Rightarrow> 'a pass_env \<Rightarrow> time \<Rightarrow> durableQueue \<Rightarrow> 'a \<Rightarrow> durableQueue \<times> 'a \<times> DeliveryResult list \<times> pass_error option" where
  "processDueWithRecovery pc env now q a =
     (case process_entries pc env now \<lparr>ps_queue = q, ps_acc = a, ps_results = [], ps_terminal = [], ps_dirty = False,
             ps_checks = 0, ps_sends = 0\<rparr> (dueEntries q now) of
        (ps, cause) \<Rightarrow>
          (case finish_pass pc env now ps cause of (q', err) \<Rightarrow> (q', ps_acc ps, ps_results ps, err)))"

definition processDue :: "push_codec \<Rightarrow> 'a pass_env \<Rightarrow> time \<Rightarrow> durableQueue \<Rightarrow> 'a \<Rightarrow> durableQueue \<times> 'a \<times> DeliveryResult list \<times> pass_error option" where
  "processDue pc env now q a = processDueWithRecovery pc (env\<lparr>pv_recover := None\<rparr>) now q a"

lemma set_queue_simps [simp]:
  "dq_state (set_entries q m) = (dq_state q)\<lparr>qf_Entries := m\<rparr>" "dq_disk (set_entries q m) = dq_disk q"
  "dq_state (set_delivered q d) = (dq_state q)\<lparr>qf_Delivered := d\<rparr>" "dq_disk (set_delivered q d) = dq_disk q"
  by (simp_all add: set_entries_def set_delivered_def)

section \<open>Durability\<close>

text \<open>Every entry is stored under the identifier of its event and endpoint.\<close>

definition entries_ok :: "push_codec \<Rightarrow> (string, queueEntry) fmap \<Rightarrow> bool" where
  "entries_ok pc m \<longleftrightarrow> (\<forall>k e. fmlookup m k = Some e \<longrightarrow>
     qe_ID e = k \<and> k = pc_deliveryID pc (ev_Key (qe_Event e)) (sub_Endpoint (qe_Subscription e)))"

definition queue_ok :: "push_codec \<Rightarrow> queueFile \<Rightarrow> bool" where
  "queue_ok pc st \<longleftrightarrow> entries_ok pc (qf_Entries st)
     \<and> fcard (fmdom (qf_Entries st)) + fcard (fmdom (qf_Delivered st)) \<le> maxQueueEntries"

lemma persist_queue_facts:
  assumes "persist_queue pc q = (q', err)"
  shows "dq_state q' = dq_state q" and "err = None \<Longrightarrow> dq_disk q' = Some (dq_state q)"
    and "dq_disk q' = dq_disk q \<or> dq_disk q' = Some (dq_state q)
       \<and> fcard (fmdom (qf_Entries (dq_state q))) + fcard (fmdom (qf_Delivered (dq_state q))) \<le> maxQueueEntries"
    and "err = None \<Longrightarrow> fcard (fmdom (qf_Entries (dq_state q))) + fcard (fmdom (qf_Delivered (dq_state q))) \<le> maxQueueEntries"
  using assms by (auto simp: persist_queue_def Let_def split: if_splits write_fault.splits)

definition queue_sound :: "push_codec \<Rightarrow> durableQueue \<Rightarrow> durableQueue \<Rightarrow> bool" where
  "queue_sound pc q q' \<longleftrightarrow>
     (dq_state q' = dq_state q \<or> dq_disk q' = Some (dq_state q'))
     \<and> (queue_ok pc (dq_state q) \<longrightarrow> queue_ok pc (dq_state q')
          \<and> (dq_disk q' = dq_disk q \<or> (\<exists>st. dq_disk q' = Some st \<and> queue_ok pc st)))"

lemma queue_sound_refl [simp]: "queue_sound pc q q"
  by (simp add: queue_sound_def)

lemma queue_rollback:
  assumes "persist_queue pc q1 = (q', err)"
    and "result = (if err = None then q' else undo q')" and "dq_state (undo q') = dq_state q" and "dq_disk (undo q') = dq_disk q'"
    and "dq_disk q1 = dq_disk q" and "entries_ok pc (qf_Entries (dq_state q)) \<Longrightarrow> entries_ok pc (qf_Entries (dq_state q1))"
  shows "queue_sound pc q result"
  using persist_queue_facts [OF assms(1)] assms(2-) by (cases err) (auto simp: queue_sound_def queue_ok_def)

lemma entries_ok_drop_if: "entries_ok pc m \<Longrightarrow> entries_ok pc (fm_drop_if p m)"
  by (auto simp: entries_ok_def split: option.splits if_splits)

lemma entries_ok_readdress: "entries_ok pc m \<Longrightarrow> entries_ok pc (readdress pc hit replacement visited m)"
proof (induction pc hit replacement visited m rule: readdress.induct)
  case (2 pc hit replacement k ks m)
  show ?case
  proof (cases "fmlookup m k")
    case None
    with 2 show ?thesis by simp
  next
    case (Some entry)
    let ?id = "pc_deliveryID pc (ev_Key (qe_Event entry)) (sub_Endpoint replacement)"
    have "entries_ok pc (fmdrop k m)" using 2(2) by (auto simp: entries_ok_def)
    moreover have "entries_ok pc (fmupd ?id (entry\<lparr>qe_Subscription := replacement, qe_ID := ?id\<rparr>) (fmdrop k m))"
      using 2(2) by (auto simp: entries_ok_def)
    ultimately show ?thesis using 2 Some by (simp add: Let_def)
  qed
qed simp

lemma enqueue_sound: "queue_sound pc q (fst (enqueue pc q event subscription dueAt))"
proof (cases "sub_DeviceID subscription = [] \<or> sub_DeviceID subscription \<noteq> k_DeviceID (ev_Key event)")
  case True
  then show ?thesis by (simp add: enqueue_def)
next
  case False
  let ?id = "pc_deliveryID pc (ev_Key event) (sub_Endpoint subscription)"
  let ?m = "qf_Entries (dq_state q)"
  let ?q1 = "set_entries q (fmupd ?id \<lparr>qe_ID = ?id, qe_Event = event, qe_Subscription = subscription, qe_DueAt = dueAt, qe_Attempts = 0\<rparr> ?m)"
  let ?undo = "\<lambda>q'. set_entries q' (case fmlookup ?m ?id of Some e \<Rightarrow> fmupd ?id e (qf_Entries (dq_state q'))
     | None \<Rightarrow> fmdrop ?id (qf_Entries (dq_state q')))"
  obtain q' err where w: "persist_queue pc ?q1 = (q', err)" by fastforce
  have "(case fmlookup ?m ?id of Some e \<Rightarrow> fmupd ?id e (fmupd ?id x ?m) | None \<Rightarrow> fmdrop ?id (fmupd ?id x ?m)) = ?m" for x
    by (rule fmap_ext) (auto split: option.splits)
  then have "dq_state (?undo q') = dq_state q" using persist_queue_facts(1) [OF w] by (simp cong: option.case_cong)
  moreover have "fst (enqueue pc q event subscription dueAt) = (if err = None then q' else ?undo q')"
    using w unfolding enqueue_def Let_def if_not_P [OF False] by (cases err) simp_all
  ultimately show ?thesis by (intro queue_rollback [OF w, where undo = ?undo]) (auto simp: entries_ok_def)
qed

lemma cancelKey_sound: "queue_sound pc q (fst (cancelKey pc q key))"
proof -
  let ?m = "qf_Entries (dq_state q)"
  let ?hit = "\<lambda>e. ev_Key (qe_Event e) = key"
  let ?undo = "\<lambda>q'. set_entries q' (qf_Entries (dq_state q') ++\<^sub>f fm_drop_if (\<lambda>e. \<not> ?hit e) ?m)"
  obtain q' err where w: "persist_queue pc (set_entries q (fm_drop_if ?hit ?m)) = (q', err)" by fastforce
  have "dq_state (?undo q') = dq_state q" using persist_queue_facts(1) [OF w] by simp
  then have "queue_sound pc q (if err = None then q' else ?undo q')"
    by (intro queue_rollback [OF w, where undo = ?undo]) (auto intro: entries_ok_drop_if)
  with w show ?thesis unfolding cancelKey_def Let_def by (cases err) simp_all
qed

lemma removeSubscriptions_sound: "queue_sound pc q (fst (removeSubscriptions pc q deviceID endpoints))"
proof -
  let ?hit = "\<lambda>s. sub_DeviceID s = deviceID \<and> sub_Endpoint s \<in> set endpoints"
  let ?q1 = "set_delivered (set_entries q (fm_drop_if (?hit \<circ> qe_Subscription) (qf_Entries (dq_state q))))
      (fm_drop_if (?hit \<circ> dr_Subscription) (qf_Delivered (dq_state q)))"
  let ?undo = "\<lambda>q'. set_delivered (set_entries q' (qf_Entries (dq_state q))) (qf_Delivered (dq_state q))"
  obtain q' err where w: "persist_queue pc ?q1 = (q', err)" by fastforce
  have "dq_state (?undo q') = dq_state q" using persist_queue_facts(1) [OF w] by simp
  then have "queue_sound pc q (if err = None then q' else ?undo q')"
    by (intro queue_rollback [OF w, where undo = ?undo]) (auto intro: entries_ok_drop_if)
  with w show ?thesis unfolding removeSubscriptions_def Let_def by (cases err) simp_all
qed

lemma replaceSubscriptions_sound: "queue_sound pc q (fst (replaceSubscriptions pc q visited deviceID endpoints replacement))"
proof -
  define hit where "hit = (\<lambda>s :: Subscription. sub_DeviceID s = deviceID \<and> sub_Endpoint s \<in> set (filter (\<lambda>e. e \<noteq> []) endpoints))"
  define moved where "moved = fmmap (\<lambda>r. if hit (dr_Subscription r) then r\<lparr>dr_Subscription := replacement\<rparr> else r)
     (fm_drop_if (\<lambda>r. hit (dr_Subscription r) \<and> sub_Endpoint (dr_Subscription r) \<noteq> sub_Endpoint replacement) (qf_Delivered (dq_state q)))"
  let ?q1 = "set_delivered (set_entries q (readdress pc hit replacement visited (qf_Entries (dq_state q)))) moved"
  let ?undo = "\<lambda>q'. set_delivered (set_entries q' (qf_Entries (dq_state q))) (qf_Delivered (dq_state q))"
  obtain q' err where w: "persist_queue pc ?q1 = (q', err)" by fastforce
  have "dq_state (?undo q') = dq_state q" using persist_queue_facts(1) [OF w] by simp
  then have "queue_sound pc q (if err = None then q' else ?undo q')"
    by (intro queue_rollback [OF w, where undo = ?undo]) (auto intro: entries_ok_readdress)
  with w [unfolded moved_def hit_def] show ?thesis unfolding replaceSubscriptions_def Let_def by (cases err) simp_all
qed

lemma removeDevice_sound: "queue_sound pc q (fst (removeDevice pc q deviceID))"
proof -
  let ?E = "qf_Entries (dq_state q)" and ?D = "qf_Delivered (dq_state q)"
  let ?e = "\<lambda>e. sub_DeviceID (qe_Subscription e) = deviceID" and ?d = "\<lambda>r. sub_DeviceID (dr_Subscription r) = deviceID"
  let ?q1 = "set_delivered (set_entries q (fm_drop_if ?e ?E)) (fm_drop_if ?d ?D)"
  let ?undo = "\<lambda>q'. set_delivered (set_entries q' (qf_Entries (dq_state q') ++\<^sub>f fm_drop_if (\<lambda>e. \<not> ?e e) ?E))
     (qf_Delivered (dq_state q') ++\<^sub>f fm_drop_if (\<lambda>r. \<not> ?d r) ?D)"
  obtain q' err where w: "persist_queue pc ?q1 = (q', err)" by fastforce
  have "dq_state (?undo q') = dq_state q" using persist_queue_facts(1) [OF w] by simp
  then have "queue_sound pc q (if err = None then q' else ?undo q')"
    by (intro queue_rollback [OF w, where undo = ?undo]) (auto intro: entries_ok_drop_if)
  with w show ?thesis unfolding removeDevice_def Let_def by (cases err) simp_all
qed

datatype queue_op =
    QueueAdd PushEvent Subscription time
  | QueueCancel PushEventKey
  | QueueUnsubscribe string "string list"
  | QueueReplace "string list" string "string list" Subscription
  | QueueRemoveDevice string

fun queue_step :: "push_codec \<Rightarrow> durableQueue \<Rightarrow> queue_op \<Rightarrow> durableQueue" where
  "queue_step pc q (QueueAdd event subscription dueAt) = fst (enqueue pc q event subscription dueAt)"
| "queue_step pc q (QueueCancel key) = fst (cancelKey pc q key)"
| "queue_step pc q (QueueUnsubscribe d es) = fst (removeSubscriptions pc q d es)"
| "queue_step pc q (QueueReplace visited d es s) = fst (replaceSubscriptions pc q visited d es s)"
| "queue_step pc q (QueueRemoveDevice d) = fst (removeDevice pc q d)"

lemma queue_step_sound: "queue_sound pc q (queue_step pc q op)"
  by (cases op) (simp_all add: enqueue_sound cancelKey_sound removeSubscriptions_sound replaceSubscriptions_sound removeDevice_sound)

interpretation queues: durable_store "queue_step pc" dq_state dq_disk "queue_ok pc" for pc
  by unfold_locales (use queue_step_sound in \<open>auto simp: queue_sound_def\<close>)

section \<open>The pass\<close>

lemma retryDelay_min:
  assumes "attempts \<le> 34"
  shows "retryDelay attempts = min minute (second * 2 ^ nat (max 1 attempts - 1))"
proof -
  define n :: int where "n = 2 ^ nat (max 1 attempts - 1)"
  have "n \<le> 2 ^ 33" unfolding n_def using assms by (intro power_increasing) auto
  moreover have "0 \<le> n" by (simp add: n_def)
  ultimately have "wrap64 (second * n) = second * n"
    by (intro wrap64_id) (simp_all add: second_def minDuration_def maxDuration_def)
  then show ?thesis by (auto simp: retryDelay_def Let_def max_def min_def n_def)
qed

lemma retryDelay_bounds:
  assumes "attempts \<le> 34"
  shows "second \<le> retryDelay attempts" and "retryDelay attempts \<le> minute"
  using one_le_power [of "2 :: int" "nat (max 1 attempts - 1)"]
  by (simp_all add: retryDelay_min [OF assms] minute_def second_def)

lemma sameQueueEntry_refl [simp]: "sameQueueEntry e e"
  by (simp add: sameQueueEntry_def)

abbreviation entries_of :: "durableQueue \<Rightarrow> (string, queueEntry) fmap" where
  "entries_of q \<equiv> qf_Entries (dq_state q)"

text \<open>Finishing or rescheduling a snapshot touches only an entry that still equals it.\<close>

lemma finish_lookup:
  assumes "finishInMemory pc q ident snapshot disposition now = (q', changed)"
  shows "fmlookup (entries_of q') k =
     (if k = ident \<and> (\<exists>e. fmlookup (entries_of q) k = Some e \<and> sameQueueEntry e snapshot) then None else fmlookup (entries_of q) k)"
  using assms by (auto simp: finishInMemory_def Let_def split: option.splits if_splits)

lemma reschedule_lookup:
  assumes "rescheduleInMemory q ident snapshot attempts nextAt = (q', changed)"
  shows "fmlookup (entries_of q') k =
     (case fmlookup (entries_of q) k of
        Some e \<Rightarrow> if k = ident \<and> sameQueueEntry e snapshot then Some (e\<lparr>qe_Attempts := attempts, qe_DueAt := nextAt\<rparr>) else Some e
      | None \<Rightarrow> None)"
  using assms by (auto simp: rescheduleInMemory_def split: option.splits if_splits)

text \<open>The queue at the moment an iteration settles its snapshot.\<close>

definition settling_queue :: "'a pass_env \<Rightarrow> 'a pass \<Rightarrow> 'a pass \<Rightarrow> durableQueue" where
  "settling_queue env ps ps' =
     (if ps_sends ps' = ps_sends ps then ps_queue ps else pv_during env (ps_sends ps) (ps_queue ps))"

lemma settle_entry_facts:
  assumes "ps' = settle_entry pc ps s disposition attempts now"
  shows "ps_sends ps' = ps_sends ps" and "ps_checks ps' = ps_checks ps" and "ps_acc ps' = ps_acc ps"
    and "\<And>k. fmlookup (entries_of (ps_queue ps')) k =
       (if k = qe_ID s \<and> (\<exists>e. fmlookup (entries_of (ps_queue ps)) k = Some e \<and> sameQueueEntry e s) then None
        else fmlookup (entries_of (ps_queue ps)) k)"
    and "\<exists>r. ps_results ps' = ps_results ps @ [r] \<and> dl_Key r = ev_Key (qe_Event s) \<and> dl_Disposition r = disposition"
  using assms finish_lookup [of pc "ps_queue ps" "qe_ID s" s disposition now]
  by (auto simp: settle_entry_def split: prod.splits)

text \<open>What one iteration does to the entries: it leaves them, removes its snapshot, or postpones it.\<close>

definition fenced :: "queueEntry \<Rightarrow> durableQueue \<Rightarrow> durableQueue \<Rightarrow> bool" where
  "fenced s q q' \<longleftrightarrow> (\<forall>k e. fmlookup (entries_of q) k = Some e \<and> \<not> (k = qe_ID s \<and> sameQueueEntry e s) \<longrightarrow>
        fmlookup (entries_of q') k = Some e)
     \<and> (\<forall>k. fmlookup (entries_of q) k = None \<longrightarrow> fmlookup (entries_of q') k = None)"

definition settled :: "time \<Rightarrow> queueEntry \<Rightarrow> durableQueue \<Rightarrow> durableQueue \<Rightarrow> bool" where
  "settled now s q q' \<longleftrightarrow> (\<forall>e. fmlookup (entries_of q) (qe_ID s) = Some e \<and> sameQueueEntry e s \<longrightarrow>
     fmlookup (entries_of q') (qe_ID s) = None
     \<or> (qe_Attempts s + 1 < maxDeliveryAttempts \<and> fmlookup (entries_of q') (qe_ID s)
          = Some (e\<lparr>qe_Attempts := qe_Attempts s + 1, qe_DueAt := now + retryDelay (qe_Attempts s + 1)\<rparr>)))"

definition settles :: "time \<Rightarrow> queueEntry \<Rightarrow> durableQueue \<Rightarrow> durableQueue \<Rightarrow> bool" where
  "settles now s q q' \<longleftrightarrow> fenced s q q' \<and> settled now s q q'"

lemmas settles_defs = settles_def fenced_def settled_def

lemma settle_entry_settles: "settles now s (ps_queue ps) (ps_queue (settle_entry pc ps s disposition attempts now))"
  by (auto simp: settles_defs settle_entry_facts(4) [OF refl])

lemma send_failed_facts:
  shows "settles now s (ps_queue ps) (ps_queue (send_failed pc ps s now err))"
    and "ps_sends (send_failed pc ps s now err) = ps_sends ps"
    and "\<exists>r. ps_results (send_failed pc ps s now err) = ps_results ps @ [r] \<and> dl_Key r = ev_Key (qe_Event s)
       \<and> dl_Disposition r \<noteq> DeliveryAccepted"
proof -
  let ?n = "now + retryDelay (qe_Attempts s + 1)"
  obtain q changed where r: "rescheduleInMemory (ps_queue ps) (qe_ID s) s (qe_Attempts s + 1) ?n = (q, changed)" by fastforce
  have R: "qe_Attempts s + 1 < maxDeliveryAttempts \<Longrightarrow> settles now s (ps_queue ps) q"
    using reschedule_lookup [OF r] by (auto simp: settles_defs)
  show "settles now s (ps_queue ps) (ps_queue (send_failed pc ps s now err))"
    using settle_entry_settles [of now s "ps\<lparr>ps_terminal := subscriptionKey s # ps_terminal ps\<rparr>"]
      settle_entry_settles [of now s ps] R by (auto simp: send_failed_def Let_def r)
  show "ps_sends (send_failed pc ps s now err) = ps_sends ps"
    by (simp add: send_failed_def Let_def r settle_entry_facts(1) [OF refl])
  show "\<exists>r. ps_results (send_failed pc ps s now err) = ps_results ps @ [r] \<and> dl_Key r = ev_Key (qe_Event s)
       \<and> dl_Disposition r \<noteq> DeliveryAccepted"
    using settle_entry_facts(5) [OF refl, of pc "ps\<lparr>ps_terminal := subscriptionKey s # ps_terminal ps\<rparr>" s DeliveryPruned]
      settle_entry_facts(5) [OF refl, of pc ps s DeliveryDropped]
    by (auto simp: send_failed_def Let_def r) fastforce+
qed

lemma fenced_refl: "fenced s q q"
  by (simp add: fenced_def)

lemma finish_settles: "finishInMemory pc q (qe_ID s) s disposition now = (q', changed) \<Longrightarrow> settles now s q q'"
  using finish_lookup [of pc q "qe_ID s" s disposition now q' changed] by (auto simp: settles_defs)

lemma process_entry_settles:
  assumes "process_entry pc env now ps s = (ps', c)"
  shows "fenced s (settling_queue env ps ps') (ps_queue ps')"
    and "c = None \<Longrightarrow> settles now s (settling_queue env ps ps') (ps_queue ps')"
    and "c = None \<Longrightarrow> \<exists>r. ps_results ps' = ps_results ps @ [r] \<and> dl_Key r = ev_Key (qe_Event s)
       \<and> (dl_Disposition r = DeliveryAccepted \<longrightarrow> now < ev_ExpiresAt (qe_Event s)
            \<and> (\<exists>current. pv_current env = Some current \<and> current (ev_Key (qe_Event s))))"
proof -
  let ?ps = "ps\<lparr>ps_checks := Suc (ps_checks ps)\<rparr>"
  let ?during = "pv_during env (ps_sends ps) (ps_queue ps)"
  let ?sent = "?ps\<lparr>ps_queue := ?during, ps_sends := Suc (ps_sends ps)\<rparr>"
  note E = settle_entry_settles [of now s ?ps pc, simplified] settle_entry_facts(1) [OF refl, of pc ?ps s, simplified]
  note S = send_failed_facts(1,2) [where ps = "?sent\<lparr>ps_checks := Suc (Suc (ps_checks ps))\<rparr>" and s = s and pc = pc and now = now, simplified]
  have "fenced s (settling_queue env ps ps') (ps_queue ps') \<and> (c = None \<longrightarrow> settles now s (settling_queue env ps ps') (ps_queue ps'))"
    using assms E S unfolding process_entry_def Let_def settling_queue_def
    by (auto simp: settles_def fenced_refl dest!: finish_settles split: if_splits option.splits prod.splits)
  then show "fenced s (settling_queue env ps ps') (ps_queue ps')"
    and "c = None \<Longrightarrow> settles now s (settling_queue env ps ps') (ps_queue ps')" by simp_all
  note Er = settle_entry_facts(5) [OF refl, of pc ?ps s, simplified]
  note Sr = send_failed_facts(3) [where ps = "?sent\<lparr>ps_checks := Suc (Suc (ps_checks ps))\<rparr>" and s = s and pc = pc and now = now, simplified]
  show "\<exists>r. ps_results ps' = ps_results ps @ [r] \<and> dl_Key r = ev_Key (qe_Event s)
       \<and> (dl_Disposition r = DeliveryAccepted \<longrightarrow> now < ev_ExpiresAt (qe_Event s)
            \<and> (\<exists>current. pv_current env = Some current \<and> current (ev_Key (qe_Event s))))" if "c = None"
    using assms that Sr Er [where disposition = DeliveryPruned] Er [where disposition = DeliveryExpired] Er [where disposition = DeliveryStale]
    unfolding process_entry_def Let_def
    by (auto split: if_splits option.splits prod.splits) fastforce+
qed

text \<open>A pass that nothing disturbs: no cancellation, no concurrent change, no failing callback.\<close>

definition quiet :: "'a pass_env \<Rightarrow> bool" where
  "quiet env \<longleftrightarrow> (\<forall>n. \<not> pv_cancelled env n) \<and> (\<forall>n q. pv_during env n q = q)
     \<and> (\<forall>f. pv_accepted env = Some f \<longrightarrow> (\<forall>a k t. snd (f a k t) = None))"

lemma quiet_entry:
  assumes "quiet env" and "process_entry pc env now ps s = (ps', c)"
  shows "c = None" and "settling_queue env ps ps' = ps_queue ps"
proof -
  have acc: "snd (f a k t) = None" if "pv_accepted env = Some f" for f a k t using assms(1) that by (simp add: quiet_def)
  show "c = None"
    using assms acc unfolding process_entry_def Let_def
    by (auto simp: quiet_def split: if_splits option.splits prod.splits) (metis option.distinct(1) snd_conv)
  show "settling_queue env ps ps' = ps_queue ps" using assms(1) by (simp add: settling_queue_def quiet_def)
qed

definition answered :: "'a pass_env \<Rightarrow> time \<Rightarrow> DeliveryResult \<Rightarrow> queueEntry \<Rightarrow> bool" where
  "answered env now r e \<longleftrightarrow> dl_Key r = ev_Key (qe_Event e)
     \<and> (dl_Disposition r = DeliveryAccepted \<longrightarrow> now < ev_ExpiresAt (qe_Event e)
          \<and> (\<exists>current. pv_current env = Some current \<and> current (ev_Key (qe_Event e))))"

definition gone_or_postponed :: "time \<Rightarrow> durableQueue \<Rightarrow> queueEntry \<Rightarrow> bool" where
  "gone_or_postponed now q e \<longleftrightarrow> fmlookup (entries_of q) (qe_ID e) = None
     \<or> (qe_Attempts e + 1 < maxDeliveryAttempts \<and> fmlookup (entries_of q) (qe_ID e)
          = Some (e\<lparr>qe_Attempts := qe_Attempts e + 1, qe_DueAt := now + retryDelay (qe_Attempts e + 1)\<rparr>))"

lemma fenced_lookup:
  "fenced s q q' \<Longrightarrow> k \<noteq> qe_ID s \<Longrightarrow> fmlookup (entries_of q') k = fmlookup (entries_of q) k"
  by (cases "fmlookup (entries_of q) k") (auto simp: fenced_def)

lemma quiet_entries:
  assumes "quiet env" and "distinct (map qe_ID es)" and "\<forall>e \<in> set es. fmlookup (entries_of (ps_queue ps)) (qe_ID e) = Some e"
    and "process_entries pc env now ps es = (ps', c)"
  shows "c = None \<and> (\<exists>rs. ps_results ps' = ps_results ps @ rs \<and> list_all2 (answered env now) rs es)
     \<and> (\<forall>k. k \<notin> qe_ID ` set es \<longrightarrow> fmlookup (entries_of (ps_queue ps')) k = fmlookup (entries_of (ps_queue ps)) k)
     \<and> (\<forall>e \<in> set es. gone_or_postponed now (ps_queue ps') e)"
  using assms(2-)
proof (induction es arbitrary: ps)
  case Nil
  then show ?case by simp
next
  case (Cons e es)
  obtain ps1 c1 where p: "process_entry pc env now ps e = (ps1, c1)" by fastforce
  note q = quiet_entry [OF assms(1) p]
  note S = process_entry_settles [OF p, unfolded q(2)]
  obtain r where r: "ps_results ps1 = ps_results ps @ [r]" "answered env now r e"
    using S(3) [OF q(1)] by (auto simp: answered_def)
  have other: "fmlookup (entries_of (ps_queue ps1)) k = fmlookup (entries_of (ps_queue ps)) k" if "k \<noteq> qe_ID e" for k
    using fenced_lookup [OF S(1) that] .
  have e: "gone_or_postponed now (ps_queue ps1) e"
    using S(2) [OF q(1)] Cons.prems(2) by (auto simp: settles_def settled_def gone_or_postponed_def)
  have prem: "distinct (map qe_ID es)" "\<forall>x \<in> set es. fmlookup (entries_of (ps_queue ps1)) (qe_ID x) = Some x"
    using Cons.prems(1,2) other by (auto simp: image_iff)
  have "process_entries pc env now ps1 es = (ps', c)" using Cons.prems(3) p q(1) by simp
  from Cons.IH [OF prem this] obtain rs where IH: "c = None" "ps_results ps' = ps_results ps1 @ rs" "list_all2 (answered env now) rs es"
    "\<forall>k. k \<notin> qe_ID ` set es \<longrightarrow> fmlookup (entries_of (ps_queue ps')) k = fmlookup (entries_of (ps_queue ps1)) k"
    "\<forall>x \<in> set es. gone_or_postponed now (ps_queue ps') x" by blast
  have "gone_or_postponed now (ps_queue ps') e"
    using e IH(4) Cons.prems(1) by (auto simp: gone_or_postponed_def)
  moreover have "list_all2 (answered env now) (r # rs) (e # es)" using r IH(3) by simp
  ultimately show ?case using IH r other
    by (intro conjI exI [of _ "r # rs"]) auto
qed

lemma dueEntries_facts:
  assumes "entries_ok pc (entries_of q)"
  shows "e \<in> set (dueEntries q now) \<longleftrightarrow> fmlookup (entries_of q) (qe_ID e) = Some e \<and> qe_DueAt e \<le> now"
    and "distinct (map qe_ID (dueEntries q now))"
    and "sorted (map (\<lambda>e. (qe_DueAt e, qe_ID e)) (dueEntries q now))"
proof -
  have v: "v \<in> set (fm_values (entries_of q)) \<longleftrightarrow> fmlookup (entries_of q) (qe_ID v) = Some v" for v
    using assms by (auto simp: set_fm_values entries_ok_def)
  then show "e \<in> set (dueEntries q now) \<longleftrightarrow> fmlookup (entries_of q) (qe_ID e) = Some e \<and> qe_DueAt e \<le> now"
    by (auto simp: dueEntries_def)
  have "map qe_ID (fm_values (entries_of q)) = sorted_list_of_fset (fmdom (entries_of q))"
    using assms by (auto simp: fm_values_def sorted_list_of_fmap_def entries_ok_def comp_def fmlookup_dom_iff
        intro!: map_idI)
  then have "distinct (map qe_ID (fm_values (entries_of q)))" by (simp add: sorted_list_of_fset.rep_eq)
  then have "inj_on qe_ID (set (fm_values (entries_of q)))" "distinct (fm_values (entries_of q))"
    by (simp_all add: distinct_map)
  then show "distinct (map qe_ID (dueEntries q now))"
    by (auto simp: dueEntries_def distinct_map intro: inj_on_subset)
  show "sorted (map (\<lambda>e. (qe_DueAt e, qe_ID e)) (dueEntries q now))" by (simp add: dueEntries_def)
qed

lemma flush_state: "flush pc dirty q = (q', err) \<Longrightarrow> dq_state q' = dq_state q"
  by (auto simp: flush_def persist_queue_facts(1) split: if_splits)

section \<open>Properties\<close>

text \<open>
  C37: an undisturbed pass settles every due notification exactly once, in the order of their due
  times: it answers each, reports as accepted only events that were current and unexpired, and
  afterwards no due entry is left: each is gone, or postponed by the retry delay with one
  attempt more, below the limit of six. Entries that were not due are untouched.
\<close>

theorem pass_settles:
  assumes "queue_ok pc (dq_state q)" and "quiet env" and "processDue pc env now q a = (q', a', results, err)"
  shows "list_all2 (answered env now) results (dueEntries q now)
     \<and> sorted (map qe_DueAt (dueEntries q now))
     \<and> (\<forall>e \<in> set (dueEntries q now). gone_or_postponed now q' e)
     \<and> (\<forall>k e. fmlookup (entries_of q) k = Some e \<and> now < qe_DueAt e \<longrightarrow> fmlookup (entries_of q') k = Some e)
     \<and> dueEntries q' now = []"
proof -
  define ps0 where "ps0 = \<lparr>ps_queue = q, ps_acc = a, ps_results = [], ps_terminal = [], ps_dirty = False, ps_checks = 0, ps_sends = 0\<rparr>"
  let ?env = "env\<lparr>pv_recover := None\<rparr>"
  obtain ps c where p: "process_entries pc ?env now ps0 (dueEntries q now) = (ps, c)" by fastforce
  have quiet': "quiet ?env" using assms(2) by (simp add: quiet_def)
  have ok: "entries_ok pc (entries_of q)" using assms(1) by (simp add: queue_ok_def)
  note D = dueEntries_facts [OF ok]
  have "\<forall>e \<in> set (dueEntries q now). fmlookup (entries_of (ps_queue ps0)) (qe_ID e) = Some e"
    using D(1) by (simp add: ps0_def)
  note Q = quiet_entries [OF quiet' D(2) this p]
  have fin: "dq_state q' = dq_state (ps_queue ps)" "results = ps_results ps"
    using assms(3) p flush_state [of pc "ps_dirty ps" "ps_queue ps"]
    by (auto simp: processDue_def processDueWithRecovery_def ps0_def [symmetric] finish_pass_def split: prod.splits option.splits)
  have res: "list_all2 (answered env now) results (dueEntries q now)"
    using Q fin by (auto simp: ps0_def answered_def cong: list.rel_cong)
  have gone: "gone_or_postponed now q' e" if "e \<in> set (dueEntries q now)" for e
    using Q that by (simp add: gone_or_postponed_def fin)
  have same: "fmlookup (entries_of q') k = fmlookup (entries_of q) k" if "k \<notin> qe_ID ` set (dueEntries q now)" for k
    using Q that by (simp add: fin ps0_def)
  have kept: "fmlookup (entries_of q') k = Some e" if "fmlookup (entries_of q) k = Some e" "now < qe_DueAt e" for k e
  proof -
    have "k \<notin> qe_ID ` set (dueEntries q now)" using that D(1) by auto
    with that(1) same show ?thesis by simp
  qed
  have "now < qe_DueAt e" if "fmlookup (entries_of q') k = Some e" for k e
  proof (cases "k \<in> qe_ID ` set (dueEntries q now)")
    case True
    then obtain d where d: "d \<in> set (dueEntries q now)" "k = qe_ID d" by auto
    with gone that have "qe_Attempts d + 1 < maxDeliveryAttempts" "qe_DueAt e = now + retryDelay (qe_Attempts d + 1)"
      by (fastforce simp: gone_or_postponed_def)+
    with retryDelay_bounds(1) [of "qe_Attempts d + 1"] show ?thesis by (simp add: maxDeliveryAttempts_def second_def)
  next
    case False
    with that same have e: "fmlookup (entries_of q) k = Some e" by simp
    moreover have "qe_ID e = k" using ok e by (simp add: entries_ok_def)
    ultimately show ?thesis using False D(1) [of e now] by force
  qed
  then have "filter (\<lambda>e. \<not> qe_DueAt e > now) (fm_values (entries_of q')) = []"
    by (auto simp: filter_empty_conv set_fm_values)
  then have "dueEntries q' now = []" by (simp add: dueEntries_def)
  moreover have "sorted (map qe_DueAt (dueEntries q now))"
    using D(3) [of now] by (auto simp: sorted_wrt_map less_eq_prod_def elim!: sorted_wrt_mono_rel [rotated] simp: sorted_map)
  ultimately show ?thesis using res gone kept by blast
qed

text \<open>
  what happens to the queue while a notification is being sent is respected: whatever other
  operations did meanwhile, an iteration of the pass leaves every entry alone that is not the
  snapshot it started from, a newer entry under the same identifier included, and it does not
  bring back a removed one.
\<close>

theorem pass_fenced:
  assumes "process_entry pc env now ps s = (ps', c)"
  shows "let q = settling_queue env ps ps'; q' = ps_queue ps' in
     (\<forall>k e. fmlookup (entries_of q) k = Some e \<and> \<not> sameQueueEntry e s \<longrightarrow> fmlookup (entries_of q') k = Some e)
     \<and> (\<forall>k. fmlookup (entries_of q) k = None \<longrightarrow> fmlookup (entries_of q') k = None)"
  using process_entry_settles(1) [OF assms] unfolding Let_def fenced_def by blast

text \<open>
  the retry delay is one second doubled with every attempt and capped at one minute, without
  overflow for up to 34 attempts, far above the six the queue makes.
\<close>

theorem retry_backoff_exact:
  assumes "attempts \<le> 34"
  shows "retryDelay attempts = min minute (second * 2 ^ nat (max 1 attempts - 1))
     \<and> second \<le> retryDelay attempts \<and> retryDelay attempts \<le> minute"
  using retryDelay_min [OF assms] retryDelay_bounds [OF assms] by simp

text \<open>
  the operations of the queue that roll back survive failed writes and restarts: after any sequence of
  additions, cancellations, subscription changes and removals (not \<open>forgetDelivered\<close> and delivery passes,
  which keep their changes in memory when a write fails), each with any fault of the file system, the
  queue in memory and in the file is well formed and within its limit of 1024 records, and a
  queue that differs from the initial one has been in the file, from where a restart loads it.
\<close>

theorem queue_survives_restart:
  fixes q :: durableQueue
  assumes "queue_ok pc (dq_state q)" and "\<forall>d. dq_disk q = Some d \<longrightarrow> queue_ok pc d"
  shows "queue_ok pc (dq_state (run_ops (queue_step pc) q ops))
     \<and> (\<forall>d. dq_disk (run_ops (queue_step pc) q ops) = Some d \<longrightarrow> queue_ok pc d)
     \<and> (dq_state (run_ops (queue_step pc) q ops) \<noteq> dq_state q \<longrightarrow>
          (\<exists>xs ys d q'. ops = xs @ ys \<and> dq_disk (run_ops (queue_step pc) q xs) = Some d
             \<and> newDurableQueue fault (QueueDocument d) = Inr q' \<and> dq_state q' = dq_state (run_ops (queue_step pc) q ops)))"
proof -
  note W = queues.run_change_was_written [OF assms(1), of ops]
  show ?thesis
    using queues.run_mem_ok [OF assms(1), of ops] queues.run_disk_ok [OF assms, of ops] W
    by (auto simp: newDurableQueue_def)
qed

definition demo_codec :: push_codec where
  "demo_codec = \<lparr>pc_deliveryID = (\<lambda>key endpoint. k_DeviceID key @ sep @ endpoint), pc_notificationTag = k_EventID, pc_size = (\<lambda>_. 0)\<rparr>"

definition demo_subscription :: Subscription where
  "demo_subscription = \<lparr>sub_Endpoint = ''u'', sub_P256dh = [], sub_Auth = [], sub_DeviceID = ''d'', sub_Locale = ''en'',
     sub_Platform = [], sub_UserAgent = [], sub_NotifyFinished = False, sub_ClientID = []\<rparr>"

definition demo_event :: PushEvent where
  "demo_event = \<lparr>ev_Key = sample_key, ev_Payload = [1], ev_CreatedAt = 1, ev_ExpiresAt = 100 * second, ev_Retract = False\<rparr>"

definition empty_queue :: durableQueue where
  "empty_queue = \<lparr>dq_state = \<lparr>qf_Entries = fmempty, qf_Delivered = fmempty\<rparr>, dq_fault = (\<lambda>_. NoFault), dq_writes = 0, dq_disk = None\<rparr>"

definition demo_entry :: queueEntry where
  "demo_entry = \<lparr>qe_ID = ''d'' @ sep @ ''u'', qe_Event = demo_event, qe_Subscription = demo_subscription, qe_DueAt = 2, qe_Attempts = 0\<rparr>"

definition demo_queue :: durableQueue where
  "demo_queue = empty_queue\<lparr>dq_state := \<lparr>qf_Entries = fmupd (''d'' @ sep @ ''u'') demo_entry fmempty, qf_Delivered = fmempty\<rparr>\<rparr>"

definition demo_env :: "unit pass_env" where
  "demo_env = \<lparr>pv_cancelled = (\<lambda>_. False), pv_send = (\<lambda>_. Some (PushStatus 503)), pv_during = (\<lambda>_ q. q),
     pv_current = Some (\<lambda>_. True), pv_accepted = None, pv_recover = None\<rparr>"

lemmas demo_defs = demo_codec_def demo_subscription_def demo_event_def empty_queue_def demo_entry_def demo_queue_def demo_env_def sample_key_def

lemma demo_queue_ok: "queue_ok demo_codec (dq_state demo_queue)"
  by (simp add: queue_ok_def entries_ok_def demo_defs maxQueueEntries_def fcard.rep_eq)

lemma demo_due: "dueEntries demo_queue 5 = [demo_entry]"
  by (simp add: dueEntries_def fm_values_def sorted_list_of_fmap_def demo_queue_def sorted_list_of_fset.rep_eq)
    (simp add: demo_defs)

theorem pass_settles_witness:
  "\<exists>q' a' results err. processDue demo_codec demo_env 5 demo_queue () = (q', a', results, err)
     \<and> length results = 1 \<and> gone_or_postponed 5 q' demo_entry \<and> dueEntries q' 5 = []"
proof -
  obtain q' a' results err where p: "processDue demo_codec demo_env 5 demo_queue () = (q', a', results, err)"
    by (metis surj_pair)
  have "quiet demo_env" by (simp add: quiet_def demo_env_def)
  from pass_settles [OF demo_queue_ok this p] p demo_due show ?thesis
    by (intro exI [of _ q'] exI [of _ a'] exI [of _ results] exI [of _ err]) (auto dest: list_all2_lengthD)
qed

theorem pass_fenced_witness:
  "\<exists>ps'. process_entry demo_codec (demo_env\<lparr>pv_during := \<lambda>_ q. set_entries q (fmupd (''d'' @ sep @ ''u'') (demo_entry\<lparr>qe_DueAt := 9\<rparr>) fmempty)\<rparr>)
       5 \<lparr>ps_queue = demo_queue, ps_acc = (), ps_results = [], ps_terminal = [], ps_dirty = False, ps_checks = 0, ps_sends = 0\<rparr> demo_entry = (ps', None)
     \<and> fmlookup (entries_of (ps_queue ps')) (''d'' @ sep @ ''u'') = Some (demo_entry\<lparr>qe_DueAt := 9\<rparr>)"
proof -
  let ?during = "\<lambda>_ q. set_entries q (fmupd (''d'' @ sep @ ''u'') (demo_entry\<lparr>qe_DueAt := 9\<rparr>) fmempty)"
  let ?env = "demo_env\<lparr>pv_during := ?during\<rparr>"
  let ?ps = "\<lparr>ps_queue = demo_queue, ps_acc = (), ps_results = [], ps_terminal = [], ps_dirty = False, ps_checks = 0, ps_sends = 0\<rparr>"
  obtain ps' c where p: "process_entry demo_codec ?env 5 ?ps demo_entry = (ps', c)" by fastforce
  have "c = None" "ps_sends ps' = 1"
    using p by (auto simp: process_entry_def demo_env_def demo_entry_def demo_event_def second_def Let_def send_failed_facts(2))
  moreover from this have "settling_queue ?env ?ps ps' = ?during 0 demo_queue" by (simp add: settling_queue_def)
  moreover have "\<not> sameQueueEntry (demo_entry\<lparr>qe_DueAt := 9\<rparr>) demo_entry" by (simp add: sameQueueEntry_def demo_entry_def)
  ultimately show ?thesis using pass_fenced [OF p] p by (auto simp: Let_def)
qed

theorem retry_backoff_exact_witness: "retryDelay 3 = 4 * second \<and> retryDelay 3 \<le> minute"
  using retry_backoff_exact [of 3] by (simp add: minute_def second_def)

theorem queue_survives_restart_witness:
  "queue_ok demo_codec (dq_state (run_ops (queue_step demo_codec) empty_queue [QueueAdd demo_event demo_subscription 2, QueueRemoveDevice ''x'']))"
proof -
  have "queue_ok demo_codec (dq_state empty_queue)" "\<forall>d. dq_disk empty_queue = Some d \<longrightarrow> queue_ok demo_codec d"
    by (simp_all add: queue_ok_def entries_ok_def empty_queue_def fcard.rep_eq)
  from queue_survives_restart [OF this] show ?thesis by blast
qed

end
