(* ===== verification/PaneSize.thy ===== *)
theory PaneSize
  imports Prelude FMaps
begin

text \<open>
  Package \<^verbatim>\<open>internal/panesize\<close> (\<^verbatim>\<open>manager.go\<close>, the interfaces of \<^verbatim>\<open>terminal.go\<close>): leases on the size
  of a pane and the bounded, fenced restoration after the last lease ends. Pane states are
  shared by reference, so the manager holds them in a store. The code releases its bookkeeping
  mutex around every lookup and terminal operation; the answers of those operations and what
  other operations do to the manager meanwhile are arguments of each step. The goroutines one
  call starts work on different panes and run here one after the other, in the order of the
  pane names, with such arguments for each. Logging and the error text kept for it are left out.
\<close>

section \<open>Constants, errors and records\<close>

definition MinColumns :: int where "MinColumns = 40"
definition MaxColumns :: int where "MaxColumns = 240"
definition MinRows :: int where "MinRows = 10"
definition MaxRows :: int where "MaxRows = 120"
definition LeaseTTL :: duration where "LeaseTTL = 120 * second"
definition ReleaseGrace :: duration where "ReleaseGrace = 10 * second"
definition CleanupAttempts :: int where "CleanupAttempts = 5"
definition CleanupBudget :: duration where "CleanupBudget = 30 * second"
definition cleanupFirstBackoff :: duration where "cleanupFirstBackoff = second"
definition cleanupMaxBackoff :: duration where "cleanupMaxBackoff = 10 * second"

datatype size_error =
    ErrUnavailable | ErrClosed | ErrInvalidColumns | ErrInvalidRows | ErrInvalidLease | ErrLeaseOwnerGone
  | ErrIdentityUnavailable | ErrTerminalGone | ErrTerminalUnverified | ErrTTYUnavailable | ErrSizeUnavailable | ErrResizeFailed
  | ErrUnsupportedOS

fun error_text :: "size_error \<Rightarrow> string" where
  "error_text ErrUnavailable = ''Resize Session is unavailable on this relay''"
| "error_text ErrClosed = ''Resize Session is shutting down''"
| "error_text ErrInvalidColumns = ''Columns must be between 40 and 240''"
| "error_text ErrInvalidRows = ''Rows must be between 10 and 120''"
| "error_text ErrInvalidLease = ''Pane and lease owner are required''"
| "error_text ErrLeaseOwnerGone = ''Pane size lease owner is disconnected''"
| "error_text ErrIdentityUnavailable = ''Pane terminal identity is unavailable''"
| "error_text ErrTerminalGone = ''Pane terminal was closed or replaced''"
| "error_text ErrTerminalUnverified = ''Pane terminal could not be verified; try again''"
| "error_text ErrTTYUnavailable = ''Pane shell does not have a terminal''"
| "error_text ErrSizeUnavailable = ''Pane terminal size is unavailable''"
| "error_text ErrResizeFailed = ''Pane terminal size could not be changed''"
| "error_text ErrUnsupportedOS = ''Resize Session is unsupported on this platform''"

definition publicErrors :: "size_error list" where
  "publicErrors = [ErrUnavailable, ErrClosed, ErrInvalidColumns, ErrInvalidRows, ErrInvalidLease, ErrLeaseOwnerGone,
     ErrIdentityUnavailable, ErrTerminalGone, ErrTerminalUnverified, ErrSizeUnavailable, ErrResizeFailed, ErrUnsupportedOS]"

text \<open>\<open>PublicMessage\<close>, of the package error an error wraps if it wraps one.\<close>

definition PublicMessage :: "size_error option \<Rightarrow> string" where
  "PublicMessage err = (case find (\<lambda>known. err = Some known) publicErrors of
     Some known \<Rightarrow> error_text known | None \<Rightarrow> ''Resize Session failed'')"

record Winsize =
  ws_Rows :: u16
  ws_Columns :: u16
  ws_XPixel :: u16
  ws_YPixel :: u16

record Lease =
  ls_Columns :: int
  ls_Rows :: int
  ls_ExpiresAt :: time

record terminalIdentity =
  ti_terminalID :: string
  ti_shellPID :: int
  ti_ttyPath :: string
  ti_rdev :: u64

record pane_size =
  sz_columns :: int
  sz_rows :: int

text \<open>The serial number of a cleanup stands for the identity of its allocation.\<close>

record cleanupState =
  cl_serial :: nat
  cl_generation :: u64
  cl_attempts :: int
  cl_next :: time
  cl_deadline :: time

record paneState =
  pn_resolved :: bool
  pn_identity :: terminalIdentity
  pn_baseline :: pane_size
  pn_applied :: pane_size
  pn_resizedAt :: time
  pn_leases :: "(string, Lease) fmap"
  pn_generation :: u64
  pn_cleanup :: "cleanupState option"
  pn_cleanups :: nat

record size_manager =
  pm_available :: bool
  pm_ttl :: duration
  pm_grace :: duration
  pm_panes :: "(string, nat) fmap"
  pm_states :: "nat \<Rightarrow> paneState"
  pm_fresh :: nat
  pm_closed :: bool

definition newPaneState :: paneState where
  "newPaneState = \<lparr>pn_resolved = False, pn_identity = \<lparr>ti_terminalID = [], ti_shellPID = 0, ti_ttyPath = [], ti_rdev = 0\<rparr>,
     pn_baseline = \<lparr>sz_columns = 0, sz_rows = 0\<rparr>, pn_applied = \<lparr>sz_columns = 0, sz_rows = 0\<rparr>, pn_resizedAt = 0,
     pn_leases = fmempty, pn_generation = 0, pn_cleanup = None, pn_cleanups = 0\<rparr>"

definition newSizeManager :: "duration \<Rightarrow> duration \<Rightarrow> size_manager" where
  "newSizeManager ttl grace = \<lparr>pm_available = True, pm_ttl = ttl, pm_grace = grace, pm_panes = fmempty,
     pm_states = (\<lambda>_. newPaneState), pm_fresh = 0, pm_closed = False\<rparr>"

definition NewManager :: "bool \<Rightarrow> bool \<Rightarrow> size_manager" where
  "NewManager platformSupported provider = (newSizeManager LeaseTTL ReleaseGrace)\<lparr>pm_available := platformSupported \<and> provider\<rparr>"

section \<open>Bookkeeping of one pane\<close>

definition sizeOf :: "Winsize \<Rightarrow> pane_size" where
  "sizeOf v = \<lparr>sz_columns = uint (ws_Columns v), sz_rows = uint (ws_Rows v)\<rparr>"

definition resized :: "Winsize \<Rightarrow> pane_size \<Rightarrow> Winsize \<times> bool" where
  "resized current want =
     (let nextSize = current\<lparr>ws_Columns := word_of_int (sz_columns want), ws_Rows := word_of_int (sz_rows want)\<rparr>
      in (nextSize, nextSize \<noteq> current))"

fun backoff_loop :: "nat \<Rightarrow> duration \<Rightarrow> duration" where
  "backoff_loop 0 delay = delay"
| "backoff_loop (Suc n) delay =
     (let delay' = delay * 2 in if delay' \<ge> cleanupMaxBackoff then cleanupMaxBackoff else backoff_loop n delay')"

definition cleanupBackoff :: "int \<Rightarrow> duration" where
  "cleanupBackoff failedAttempts = backoff_loop (nat (failedAttempts - 1)) cleanupFirstBackoff"

definition beginCleanupLocked :: "paneState \<Rightarrow> time \<Rightarrow> paneState \<times> u64" where
  "beginCleanupLocked s now =
     (case pn_cleanup s of
        Some c \<Rightarrow> (s, cl_generation c)
      | None \<Rightarrow>
          (s\<lparr>pn_cleanup := Some \<lparr>cl_serial = pn_cleanups s, cl_generation = pn_generation s, cl_attempts = 0,
                cl_next = now, cl_deadline = now + CleanupBudget\<rparr>,
             pn_cleanups := Suc (pn_cleanups s)\<rparr>, pn_generation s))"

definition removeExpiredLocked :: "paneState \<Rightarrow> time \<Rightarrow> paneState \<times> bool" where
  "removeExpiredLocked s now =
     (let expired = filter (\<lambda>l. \<not> ls_ExpiresAt l > now) (fm_values (pn_leases s));
          removed = (expired \<noteq> []);
          lastExpiry = fold (\<lambda>l t. if ls_ExpiresAt l > t then ls_ExpiresAt l else t) expired 0;
          s' = s\<lparr>pn_leases := fm_drop_if (\<lambda>l. \<not> ls_ExpiresAt l > now) (pn_leases s)\<rparr>
      in if removed \<and> pn_leases s' = fmempty then (fst (beginCleanupLocked s' lastExpiry), True) else (s', removed))"

definition observeLocked :: "paneState \<Rightarrow> Winsize \<Rightarrow> paneState" where
  "observeLocked s0 current =
     (let columns = uint (ws_Columns current); rows = uint (ws_Rows current);
          s = (if columns \<noteq> sz_columns (pn_applied s0)
               then s0\<lparr>pn_baseline := (pn_baseline s0)\<lparr>sz_columns := columns\<rparr>, pn_applied := (pn_applied s0)\<lparr>sz_columns := columns\<rparr>\<rparr>
               else s0)
      in if rows \<noteq> sz_rows (pn_applied s)
         then s\<lparr>pn_baseline := (pn_baseline s)\<lparr>sz_rows := rows\<rparr>, pn_applied := (pn_applied s)\<lparr>sz_rows := rows\<rparr>\<rparr>
         else s)"

definition narrowest :: "Lease list \<Rightarrow> int" where
  "narrowest ls = fold (\<lambda>l w. if w = 0 \<or> ls_Columns l < w then ls_Columns l else w) ls 0"

definition shortest :: "Lease list \<Rightarrow> int" where
  "shortest ls = fold (\<lambda>l r. if ls_Rows l > 0 \<and> (r = 0 \<or> ls_Rows l < r) then ls_Rows l else r) ls 0"

definition leaseTargetLocked :: "paneState \<Rightarrow> Winsize \<Rightarrow> pane_size" where
  "leaseTargetLocked s current =
     (let rows = shortest (fm_values (pn_leases s))
      in \<lparr>sz_columns = narrowest (fm_values (pn_leases s)),
          sz_rows = (if rows > 0 then rows
                     else if sz_rows (pn_applied s) \<noteq> sz_rows (pn_baseline s) then sz_rows (pn_baseline s)
                     else uint (ws_Rows current))\<rparr>)"

definition reconcileNeededLocked :: "paneState \<Rightarrow> bool" where
  "reconcileNeededLocked s =
     (leaseTargetLocked s \<lparr>ws_Rows = word_of_int (sz_rows (pn_applied s)), ws_Columns = word_of_int (sz_columns (pn_applied s)),
        ws_XPixel = 0, ws_YPixel = 0\<rparr> \<noteq> pn_applied s)"

definition commitLocked :: "paneState \<Rightarrow> Winsize \<Rightarrow> pane_size \<Rightarrow> time \<Rightarrow> paneState" where
  "commitLocked s current want now =
     (if snd (resized current want) then s\<lparr>pn_resizedAt := now\<rparr> else s)\<lparr>pn_applied := want\<rparr>"

section \<open>The store of panes\<close>

definition upd_pane :: "size_manager \<Rightarrow> nat \<Rightarrow> paneState \<Rightarrow> size_manager" where
  "upd_pane m r s = m\<lparr>pm_states := (pm_states m)(r := s)\<rparr>"

definition holds :: "size_manager \<Rightarrow> string \<Rightarrow> nat \<Rightarrow> bool" where
  "holds m paneID r \<longleftrightarrow> fmlookup (pm_panes m) paneID = Some r"

definition dropLocked :: "size_manager \<Rightarrow> string \<Rightarrow> nat \<Rightarrow> size_manager" where
  "dropLocked m paneID r =
     (let m' = (if holds m paneID r then m\<lparr>pm_panes := fmdrop paneID (pm_panes m)\<rparr> else m)
      in upd_pane m' r ((pm_states m' r)\<lparr>pn_cleanup := None\<rparr>))"

text \<open>
  \<open>lockPane\<close> waits for the pane's own lock as often as the pane was replaced meanwhile; each wait
  is what the other operations did to the manager until the lock was obtained, and the end of
  the list is the end of the context.
\<close>

fun lockPane :: "size_manager \<Rightarrow> string \<Rightarrow> (size_manager \<Rightarrow> size_manager) list \<Rightarrow> size_manager \<times> (size_error option + nat \<times> bool)" where
  "lockPane m paneID waits =
     (if pm_closed m then (m, Inl (Some ErrClosed))
      else case fmlookup (pm_panes m) paneID of
             None \<Rightarrow>
               (m\<lparr>pm_panes := fmupd paneID (pm_fresh m) (pm_panes m), pm_states := (pm_states m)(pm_fresh m := newPaneState),
                  pm_fresh := Suc (pm_fresh m)\<rparr>, Inr (pm_fresh m, True))
           | Some r \<Rightarrow>
               (case waits of
                  [] \<Rightarrow> (m, Inl None)
                | wait # waits' \<Rightarrow>
                    let m1 = wait m in
                    if \<not> pm_closed m1 \<and> holds m1 paneID r then (m1, Inr (r, False)) else lockPane m1 paneID waits'))"

declare lockPane.simps [simp del]

section \<open>The identity boundary\<close>

datatype 'a reply = Reply 'a | PaneNotFound | LookupFailed

record herdr_pane =
  hp_ID :: string
  hp_TerminalID :: string

record process_info =
  pi_PaneID :: string
  pi_ShellPID :: int
  pi_ForegroundProcessGroupID :: int
  pi_ForegroundProcesses :: "int list"

text \<open>
  A manager without a provider, resolver or terminal operations is refused by \<open>Acquire\<close> before any lookup.
  The answers of one round of lookups; the second component of a reply may be nil.
\<close>

record identity_io =
  ii_pane :: "herdr_pane option reply"
  ii_info :: "process_info option reply"
  ii_tty :: "int \<Rightarrow> string option"

definition foregroundPID :: "process_info \<Rightarrow> int option" where
  "foregroundPID info =
     (if pi_ForegroundProcessGroupID info \<le> 0 \<or> pi_ForegroundProcesses info = [] then None
      else if pi_ForegroundProcessGroupID info \<in> set (pi_ForegroundProcesses info) then Some (pi_ForegroundProcessGroupID info)
      else find (\<lambda>pid. pid > 0) (pi_ForegroundProcesses info))"

definition lookupIdentity :: "string \<Rightarrow> identity_io \<Rightarrow> size_error + terminalIdentity" where
  "lookupIdentity paneID io =
     (case ii_pane io of
        PaneNotFound \<Rightarrow> Inl ErrTerminalGone
      | LookupFailed \<Rightarrow> Inl ErrIdentityUnavailable
      | Reply None \<Rightarrow> Inl ErrIdentityUnavailable
      | Reply (Some pane) \<Rightarrow>
          if hp_TerminalID pane = [] \<or> (hp_ID pane \<noteq> [] \<and> hp_ID pane \<noteq> paneID) then Inl ErrIdentityUnavailable
          else
            (case ii_info io of
               PaneNotFound \<Rightarrow> Inl ErrTerminalGone
             | LookupFailed \<Rightarrow> Inl ErrIdentityUnavailable
             | Reply None \<Rightarrow> Inl ErrIdentityUnavailable
             | Reply (Some info) \<Rightarrow>
                 if pi_PaneID info \<noteq> [] \<and> pi_PaneID info \<noteq> paneID then Inl ErrIdentityUnavailable
                 else
                   let shellPID = (if pi_ShellPID info \<le> 0 then 0 else pi_ShellPID info);
                       pid = (if pi_ShellPID info \<le> 0 then foregroundPID info else Some (pi_ShellPID info))
                   in case pid of
                        None \<Rightarrow> Inl ErrIdentityUnavailable
                      | Some p \<Rightarrow>
                          (case ii_tty io p of
                             None \<Rightarrow> Inl ErrIdentityUnavailable
                           | Some tty \<Rightarrow> Inr \<lparr>ti_terminalID = hp_TerminalID pane, ti_shellPID = shellPID, ti_ttyPath = tty, ti_rdev = 0\<rparr>)))"

text \<open>The calls to Herdr and the operating system that the identity boundary makes, in their order.\<close>

datatype size_call = OpenTTY string | StatTTY | PaneGet string | ProcessInfoFresh string | TTYPath int

definition validateIdentity_run :: "string \<Rightarrow> terminalIdentity \<Rightarrow> identity_io \<Rightarrow> size_call list \<times> size_error option" where
  "validateIdentity_run paneID identity io =
     (case ii_pane io of
        PaneNotFound \<Rightarrow> ([PaneGet paneID], Some ErrTerminalGone)
      | LookupFailed \<Rightarrow> ([PaneGet paneID], Some ErrTerminalUnverified)
      | Reply None \<Rightarrow> ([PaneGet paneID], Some ErrTerminalUnverified)
      | Reply (Some pane) \<Rightarrow>
          if hp_TerminalID pane = [] then ([PaneGet paneID], Some ErrTerminalUnverified)
          else if hp_TerminalID pane \<noteq> ti_terminalID identity then ([PaneGet paneID], Some ErrTerminalGone)
          else
            let asked = [PaneGet paneID, ProcessInfoFresh paneID] in
            (case ii_info io of
               PaneNotFound \<Rightarrow> (asked, Some ErrTerminalGone)
             | LookupFailed \<Rightarrow> (asked, Some ErrTerminalUnverified)
             | Reply None \<Rightarrow> (asked, Some ErrTerminalUnverified)
             | Reply (Some info) \<Rightarrow>
                 if pi_PaneID info \<noteq> [] \<and> pi_PaneID info \<noteq> paneID then (asked, Some ErrTerminalUnverified)
                 else
                   let pid = ti_shellPID identity in
                   if pid > 0 \<and> pi_ShellPID info \<noteq> pid then (asked, Some ErrTerminalGone)
                   else if \<not> pid > 0 \<and> pi_ShellPID info > 0 then (asked, Some ErrTerminalGone)
                   else
                     (case (if pid > 0 then Some pid else foregroundPID info) of
                        None \<Rightarrow> (asked, Some ErrTerminalUnverified)
                      | Some p \<Rightarrow>
                          (asked @ [TTYPath p],
                           (case ii_tty io p of
                              None \<Rightarrow> Some ErrTerminalUnverified
                            | Some tty \<Rightarrow> if tty \<noteq> ti_ttyPath identity then Some ErrTerminalGone else None)))))"

definition validateIdentity :: "string \<Rightarrow> terminalIdentity \<Rightarrow> identity_io \<Rightarrow> size_error option" where
  "validateIdentity paneID identity io = snd (validateIdentity_run paneID identity io)"

datatype open_reply = Opened | NoSuchDevice | OpenFailed

record terminal_io =
  to_open :: open_reply
  to_device :: "(u64 \<times> bool) option"
  to_deadline :: bool
  to_size :: "Winsize option"
  to_set :: bool

definition openValidated_run :: "string \<Rightarrow> terminalIdentity \<Rightarrow> bool \<Rightarrow> terminal_io \<Rightarrow> identity_io \<Rightarrow> size_call list \<times> (size_error + terminalIdentity)" where
  "openValidated_run paneID identity0 capture tio iio =
     (let opened = [OpenTTY (ti_ttyPath identity0)] in
      case to_open tio of
        NoSuchDevice \<Rightarrow> (opened, Inl ErrTerminalGone)
      | OpenFailed \<Rightarrow> (opened, Inl ErrTerminalUnverified)
      | Opened \<Rightarrow>
          let stated = opened @ [StatTTY] in
          (case to_device tio of
             None \<Rightarrow> (stated, Inl ErrTerminalUnverified)
           | Some (rdev, character) \<Rightarrow>
               if \<not> character then (stated, Inl ErrTerminalGone)
               else if \<not> capture \<and> rdev \<noteq> ti_rdev identity0 then (stated, Inl ErrTerminalGone)
               else
                 let identity = (if capture then identity0\<lparr>ti_rdev := rdev\<rparr> else identity0);
                     (asked, result) = validateIdentity_run paneID identity iio
                 in (stated @ asked,
                     (case result of
                        Some err \<Rightarrow> Inl err
                      | None \<Rightarrow> if to_deadline tio then Inl ErrTerminalUnverified else Inr identity))))"

definition openValidated :: "string \<Rightarrow> terminalIdentity \<Rightarrow> bool \<Rightarrow> terminal_io \<Rightarrow> identity_io \<Rightarrow> size_error + terminalIdentity" where
  "openValidated paneID identity0 capture tio iio = snd (openValidated_run paneID identity0 capture tio iio)"

lemma openValidated_eq: "openValidated paneID identity0 capture tio iio =
     (case to_open tio of
        NoSuchDevice \<Rightarrow> Inl ErrTerminalGone
      | OpenFailed \<Rightarrow> Inl ErrTerminalUnverified
      | Opened \<Rightarrow>
          (case to_device tio of
             None \<Rightarrow> Inl ErrTerminalUnverified
           | Some (rdev, character) \<Rightarrow>
               if \<not> character then Inl ErrTerminalGone
               else if \<not> capture \<and> rdev \<noteq> ti_rdev identity0 then Inl ErrTerminalGone
               else
                 let identity = (if capture then identity0\<lparr>ti_rdev := rdev\<rparr> else identity0) in
                 (case validateIdentity paneID identity iio of
                    Some err \<Rightarrow> Inl err
                  | None \<Rightarrow> if to_deadline tio then Inl ErrTerminalUnverified else Inr identity)))"
  by (simp add: openValidated_def openValidated_run_def validateIdentity_def Let_def case_prod_beta split: open_reply.split option.split)

section \<open>Acquiring a lease\<close>

text \<open>
  What an acquisition meets, in the order of the code: its context at the start, the waits for
  the pane's lock, the lookups and the open terminal, the context before and at the insertion,
  the clock, and the changes other operations make during the lookups and during the write.
\<close>

record acquire_io =
  ac_cancelled :: bool
  ac_waits :: "(size_manager \<Rightarrow> size_manager) list"
  ac_cancelled_lock :: bool
  ac_lookup :: identity_io
  ac_terminal :: terminal_io
  ac_validate :: identity_io
  ac_cancelled_sized :: bool
  ac_during_lookup :: "size_manager \<Rightarrow> size_manager"
  ac_cancelled_insert :: bool
  ac_deadline_insert :: bool
  ac_now :: time
  ac_during_write :: "size_manager \<Rightarrow> size_manager"
  ac_now_commit :: time

definition acquire_insert :: "size_manager \<Rightarrow> nat \<Rightarrow> bool \<Rightarrow> terminalIdentity \<Rightarrow> Winsize \<Rightarrow> string \<Rightarrow> Lease \<Rightarrow> time \<Rightarrow> size_manager \<times> pane_size" where
  "acquire_insert m r created identity current clientID lease now =
     (let s0 = pm_states m r;
          s1 = (if created
                then s0\<lparr>pn_identity := identity, pn_resolved := True, pn_baseline := sizeOf current, pn_applied := sizeOf current\<rparr>
                else observeLocked (fst (removeExpiredLocked s0 now)) current);
          s2 = s1\<lparr>pn_leases := fmupd clientID lease (pn_leases s1)\<rparr>
      in (upd_pane m r s2, leaseTargetLocked s2 current))"

definition acquire_undo :: "size_manager \<Rightarrow> string \<Rightarrow> nat \<Rightarrow> bool \<Rightarrow> string \<Rightarrow> Lease \<Rightarrow> Lease option \<Rightarrow> size_manager" where
  "acquire_undo m paneID r created clientID lease previous =
     (let s = pm_states m r;
          s' = (if fmlookup (pn_leases s) clientID = Some lease
                then s\<lparr>pn_leases := (case previous of Some l \<Rightarrow> fmupd clientID l (pn_leases s) | None \<Rightarrow> fmdrop clientID (pn_leases s))\<rparr>
                else s);
          m' = upd_pane m r s'
      in if created then dropLocked m' paneID r else m')"

definition acquire_commit :: "size_manager \<Rightarrow> nat \<Rightarrow> Winsize \<Rightarrow> pane_size \<Rightarrow> time \<Rightarrow> time \<Rightarrow> size_manager" where
  "acquire_commit m r current want now now2 =
     (let s = fst (removeExpiredLocked (commitLocked (pm_states m r) current want now) now2)
      in upd_pane m r (if pn_cleanup s \<noteq> None \<and> pn_leases s \<noteq> fmempty
                       then s\<lparr>pn_cleanup := None, pn_generation := pn_generation s + 1\<rparr> else s))"

text \<open>The part after the pane is locked and its size read.\<close>

definition acquire_sized ::
  "size_manager \<Rightarrow> acquire_io \<Rightarrow> string \<Rightarrow> string \<Rightarrow> int \<Rightarrow> int \<Rightarrow> nat \<Rightarrow> bool \<Rightarrow> terminalIdentity \<Rightarrow> Winsize \<Rightarrow>
     size_manager \<times> (size_error + int \<times> int) \<times> Winsize option" where
  "acquire_sized m io clientID paneID columns rows r created identity current =
     (if ac_cancelled_insert io \<or> ac_deadline_insert io
      then (if created then dropLocked m paneID r else m,
            Inl (if ac_cancelled_insert io then ErrLeaseOwnerGone else ErrTerminalUnverified), None)
      else
        let lease = \<lparr>ls_Columns = columns, ls_Rows = rows, ls_ExpiresAt = ac_now io + pm_ttl m\<rparr>;
            s0 = (if created then pm_states m r else fst (removeExpiredLocked (pm_states m r) (ac_now io)));
            previous = fmlookup (pn_leases s0) clientID;
            (m1, want) = acquire_insert m r created identity current clientID lease (ac_now io);
            (nextSize, changed) = resized current want;
            m2 = ac_during_write io m1
        in if changed \<and> \<not> to_set (ac_terminal io)
           then (acquire_undo m2 paneID r created clientID lease previous, Inl ErrResizeFailed, None)
           else (acquire_commit m2 r current want (ac_now io) (ac_now_commit io), Inr (sz_columns want, sz_rows want),
                 if changed then Some nextSize else None))"

definition Acquire :: "size_manager \<Rightarrow> acquire_io \<Rightarrow> string \<Rightarrow> string \<Rightarrow> int \<Rightarrow> int \<Rightarrow> size_manager \<times> (size_error + int \<times> int) \<times> Winsize option" where
  "Acquire m io clientID paneID columns rows =
     (if \<not> pm_available m then (m, Inl ErrUnavailable, None)
      else if clientID = [] \<or> paneID = [] then (m, Inl ErrInvalidLease, None)
      else if columns < MinColumns \<or> columns > MaxColumns then (m, Inl ErrInvalidColumns, None)
      else if rows \<noteq> 0 \<and> (rows < MinRows \<or> rows > MaxRows) then (m, Inl ErrInvalidRows, None)
      else if ac_cancelled io then (m, Inl ErrLeaseOwnerGone, None)
      else
        (case lockPane m paneID (ac_waits io) of
           (m1, Inl (Some err)) \<Rightarrow> (m1, Inl err, None)
         | (m1, Inl None) \<Rightarrow> (m1, Inl (if ac_cancelled_lock io then ErrLeaseOwnerGone else ErrTerminalUnverified), None)
         | (m1, Inr (r, created)) \<Rightarrow>
             let m2 = ac_during_lookup io m1;
                 forget = dropLocked m2 paneID r;
                 found = (if created then lookupIdentity paneID (ac_lookup io) else Inr (pn_identity (pm_states m1 r)))
             in case found of
                  Inl err \<Rightarrow> (forget, Inl err, None)
                | Inr identity0 \<Rightarrow>
                    (case openValidated paneID identity0 created (ac_terminal io) (ac_validate io) of
                       Inl err \<Rightarrow> (if created \<or> err = ErrTerminalGone then forget else m2, Inl err, None)
                     | Inr identity \<Rightarrow>
                         (case to_size (ac_terminal io) of
                            None \<Rightarrow> (if created then forget else m2, Inl ErrSizeUnavailable, None)
                          | Some current \<Rightarrow>
                              if ac_cancelled_sized io then (if created then forget else m2, Inl ErrLeaseOwnerGone, None)
                              else acquire_sized m2 io clientID paneID columns rows r created identity current))))"

section \<open>Restoring\<close>

text \<open>\<open>restoreOnce\<close>: the error, and the size written if one was.\<close>

definition restoreOnce :: "paneState \<Rightarrow> string \<Rightarrow> terminal_io \<Rightarrow> identity_io \<Rightarrow> size_error option \<times> Winsize option" where
  "restoreOnce s paneID tio iio =
     (let applied = pn_applied s; baseline = pn_baseline s in
      if applied = baseline then (None, None)
      else
        (case openValidated paneID (pn_identity s) False tio iio of
           Inl err \<Rightarrow> (Some err, None)
         | Inr _ \<Rightarrow>
             (case to_size tio of
                None \<Rightarrow> (Some ErrTerminalUnverified, None)
              | Some current \<Rightarrow>
                  let want = \<lparr>sz_columns = (if uint (ws_Columns current) = sz_columns applied then sz_columns baseline else uint (ws_Columns current)),
                        sz_rows = (if uint (ws_Rows current) = sz_rows applied then sz_rows baseline else uint (ws_Rows current))\<rparr>;
                      (nextSize, changed) = resized current want
                  in if \<not> changed then (None, None)
                     else if to_set tio then (None, Some nextSize) else (Some ErrTerminalUnverified, None))))"

record cleanup_io =
  ci_now :: time
  ci_terminal :: terminal_io
  ci_validate :: identity_io
  ci_during :: "size_manager \<Rightarrow> size_manager"
  ci_during_write :: "size_manager \<Rightarrow> size_manager"
  ci_now_after :: time

text \<open>The outcome of an attempt, with the bookkeeping lock held again; the live cleanup is the one the attempt began with.\<close>

definition cleanup_outcome :: "size_manager \<Rightarrow> string \<Rightarrow> nat \<Rightarrow> u64 \<Rightarrow> nat \<Rightarrow> time \<Rightarrow> size_error option \<Rightarrow> size_manager" where
  "cleanup_outcome m paneID r generation serial now err =
     (case pn_cleanup (pm_states m r) of
        None \<Rightarrow> m
      | Some cleanup \<Rightarrow>
          if \<not> holds m paneID r \<or> cl_serial cleanup \<noteq> serial \<or> pn_generation (pm_states m r) \<noteq> generation then m
          else if err = None \<or> err = Some ErrTerminalGone then dropLocked m paneID r
          else
            let nextAt = now + cleanupBackoff (cl_attempts cleanup) in
            if cl_attempts cleanup \<ge> CleanupAttempts \<or> \<not> nextAt < cl_deadline cleanup then dropLocked m paneID r
            else upd_pane m r ((pm_states m r)\<lparr>pn_cleanup := Some (cleanup\<lparr>cl_next := nextAt\<rparr>)\<rparr>))"

definition attemptCleanup :: "size_manager \<Rightarrow> cleanup_io \<Rightarrow> string \<Rightarrow> nat \<Rightarrow> u64 \<Rightarrow> size_manager \<times> Winsize option" where
  "attemptCleanup m io paneID r generation =
     (let s = pm_states m r in
      case pn_cleanup s of
        None \<Rightarrow> (m, None)
      | Some cleanup \<Rightarrow>
          if \<not> holds m paneID r \<or> cl_generation cleanup \<noteq> generation \<or> pn_generation s \<noteq> generation \<or> pn_leases s \<noteq> fmempty
          then (m, None)
          else if ci_now io < cl_next cleanup then (m, None)
          else if cl_attempts cleanup \<ge> CleanupAttempts \<or> \<not> ci_now io < cl_deadline cleanup then (dropLocked m paneID r, None)
          else
            let tried = cleanup\<lparr>cl_attempts := cl_attempts cleanup + 1\<rparr>;
                m1 = upd_pane m r (s\<lparr>pn_cleanup := Some tried\<rparr>);
                (err, written) = restoreOnce s paneID (ci_terminal io) (ci_validate io)
            in (cleanup_outcome (ci_during io m1) paneID r generation (cl_serial cleanup) (ci_now_after io) err, written))"

text \<open>\<open>reconcileActive\<close>, first the part after the terminal's size is read.\<close>

definition reconcile_apply :: "size_manager \<Rightarrow> cleanup_io \<Rightarrow> string \<Rightarrow> nat \<Rightarrow> Winsize \<Rightarrow> size_manager \<times> Winsize option" where
  "reconcile_apply m1 io paneID r current =
     (if \<not> holds m1 paneID r \<or> pn_leases (pm_states m1 r) = fmempty then (m1, None)
      else
        let s = observeLocked (pm_states m1 r) current;
            want = leaseTargetLocked s current;
            (nextSize, changed) = resized current want;
            m3 = ci_during_write io (upd_pane m1 r s)
        in if changed \<and> \<not> to_set (ci_terminal io) then (m3, None)
           else (if holds m3 paneID r then upd_pane m3 r (commitLocked (pm_states m3 r) current want (ci_now io)) else m3,
                 if changed then Some nextSize else None))"

definition reconcileActive :: "size_manager \<Rightarrow> cleanup_io \<Rightarrow> string \<Rightarrow> nat \<Rightarrow> size_manager \<times> Winsize option" where
  "reconcileActive m io paneID r =
     (if \<not> holds m paneID r \<or> pn_leases (pm_states m r) = fmempty then (m, None)
      else
        (case openValidated paneID (pn_identity (pm_states m r)) False (ci_terminal io) (ci_validate io) of
           Inl err \<Rightarrow> (if err = ErrTerminalGone then dropLocked (ci_during io m) paneID r else ci_during io m, None)
         | Inr _ \<Rightarrow>
             (case to_size (ci_terminal io) of
                None \<Rightarrow> (ci_during io m, None)
              | Some current \<Rightarrow> reconcile_apply (ci_during io m) io paneID r current)))"

text \<open>\<open>settle\<close>: the first component of its input tells whether the pane's lock was obtained in time.\<close>

definition settle :: "size_manager \<Rightarrow> bool \<Rightarrow> time \<Rightarrow> cleanup_io \<Rightarrow> string \<Rightarrow> nat \<Rightarrow> size_manager \<times> Winsize option" where
  "settle m locked now io paneID r =
     (if \<not> locked \<or> pm_closed m \<or> \<not> holds m paneID r \<or> \<not> pn_resolved (pm_states m r) then (m, None)
      else
        let s = fst (removeExpiredLocked (pm_states m r) now) in
        if pn_leases s = fmempty
        then (case beginCleanupLocked s now of (s', generation) \<Rightarrow> attemptCleanup (upd_pane m r s') io paneID r generation)
        else if reconcileNeededLocked s then reconcileActive (upd_pane m r s) io paneID r
        else (upd_pane m r s, None))"

section \<open>Ending leases\<close>

record settle_io =
  st_locked :: bool
  st_before :: "size_manager \<Rightarrow> size_manager"
  st_now :: time
  st_cleanup :: cleanup_io

text \<open>The part of \<open>Release\<close> under the bookkeeping lock: the pane, and whether it has to be settled.\<close>

definition release_lease :: "paneState \<Rightarrow> time \<Rightarrow> duration \<Rightarrow> string \<Rightarrow> bool \<Rightarrow> paneState \<times> bool" where
  "release_lease s0 now grace clientID immediate =
     (let s = fst (removeExpiredLocked s0 now) in
      case fmlookup (pn_leases s) clientID of
        None \<Rightarrow> (s, False)
      | Some lease0 \<Rightarrow>
          let lapse = now + grace;
              lease = (if \<not> immediate \<and> ls_ExpiresAt lease0 > lapse then lease0\<lparr>ls_ExpiresAt := lapse\<rparr> else lease0)
          in if \<not> immediate \<and> ls_ExpiresAt lease > now then (s\<lparr>pn_leases := fmupd clientID lease (pn_leases s)\<rparr>, False)
             else
               let s' = s\<lparr>pn_leases := fmdrop clientID (pn_leases s)\<rparr>
               in (if pn_leases s' = fmempty then fst (beginCleanupLocked s' (if immediate then now else ls_ExpiresAt lease)) else s', True))"

definition Release :: "size_manager \<Rightarrow> time \<Rightarrow> settle_io \<Rightarrow> string \<Rightarrow> string \<Rightarrow> bool \<Rightarrow> size_manager \<times> size_error option \<times> Winsize option" where
  "Release m now io clientID paneID immediate =
     (if clientID = [] \<or> paneID = [] then (m, Some ErrInvalidLease, None)
      else case fmlookup (pm_panes m) paneID of
             None \<Rightarrow> (m, None, None)
           | Some r \<Rightarrow>
               if pm_closed m then (m, None, None)
               else
                 let (s, ended) = release_lease (pm_states m r) now (pm_grace m) clientID immediate;
                     m1 = upd_pane m r s
                 in if \<not> ended then (m1, None, None)
                    else (case settle (st_before io m1) (st_locked io) (st_now io) (st_cleanup io) paneID r of
                            (m', written) \<Rightarrow> (m', None, written)))"

text \<open>The scan of \<open>ReleaseClient\<close> over the panes, in the order of their names.\<close>

definition disconnect_lease :: "paneState \<Rightarrow> time \<Rightarrow> string \<Rightarrow> paneState" where
  "disconnect_lease s0 now clientID =
     (let s1 = fst (removeExpiredLocked s0 now);
          s2 = s1\<lparr>pn_leases := fmdrop clientID (pn_leases s1)\<rparr>
      in if pn_leases s2 = fmempty then fst (beginCleanupLocked s2 now) else s2)"

definition release_scan :: "time \<Rightarrow> string \<Rightarrow> string \<times> nat \<Rightarrow> size_manager \<times> (string \<times> nat) list \<Rightarrow> size_manager \<times> (string \<times> nat) list" where
  "release_scan now clientID = (\<lambda>(paneID, r) (m, affected).
     if fmlookup (pn_leases (pm_states m r)) clientID = None then (m, affected)
     else (upd_pane m r (disconnect_lease (pm_states m r) now clientID), affected @ [(paneID, r)]))"

fun settle_all :: "(string \<Rightarrow> settle_io) \<Rightarrow> (string \<times> nat) list \<Rightarrow> size_manager \<Rightarrow> size_manager \<times> (string \<times> Winsize) list" where
  "settle_all io [] m = (m, [])"
| "settle_all io ((paneID, r) # ps) m =
     (case settle (st_before (io paneID) m) (st_locked (io paneID)) (st_now (io paneID)) (st_cleanup (io paneID)) paneID r of
        (m1, written) \<Rightarrow> (case settle_all io ps m1 of
           (m2, ws) \<Rightarrow> (m2, (case written of Some w \<Rightarrow> (paneID, w) # ws | None \<Rightarrow> ws))))"

definition ReleaseClient :: "size_manager \<Rightarrow> time \<Rightarrow> (string \<Rightarrow> settle_io) \<Rightarrow> string \<Rightarrow> size_manager \<times> size_error option \<times> (string \<times> Winsize) list" where
  "ReleaseClient m now io clientID =
     (if clientID = [] then (m, Some ErrInvalidLease, [])
      else if pm_closed m then (m, None, [])
      else case fold (release_scan now clientID) (sorted_list_of_fmap (pm_panes m)) (m, []) of
             (m1, affected) \<Rightarrow> (case settle_all io affected m1 of (m2, ws) \<Rightarrow> (m2, None, ws)))"

datatype sweep_work = CleanupWork u64 | ReconcileWork

text \<open>The scan of \<open>SweepExpired\<close>: the resolved pane with its lapsed leases removed, and the work it needs.\<close>

definition sweep_pane :: "paneState \<Rightarrow> time \<Rightarrow> paneState \<times> sweep_work option" where
  "sweep_pane s0 now =
     (let (s, removed) = removeExpiredLocked s0 now in
      if pn_leases s = fmempty
      then let (s', generation) = beginCleanupLocked s now;
               ready = (case pn_cleanup s' of Some c \<Rightarrow> \<not> now < cl_next c | None \<Rightarrow> False)
           in (s', if ready then Some (CleanupWork generation) else None)
      else (s, if removed \<and> reconcileNeededLocked s then Some ReconcileWork else None))"

definition sweep_scan :: "time \<Rightarrow> string \<times> nat \<Rightarrow> size_manager \<times> (string \<times> nat \<times> sweep_work) list \<Rightarrow> size_manager \<times> (string \<times> nat \<times> sweep_work) list" where
  "sweep_scan now = (\<lambda>(paneID, r) (m, due).
     if \<not> pn_resolved (pm_states m r) then (m, due)
     else case sweep_pane (pm_states m r) now of
            (s, work) \<Rightarrow> (upd_pane m r s, (case work of Some w \<Rightarrow> due @ [(paneID, r, w)] | None \<Rightarrow> due)))"

fun sweep_all :: "(string \<Rightarrow> settle_io) \<Rightarrow> (string \<times> nat \<times> sweep_work) list \<Rightarrow> size_manager \<Rightarrow> size_manager \<times> (string \<times> Winsize) list" where
  "sweep_all io [] m = (m, [])"
| "sweep_all io ((paneID, r, work) # ps) m =
     (let m0 = st_before (io paneID) m;
          (m1, written) =
            (if \<not> st_locked (io paneID) then (m0, None)
             else case work of
                    CleanupWork generation \<Rightarrow> attemptCleanup m0 (st_cleanup (io paneID)) paneID r generation
                  | ReconcileWork \<Rightarrow> reconcileActive m0 (st_cleanup (io paneID)) paneID r);
          (m2, ws) = sweep_all io ps m1
      in (m2, (case written of Some w \<Rightarrow> (paneID, w) # ws | None \<Rightarrow> ws)))"

definition SweepExpired :: "size_manager \<Rightarrow> time \<Rightarrow> (string \<Rightarrow> settle_io) \<Rightarrow> size_manager \<times> (string \<times> Winsize) list" where
  "SweepExpired m now io =
     (if pm_closed m then (m, [])
      else case fold (sweep_scan now) (sorted_list_of_fmap (pm_panes m)) (m, []) of
             (m1, due) \<Rightarrow> sweep_all io due m1)"

definition shutdownPane :: "size_manager \<Rightarrow> bool \<Rightarrow> cleanup_io \<Rightarrow> string \<Rightarrow> nat \<Rightarrow> size_manager \<times> bool \<times> Winsize option" where
  "shutdownPane m locked io paneID r =
     (if \<not> locked then (m, False, None)
      else if \<not> holds m paneID r \<or> \<not> pn_resolved (pm_states m r) then (dropLocked m paneID r, True, None)
      else
        let s = (pm_states m r)\<lparr>pn_leases := fmempty, pn_cleanup := None\<rparr>;
            (err, written) = restoreOnce s paneID (ci_terminal io) (ci_validate io)
        in (dropLocked (ci_during io (upd_pane m r s)) paneID r, err = None \<or> err = Some ErrTerminalGone, written))"

fun shutdown_all :: "(string \<Rightarrow> settle_io) \<Rightarrow> (string \<times> nat) list \<Rightarrow> size_manager \<Rightarrow> size_manager \<times> string list \<times> (string \<times> Winsize) list" where
  "shutdown_all io [] m = (m, [], [])"
| "shutdown_all io ((paneID, r) # ps) m =
     (case shutdownPane (st_before (io paneID) m) (st_locked (io paneID)) (st_cleanup (io paneID)) paneID r of
        (m1, restored, written) \<Rightarrow> (case shutdown_all io ps m1 of
           (m2, unresolved, ws) \<Rightarrow>
             (m2, if restored then unresolved else paneID # unresolved, (case written of Some w \<Rightarrow> (paneID, w) # ws | None \<Rightarrow> ws))))"

text \<open>\<open>Shutdown\<close> returns the panes whose size was not restored.\<close>

definition Shutdown :: "size_manager \<Rightarrow> (string \<Rightarrow> settle_io) \<Rightarrow> size_manager \<times> string list \<times> (string \<times> Winsize) list" where
  "Shutdown m io = shutdown_all io (sorted_list_of_fmap (pm_panes m)) (m\<lparr>pm_closed := True\<rparr>)"

definition ReadGeometry :: "size_manager \<Rightarrow> time \<Rightarrow> string \<Rightarrow> string \<Rightarrow> (int \<times> int) option" where
  "ReadGeometry m now clientID paneID =
     (if pm_closed m then None
      else case fmlookup (pm_panes m) paneID of
             None \<Rightarrow> None
           | Some r \<Rightarrow>
               let s = pm_states m r in
               (case fmlookup (pn_leases s) clientID of
                  None \<Rightarrow> None
                | Some own \<Rightarrow>
                    if \<not> ls_ExpiresAt own > now then None
                    else
                      let live = filter (\<lambda>l. ls_ExpiresAt l > now) (fm_values (pn_leases s)); rows = shortest live
                      in Some (narrowest live, if rows = 0 then sz_rows (pn_baseline s) else rows)))"

definition ResizedWithin :: "size_manager \<Rightarrow> time \<Rightarrow> string \<Rightarrow> duration \<Rightarrow> bool" where
  "ResizedWithin m now paneID window =
     (if pm_closed m then False
      else case fmlookup (pm_panes m) paneID of
             None \<Rightarrow> False
           | Some r \<Rightarrow> pn_resizedAt (pm_states m r) \<noteq> 0 \<and> time_Sub now (pn_resizedAt (pm_states m r)) < window)"

end
