(* ===== verification/PaneLease.thy ===== *)
theory PaneLease
  imports PaneSize
begin

text \<open>
  Correctness of the pane size leases of theory \<^verbatim>\<open>PaneSize\<close>: the invariant of the manager and
  what its operations rely on while the bookkeeping lock is released, the sizes written, the
  terminals written to, the restoration of the user's own size and the end of every cleanup.
\<close>

section \<open>The invariant\<close>

definition lease_ok :: "Lease \<Rightarrow> bool" where
  "lease_ok l \<longleftrightarrow> MinColumns \<le> ls_Columns l \<and> ls_Columns l \<le> MaxColumns
     \<and> (ls_Rows l = 0 \<or> MinRows \<le> ls_Rows l \<and> ls_Rows l \<le> MaxRows)"

definition size_ok :: "pane_size \<Rightarrow> bool" where
  "size_ok z \<longleftrightarrow> 0 \<le> sz_columns z \<and> sz_columns z < 2 ^ 16 \<and> 0 \<le> sz_rows z \<and> sz_rows z < 2 ^ 16"

definition cleanup_ok :: "paneState \<Rightarrow> cleanupState \<Rightarrow> bool" where
  "cleanup_ok s c \<longleftrightarrow> cl_generation c = pn_generation s \<and> 0 \<le> cl_attempts c \<and> cl_attempts c \<le> CleanupAttempts
     \<and> cl_next c < cl_deadline c \<and> cl_serial c < pn_cleanups s"

definition pane_ok :: "paneState \<Rightarrow> bool" where
  "pane_ok s \<longleftrightarrow> fmpred (\<lambda>_. lease_ok) (pn_leases s) \<and> size_ok (pn_baseline s) \<and> size_ok (pn_applied s)
     \<and> (case pn_cleanup s of None \<Rightarrow> True | Some c \<Rightarrow> cleanup_ok s c)"

definition manager_ok :: "size_manager \<Rightarrow> bool" where
  "manager_ok m \<longleftrightarrow> (\<forall>r. pane_ok (pm_states m r))
     \<and> (\<forall>p r. fmlookup (pm_panes m) p = Some r \<longrightarrow> r < pm_fresh m)
     \<and> (\<forall>p q r. fmlookup (pm_panes m) p = Some r \<longrightarrow> fmlookup (pm_panes m) q = Some r \<longrightarrow> p = q)"

lemmas limits = MinColumns_def MaxColumns_def MinRows_def MaxRows_def CleanupAttempts_def CleanupBudget_def second_def

lemma fmpred_lookup: "fmpred P m \<Longrightarrow> fmlookup m k = Some v \<Longrightarrow> P k v"
  by (auto dest: fmpredD)

lemma fmpred_drop_if: "fmpred (\<lambda>_. P) m \<Longrightarrow> fmpred (\<lambda>_. P) (fm_drop_if q m)"
  by (intro fmpredI) (auto dest: fmpredD split: option.splits if_splits)

lemma lease_ok_columns: "lease_ok l \<Longrightarrow> 40 \<le> ls_Columns l \<and> ls_Columns l \<le> 240"
  by (simp add: lease_ok_def limits)

subsection \<open>The narrowest and the shortest lease\<close>

fun least_lease :: "(Lease \<Rightarrow> int) \<Rightarrow> Lease list \<Rightarrow> int \<Rightarrow> int" where
  "least_lease f [] w = w"
| "least_lease f (l # ls) w = least_lease f ls (if 0 < f l \<and> (w = 0 \<or> f l < w) then f l else w)"

lemma least_lease_bound:
  "0 \<le> w \<Longrightarrow> v = least_lease f ls w \<Longrightarrow>
     (0 < w \<longrightarrow> 0 < v \<and> v \<le> w) \<and> (\<forall>l\<in>set ls. 0 < f l \<longrightarrow> 0 < v \<and> v \<le> f l) \<and> (v = w \<or> (\<exists>l\<in>set ls. 0 < f l \<and> v = f l))"
proof (induction ls arbitrary: w)
  case (Cons l ls)
  let ?w = "if 0 < f l \<and> (w = 0 \<or> f l < w) then f l else w"
  have "0 \<le> ?w" "v = least_lease f ls ?w" using Cons.prems by simp_all
  note IH = Cons.IH [OF this]
  have "(0 < w \<longrightarrow> 0 < ?w \<and> ?w \<le> w) \<and> (0 < f l \<longrightarrow> 0 < ?w \<and> ?w \<le> f l) \<and> (?w = w \<or> 0 < f l \<and> ?w = f l)"
    using Cons.prems(1) by auto
  moreover define w' where "w' = ?w"
  ultimately show ?case using IH unfolding w'_def [symmetric] by fastforce
qed simp

lemma shortest_least: "shortest ls = least_lease ls_Rows ls 0"
proof -
  have "fold (\<lambda>l r. if ls_Rows l > 0 \<and> (r = 0 \<or> ls_Rows l < r) then ls_Rows l else r) ls w = least_lease ls_Rows ls w" for w
    by (induction ls arbitrary: w) simp_all
  then show ?thesis by (simp add: shortest_def)
qed

lemma narrowest_least: "\<forall>l\<in>set ls. 0 < ls_Columns l \<Longrightarrow> narrowest ls = least_lease ls_Columns ls 0"
proof -
  have "\<forall>l\<in>set ls. 0 < ls_Columns l \<Longrightarrow>
      fold (\<lambda>l w. if w = 0 \<or> ls_Columns l < w then ls_Columns l else w) ls w = least_lease ls_Columns ls w" for w
    by (induction ls arbitrary: w) simp_all
  then show "\<forall>l\<in>set ls. 0 < ls_Columns l \<Longrightarrow> ?thesis" by (simp add: narrowest_def)
qed

definition pane_leases :: "paneState \<Rightarrow> Lease set" where
  "pane_leases s = {l. \<exists>c. fmlookup (pn_leases s) c = Some l}"

lemma set_pane_leases: "set (fm_values (pn_leases s)) = pane_leases s"
  by (simp add: pane_leases_def set_fm_values)

lemma pane_ok_lease: "pane_ok s \<Longrightarrow> l \<in> pane_leases s \<Longrightarrow> lease_ok l"
  by (auto simp: pane_ok_def pane_leases_def dest: fmpredD)

lemma leaseTarget_sizes:
  fixes current :: Winsize
  assumes "pane_ok s" and "l \<in> pane_leases s" and "want = leaseTargetLocked s current"
  shows "(\<exists>l\<in>pane_leases s. sz_columns want = ls_Columns l) \<and> sz_columns want \<le> ls_Columns l
    \<and> (if \<exists>l\<in>pane_leases s. 0 < ls_Rows l
       then (\<exists>l\<in>pane_leases s. sz_rows want = ls_Rows l) \<and> 0 < sz_rows want \<and> (0 < ls_Rows l \<longrightarrow> sz_rows want \<le> ls_Rows l)
       else sz_rows want = (if sz_rows (pn_applied s) \<noteq> sz_rows (pn_baseline s) then sz_rows (pn_baseline s) else uint (ws_Rows current)))"
proof -
  have pos: "\<forall>l\<in>set (fm_values (pn_leases s)). 0 < ls_Columns l"
    using assms(1) by (auto simp: set_pane_leases dest!: pane_ok_lease lease_ok_columns)
  define w h where "w = least_lease ls_Columns (fm_values (pn_leases s)) 0" and "h = least_lease ls_Rows (fm_values (pn_leases s)) 0"
  have W: "\<forall>l\<in>pane_leases s. w \<le> ls_Columns l" "\<exists>l\<in>pane_leases s. w = ls_Columns l"
    using least_lease_bound [of 0 w ls_Columns "fm_values (pn_leases s)"] pos assms(2) by (force simp: w_def set_pane_leases)+
  have H: "\<forall>l\<in>pane_leases s. 0 < ls_Rows l \<longrightarrow> 0 < h \<and> h \<le> ls_Rows l" "h = 0 \<or> (\<exists>l\<in>pane_leases s. 0 < ls_Rows l \<and> h = ls_Rows l)"
    using least_lease_bound [of 0 h ls_Rows "fm_values (pn_leases s)"] by (auto simp: h_def set_pane_leases)
  show ?thesis
    using W H assms(2,3) unfolding leaseTargetLocked_def Let_def narrowest_least [OF pos] shortest_least w_def [symmetric] h_def [symmetric]
    by fastforce
qed

lemma leaseTarget_ok:
  fixes current :: Winsize
  assumes "pane_ok s" and "pn_leases s \<noteq> fmempty" and "want = leaseTargetLocked s current"
  shows "40 \<le> sz_columns want" and "sz_columns want \<le> 240" and "size_ok want"
proof -
  obtain l where l: "l \<in> pane_leases s" using assms(2) by (auto simp: pane_leases_def fmempty_iff)
  note T = leaseTarget_sizes [OF assms(1) l assms(3)]
  obtain l' where "l' \<in> pane_leases s" "sz_columns want = ls_Columns l'" using T by blast
  then show c: "40 \<le> sz_columns want" "sz_columns want \<le> 240"
    using pane_ok_lease [OF assms(1)] lease_ok_columns by force+
  have "0 \<le> sz_rows want \<and> sz_rows want < 2 ^ 16"
  proof (cases "\<exists>l\<in>pane_leases s. 0 < ls_Rows l")
    case True
    then obtain l' where "l' \<in> pane_leases s" "sz_rows want = ls_Rows l'" "0 < sz_rows want" using T by auto
    then show ?thesis using pane_ok_lease [OF assms(1)] by (force simp: lease_ok_def limits)
  next
    case False
    moreover have "uint (ws_Rows current) < 2 ^ 16" using uint_lt2p [of "ws_Rows current"] by simp
    ultimately show ?thesis using T assms(1) by (auto simp: pane_ok_def size_ok_def)
  qed
  with c show "size_ok want" by (simp add: size_ok_def)
qed

subsection \<open>The bookkeeping operations keep the invariant\<close>

lemma size_ok_sizeOf [simp]: "size_ok (sizeOf v)"
  using uint_lt2p [of "ws_Columns v"] uint_lt2p [of "ws_Rows v"] by (simp add: size_ok_def sizeOf_def)

lemma pane_ok_new [simp]: "pane_ok newPaneState"
  by (simp add: pane_ok_def newPaneState_def size_ok_def)

lemma pane_ok_begin: "pane_ok s \<Longrightarrow> pane_ok (fst (beginCleanupLocked s now))"
  by (auto simp: beginCleanupLocked_def pane_ok_def cleanup_ok_def limits split: option.splits)

lemma pane_ok_leases: "pane_ok s \<Longrightarrow> fmpred (\<lambda>_. lease_ok) ls \<Longrightarrow> pane_ok (s\<lparr>pn_leases := ls\<rparr>)"
  by (auto simp: pane_ok_def cleanup_ok_def split: option.splits)

lemma pane_ok_expired: "pane_ok s \<Longrightarrow> pane_ok (fst (removeExpiredLocked s now))"
  using pane_ok_leases [of s "fm_drop_if (\<lambda>l. \<not> ls_ExpiresAt l > now) (pn_leases s)"] pane_ok_begin
  by (auto simp: removeExpiredLocked_def Let_def pane_ok_def [of s] intro: fmpred_drop_if)

lemma pane_ok_insert: "pane_ok s \<Longrightarrow> lease_ok l \<Longrightarrow> pane_ok (s\<lparr>pn_leases := fmupd c l (pn_leases s)\<rparr>)"
  by (intro pane_ok_leases) (auto simp: pane_ok_def)

lemma pane_ok_delete: "pane_ok s \<Longrightarrow> pane_ok (s\<lparr>pn_leases := fmdrop c (pn_leases s)\<rparr>)"
  by (intro pane_ok_leases) (auto simp: pane_ok_def)

lemma pane_ok_observe: "pane_ok s \<Longrightarrow> pane_ok (observeLocked s v)"
  using uint_lt2p [of "ws_Columns v"] uint_lt2p [of "ws_Rows v"]
  by (auto simp: observeLocked_def Let_def pane_ok_def cleanup_ok_def size_ok_def split: option.splits)

lemma pane_ok_commit: "pane_ok s \<Longrightarrow> size_ok want \<Longrightarrow> pane_ok (commitLocked s v want now)"
  by (auto simp: commitLocked_def pane_ok_def cleanup_ok_def split: option.splits)

lemma pane_ok_uncleaned: "pane_ok s \<Longrightarrow> pane_ok (s\<lparr>pn_cleanup := None\<rparr>)"
  by (auto simp: pane_ok_def)

lemmas pane_ok_steps = pane_ok_begin pane_ok_expired pane_ok_insert pane_ok_delete pane_ok_observe pane_ok_commit pane_ok_uncleaned

subsection \<open>The operations keep the invariant\<close>

text \<open>
  The changes other operations make while the bookkeeping lock is released keep the invariant,
  because each of them is made of the steps below.
\<close>

definition keeps :: "(size_manager \<Rightarrow> size_manager) \<Rightarrow> bool" where
  "keeps f \<longleftrightarrow> (\<forall>m. manager_ok m \<longrightarrow> manager_ok (f m))"

definition acquire_io_ok :: "acquire_io \<Rightarrow> bool" where
  "acquire_io_ok io \<longleftrightarrow> list_all keeps (ac_waits io) \<and> keeps (ac_during_lookup io) \<and> keeps (ac_during_write io)"

definition cleanup_io_ok :: "cleanup_io \<Rightarrow> bool" where
  "cleanup_io_ok io \<longleftrightarrow> keeps (ci_during io) \<and> keeps (ci_during_write io)"

definition settle_io_ok :: "settle_io \<Rightarrow> bool" where
  "settle_io_ok io \<longleftrightarrow> keeps (st_before io) \<and> cleanup_io_ok (st_cleanup io)"

lemma keepsD: "keeps f \<Longrightarrow> manager_ok m \<Longrightarrow> manager_ok (f m)"
  by (simp add: keeps_def)

lemma keeps_id [simp]: "keeps (\<lambda>m. m)"
  by (simp add: keeps_def)

lemma ok_pane: "manager_ok m \<Longrightarrow> pane_ok (pm_states m r)"
  by (simp add: manager_ok_def)

lemma ok_upd: "manager_ok m \<Longrightarrow> pane_ok s \<Longrightarrow> manager_ok (upd_pane m r s)"
  by (simp add: manager_ok_def upd_pane_def)

lemma ok_drop: "manager_ok m \<Longrightarrow> manager_ok (dropLocked m p r)"
  by (auto simp: dropLocked_def Let_def manager_ok_def upd_pane_def pane_ok_uncleaned)

lemma ok_new: "manager_ok (newSizeManager ttl grace)"
  by (simp add: manager_ok_def newSizeManager_def)

lemma ok_lockPane: "manager_ok m \<Longrightarrow> list_all keeps waits \<Longrightarrow> manager_ok (fst (lockPane m p waits))"
proof (induction m p waits rule: lockPane.induct)
  case (1 m p waits)
  note M = \<open>manager_ok m\<close>
  have new: "manager_ok (m\<lparr>pm_panes := fmupd p (pm_fresh m) (pm_panes m), pm_states := (pm_states m)(pm_fresh m := newPaneState),
      pm_fresh := Suc (pm_fresh m)\<rparr>)"
    using M by (force simp: manager_ok_def)
  show ?case
    using new M "1.IH" "1.prems"
    by (subst lockPane.simps) (auto simp: Let_def keepsD split: option.splits list.splits)
qed

lemma ok_undo: "manager_ok m \<Longrightarrow> (\<forall>l. previous = Some l \<longrightarrow> lease_ok l) \<Longrightarrow> manager_ok (acquire_undo m p r created c lease previous)"
  using pane_ok_steps ok_pane
  by (auto simp: acquire_undo_def Let_def intro!: ok_upd ok_drop split: option.splits)

lemma ok_acquire_commit: "manager_ok m \<Longrightarrow> size_ok want \<Longrightarrow> manager_ok (acquire_commit m r current want now now2)"
proof -
  assume M: "manager_ok m" "size_ok want"
  define s where "s = fst (removeExpiredLocked (commitLocked (pm_states m r) current want now) now2)"
  have s: "pane_ok s" using M by (simp add: s_def pane_ok_steps ok_pane)
  then have "pane_ok (s\<lparr>pn_cleanup := None, pn_generation := pn_generation s + 1\<rparr>)" by (simp add: pane_ok_def)
  with s M(1) show ?thesis by (simp add: acquire_commit_def ok_upd flip: s_def)
qed

lemma acquire_insert_ok:
  assumes "manager_ok m" and "lease_ok lease" and "acquire_insert m r created identity current clientID lease now = (m1, want)"
  shows "manager_ok m1" and "pane_ok (pm_states m1 r)" and "lease \<in> pane_leases (pm_states m1 r)"
    and "want = leaseTargetLocked (pm_states m1 r) current" and "size_ok want"
proof -
  define s0 where "s0 = pm_states m r"
  define s1 where "s1 = (if created
                then s0\<lparr>pn_identity := identity, pn_resolved := True, pn_baseline := sizeOf current, pn_applied := sizeOf current\<rparr>
                else observeLocked (fst (removeExpiredLocked s0 now)) current)"
  define s2 where "s2 = s1\<lparr>pn_leases := fmupd clientID lease (pn_leases s1)\<rparr>"
  have m1: "m1 = upd_pane m r s2" and want: "want = leaseTargetLocked s2 current"
    using assms(3) by (auto simp: acquire_insert_def Let_def s0_def s1_def s2_def)
  have "pane_ok s0" using assms(1) by (simp add: s0_def ok_pane)
  then have "pane_ok (s0\<lparr>pn_identity := identity, pn_resolved := True, pn_baseline := sizeOf current, pn_applied := sizeOf current\<rparr>)"
    by (simp add: pane_ok_def cleanup_ok_def split: option.splits)
  with \<open>pane_ok s0\<close> have s2: "pane_ok s2" using assms(2) by (simp add: s1_def s2_def pane_ok_steps)
  show "manager_ok m1" using assms(1) s2 by (simp add: m1 ok_upd)
  show "pane_ok (pm_states m1 r)" "want = leaseTargetLocked (pm_states m1 r) current"
    using s2 want by (simp_all add: m1 upd_pane_def)
  show "lease \<in> pane_leases (pm_states m1 r)"
    by (auto simp: m1 upd_pane_def s2_def pane_leases_def intro: exI [of _ clientID])
  show "size_ok want" by (rule leaseTarget_ok(3) [OF s2 _ want]) (auto simp: s2_def fmempty_iff)
qed

lemma lookup_ok: "pane_ok s \<Longrightarrow> fmlookup (pn_leases s) c = Some l \<Longrightarrow> lease_ok l"
  by (auto simp: pane_ok_def dest: fmpredD)

lemma ok_acquire_sized:
  assumes "manager_ok m" and "keeps (ac_during_write io)" and "\<And>t. lease_ok \<lparr>ls_Columns = columns, ls_Rows = rows, ls_ExpiresAt = t\<rparr>"
  shows "manager_ok (fst (acquire_sized m io c p columns rows r created identity current))"
proof -
  define lease where "lease = \<lparr>ls_Columns = columns, ls_Rows = rows, ls_ExpiresAt = ac_now io + pm_ttl m\<rparr>"
  obtain m1 want where ins: "acquire_insert m r created identity current c lease (ac_now io) = (m1, want)" by fastforce
  note I = acquire_insert_ok [OF assms(1) assms(3) [of "ac_now io + pm_ttl m", folded lease_def] ins]
  have "\<forall>l. fmlookup (pn_leases (if created then pm_states m r else fst (removeExpiredLocked (pm_states m r) (ac_now io)))) c = Some l \<longrightarrow> lease_ok l"
    using assms(1) by (auto dest: lookup_ok [rotated] simp: ok_pane pane_ok_steps)
  moreover have "manager_ok (ac_during_write io m1)" using assms(2) I(1) by (rule keepsD)
  ultimately show ?thesis
    using assms(1) I(5) ins
    by (simp add: acquire_sized_def Let_def ok_drop ok_undo ok_acquire_commit resized_def flip: lease_def)
qed

lemma ok_Acquire: "manager_ok m \<Longrightarrow> acquire_io_ok io \<Longrightarrow> manager_ok (fst (Acquire m io c p columns rows))"
proof -
  assume M: "manager_ok m" and io: "acquire_io_ok io"
  obtain m1 res where L: "lockPane m p (ac_waits io) = (m1, res)" by fastforce
  have m1: "manager_ok m1" using ok_lockPane [OF M, of "ac_waits io" p] io L by (simp add: acquire_io_ok_def)
  have m2: "manager_ok (ac_during_lookup io m1)" using io m1 by (simp add: acquire_io_ok_def keepsD)
  have w: "keeps (ac_during_write io)" using io by (simp add: acquire_io_ok_def)
  show ?thesis
  proof (cases "columns < MinColumns \<or> columns > MaxColumns \<or> rows \<noteq> 0 \<and> (rows < MinRows \<or> rows > MaxRows)")
    case True
    then show ?thesis using M by (auto simp: Acquire_def)
  next
    case False
    then have "lease_ok \<lparr>ls_Columns = columns, ls_Rows = rows, ls_ExpiresAt = t\<rparr>" for t by (auto simp: lease_ok_def)
    note S = ok_acquire_sized [OF m2 w this]
    show ?thesis
      using M m1 m2 S L by (auto simp: Acquire_def Let_def ok_drop split: sum.splits option.splits)
  qed
qed

lemma ok_outcome: "manager_ok m \<Longrightarrow> manager_ok (cleanup_outcome m p r g serial now err)"
proof -
  assume M: "manager_ok m"
  then have "pane_ok (pm_states m r)" by (rule ok_pane)
  then have "pn_cleanup (pm_states m r) = Some c \<Longrightarrow> t < cl_deadline c \<Longrightarrow>
      pane_ok ((pm_states m r)\<lparr>pn_cleanup := Some (c\<lparr>cl_next := t\<rparr>)\<rparr>)" for c t
    by (auto simp: pane_ok_def cleanup_ok_def)
  with M show ?thesis
    by (auto simp: cleanup_outcome_def Let_def ok_drop intro: ok_upd split: option.splits)
qed

lemma ok_attempt: "manager_ok m \<Longrightarrow> cleanup_io_ok io \<Longrightarrow> manager_ok (fst (attemptCleanup m io p r g))"
proof -
  assume M: "manager_ok m" and io: "cleanup_io_ok io"
  have "pane_ok (pm_states m r)" using M by (rule ok_pane)
  then have "pn_cleanup (pm_states m r) = Some c \<Longrightarrow> cl_attempts c < CleanupAttempts \<Longrightarrow>
      pane_ok ((pm_states m r)\<lparr>pn_cleanup := Some (c\<lparr>cl_attempts := cl_attempts c + 1\<rparr>)\<rparr>)" for c
    by (auto simp: pane_ok_def cleanup_ok_def)
  then have "pn_cleanup (pm_states m r) = Some c \<Longrightarrow> cl_attempts c < CleanupAttempts \<Longrightarrow>
      manager_ok (ci_during io (upd_pane m r ((pm_states m r)\<lparr>pn_cleanup := Some (c\<lparr>cl_attempts := cl_attempts c + 1\<rparr>)\<rparr>)))" for c
    using M io by (simp add: cleanup_io_ok_def keepsD ok_upd)
  with M show ?thesis
    by (auto simp: attemptCleanup_def Let_def ok_drop ok_outcome split: option.splits prod.splits)
qed

lemma reconcile_apply_cases:
  fixes current :: Winsize
  assumes "reconcile_apply m1 io p r current = (m', written)"
    and "s = observeLocked (pm_states m1 r) current" and "want = leaseTargetLocked s current"
    and "m3 = ci_during_write io (upd_pane m1 r s)"
  obtains (ended) "m' = m1" "written = None"
  | (unwritten) "holds m1 p r" "pn_leases s \<noteq> fmempty" "m' = m3" "written = None"
  | (applied) "holds m1 p r" "pn_leases s \<noteq> fmempty"
      "m' = (if holds m3 p r then upd_pane m3 r (commitLocked (pm_states m3 r) current want (ci_now io)) else m3)"
      "written = (if snd (resized current want) then Some (fst (resized current want)) else None)"
proof -
  have leases: "pn_leases s = pn_leases (pm_states m1 r)" by (simp add: assms(2) observeLocked_def Let_def)
  note eq = assms(1) [unfolded reconcile_apply_def Let_def case_prod_beta, folded assms(2), folded assms(3), folded assms(4)]
  show ?thesis
  proof (cases "\<not> holds m1 p r \<or> pn_leases (pm_states m1 r) = fmempty")
    case True
    then show ?thesis using eq ended by (metis Pair_inject)
  next
    case held: False
    then have ne: "holds m1 p r" "pn_leases s \<noteq> fmempty" by (simp_all add: leases)
    show ?thesis
    proof (cases "snd (resized current want) \<and> \<not> to_set (ci_terminal io)")
      case True
      then have "m' = m3" "written = None" using eq held by simp_all
      then show ?thesis by (rule unwritten [OF ne])
    next
      case False
      note eq [unfolded if_not_P [OF held] if_not_P [OF False], THEN sym]
      then show ?thesis by (intro applied [OF ne]) (erule Pair_inject, assumption)+
    qed
  qed
qed

lemma ok_reconcile_apply:
  assumes M: "manager_ok m1" and io: "keeps (ci_during_write io)"
  shows "manager_ok (fst (reconcile_apply m1 io p r current))"
proof -
  obtain m' written where eq: "reconcile_apply m1 io p r current = (m', written)" by fastforce
  define s where "s = observeLocked (pm_states m1 r) current"
  have s: "pane_ok s" using M by (simp add: s_def ok_pane pane_ok_steps)
  then have m3: "manager_ok (ci_during_write io (upd_pane m1 r s))" using M io by (simp add: keepsD ok_upd)
  from eq s_def refl refl have "manager_ok m'"
    by (cases rule: reconcile_apply_cases)
      (auto simp: M m3 ok_pane leaseTarget_ok(3) [OF s] intro!: ok_upd pane_ok_commit)
  with eq show ?thesis by simp
qed

lemma ok_reconcile: "manager_ok m \<Longrightarrow> cleanup_io_ok io \<Longrightarrow> manager_ok (fst (reconcileActive m io p r))"
  using ok_reconcile_apply [of "ci_during io m" io p r]
  by (auto simp: reconcileActive_def cleanup_io_ok_def keepsD ok_drop split: sum.splits option.splits)

lemma ok_settle: "manager_ok m \<Longrightarrow> cleanup_io_ok io \<Longrightarrow> manager_ok (fst (settle m locked now io p r))"
  using ok_pane [of m r]
  by (auto simp: settle_def Let_def split: prod.splits
      intro!: ok_attempt ok_reconcile ok_upd pane_ok_expired
      dest: pane_ok_begin [OF pane_ok_expired, of _ now now])

lemma lease_ok_sooner [simp]: "lease_ok (l\<lparr>ls_ExpiresAt := t\<rparr>) = lease_ok l"
  by (simp add: lease_ok_def)

lemma pane_ok_release: "pane_ok s \<Longrightarrow> pane_ok (fst (release_lease s now grace c immediate))"
proof -
  assume "pane_ok s"
  then have s: "pane_ok (fst (removeExpiredLocked s now))" by (rule pane_ok_expired)
  note s pane_ok_delete [OF s, of c] pane_ok_begin [OF pane_ok_delete [OF s, of c]] pane_ok_insert [OF s] lookup_ok [OF s, of c]
  then show ?thesis by (auto simp: release_lease_def Let_def split: option.splits)
qed

lemma pane_ok_disconnect: "pane_ok s \<Longrightarrow> pane_ok (disconnect_lease s now c)"
  by (simp add: disconnect_lease_def Let_def pane_ok_steps pane_ok_leases)

lemma pane_ok_sweep: "pane_ok s \<Longrightarrow> pane_ok (fst (sweep_pane s now))"
  using pane_ok_expired [of s now] pane_ok_begin [OF pane_ok_expired, of s now now]
  by (auto simp: sweep_pane_def Let_def split: prod.splits)

lemma ok_Release: "manager_ok m \<Longrightarrow> settle_io_ok io \<Longrightarrow> manager_ok (fst (Release m now io c p immediate))"
proof -
  assume M: "manager_ok m" and io: "settle_io_ok io"
  have upd: "manager_ok (upd_pane m r (fst (release_lease (pm_states m r) now (pm_grace m) c immediate)))" for r
    using M by (simp add: ok_upd pane_ok_release ok_pane)
  then have "manager_ok (fst (settle (st_before io (upd_pane m r (fst (release_lease (pm_states m r) now (pm_grace m) c immediate))))
      (st_locked io) (st_now io) (st_cleanup io) p r))" for r
    using io by (simp add: settle_io_ok_def keepsD ok_settle)
  with M upd show ?thesis
    by (auto simp: Release_def Let_def split: option.splits prod.splits) (metis fst_conv)+
qed

lemma ok_settle_all: "manager_ok m \<Longrightarrow> (\<And>p. settle_io_ok (io p)) \<Longrightarrow> manager_ok (fst (settle_all io ps m))"
proof (induction ps arbitrary: m)
  case (Cons a ps)
  obtain p r where a: "a = (p, r)" by fastforce
  have "manager_ok (fst (settle (st_before (io p) m) (st_locked (io p)) (st_now (io p)) (st_cleanup (io p)) p r))"
    using Cons.prems by (simp add: settle_io_ok_def keepsD ok_settle)
  then show ?case using Cons.IH Cons.prems(2) by (auto simp: a split: prod.splits) (metis fst_conv)
qed simp

lemma ok_sweep_all: "manager_ok m \<Longrightarrow> (\<And>p. settle_io_ok (io p)) \<Longrightarrow> manager_ok (fst (sweep_all io ps m))"
proof (induction ps arbitrary: m)
  case (Cons a ps)
  obtain p r w where a: "a = (p, r, w)" by (cases a)
  define m0 where "m0 = st_before (io p) m"
  have "manager_ok m0" and "cleanup_io_ok (st_cleanup (io p))"
    using Cons.prems(1) Cons.prems(2) [of p] by (simp_all add: m0_def settle_io_ok_def keepsD)
  then have "manager_ok m0" "manager_ok (fst (attemptCleanup m0 (st_cleanup (io p)) p r g))"
      "manager_ok (fst (reconcileActive m0 (st_cleanup (io p)) p r))" for g
    by (simp_all add: ok_attempt ok_reconcile)
  then show ?case
    using Cons.IH Cons.prems(2)
    by (auto simp: a Let_def simp flip: m0_def split: prod.splits sweep_work.splits if_splits) (metis fst_conv)+
qed simp

lemma ok_scan:
  assumes "\<And>p r m xs. manager_ok m \<Longrightarrow> manager_ok (fst (scan (p, r) (m, xs)))"
  shows "manager_ok m \<Longrightarrow> manager_ok (fst (fold scan ps (m, xs)))"
proof (induction ps arbitrary: m xs)
  case (Cons a ps)
  obtain p r m' xs' where "a = (p, r)" "scan a (m, xs) = (m', xs')" by (metis surj_pair)
  then show ?case using Cons assms [of m p r xs] by simp
qed simp

lemma ok_release_scan: "manager_ok m \<Longrightarrow> manager_ok (fst (release_scan now c (p, r) (m, xs)))"
  by (simp add: release_scan_def ok_upd pane_ok_disconnect ok_pane)

lemma ok_sweep_scan: "manager_ok m \<Longrightarrow> manager_ok (fst (sweep_scan now (p, r) (m, xs)))"
  using pane_ok_sweep [OF ok_pane, of m r now] by (auto simp: sweep_scan_def intro: ok_upd split: prod.splits)

lemma ok_ReleaseClient:
  assumes "manager_ok m" and "\<And>p. settle_io_ok (io p)"
  shows "manager_ok (fst (ReleaseClient m now io c))"
proof -
  obtain m1 xs where f: "fold (release_scan now c) (sorted_list_of_fmap (pm_panes m)) (m, []) = (m1, xs)" by fastforce
  have "manager_ok m1" using ok_scan [of "release_scan now c", OF ok_release_scan assms(1), of _ "[]"] f by (metis fst_conv)
  then have "manager_ok (fst (settle_all io xs m1))" using assms(2) by (rule ok_settle_all)
  with assms(1) f show ?thesis by (auto simp: ReleaseClient_def split: prod.splits)
qed

lemma ok_SweepExpired:
  assumes "manager_ok m" and "\<And>p. settle_io_ok (io p)"
  shows "manager_ok (fst (SweepExpired m now io))"
proof -
  obtain m1 xs where f: "fold (sweep_scan now) (sorted_list_of_fmap (pm_panes m)) (m, []) = (m1, xs)" by fastforce
  have "manager_ok m1" using ok_scan [of "sweep_scan now", OF ok_sweep_scan assms(1), of _ "[]"] f by (metis fst_conv)
  then have "manager_ok (fst (sweep_all io xs m1))" using assms(2) by (rule ok_sweep_all)
  with assms(1) f show ?thesis by (auto simp: SweepExpired_def split: prod.splits)
qed

lemma ok_shutdown_pane: "manager_ok m \<Longrightarrow> cleanup_io_ok io \<Longrightarrow> manager_ok (fst (shutdownPane m locked io p r))"
proof -
  assume M: "manager_ok m" and io: "cleanup_io_ok io"
  have "pane_ok ((pm_states m r)\<lparr>pn_leases := fmempty, pn_cleanup := None\<rparr>)"
    using ok_pane [OF M, of r] by (simp add: pane_ok_def)
  then have "manager_ok (ci_during io (upd_pane m r ((pm_states m r)\<lparr>pn_leases := fmempty, pn_cleanup := None\<rparr>)))"
    using M io by (simp add: cleanup_io_ok_def keepsD ok_upd)
  with M show ?thesis by (auto simp: shutdownPane_def Let_def ok_drop split: prod.splits)
qed

lemma ok_shutdown_all: "manager_ok m \<Longrightarrow> (\<And>p. settle_io_ok (io p)) \<Longrightarrow> manager_ok (fst (shutdown_all io ps m))"
proof (induction ps arbitrary: m)
  case (Cons a ps)
  obtain p r where a: "a = (p, r)" by fastforce
  have "manager_ok (fst (shutdownPane (st_before (io p) m) (st_locked (io p)) (st_cleanup (io p)) p r))"
    using Cons.prems(1) Cons.prems(2) [of p] by (simp add: settle_io_ok_def keepsD ok_shutdown_pane)
  then show ?case using Cons.IH Cons.prems(2) by (auto simp: a split: prod.splits) (metis fst_conv)
qed simp

lemma ok_Shutdown: "manager_ok m \<Longrightarrow> (\<And>p. settle_io_ok (io p)) \<Longrightarrow> manager_ok (fst (Shutdown m io))"
  unfolding Shutdown_def by (rule ok_shutdown_all) (simp add: manager_ok_def)

section \<open>Steps of the manager\<close>

inductive manager_step :: "size_manager \<Rightarrow> size_manager \<Rightarrow> bool" where
  acquire: "acquire_io_ok io \<Longrightarrow> manager_step m (fst (Acquire m io c p columns rows))"
| release: "settle_io_ok sio \<Longrightarrow> manager_step m (fst (Release m now sio c p immediate))"
| disconnect: "(\<And>q. settle_io_ok (ios q)) \<Longrightarrow> manager_step m (fst (ReleaseClient m now ios c))"
| sweep: "(\<And>q. settle_io_ok (ios q)) \<Longrightarrow> manager_step m (fst (SweepExpired m now ios))"
| shutdown: "(\<And>q. settle_io_ok (ios q)) \<Longrightarrow> manager_step m (fst (Shutdown m ios))"

lemma ok_step: "manager_step m m' \<Longrightarrow> manager_ok m \<Longrightarrow> manager_ok m'"
  by (induction rule: manager_step.induct)
    (simp_all add: ok_Acquire ok_Release ok_ReleaseClient ok_SweepExpired ok_Shutdown)

lemma ok_steps: "manager_step\<^sup>*\<^sup>* m m' \<Longrightarrow> manager_ok m \<Longrightarrow> manager_ok m'"
  by (induction rule: rtranclp_induct) (auto intro: ok_step)

section \<open>The terminals written to\<close>

definition terminal_matches :: "string \<Rightarrow> terminalIdentity \<Rightarrow> terminal_io \<Rightarrow> identity_io \<Rightarrow> bool" where
  "terminal_matches p identity tio iio \<longleftrightarrow>
     to_open tio = Opened \<and> to_device tio = Some (ti_rdev identity, True)
     \<and> (\<exists>pane info pid. ii_pane iio = Reply (Some pane) \<and> hp_TerminalID pane = ti_terminalID identity \<and> hp_TerminalID pane \<noteq> []
          \<and> ii_info iio = Reply (Some info) \<and> pi_PaneID info \<in> {[], p}
          \<and> (if ti_shellPID identity > 0 then pi_ShellPID info = ti_shellPID identity \<and> pid = ti_shellPID identity
             else pi_ShellPID info \<le> 0 \<and> foregroundPID info = Some pid)
          \<and> ii_tty iio pid = Some (ti_ttyPath identity))"

lemma validateIdentity_None:
  assumes "validateIdentity p identity iio = None"
  shows "\<exists>pane info pid. ii_pane iio = Reply (Some pane) \<and> hp_TerminalID pane = ti_terminalID identity \<and> hp_TerminalID pane \<noteq> []
          \<and> ii_info iio = Reply (Some info) \<and> pi_PaneID info \<in> {[], p}
          \<and> (if ti_shellPID identity > 0 then pi_ShellPID info = ti_shellPID identity \<and> pid = ti_shellPID identity
             else pi_ShellPID info \<le> 0 \<and> foregroundPID info = Some pid)
          \<and> ii_tty iio pid = Some (ti_ttyPath identity)"
  using assms
  by (auto simp: validateIdentity_def validateIdentity_run_def Let_def split: reply.splits option.splits if_splits)

lemma openValidated_matches:
  assumes "openValidated p identity0 capture tio iio = Inr identity"
  shows "terminal_matches p identity tio iio" and "\<not> capture \<Longrightarrow> identity = identity0"
  using assms validateIdentity_None [of p identity iio]
  by (auto simp: openValidated_eq terminal_matches_def Let_def split: open_reply.splits option.splits if_splits)

lemma acquire_success:
  assumes "Acquire m io c p columns rows = (m', Inr res, written)"
  obtains m1 r created identity0 identity current where
    "c \<noteq> []" "p \<noteq> []" "MinColumns \<le> columns" "columns \<le> MaxColumns" "rows = 0 \<or> MinRows \<le> rows \<and> rows \<le> MaxRows"
    "lockPane m p (ac_waits io) = (m1, Inr (r, created))"
    "if created then lookupIdentity p (ac_lookup io) = Inr identity0 else identity0 = pn_identity (pm_states m1 r)"
    "openValidated p identity0 created (ac_terminal io) (ac_validate io) = Inr identity"
    "to_size (ac_terminal io) = Some current"
    "acquire_sized (ac_during_lookup io m1) io c p columns rows r created identity current = (m', Inr res, written)"
  using assms
  by (auto simp: Acquire_def Let_def not_less split: if_splits prod.splits sum.splits option.splits)

lemma acquire_sized_success:
  assumes "acquire_sized m io c p columns rows r created identity current = (m', Inr (w, h), written)"
  obtains m1 want where
    "acquire_insert m r created identity current c \<lparr>ls_Columns = columns, ls_Rows = rows, ls_ExpiresAt = ac_now io + pm_ttl m\<rparr> (ac_now io) = (m1, want)"
    "w = sz_columns want" "h = sz_rows want"
    "m' = acquire_commit (ac_during_write io m1) r current want (ac_now io) (ac_now_commit io)"
    "written = (if snd (resized current want) then Some (fst (resized current want)) else None)"
  using assms
  by (auto simp: acquire_sized_def Let_def split: if_splits prod.splits)

lemma resized_sizes:
  assumes "size_ok want"
  shows "sizeOf (fst (resized current want)) = want" and "\<not> snd (resized current want) \<Longrightarrow> sizeOf current = want"
    and "ws_XPixel (fst (resized current want)) = ws_XPixel current" and "ws_YPixel (fst (resized current want)) = ws_YPixel current"
proof -
  have *: "uint (word_of_int (sz_columns want) :: u16) = sz_columns want" "uint (word_of_int (sz_rows want) :: u16) = sz_rows want"
    using assms by (simp_all add: size_ok_def uint_word_of_int)
  show r: "sizeOf (fst (resized current want)) = want" using * by (simp add: resized_def Let_def sizeOf_def)
  show "\<not> snd (resized current want) \<Longrightarrow> sizeOf current = want" using r by (simp add: resized_def Let_def)
qed (simp_all add: resized_def Let_def)

section \<open>What a pane's lock protects\<close>

text \<open>
  While an operation holds the lock of a pane, other operations only do bookkeeping on it: they
  end leases or let them end sooner and start the cleanup of a pane without leases. What the
  terminal was last given, its restore point and its identity do not change.
\<close>

definition leases_end :: "paneState \<Rightarrow> paneState \<Rightarrow> bool" where
  "leases_end s s' \<longleftrightarrow> (\<forall>c l'. fmlookup (pn_leases s') c = Some l' \<longrightarrow>
     (\<exists>l. fmlookup (pn_leases s) c = Some l \<and> ls_Columns l' = ls_Columns l \<and> ls_Rows l' = ls_Rows l \<and> ls_ExpiresAt l' \<le> ls_ExpiresAt l))"

definition pane_frame :: "paneState \<Rightarrow> paneState \<Rightarrow> bool" where
  "pane_frame s s' \<longleftrightarrow> pn_resolved s' = pn_resolved s \<and> pn_identity s' = pn_identity s \<and> pn_baseline s' = pn_baseline s
     \<and> pn_applied s' = pn_applied s \<and> pn_generation s' = pn_generation s
     \<and> (\<forall>c. pn_cleanup s = Some c \<longrightarrow> pn_cleanup s' = Some c)
     \<and> leases_end s s'"

definition yields :: "string \<Rightarrow> (size_manager \<Rightarrow> size_manager) \<Rightarrow> bool" where
  "yields p f \<longleftrightarrow> keeps f \<and> (\<forall>m r. holds m p r \<longrightarrow> holds (f m) p r \<and> pane_frame (pm_states m r) (pm_states (f m) r))
     \<and> (\<forall>m. fmlookup (pm_panes m) p = None \<longrightarrow> fmlookup (pm_panes (f m)) p = None)"

lemma leases_end_trans: "leases_end a b \<Longrightarrow> leases_end b c \<Longrightarrow> leases_end a c"
  unfolding leases_end_def by fastforce

lemma pane_frame_refl [simp]: "pane_frame s s"
  by (simp add: pane_frame_def leases_end_def)

lemma pane_frame_trans: "pane_frame a b \<Longrightarrow> pane_frame b c \<Longrightarrow> pane_frame a c"
  by (auto simp: pane_frame_def intro: leases_end_trans)

lemma frame_begin: "pane_frame s (fst (beginCleanupLocked s now))"
  by (auto simp: beginCleanupLocked_def pane_frame_def leases_end_def split: option.splits)

lemma frame_maybe_begin: "pane_frame s s' \<Longrightarrow> pane_frame s (if b then fst (beginCleanupLocked s' now) else s')"
  using pane_frame_trans [OF _ frame_begin] by simp

lemma frame_leases: "(\<And>c l'. fmlookup ls c = Some l' \<Longrightarrow>
     \<exists>l. fmlookup (pn_leases s) c = Some l \<and> ls_Columns l' = ls_Columns l \<and> ls_Rows l' = ls_Rows l \<and> ls_ExpiresAt l' \<le> ls_ExpiresAt l)
   \<Longrightarrow> pane_frame s (s\<lparr>pn_leases := ls\<rparr>)"
  by (simp add: pane_frame_def leases_end_def)

lemma frame_expired: "pane_frame s (fst (removeExpiredLocked s now))"
proof -
  have "pane_frame s (s\<lparr>pn_leases := fm_drop_if (\<lambda>l. \<not> ls_ExpiresAt l > now) (pn_leases s)\<rparr>)"
    by (rule frame_leases) (auto split: option.splits if_splits)
  then show ?thesis unfolding removeExpiredLocked_def Let_def if_distrib [of fst] fst_conv by (rule frame_maybe_begin)
qed

lemma frame_delete: "pane_frame s (s\<lparr>pn_leases := fmdrop c (pn_leases s)\<rparr>)"
  by (rule frame_leases) (auto split: if_splits)

lemma frame_sooner:
  "fmlookup (pn_leases s) c = Some l \<Longrightarrow> t \<le> ls_ExpiresAt l \<Longrightarrow> pane_frame s (s\<lparr>pn_leases := fmupd c (l\<lparr>ls_ExpiresAt := t\<rparr>) (pn_leases s)\<rparr>)"
  by (rule frame_leases) (auto split: if_splits)

lemma frame_release: "pane_frame s (fst (release_lease s now grace c immediate))"
proof -
  define s1 where "s1 = fst (removeExpiredLocked s now)"
  note d = frame_maybe_begin [OF frame_delete, of s1]
  have same: "fmlookup (pn_leases s1) c = Some l \<Longrightarrow> pane_frame s1 (s1\<lparr>pn_leases := fmupd c l (pn_leases s1)\<rparr>)" for l
    by (rule frame_leases) (auto split: if_splits)
  have "pane_frame s1 (fst (release_lease s now grace c immediate))"
    using d same by (auto simp: release_lease_def Let_def frame_sooner simp flip: s1_def split: option.splits)
  with frame_expired show ?thesis unfolding s1_def by (rule pane_frame_trans)
qed

lemma frame_disconnect: "pane_frame s (disconnect_lease s now c)"
  unfolding disconnect_lease_def Let_def
  by (rule frame_maybe_begin) (rule pane_frame_trans [OF frame_expired frame_delete])

lemma frame_sweep: "pane_frame s (fst (sweep_pane s now))"
  using frame_expired [of s now] pane_frame_trans [OF frame_expired frame_begin, of s now now]
  by (auto simp: sweep_pane_def Let_def split: prod.splits)

text \<open>The contract of a step of bookkeeping, and what it gives for a manager whose pane \<open>p\<close> is locked.\<close>

locale pane_bookkeeping =
  fixes step :: "paneState \<Rightarrow> paneState"
  assumes step_ok: "pane_ok s \<Longrightarrow> pane_ok (step s)" and step_frame: "pane_frame s (step s)"
begin

lemma step_yields: "yields p (\<lambda>m. upd_pane m r (step (pm_states m r)))"
  by (auto simp: yields_def keeps_def ok_upd ok_pane step_ok step_frame)
    (auto simp: upd_pane_def holds_def step_frame)

end

interpretation releasing: pane_bookkeeping "\<lambda>s. fst (release_lease s now grace c immediate)" for now grace c immediate
  by unfold_locales (rule pane_ok_release, assumption, rule frame_release)

interpretation disconnecting: pane_bookkeeping "\<lambda>s. disconnect_lease s now c" for now c
  by unfold_locales (rule pane_ok_disconnect, assumption, rule frame_disconnect)

interpretation sweeping: pane_bookkeeping "\<lambda>s. fst (sweep_pane s now)" for now
  by unfold_locales (rule pane_ok_sweep, assumption, rule frame_sweep)

lemma yields_id [simp]: "yields p (\<lambda>m. m)"
  by (simp add: yields_def)

lemma yields_comp: "yields p f \<Longrightarrow> yields p g \<Longrightarrow> yields p (\<lambda>m. g (f m))"
  unfolding yields_def keeps_def by (meson pane_frame_trans)

lemma yieldsD:
  assumes "yields p f" and "holds m p r"
  shows "holds (f m) p r" and "pane_frame (pm_states m r) (pm_states (f m) r)"
  using assms by (simp_all add: yields_def)

definition acquire_calm :: "string \<Rightarrow> acquire_io \<Rightarrow> bool" where
  "acquire_calm p io \<longleftrightarrow> list_all (yields p) (ac_waits io) \<and> yields p (ac_during_lookup io) \<and> yields p (ac_during_write io)"

definition cleanup_calm :: "string \<Rightarrow> cleanup_io \<Rightarrow> bool" where
  "cleanup_calm p io \<longleftrightarrow> yields p (ci_during io) \<and> yields p (ci_during_write io)"

definition settle_calm :: "string \<Rightarrow> settle_io \<Rightarrow> bool" where
  "settle_calm p io \<longleftrightarrow> yields p (st_before io) \<and> cleanup_calm p (st_cleanup io)"

lemma acquire_calm_ok: "acquire_calm p io \<Longrightarrow> acquire_io_ok io"
  by (auto simp: acquire_calm_def acquire_io_ok_def yields_def list_all_iff)

lemma panes_upd [simp]: "pm_panes (upd_pane m r s) = pm_panes m"
  by (simp add: upd_pane_def)

lemma holds_upd [simp]: "holds (upd_pane m r s) p q = holds m p q"
  by (simp add: upd_pane_def holds_def)

lemma states_upd [simp]: "pm_states (upd_pane m r s) q = (if q = r then s else pm_states m q)"
  by (simp add: upd_pane_def)

lemma lockPane_holds: "lockPane m p waits = (m1, Inr (r, created)) \<Longrightarrow> holds m1 p r"
proof (induction m p waits rule: lockPane.induct)
  case (1 m p waits)
  note IH = "1.IH" and eq = "1.prems" [unfolded lockPane.simps [of m p waits]]
  have opn: "\<not> pm_closed m" using eq by auto
  show ?case
  proof (cases "fmlookup (pm_panes m) p")
    case None
    then show ?thesis using eq opn by (auto simp: holds_def)
  next
    case (Some r0)
    then obtain wait ws where W: "waits = wait # ws" using eq opn by (cases waits) auto
    show ?thesis
    proof (cases "\<not> pm_closed (wait m) \<and> holds (wait m) p r0")
      case True
      then show ?thesis using eq opn Some W by (auto simp: Let_def)
    next
      case False
      then have "lockPane (wait m) p ws = (m1, Inr (r, created))" using eq opn Some W by (auto simp: Let_def split: if_splits)
      then show ?thesis using IH [OF opn Some W refl False] by simp
    qed
  qed
qed

section \<open>The size a lease gets\<close>

lemma leases_end_commit: "leases_end (pm_states m r) (pm_states (acquire_commit m r current want now now2) r)"
proof -
  have "leases_end (pm_states m r) (commitLocked (pm_states m r) current want now)"
    by (simp add: leases_end_def commitLocked_def)
  moreover have "leases_end (commitLocked (pm_states m r) current want now) (fst (removeExpiredLocked (commitLocked (pm_states m r) current want now) now2))"
    using frame_expired by (simp add: pane_frame_def)
  ultimately have "leases_end (pm_states m r) (fst (removeExpiredLocked (commitLocked (pm_states m r) current want now) now2))"
    by (rule leases_end_trans)
  then show ?thesis by (auto simp: acquire_commit_def Let_def leases_end_def)
qed

lemma leases_end_pane: "leases_end s s' \<Longrightarrow> l' \<in> pane_leases s' \<Longrightarrow>
   \<exists>l\<in>pane_leases s. ls_Columns l' = ls_Columns l \<and> ls_Rows l' = ls_Rows l"
  by (force simp: leases_end_def pane_leases_def)

lemma acquire_grant:
  assumes M: "manager_ok m" and io: "acquire_calm p io" and eq: "Acquire m io c p columns rows = (m', Inr (w, h), written)"
  obtains current r where "to_size (ac_terminal io) = Some current" "holds m' p r"
    "sizeOf (case written of Some v \<Rightarrow> v | None \<Rightarrow> current) = \<lparr>sz_columns = w, sz_rows = h\<rparr>"
    "\<forall>v. written = Some v \<longrightarrow> ws_XPixel v = ws_XPixel current \<and> ws_YPixel v = ws_YPixel current"
    "40 \<le> w" "w \<le> columns" "0 < rows \<Longrightarrow> 10 \<le> h \<and> h \<le> rows"
    "\<forall>l\<in>pane_leases (pm_states m' r). w \<le> ls_Columns l \<and> (0 < ls_Rows l \<longrightarrow> h \<le> ls_Rows l)"
proof -
  obtain m1 r created identity0 identity current where
    g: "MinColumns \<le> columns" "columns \<le> MaxColumns" "rows = 0 \<or> MinRows \<le> rows \<and> rows \<le> MaxRows"
    and L: "lockPane m p (ac_waits io) = (m1, Inr (r, created))" and cur: "to_size (ac_terminal io) = Some current"
    and S: "acquire_sized (ac_during_lookup io m1) io c p columns rows r created identity current = (m', Inr (w, h), written)"
    using acquire_success [OF eq] by metis
  define m2 where "m2 = ac_during_lookup io m1"
  define lease where "lease = \<lparr>ls_Columns = columns, ls_Rows = rows, ls_ExpiresAt = ac_now io + pm_ttl m2\<rparr>"
  have "manager_ok m1" using ok_lockPane [OF M, of "ac_waits io" p] L acquire_calm_ok [OF io] by (simp add: acquire_io_ok_def)
  then have m2: "manager_ok m2" using acquire_calm_ok [OF io] by (simp add: m2_def acquire_io_ok_def keepsD)
  have h2: "holds m2 p r" using lockPane_holds [OF L] io yieldsD(1) unfolding m2_def acquire_calm_def by blast
  obtain m3 want where ins: "acquire_insert m2 r created identity current c lease (ac_now io) = (m3, want)"
    and wh: "w = sz_columns want" "h = sz_rows want"
    and m': "m' = acquire_commit (ac_during_write io m3) r current want (ac_now io) (ac_now_commit io)"
    and wr: "written = (if snd (resized current want) then Some (fst (resized current want)) else None)"
    using acquire_sized_success [OF S [folded m2_def]] unfolding lease_def by metis
  have "lease_ok lease" using g by (auto simp: lease_def lease_ok_def)
  note I = acquire_insert_ok [OF m2 this ins]
  have h3: "holds m3 p r" using ins h2 by (auto simp: acquire_insert_def Let_def)
  have Y: "holds (ac_during_write io m3) p r" "leases_end (pm_states m3 r) (pm_states (ac_during_write io m3) r)"
    using yieldsD [OF _ h3, of "ac_during_write io"] io by (auto simp: acquire_calm_def pane_frame_def)
  have E: "leases_end (pm_states m3 r) (pm_states m' r)"
    unfolding m' by (rule leases_end_trans [OF Y(2) leases_end_commit])
  have ne: "pn_leases (pm_states m3 r) \<noteq> fmempty" using I(3) by (auto simp: pane_leases_def)
  note T = leaseTarget_ok [OF I(2) ne I(4)]
  have low: "\<forall>l\<in>pane_leases (pm_states m3 r). w \<le> ls_Columns l \<and> (0 < ls_Rows l \<longrightarrow> h \<le> ls_Rows l)"
    using leaseTarget_sizes [OF I(2) _ I(4)] unfolding wh by metis
  have own: "0 < rows \<Longrightarrow> 10 \<le> h \<and> h \<le> rows"
  proof -
    assume "0 < rows"
    then have pos: "\<exists>l\<in>pane_leases (pm_states m3 r). 0 < ls_Rows l" by (intro bexI [OF _ I(3)]) (simp add: lease_def)
    then obtain l where "l \<in> pane_leases (pm_states m3 r)" "h = ls_Rows l" "0 < h"
      using leaseTarget_sizes [OF I(2) I(3) I(4)] wh by auto
    then show ?thesis using pane_ok_lease [OF I(2)] low I(3) \<open>0 < rows\<close> by (force simp: lease_ok_def limits lease_def)
  qed
  show ?thesis
  proof
    show "to_size (ac_terminal io) = Some current" by (rule cur)
    show "holds m' p r" using Y(1) by (simp add: m' acquire_commit_def Let_def)
    show "sizeOf (case written of Some v \<Rightarrow> v | None \<Rightarrow> current) = \<lparr>sz_columns = w, sz_rows = h\<rparr>"
      using resized_sizes(1,2) [OF I(5), of current] by (simp add: wr wh)
    show "\<forall>v. written = Some v \<longrightarrow> ws_XPixel v = ws_XPixel current \<and> ws_YPixel v = ws_YPixel current"
      using resized_sizes(3,4) [OF I(5), of current] by (simp add: wr)
    show "40 \<le> w" "w \<le> columns" using T(1) low I(3) by (auto simp: wh lease_def)
    show "0 < rows \<Longrightarrow> 10 \<le> h \<and> h \<le> rows" by (rule own)
    show "\<forall>l\<in>pane_leases (pm_states m' r). w \<le> ls_Columns l \<and> (0 < ls_Rows l \<longrightarrow> h \<le> ls_Rows l)"
      using low leases_end_pane [OF E] by metis
  qed
qed

section \<open>The user's own size\<close>

text \<open>
  \<open>u\<close> is the size the user gave the terminal, \<open>t\<close> the size it has. A pane remembers \<open>u\<close> when
  each dimension that still has the leased value has it as restore point, and each other
  dimension is already the user's.
\<close>

definition remembers :: "paneState \<Rightarrow> Winsize \<Rightarrow> pane_size \<Rightarrow> bool" where
  "remembers s t u \<longleftrightarrow>
     (if uint (ws_Columns t) = sz_columns (pn_applied s) then sz_columns (pn_baseline s) else uint (ws_Columns t)) = sz_columns u
     \<and> (if uint (ws_Rows t) = sz_rows (pn_applied s) then sz_rows (pn_baseline s) else uint (ws_Rows t)) = sz_rows u"

definition tracks :: "size_manager \<Rightarrow> string \<Rightarrow> Winsize \<Rightarrow> pane_size \<Rightarrow> bool" where
  "tracks m p t u \<longleftrightarrow> (\<forall>r. holds m p r \<longrightarrow> pn_resolved (pm_states m r) \<longrightarrow> remembers (pm_states m r) t u)"

definition now_sized :: "Winsize \<Rightarrow> Winsize option \<Rightarrow> Winsize" where
  "now_sized t written = (case written of Some v \<Rightarrow> v | None \<Rightarrow> t)"

lemma pane_size_eq: "z = z' \<longleftrightarrow> sz_columns z = sz_columns z' \<and> sz_rows z = sz_rows (z' :: pane_size)"
  by (cases z; cases z') simp

lemma remembers_frame: "pane_frame s s' \<Longrightarrow> remembers s' t u = remembers s t u"
  by (simp add: pane_frame_def remembers_def)

lemma remembers_observe: "remembers s t u \<Longrightarrow> remembers (observeLocked s t) t u"
  by (auto simp: remembers_def observeLocked_def Let_def)

lemma observed_baseline: "remembers s t u \<Longrightarrow> pn_baseline (observeLocked s t) = u"
  by (auto simp: remembers_def observeLocked_def Let_def pane_size_eq)

lemma remembers_applied: "sizeOf t = pn_applied s \<Longrightarrow> pn_baseline s = u \<Longrightarrow> remembers s t u"
  by (auto simp: remembers_def sizeOf_def pane_size_eq)

lemma restore_exact:
  assumes "remembers s t u" and "pane_ok s" and "to_size tio = Some t"
    and "restoreOnce s p tio iio = (err, written)"
  shows "err = None \<Longrightarrow> sizeOf (now_sized t written) = u"
proof -
  define want where "want = \<lparr>sz_columns = (if uint (ws_Columns t) = sz_columns (pn_applied s) then sz_columns (pn_baseline s) else uint (ws_Columns t)),
     sz_rows = (if uint (ws_Rows t) = sz_rows (pn_applied s) then sz_rows (pn_baseline s) else uint (ws_Rows t))\<rparr>"
  have wu: "want = u" using assms(1) by (simp add: want_def remembers_def pane_size_eq)
  have "size_ok want"
    using assms(2) uint_lt2p [of "ws_Columns t"] uint_lt2p [of "ws_Rows t"] by (simp add: want_def pane_ok_def size_ok_def)
  note R = resized_sizes(1,2) [OF this, of t, unfolded wu]
  have same: "pn_applied s = pn_baseline s \<Longrightarrow> sizeOf t = u"
    using assms(1) by (auto simp: remembers_def sizeOf_def pane_size_eq)
  note eq = assms(4) [unfolded restoreOnce_def Let_def assms(3) option.case, folded want_def, unfolded wu]
  show "err = None \<Longrightarrow> sizeOf (now_sized t written) = u"
    using eq same R by (auto simp: now_sized_def split: if_splits sum.splits prod.splits)
qed

lemma restore_failed: "restoreOnce s p tio iio = (err, written) \<Longrightarrow> err \<noteq> None \<Longrightarrow> written = None"
  by (auto simp: restoreOnce_def Let_def split: if_splits sum.splits option.splits prod.splits)

lemma tracks_yields: "yields p f \<Longrightarrow> tracks m p t u \<Longrightarrow> tracks (f m) p t u"
proof (cases "fmlookup (pm_panes m) p")
  case None
  then show "yields p f \<Longrightarrow> ?thesis" by (simp add: yields_def tracks_def holds_def)
next
  case (Some r)
  then have "holds m p r" by (simp add: holds_def)
  then show "yields p f \<Longrightarrow> tracks m p t u \<Longrightarrow> ?thesis"
    unfolding tracks_def by (metis yieldsD holds_def option.inject pane_frame_def remembers_frame)
qed

lemma tracks_upd: "tracks m p t u \<Longrightarrow> (holds m p r \<Longrightarrow> pn_resolved s \<Longrightarrow> remembers s t' u) \<Longrightarrow> (\<not> holds m p r \<Longrightarrow> t' = t)
   \<Longrightarrow> tracks (upd_pane m r s) p t' u"
  unfolding tracks_def by (auto simp: upd_pane_def holds_def)

lemma tracks_dropped [simp]: "holds m p r \<Longrightarrow> tracks (dropLocked m p r) p t u"
  by (auto simp: tracks_def dropLocked_def Let_def upd_pane_def holds_def)

definition sees :: "terminal_io \<Rightarrow> Winsize \<Rightarrow> bool" where
  "sees tio t \<longleftrightarrow> to_size tio = None \<or> to_size tio = Some t"

lemma now_sized_None [simp]: "now_sized t None = t" and now_sized_Some [simp]: "now_sized t (Some v) = v"
  by (simp_all add: now_sized_def)

lemma tracks_frame: "tracks m p t u \<Longrightarrow> pane_frame (pm_states m r) s \<Longrightarrow> tracks (upd_pane m r s) p t u"
  by (auto simp: tracks_def remembers_frame) (simp add: pane_frame_def)

definition attempt_started :: "size_manager \<Rightarrow> cleanup_io \<Rightarrow> nat \<Rightarrow> cleanupState \<Rightarrow> size_manager" where
  "attempt_started m io r c =
     ci_during io (upd_pane m r ((pm_states m r)\<lparr>pn_cleanup := Some (c\<lparr>cl_attempts := cl_attempts c + 1\<rparr>)\<rparr>))"

lemma attempt_cases:
  assumes "attemptCleanup m io p r g = (m', written)"
  obtains (idle) "m' = m" "written = None"
  | (exhausted) "m' = dropLocked m p r" "written = None" "holds m p r"
  | (tried) c err where "pn_cleanup (pm_states m r) = Some c" "holds m p r" "pn_generation (pm_states m r) = g"
      "pn_leases (pm_states m r) = fmempty" "restoreOnce (pm_states m r) p (ci_terminal io) (ci_validate io) = (err, written)"
      "m' = cleanup_outcome (attempt_started m io r c) p r g (cl_serial c) (ci_now_after io) err" "cl_attempts c < CleanupAttempts"
proof (cases "pn_cleanup (pm_states m r)")
  case None
  then show ?thesis using assms idle by (simp add: attemptCleanup_def)
next
  case (Some c)
  obtain err w where R: "restoreOnce (pm_states m r) p (ci_terminal io) (ci_validate io) = (err, w)" by fastforce
  note eq = assms [unfolded attemptCleanup_def Let_def Some option.case R prod.case, folded attempt_started_def]
  let ?fenced = "\<not> holds m p r \<or> cl_generation c \<noteq> g \<or> pn_generation (pm_states m r) \<noteq> g \<or> pn_leases (pm_states m r) \<noteq> fmempty"
  show ?thesis
  proof (cases "?fenced \<or> ci_now io < cl_next c")
    case True
    then have "m' = m" "written = None" using eq by (simp_all split: if_splits)
    then show ?thesis by (rule idle)
  next
    case live: False
    show ?thesis
    proof (cases "cl_attempts c \<ge> CleanupAttempts \<or> \<not> ci_now io < cl_deadline c")
      case True
      then have "m' = dropLocked m p r" "written = None" using eq live by simp_all
      then show ?thesis using exhausted live by blast
    next
      case False
      then have "m' = cleanup_outcome (attempt_started m io r c) p r g (cl_serial c) (ci_now_after io) err" "written = w"
          "cl_attempts c < CleanupAttempts"
        using eq live by simp_all
      then show ?thesis using tried [OF Some] live R by blast
    qed
  qed
qed

lemma tracks_attempt:
  assumes "cleanup_calm p io" and "tracks m p t u" and "attemptCleanup m io p r g = (m', written)"
  shows "tracks m' p (now_sized t written) u"
  using assms(3)
proof (cases rule: attempt_cases)
  case (tried c err)
  define s1 where "s1 = (pm_states m r)\<lparr>pn_cleanup := Some (c\<lparr>cl_attempts := cl_attempts c + 1\<rparr>)\<rparr>"
  define m2 where "m2 = attempt_started m io r c"
  have y: "yields p (ci_during io)" using assms(1) by (simp add: cleanup_calm_def)
  have "tracks (upd_pane m r s1) p t u"
    using assms(2) tried(2) by (auto simp: tracks_def s1_def remembers_def)
  then have t2: "tracks m2 p t u" unfolding m2_def attempt_started_def s1_def by (rule tracks_yields [OF y])
  have h1: "holds (upd_pane m r s1) p r" using tried(2) by simp
  have h2: "holds m2 p r" and f2: "pane_frame s1 (pm_states m2 r)"
    using yieldsD [OF y h1] by (simp_all add: m2_def attempt_started_def s1_def)
  obtain c2 where c2: "pn_cleanup (pm_states m2 r) = Some c2" "cl_serial c2 = cl_serial c" "pn_generation (pm_states m2 r) = g"
    using f2 tried(3) by (auto simp: pane_frame_def s1_def)
  show ?thesis
  proof (cases "err = None")
    case True
    then show ?thesis using c2 h2 by (simp add: tried cleanup_outcome_def flip: m2_def)
  next
    case False
    then have w: "written = None" using restore_failed [OF tried(5)] by simp
    have "tracks (upd_pane m2 r ((pm_states m2 r)\<lparr>pn_cleanup := Some x\<rparr>)) p t u" for x
      using t2 by (auto simp: tracks_def remembers_def)
    then show ?thesis using c2 h2 t2 by (simp add: tried(6) w cleanup_outcome_def Let_def flip: m2_def)
  qed
qed (use assms(2) in auto)

lemma observed_applied: "pn_applied (observeLocked s t) = sizeOf t"
  by (auto simp: observeLocked_def Let_def sizeOf_def pane_size_eq)

lemma tracks_commit:
  assumes "tracks m p t u" and "holds m p r" and "size_ok want"
    and "pn_resolved (pm_states m r) \<Longrightarrow> pn_baseline (pm_states m r) = u"
  shows "tracks (upd_pane m r (commitLocked (pm_states m r) t want now)) p
    (now_sized t (if snd (resized t want) then Some (fst (resized t want)) else None)) u"
  using assms(1,2,4) resized_sizes(1,2) [OF assms(3), of t]
  by (intro tracks_upd [of m]) (auto intro!: remembers_applied simp: commitLocked_def)

lemma tracks_reconcile_apply:
  assumes "yields p (ci_during_write io)" and M: "manager_ok m" and "tracks m p t u"
    and "reconcile_apply m io p r t = (m', written)"
  shows "tracks m' p (now_sized t written) u"
proof -
  define s where "s = observeLocked (pm_states m r) t"
  define m3 where "m3 = ci_during_write io (upd_pane m r s)"
  have t3: "tracks m3 p t u"
  proof -
    have "tracks (upd_pane m r s) p t u"
      using assms(3) by (auto simp: tracks_def s_def intro!: remembers_observe) (simp add: observeLocked_def Let_def split: if_splits)
    then show ?thesis unfolding m3_def by (rule tracks_yields [OF assms(1)])
  qed
  from assms(4) s_def refl m3_def show ?thesis
  proof (cases rule: reconcile_apply_cases)
    case applied
    have h: "holds (upd_pane m r s) p r" using applied(1) by simp
    have h3: "holds m3 p r" and f: "pane_frame s (pm_states m3 r)"
      using yieldsD [OF assms(1) h] by (simp_all add: m3_def)
    have want: "size_ok (leaseTargetLocked s t)"
      using leaseTarget_ok(3) [OF _ applied(2) refl] M by (simp add: s_def ok_pane pane_ok_steps)
    have "pn_resolved (pm_states m3 r) \<Longrightarrow> pn_baseline (pm_states m3 r) = u"
    proof -
      assume "pn_resolved (pm_states m3 r)"
      then have "pn_resolved (pm_states m r)" using f by (simp add: pane_frame_def s_def observeLocked_def Let_def split: if_splits)
      then have "remembers (pm_states m r) t u" using assms(3) applied(1) by (simp add: tracks_def)
      then show ?thesis using f observed_baseline by (simp add: pane_frame_def s_def)
    qed
    from tracks_commit [OF t3 h3 want this] show ?thesis using h3 by (simp add: applied)
  qed (use assms(3) t3 in auto)
qed

lemma tracks_reconcile:
  assumes "cleanup_calm p io" and "manager_ok m" and "sees (ci_terminal io) t" and "tracks m p t u"
    and "reconcileActive m io p r = (m', written)"
  shows "tracks m' p (now_sized t written) u"
proof -
  have y: "yields p (ci_during io)" "yields p (ci_during_write io)" using assms(1) by (simp_all add: cleanup_calm_def)
  have m1: "manager_ok (ci_during io m)" using y(1) assms(2) by (simp add: yields_def keepsD)
  have t1: "tracks (ci_during io m) p t u" by (rule tracks_yields [OF y(1) assms(4)])
  have h: "holds m p r \<Longrightarrow> holds (ci_during io m) p r" using yieldsD(1) [OF y(1)] .
  show ?thesis
    using assms(3,4,5) h t1 tracks_reconcile_apply [OF y(2) m1 t1, of r]
    by (auto simp: reconcileActive_def sees_def split: if_splits sum.splits option.splits)
qed

lemma tracks_settle:
  assumes "cleanup_calm p io" and "manager_ok m" and "sees (ci_terminal io) t" and "tracks m p t u"
    and "settle m locked now io p r = (m', written)"
  shows "tracks m' p (now_sized t written) u"
proof -
  define s where "s = fst (removeExpiredLocked (pm_states m r) now)"
  obtain s' g where b: "beginCleanupLocked s now = (s', g)" by fastforce
  have f: "pane_frame (pm_states m r) s" unfolding s_def by (rule frame_expired)
  have f': "pane_frame (pm_states m r) s'" using pane_frame_trans [OF f frame_begin, of now] b by simp
  have ok: "manager_ok (upd_pane m r s)" using assms(2) by (simp add: s_def ok_upd ok_pane pane_ok_steps)
  show ?thesis
    using assms(4,5) b tracks_attempt [OF assms(1) tracks_frame [OF assms(4) f'], of r g m' written]
      tracks_reconcile [OF assms(1) ok assms(3) tracks_frame [OF assms(4) f], of r m' written] tracks_frame [OF assms(4) f]
    by (auto simp: settle_def Let_def simp flip: s_def split: if_splits)
qed

subsection \<open>Acquisitions\<close>

lemma lock_calm:
  assumes "list_all (yields p) waits" and "tracks m p t u" and "lockPane m p waits = (m1, res)"
  shows "tracks m1 p t u" and "\<And>r created. res = Inr (r, created) \<Longrightarrow>
     if created then fmlookup (pm_panes m) p = None \<and> \<not> pn_resolved (pm_states m1 r) else fmlookup (pm_panes m) p = Some r"
proof -
  have *: "tracks m1 p t u \<and> (\<forall>r created. res = Inr (r, created) \<longrightarrow>
     (if created then fmlookup (pm_panes m) p = None \<and> \<not> pn_resolved (pm_states m1 r) else fmlookup (pm_panes m) p = Some r))"
  proof (cases "pm_closed m")
    case True
    then show ?thesis using assms by (auto simp: lockPane.simps [of m])
  next
    case opn: False
    show ?thesis
    proof (cases "fmlookup (pm_panes m) p")
      case None
      then show ?thesis using assms opn by (auto simp: lockPane.simps [of m] tracks_def holds_def newPaneState_def)
    next
      case (Some r0)
      show ?thesis
      proof (cases waits)
        case Nil
        then show ?thesis using assms opn Some by (auto simp: lockPane.simps [of m])
      next
        case (Cons wait ws)
        have y: "yields p wait" using assms(1) Cons by simp
        have "holds (wait m) p r0" using yieldsD(1) [OF y] Some by (simp add: holds_def)
        moreover have "tracks (wait m) p t u" by (rule tracks_yields [OF y assms(2)])
        ultimately show ?thesis
          using assms(3) opn Some Cons by (auto simp: lockPane.simps [of m] lockPane.simps [of "wait m"] Let_def split: if_splits)
      qed
    qed
  qed
  then show "tracks m1 p t u" by simp
  show "\<And>r created. res = Inr (r, created) \<Longrightarrow>
     if created then fmlookup (pm_panes m) p = None \<and> \<not> pn_resolved (pm_states m1 r) else fmlookup (pm_panes m) p = Some r"
    using * by simp
qed

lemma inserted_pane:
  fixes t :: Winsize
  assumes "acquire_insert m r created identity t c lease now = (m1, want)" and "holds m p r" and "tracks m p t u"
    and "created \<Longrightarrow> sizeOf t = u"
  shows "pn_resolved (pm_states m1 r) \<Longrightarrow> pn_baseline (pm_states m1 r) = u \<and> pn_applied (pm_states m1 r) = sizeOf t"
    and "holds m1 p r" and "tracks m1 p t u"
proof -
  let ?s = "removeExpiredLocked (pm_states m r) now"
  have f: "pane_frame (pm_states m r) (fst ?s)" by (rule frame_expired)
  show 1: "pn_baseline (pm_states m1 r) = u \<and> pn_applied (pm_states m1 r) = sizeOf t" if "pn_resolved (pm_states m1 r)"
  proof (cases created)
    case True
    then show ?thesis using assms(1,4) by (auto simp: acquire_insert_def Let_def)
  next
    case False
    then have s: "pm_states m1 r = (observeLocked (fst ?s) t)\<lparr>pn_leases := fmupd c lease (pn_leases (observeLocked (fst ?s) t))\<rparr>"
      using assms(1) by (auto simp: acquire_insert_def Let_def)
    then have "pn_resolved (pm_states m r)"
      using that f by (simp add: observeLocked_def Let_def pane_frame_def split: if_splits)
    then have "remembers (fst ?s) t u" using assms(2,3) f by (simp add: tracks_def remembers_frame)
    then show ?thesis using s by (simp add: observed_baseline observed_applied)
  qed
  show h: "holds m1 p r" using assms(1,2) by (auto simp: acquire_insert_def Let_def)
  show "tracks m1 p t u"
    using 1 h by (auto simp: tracks_def holds_def intro!: remembers_applied)
qed

lemma tracks_same: "tracks m p t u \<Longrightarrow> pn_resolved s = pn_resolved (pm_states m r) \<Longrightarrow> pn_baseline s = pn_baseline (pm_states m r)
   \<Longrightarrow> pn_applied s = pn_applied (pm_states m r) \<Longrightarrow> tracks (upd_pane m r s) p t u"
  using remembers_def [of s t u] remembers_def [of "pm_states m r" t u] by (auto simp: tracks_def)

lemma tracks_undo:
  assumes "holds m p r" and "tracks m p t u"
  shows "tracks (acquire_undo m p r created c lease previous) p t u"
proof -
  define s where "s = (if fmlookup (pn_leases (pm_states m r)) c = Some lease
      then (pm_states m r)\<lparr>pn_leases := (case previous of Some l \<Rightarrow> fmupd c l (pn_leases (pm_states m r)) | None \<Rightarrow> fmdrop c (pn_leases (pm_states m r)))\<rparr>
      else pm_states m r)"
  have "tracks (upd_pane m r s) p t u" using assms(2) by (rule tracks_same) (simp_all add: s_def)
  then show ?thesis using assms(1) by (simp add: acquire_undo_def Let_def flip: s_def)
qed

lemma upd_upd [simp]: "upd_pane (upd_pane m r s) r s' = upd_pane m r s'"
  by (simp add: upd_pane_def)

lemma tracks_acquire_commit:
  assumes "tracks m p t u" and "holds m p r" and "size_ok want"
    and "pn_resolved (pm_states m r) \<Longrightarrow> pn_baseline (pm_states m r) = u"
  shows "tracks (acquire_commit m r t want now now2) p
    (now_sized t (if snd (resized t want) then Some (fst (resized t want)) else None)) u"
proof -
  define s where "s = commitLocked (pm_states m r) t want now"
  define s2 where "s2 = fst (removeExpiredLocked s now2)"
  have f: "pane_frame s s2" unfolding s2_def by (rule frame_expired)
  note T = tracks_commit [OF assms, where now = now, folded s_def]
  have "tracks (upd_pane (upd_pane m r s) r x) p (now_sized t (if snd (resized t want) then Some (fst (resized t want)) else None)) u"
    if "pn_resolved x = pn_resolved s2" "pn_baseline x = pn_baseline s2" "pn_applied x = pn_applied s2" for x
    by (rule tracks_same [OF T]) (use that f in \<open>simp_all add: pane_frame_def\<close>)
  then show ?thesis by (simp add: acquire_commit_def Let_def flip: s_def s2_def)
qed

lemma tracks_acquire_sized:
  assumes M: "manager_ok m" and y: "yields p (ac_during_write io)" and "\<And>x. lease_ok \<lparr>ls_Columns = columns, ls_Rows = rows, ls_ExpiresAt = x\<rparr>"
    and h: "holds m p r" and T: "tracks m p t u" and "created \<Longrightarrow> sizeOf t = u"
    and eq: "acquire_sized m io c p columns rows r created identity t = (m', res, written)"
  shows "tracks m' p (now_sized t written) u"
proof (cases "ac_cancelled_insert io \<or> ac_deadline_insert io")
  case True
  then show ?thesis using eq T h by (auto simp: acquire_sized_def)
next
  case False
  define lease where "lease = \<lparr>ls_Columns = columns, ls_Rows = rows, ls_ExpiresAt = ac_now io + pm_ttl m\<rparr>"
  obtain m1 want where ins: "acquire_insert m r created identity t c lease (ac_now io) = (m1, want)" by fastforce
  note I = acquire_insert_ok [OF M assms(3) [of "ac_now io + pm_ttl m", folded lease_def] ins]
  note J = inserted_pane [OF ins h T assms(6)]
  define m2 where "m2 = ac_during_write io m1"
  have f: "pane_frame (pm_states m1 r) (pm_states m2 r)" and h2: "holds m2 p r"
    using yieldsD [OF y J(2)] by (simp_all add: m2_def)
  have t2: "tracks m2 p t u" unfolding m2_def by (rule tracks_yields [OF y J(3)])
  have "pn_resolved (pm_states m2 r) \<Longrightarrow> pn_baseline (pm_states m2 r) = u" using J(1) f by (simp add: pane_frame_def)
  note C = tracks_acquire_commit [OF t2 h2 I(5) this, of "ac_now io" "ac_now_commit io"]
  note eq' = eq [unfolded acquire_sized_def Let_def if_not_P [OF False] lease_def [symmetric] ins case_prod_beta fst_conv snd_conv, folded m2_def]
  show ?thesis
  proof (cases "snd (resized t want) \<and> \<not> to_set (ac_terminal io)")
    case True
    then show ?thesis using eq' tracks_undo [OF h2 t2] by auto
  next
    case False
    note eq' [unfolded if_not_P [OF False], THEN sym]
    then show ?thesis using C by auto
  qed
qed

definition user_size :: "size_manager \<Rightarrow> string \<Rightarrow> Winsize \<Rightarrow> pane_size \<Rightarrow> pane_size" where
  "user_size m p t u = (case fmlookup (pm_panes m) p of None \<Rightarrow> sizeOf t | Some r \<Rightarrow> u)"

lemma tracks_Acquire:
  assumes M: "manager_ok m" and io: "acquire_calm p io" and see: "sees (ac_terminal io) t" and T: "tracks m p t u"
    and eq: "Acquire m io c p columns rows = (m', res, written)"
  shows "tracks m' p (now_sized t written) (user_size m p t u)"
proof -
  let ?u = "user_size m p t u"
  have T0: "tracks m p t ?u" using T by (auto simp: user_size_def tracks_def holds_def split: option.splits)
  have y: "list_all (yields p) (ac_waits io)" "yields p (ac_during_lookup io)" "yields p (ac_during_write io)"
    using io by (simp_all add: acquire_calm_def)
  obtain m1 lock where L: "lockPane m p (ac_waits io) = (m1, lock)" by fastforce
  note K = lock_calm [OF y(1) T0 L]
  define m2 where "m2 = ac_during_lookup io m1"
  have t2: "tracks m2 p t ?u" unfolding m2_def by (rule tracks_yields [OF y(2) K(1)])
  have m1: "manager_ok m1" using ok_lockPane [OF M, of "ac_waits io" p] L acquire_calm_ok [OF io] by (simp add: acquire_io_ok_def)
  have m2: "manager_ok m2" using y(2) m1 by (simp add: m2_def yields_def keepsD)
  show ?thesis
  proof (cases "written = None \<and> (m' = m \<or> m' = m1 \<or> m' = m2 \<or> (\<exists>r created. lock = Inr (r, created) \<and> m' = dropLocked m2 p r))")
    case True
    moreover have "lock = Inr (r, created) \<Longrightarrow> holds m2 p r" for r created
      using lockPane_holds L yieldsD(1) [OF y(2)] by (auto simp: m2_def)
    ultimately show ?thesis using T0 K(1) t2 by auto
  next
    case False
    obtain r created identity where
      g: "MinColumns \<le> columns" "columns \<le> MaxColumns" "rows = 0 \<or> MinRows \<le> rows \<and> rows \<le> MaxRows"
      and lock: "lock = Inr (r, created)" and S: "acquire_sized m2 io c p columns rows r created identity t = (m', res, written)"
      using eq False see L
      by (auto simp: Acquire_def Let_def not_less sees_def simp flip: m2_def split: if_splits sum.splits option.splits prod.splits)
    have h2: "holds m2 p r" using lockPane_holds L lock yieldsD(1) [OF y(2)] by (auto simp: m2_def)
    have "lease_ok \<lparr>ls_Columns = columns, ls_Rows = rows, ls_ExpiresAt = x\<rparr>" for x using g by (auto simp: lease_ok_def)
    moreover have "created \<Longrightarrow> sizeOf t = ?u" using K(2) [OF lock] by (simp add: user_size_def)
    ultimately show ?thesis using tracks_acquire_sized [OF m2 y(3) _ h2 t2 _ S] by blast
  qed
qed

subsection \<open>Operations on other panes\<close>

text \<open>One visit of a sweep.\<close>

definition sweep_visit :: "(string \<Rightarrow> settle_io) \<Rightarrow> string \<times> nat \<times> sweep_work \<Rightarrow> size_manager \<Rightarrow> size_manager \<times> Winsize option" where
  "sweep_visit io = (\<lambda>(p, r, work) m. let m0 = st_before (io p) m in
     if \<not> st_locked (io p) then (m0, None)
     else case work of
            CleanupWork generation \<Rightarrow> attemptCleanup m0 (st_cleanup (io p)) p r generation
          | ReconcileWork \<Rightarrow> reconcileActive m0 (st_cleanup (io p)) p r)"

text \<open>
  What work on other panes leaves alone: a property of the manager that changes during a calm
  operation on \<open>p\<close>, and updating or dropping another pane, keep, is kept by every operation on
  another pane.
\<close>

locale undisturbed =
  fixes p :: string and P :: "size_manager \<Rightarrow> bool"
  assumes ok: "P m \<Longrightarrow> manager_ok m"
    and calm: "yields p f \<Longrightarrow> P m \<Longrightarrow> P (f m)"
    and upd: "q \<noteq> p \<Longrightarrow> P m \<Longrightarrow> holds m q r \<Longrightarrow> pane_ok s \<Longrightarrow> P (upd_pane m r s)"
    and drop: "q \<noteq> p \<Longrightarrow> P m \<Longrightarrow> holds m q r \<Longrightarrow> yields p f \<Longrightarrow> P (dropLocked (f m) q r)"
begin

lemma drop_now: "q \<noteq> p \<Longrightarrow> P m \<Longrightarrow> holds m q r \<Longrightarrow> P (dropLocked m q r)"
  using drop [of q m r "\<lambda>m. m"] by simp

lemma outcome_other: "q \<noteq> p \<Longrightarrow> P m \<Longrightarrow> P (cleanup_outcome m q r g serial now err)"
proof -
  assume q: "q \<noteq> p" and P: "P m"
  have "pn_cleanup (pm_states m r) = Some c \<Longrightarrow> t < cl_deadline c \<Longrightarrow>
      pane_ok ((pm_states m r)\<lparr>pn_cleanup := Some (c\<lparr>cl_next := t\<rparr>)\<rparr>)" for c t
    using ok_pane [OF ok [OF P], of r] by (auto simp: pane_ok_def cleanup_ok_def)
  then show ?thesis
    using P drop_now [OF q P, of r] upd [OF q P, of r] by (auto simp: cleanup_outcome_def Let_def split: option.splits)
qed

lemma attempt_other: "q \<noteq> p \<Longrightarrow> cleanup_calm p io \<Longrightarrow> P m \<Longrightarrow> P (fst (attemptCleanup m io q r g))"
proof -
  assume q: "q \<noteq> p" and io: "cleanup_calm p io" and P: "P m"
  obtain m' written where eq: "attemptCleanup m io q r g = (m', written)" by fastforce
  then have "P m'"
  proof (cases rule: attempt_cases)
    case exhausted
    then show ?thesis using drop_now [OF q P] by simp
  next
    case (tried c err)
    have "pane_ok ((pm_states m r)\<lparr>pn_cleanup := Some (c\<lparr>cl_attempts := cl_attempts c + 1\<rparr>)\<rparr>)"
      using ok_pane [OF ok [OF P], of r] tried(1,7) by (auto simp: pane_ok_def cleanup_ok_def)
    then have "P (attempt_started m io r c)"
      unfolding attempt_started_def using io upd [OF q P tried(2)] by (auto simp: cleanup_calm_def intro: calm)
    then show ?thesis using outcome_other [OF q] tried(6) by simp
  qed (use P in simp)
  with eq show ?thesis by simp
qed

lemma reconcile_apply_other:
  assumes q: "q \<noteq> p" and y: "yields p (ci_during_write io)" and P: "P m"
  shows "P (fst (reconcile_apply m io q r current))"
proof -
  obtain m' written where eq: "reconcile_apply m io q r current = (m', written)" by fastforce
  define s where "s = observeLocked (pm_states m r) current"
  define m3 where "m3 = ci_during_write io (upd_pane m r s)"
  have s: "pane_ok s" using ok [OF P] by (simp add: s_def ok_pane pane_ok_steps)
  then have P3: "holds m q r \<Longrightarrow> P m3" unfolding m3_def using calm [OF y] upd [OF q P] by blast
  from eq s_def refl m3_def have "P m'"
  proof (cases rule: reconcile_apply_cases)
    case applied
    then have "pane_ok (commitLocked (pm_states m3 r) current (leaseTargetLocked s current) (ci_now io))"
      using ok_pane [OF ok [OF P3]] leaseTarget_ok(3) [OF s] by (simp add: pane_ok_commit)
    with applied show ?thesis using P3 upd [OF q P3, of r] by simp
  qed (use P P3 in simp_all)
  with eq show ?thesis by simp
qed

lemma reconcile_other:
  assumes q: "q \<noteq> p" and io: "cleanup_calm p io" and P: "P m"
  shows "P (fst (reconcileActive m io q r))"
proof -
  have y: "yields p (ci_during io)" "yields p (ci_during_write io)" using io by (simp_all add: cleanup_calm_def)
  note P1 = calm [OF y(1) P]
  show ?thesis
    using P P1 reconcile_apply_other [OF q y(2) P1] drop [OF q P _ y(1)]
    by (auto simp: reconcileActive_def split: sum.splits option.splits)
qed

lemma settle_other:
  assumes q: "q \<noteq> p" and io: "cleanup_calm p io" and P: "P m"
  shows "P (fst (settle m locked now io q r))"
proof -
  define s where "s = fst (removeExpiredLocked (pm_states m r) now)"
  obtain s' g where b: "beginCleanupLocked s now = (s', g)" by fastforce
  have s: "pane_ok s" "pane_ok s'"
    using pane_ok_expired [OF ok_pane [OF ok [OF P]], of r now] pane_ok_begin [of s now] b by (simp_all add: s_def)
  show ?thesis
    using P b upd [OF q P _ s(1)] attempt_other [OF q io upd [OF q P _ s(2)]] reconcile_other [OF q io upd [OF q P _ s(1)]]
    by (simp add: settle_def Let_def flip: s_def)
qed

lemma sweep_visit_other:
  assumes "fst x \<noteq> p" and "\<And>q. settle_calm p (ios q)" and "P m"
  shows "P (fst (sweep_visit ios x m))"
proof -
  have "P (st_before (ios (fst x)) m)" "cleanup_calm p (st_cleanup (ios (fst x)))"
    using assms(2) [of "fst x"] assms(3) by (auto simp: settle_calm_def intro: calm)
  then show ?thesis
    using assms(1) by (auto simp: sweep_visit_def Let_def attempt_other reconcile_other split: prod.splits sweep_work.splits)
qed

end

interpretation tracking: undisturbed p "\<lambda>m. manager_ok m \<and> tracks m p t u" for p t u
proof
  fix q m r s assume q: "q \<noteq> p" and P: "manager_ok m \<and> tracks m p t u" and h: "holds m q r"
  have "\<not> holds m p r" using q P h by (auto simp: manager_ok_def holds_def)
  then show "pane_ok s \<Longrightarrow> manager_ok (upd_pane m r s) \<and> tracks (upd_pane m r s) p t u"
    using P by (auto simp: ok_upd intro: tracks_upd)
  fix f assume y: "yields p f"
  have "manager_ok (f m)" "tracks (f m) p t u" using y P by (simp_all add: yields_def keepsD tracks_yields [OF y])
  moreover from this have "tracks (dropLocked (f m) q r) p t u"
    unfolding dropLocked_def Let_def by (intro tracks_same) (use q in \<open>auto simp: tracks_def holds_def\<close>)
  ultimately show "manager_ok (dropLocked (f m) q r) \<and> tracks (dropLocked (f m) q r) p t u" by (simp add: ok_drop)
qed (auto simp: yields_def keepsD tracks_yields)

subsection \<open>Operations on several panes\<close>

lemma calm_ok: "settle_calm p io \<Longrightarrow> settle_io_ok io"
  by (simp add: settle_calm_def settle_io_ok_def cleanup_calm_def cleanup_io_ok_def yields_def)

text \<open>Both loops over panes visit each pane once and collect what is written to its terminal.\<close>

fun visit_all :: "('x \<Rightarrow> string) \<Rightarrow> ('x \<Rightarrow> size_manager \<Rightarrow> size_manager \<times> Winsize option) \<Rightarrow> 'x list \<Rightarrow> size_manager
     \<Rightarrow> size_manager \<times> (string \<times> Winsize) list" where
  "visit_all name visit [] m = (m, [])"
| "visit_all name visit (x # xs) m =
     (let (m1, written) = visit x m; (m2, ws) = visit_all name visit xs m1
      in (m2, (case written of Some w \<Rightarrow> (name x, w) # ws | None \<Rightarrow> ws)))"

lemma settle_all_visits:
  "settle_all io ps m = visit_all fst (\<lambda>(p, r) m. settle (st_before (io p) m) (st_locked (io p)) (st_now (io p)) (st_cleanup (io p)) p r) ps m"
  by (induction ps arbitrary: m) (auto split: prod.splits option.splits)

lemma sweep_all_visits: "sweep_all io ps m = visit_all fst (sweep_visit io) ps m"
proof (induction io ps m rule: sweep_all.induct)
  case (2 io p r work ps m)
  then show ?case
    unfolding sweep_all.simps visit_all.simps by (auto simp: sweep_visit_def Let_def split: prod.splits sweep_work.splits if_splits option.splits)
qed simp

definition visits_track :: "('x \<Rightarrow> string) \<Rightarrow> ('x \<Rightarrow> size_manager \<Rightarrow> size_manager \<times> Winsize option) \<Rightarrow> string \<Rightarrow> Winsize \<Rightarrow> pane_size \<Rightarrow> bool" where
  "visits_track name visit p t u \<longleftrightarrow> (\<forall>x m. manager_ok m \<longrightarrow> manager_ok (fst (visit x m))
     \<and> (\<forall>v. name x \<noteq> p \<longrightarrow> tracks m p v u \<longrightarrow> tracks (fst (visit x m)) p v u)
     \<and> (name x = p \<longrightarrow> tracks m p t u \<longrightarrow> tracks (fst (visit x m)) p (now_sized t (snd (visit x m))) u))"

lemma visit_all_other: "visits_track name visit p t u \<Longrightarrow> p \<notin> name ` set xs \<Longrightarrow> manager_ok m \<Longrightarrow> tracks m p v u
   \<Longrightarrow> visit_all name visit xs m = (m', ws) \<Longrightarrow> tracks m' p v u \<and> map_of ws p = None"
proof (induction xs arbitrary: m m' ws)
  case (Cons x xs)
  obtain m1 written where v: "visit x m = (m1, written)" by fastforce
  obtain m2 ws2 where r: "visit_all name visit xs m1 = (m2, ws2)" by fastforce
  have "manager_ok (fst (visit x m)) \<and> tracks (fst (visit x m)) p v u"
    using Cons.prems(1-4) by (auto simp: visits_track_def)
  then show ?case using Cons.IH [OF Cons.prems(1) _ _ _ r] Cons.prems(2,5) v r by (auto split: option.splits)
qed simp

lemma visit_all_tracks: "visits_track name visit p t u \<Longrightarrow> distinct (map name xs) \<Longrightarrow> manager_ok m \<Longrightarrow> tracks m p t u
   \<Longrightarrow> visit_all name visit xs m = (m', ws) \<Longrightarrow> tracks m' p (now_sized t (map_of ws p)) u"
proof (induction xs arbitrary: m m' ws)
  case (Cons x xs)
  obtain m1 written where v: "visit x m = (m1, written)" by fastforce
  obtain m2 ws2 where r: "visit_all name visit xs m1 = (m2, ws2)" by fastforce
  note V = Cons.prems(1) [unfolded visits_track_def, rule_format, OF Cons.prems(3), of x, unfolded v fst_conv snd_conv]
  have m1: "manager_ok m1" using V by simp
  show ?case
  proof (cases "name x = p")
    case True
    then have "tracks m2 p (now_sized t written) u \<and> map_of ws2 p = None"
      using visit_all_other [OF Cons.prems(1) _ m1 _ r, of "now_sized t written"] V Cons.prems(2,4) by simp
    then show ?thesis using Cons.prems(5) v r True by (auto split: option.splits)
  next
    case False
    then have "tracks m2 p (now_sized t (map_of ws2 p)) u"
      using Cons.IH [OF Cons.prems(1) _ m1 _ r] V Cons.prems(2,4) by simp
    then show ?thesis using Cons.prems(5) v r False by (auto split: option.splits)
  qed
qed simp

definition calm_ios :: "string \<Rightarrow> Winsize \<Rightarrow> (string \<Rightarrow> settle_io) \<Rightarrow> bool" where
  "calm_ios p t ios \<longleftrightarrow> (\<forall>q. settle_calm p (ios q)) \<and> sees (ci_terminal (st_cleanup (ios p))) t"

lemma visit_before: "settle_calm p io \<Longrightarrow> manager_ok m \<Longrightarrow> manager_ok (st_before io m)"
    "settle_calm p io \<Longrightarrow> tracks m p t u \<Longrightarrow> tracks (st_before io m) p t u"
    "settle_calm p io \<Longrightarrow> cleanup_calm p (st_cleanup io)" "settle_calm p io \<Longrightarrow> cleanup_io_ok (st_cleanup io)"
  using calm_ok by (auto simp: settle_calm_def settle_io_ok_def keepsD intro: tracks_yields)

lemma settle_visits:
  assumes "calm_ios p t ios"
  shows "visits_track fst (\<lambda>(p, r) m. settle (st_before (ios p) m) (st_locked (ios p)) (st_now (ios p)) (st_cleanup (ios p)) p r) p t u"
proof -
  have c: "settle_calm p (ios q)" "sees (ci_terminal (st_cleanup (ios p))) t" for q using assms by (simp_all add: calm_ios_def)
  note b = visit_before [OF c(1)]
  show ?thesis
    unfolding visits_track_def
    using b tracks_settle [OF b(3) b(1) c(2) b(2) prod.collapse [symmetric]] tracking.settle_other [of _ p] by (auto simp: ok_settle)
qed

lemma sweep_visits:
  assumes "calm_ios p t ios"
  shows "visits_track fst (sweep_visit ios) p t u"
proof -
  have c: "settle_calm p (ios q)" "sees (ci_terminal (st_cleanup (ios p))) t" for q using assms by (simp_all add: calm_ios_def)
  note b = visit_before [OF c(1)]
  show ?thesis
    unfolding visits_track_def
    using b tracks_attempt [OF b(3) b(2) prod.collapse [symmetric]] tracks_reconcile [OF b(3) b(1) c(2) b(2) prod.collapse [symmetric]]
      tracking.attempt_other [of _ p] tracking.reconcile_other [of _ p]
    by (auto simp: sweep_visit_def Let_def ok_attempt ok_reconcile split: sweep_work.splits)
qed

lemma distinct_panes: "distinct (map fst (sorted_list_of_fmap m))"
proof -
  have "map fst (sorted_list_of_fmap m) = sorted_list_of_fset (fmdom m)" by (simp add: sorted_list_of_fmap_def comp_def)
  then show ?thesis by (simp add: sorted_list_of_fset.rep_eq)
qed

lemma scan_names:
  assumes "\<And>x m xs. snd (scan x (m, xs)) = xs \<or> (\<exists>w. snd (scan x (m, xs)) = xs @ [(fst x, w)])"
  shows "distinct (map fst xs @ map fst ps) \<Longrightarrow> distinct (map fst (snd (fold scan ps (m, xs))))"
proof (induction ps arbitrary: m xs)
  case (Cons a ps)
  obtain m' xs' where s: "scan a (m, xs) = (m', xs')" by fastforce
  have "xs' = xs \<or> (\<exists>w. xs' = xs @ [(fst a, w)])" using assms [of a m xs] s by simp
  moreover have "set (map fst xs) \<inter> set (map fst ps) = {}" "fst a \<notin> set (map fst ps)" "fst a \<notin> set (map fst xs)"
    using Cons.prems by auto
  ultimately have "distinct (map fst xs' @ map fst ps)" using Cons.prems by (auto simp del: set_map)
  then show ?case using Cons.IH [of xs' m'] s by simp
qed simp

lemma scan_tracks:
  assumes "\<And>x m xs. tracks m p t u \<Longrightarrow> tracks (fst (scan x (m, xs))) p t u"
  shows "tracks m p t u \<Longrightarrow> tracks (fst (fold scan ps (m, xs))) p t u"
proof (induction ps arbitrary: m xs)
  case (Cons a ps)
  obtain m' xs' where s: "scan a (m, xs) = (m', xs')" by fastforce
  then show ?case using Cons.IH [of m' xs'] assms [OF Cons.prems, of a xs] by simp
qed simp

lemma release_scan_step: "snd (release_scan now c x (m, xs)) = xs \<or> (\<exists>w. snd (release_scan now c x (m, xs)) = xs @ [(fst x, w)])"
    "tracks m p t u \<Longrightarrow> tracks (fst (release_scan now c x (m, xs))) p t u"
  by (auto simp: release_scan_def tracks_frame frame_disconnect split: prod.splits)

lemma sweep_scan_step: "snd (sweep_scan now x (m, xs)) = xs \<or> (\<exists>w. snd (sweep_scan now x (m, xs)) = xs @ [(fst x, w)])"
    "tracks m p t u \<Longrightarrow> tracks (fst (sweep_scan now x (m, xs))) p t u"
  using frame_sweep [of "pm_states m (snd x)" now]
  by (auto simp: sweep_scan_def tracks_frame split: prod.splits option.splits)

lemma tracks_ReleaseClient:
  assumes "calm_ios p t ios" and M: "manager_ok m" and T: "tracks m p t u" and "ReleaseClient m now ios c = (m', err, ws)"
  shows "tracks m' p (now_sized t (map_of ws p)) u"
proof -
  obtain m1 xs where f: "fold (release_scan now c) (sorted_list_of_fmap (pm_panes m)) (m, []) = (m1, xs)" by fastforce
  have "distinct (map fst xs)"
    using scan_names [of "release_scan now c" "[]", OF release_scan_step(1), of "sorted_list_of_fmap (pm_panes m)" m] distinct_panes [of "pm_panes m"] f by simp
  moreover have "manager_ok m1" using ok_scan [of "release_scan now c", OF ok_release_scan M, of _ "[]"] f by (metis fst_conv)
  moreover have "tracks m1 p t u"
    using scan_tracks [of p t u "release_scan now c", OF release_scan_step(2) T, of "sorted_list_of_fmap (pm_panes m)" "[]"] f by simp
  ultimately have "settle_all ios xs m1 = (m2, ws2) \<Longrightarrow> tracks m2 p (now_sized t (map_of ws2 p)) u" for m2 ws2
    using visit_all_tracks [OF settle_visits [OF assms(1)]] by (simp add: settle_all_visits)
  with assms(4) T f show ?thesis by (auto simp: ReleaseClient_def split: if_splits prod.splits)
qed

lemma tracks_SweepExpired:
  assumes "calm_ios p t ios" and M: "manager_ok m" and T: "tracks m p t u" and "SweepExpired m now ios = (m', ws)"
  shows "tracks m' p (now_sized t (map_of ws p)) u"
proof -
  obtain m1 xs where f: "fold (sweep_scan now) (sorted_list_of_fmap (pm_panes m)) (m, []) = (m1, xs)" by fastforce
  have "distinct (map fst xs)"
    using scan_names [of "sweep_scan now" "[]", OF sweep_scan_step(1), of "sorted_list_of_fmap (pm_panes m)" m] distinct_panes [of "pm_panes m"] f by simp
  moreover have "manager_ok m1" using ok_scan [of "sweep_scan now", OF ok_sweep_scan M, of _ "[]"] f by (metis fst_conv)
  moreover have "tracks m1 p t u"
    using scan_tracks [of p t u "sweep_scan now", OF sweep_scan_step(2) T, of "sorted_list_of_fmap (pm_panes m)" "[]"] f by simp
  ultimately have "sweep_all ios xs m1 = (m2, ws2) \<Longrightarrow> tracks m2 p (now_sized t (map_of ws2 p)) u" for m2 ws2
    using visit_all_tracks [OF sweep_visits [OF assms(1)]] by (simp add: sweep_all_visits)
  with assms(4) T f show ?thesis by (auto simp: SweepExpired_def split: if_splits prod.splits)
qed

lemma tracks_Release:
  assumes "settle_calm p io" and "sees (ci_terminal (st_cleanup io)) t" and M: "manager_ok m" and T: "tracks m p t u"
    and eq: "Release m now io c p immediate = (m', err, written)"
  shows "tracks m' p (now_sized t written) u"
proof (cases "fmlookup (pm_panes m) p")
  case None
  then show ?thesis using T eq by (auto simp: Release_def split: if_splits)
next
  case (Some r)
  obtain s ended where s: "release_lease (pm_states m r) now (pm_grace m) c immediate = (s, ended)" by fastforce
  have f: "pane_frame (pm_states m r) s" "pane_ok s"
    using frame_release [of "pm_states m r" now "pm_grace m" c immediate] pane_ok_release [OF ok_pane [OF M], of r now "pm_grace m" c immediate] s by simp_all
  have t1: "tracks (upd_pane m r s) p t u" and m1: "manager_ok (upd_pane m r s)"
    using T M f by (simp_all add: tracks_frame ok_upd)
  note b = visit_before [OF assms(1)]
  show ?thesis
    using T t1 eq Some s tracks_settle [OF b(3) b(1) [OF m1] assms(2) b(2) [OF t1]]
    by (auto simp: Release_def Let_def split: if_splits prod.splits)
qed

subsection \<open>Runs with a terminal\<close>

text \<open>
  A run of the operations on the terminal of pane \<open>p\<close>: the manager, the terminal's size, the user's
  size and whether the manager has lost it. The user's size is changed by the user alone. A resize by
  the user happens between the operations (not between the read and the write of one) and changes a
  dimension to a value other than the one the lease applied: a change back to the applied value is
  not distinguishable from it. The manager has lost the user's size once it knows nothing of the
  pane while the terminal does not have that size, as after a cleanup that was given up.
\<close>

definition lost :: "string \<Rightarrow> size_manager \<Rightarrow> Winsize \<Rightarrow> pane_size \<Rightarrow> bool" where
  "lost p m t u \<longleftrightarrow> fmlookup (pm_panes m) p = None \<and> sizeOf t \<noteq> u"

definition resized_by_user :: "Winsize \<Rightarrow> Winsize \<Rightarrow> pane_size \<Rightarrow> pane_size" where
  "resized_by_user t t' u = \<lparr>sz_columns = (if ws_Columns t' = ws_Columns t then sz_columns u else uint (ws_Columns t')),
     sz_rows = (if ws_Rows t' = ws_Rows t then sz_rows u else uint (ws_Rows t'))\<rparr>"

type_synonym pane_run = "size_manager \<times> Winsize \<times> pane_size \<times> bool"

definition after :: "string \<Rightarrow> size_manager \<Rightarrow> Winsize \<Rightarrow> pane_size \<Rightarrow> bool \<Rightarrow> pane_run" where
  "after p m t u was_lost = (m, t, u, was_lost \<or> lost p m t u)"

inductive terminal_step :: "string \<Rightarrow> pane_run \<Rightarrow> pane_run \<Rightarrow> bool" for p where
  acquire: "acquire_calm p io \<Longrightarrow> sees (ac_terminal io) t \<Longrightarrow> Acquire m io c p columns rows = (m', res, written) \<Longrightarrow>
     terminal_step p (m, t, u, x) (after p m' (now_sized t written) u x)"
| release: "settle_calm p sio \<Longrightarrow> sees (ci_terminal (st_cleanup sio)) t \<Longrightarrow> Release m now sio c p immediate = (m', err, written) \<Longrightarrow>
     terminal_step p (m, t, u, x) (after p m' (now_sized t written) u x)"
| disconnect: "calm_ios p t ios \<Longrightarrow> ReleaseClient m now ios c = (m', err, ws) \<Longrightarrow> terminal_step p (m, t, u, x) (after p m' (now_sized t (map_of ws p)) u x)"
| sweep: "calm_ios p t ios \<Longrightarrow> SweepExpired m now ios = (m', ws) \<Longrightarrow> terminal_step p (m, t, u, x) (after p m' (now_sized t (map_of ws p)) u x)"
| user: "(\<And>r. holds m p r \<Longrightarrow> (ws_Columns t' \<noteq> ws_Columns t \<longrightarrow> uint (ws_Columns t') \<noteq> sz_columns (pn_applied (pm_states m r)))
              \<and> (ws_Rows t' \<noteq> ws_Rows t \<longrightarrow> uint (ws_Rows t') \<noteq> sz_rows (pn_applied (pm_states m r)))) \<Longrightarrow>
     terminal_step p (m, t, u, x) (after p m t' (resized_by_user t t' u) x)"

lemma tracks_user:
  assumes "tracks m p t u" and "\<And>r. holds m p r \<Longrightarrow> (ws_Columns t' \<noteq> ws_Columns t \<longrightarrow> uint (ws_Columns t') \<noteq> sz_columns (pn_applied (pm_states m r)))
              \<and> (ws_Rows t' \<noteq> ws_Rows t \<longrightarrow> uint (ws_Rows t') \<noteq> sz_rows (pn_applied (pm_states m r)))"
  shows "tracks m p t' (resized_by_user t t' u)"
  unfolding tracks_def
proof (intro allI impI)
  fix r assume h: "holds m p r" and "pn_resolved (pm_states m r)"
  then have "remembers (pm_states m r) t u" using assms(1) by (simp add: tracks_def)
  with assms(2) [OF h] show "remembers (pm_states m r) t' (resized_by_user t t' u)"
    by (auto simp: remembers_def resized_by_user_def split: if_splits)
qed

text \<open>Until the user's size is lost it is tracked, and it is the terminal's size while the pane is unknown.\<close>

definition run_tracks :: "string \<Rightarrow> pane_run \<Rightarrow> bool" where
  "run_tracks p st \<longleftrightarrow> (case st of (m, t, u, x) \<Rightarrow> manager_ok m \<and> (\<not> x \<longrightarrow> tracks m p t u \<and> \<not> lost p m t u))"

lemma run_tracks_after: "manager_ok m' \<Longrightarrow> (\<not> x \<Longrightarrow> tracks m' p t' u') \<Longrightarrow> run_tracks p (after p m' t' u' x)"
  by (simp add: run_tracks_def after_def)

lemma run_tracksD: "run_tracks p (m, t, u, x) \<Longrightarrow> manager_ok m" "run_tracks p (m, t, u, x) \<Longrightarrow> \<not> x \<Longrightarrow> tracks m p t u"
    "run_tracks p (m, t, u, x) \<Longrightarrow> \<not> x \<Longrightarrow> user_size m p t u = u"
  by (auto simp: run_tracks_def lost_def user_size_def split: option.split)

lemma terminal_step_keeps: "terminal_step p a b \<Longrightarrow> run_tracks p a \<Longrightarrow> run_tracks p b"
proof (induction rule: terminal_step.induct)
  case (acquire io t m c columns rows m' res written u x)
  show ?case
  proof (rule run_tracks_after)
    have "manager_ok (fst (Acquire m io c p columns rows))" by (rule ok_Acquire [OF run_tracksD(1) [OF acquire(4)] acquire_calm_ok [OF acquire(1)]])
    then show "manager_ok m'" by (simp add: acquire(3))
    assume "\<not> x"
    then show "tracks m' p (now_sized t written) u"
      using tracks_Acquire [OF run_tracksD(1) [OF acquire(4)] acquire(1,2) run_tracksD(2) [OF acquire(4)] acquire(3)] run_tracksD(3) [OF acquire(4)] by simp
  qed
next
  case (release sio t m now c immediate m' err written u x)
  show ?case
  proof (rule run_tracks_after)
    have "manager_ok (fst (Release m now sio c p immediate))" by (rule ok_Release [OF run_tracksD(1) [OF release(4)] calm_ok [OF release(1)]])
    then show "manager_ok m'" by (simp add: release(3))
    assume "\<not> x"
    then show "tracks m' p (now_sized t written) u"
      using tracks_Release [OF release(1,2) run_tracksD(1) [OF release(4)] run_tracksD(2) [OF release(4)] release(3)] by simp
  qed
next
  case (disconnect t ios m now c m' err ws u x)
  then have io: "settle_io_ok (ios q)" for q using calm_ok by (auto simp: calm_ios_def)
  show ?case
  proof (rule run_tracks_after)
    have "manager_ok (fst (ReleaseClient m now ios c))" by (rule ok_ReleaseClient [OF run_tracksD(1) [OF disconnect(3)] io])
    then show "manager_ok m'" by (simp add: disconnect(2))
    assume "\<not> x"
    then show "tracks m' p (now_sized t (map_of ws p)) u"
      using tracks_ReleaseClient [OF disconnect(1) run_tracksD(1) [OF disconnect(3)] run_tracksD(2) [OF disconnect(3)] disconnect(2)] by simp
  qed
next
  case (sweep t ios m now m' ws u x)
  then have io: "settle_io_ok (ios q)" for q using calm_ok by (auto simp: calm_ios_def)
  show ?case
  proof (rule run_tracks_after)
    have "manager_ok (fst (SweepExpired m now ios))" by (rule ok_SweepExpired [OF run_tracksD(1) [OF sweep(3)] io])
    then show "manager_ok m'" by (simp add: sweep(2))
    assume "\<not> x"
    then show "tracks m' p (now_sized t (map_of ws p)) u"
      using tracks_SweepExpired [OF sweep(1) run_tracksD(1) [OF sweep(3)] run_tracksD(2) [OF sweep(3)] sweep(2)] by simp
  qed
next
  case (user m t' t u x)
  show ?case
    by (rule run_tracks_after) (use run_tracksD(1,2) [OF user(2)] tracks_user [OF _ user(1)] in auto)
qed

lemma terminal_run_keeps: "(terminal_step p)\<^sup>*\<^sup>* a b \<Longrightarrow> run_tracks p a \<Longrightarrow> run_tracks p b"
  by (induction rule: rtranclp_induct) (blast dest: terminal_step_keeps)+

lemma tracks_new [simp]: "tracks (newSizeManager ttl grace) p t u"
  by (simp add: tracks_def holds_def newSizeManager_def)

section \<open>The end of every cleanup\<close>

text \<open>A pane without leases whose cleanup is pending, and a pane no longer tracked.\<close>

definition awaits :: "string \<Rightarrow> nat \<Rightarrow> cleanupState \<Rightarrow> size_manager \<Rightarrow> bool" where
  "awaits p r c m \<longleftrightarrow> manager_ok m \<and> holds m p r \<and> pn_cleanup (pm_states m r) = Some c \<and> pn_leases (pm_states m r) = fmempty"

definition forgotten :: "string \<Rightarrow> size_manager \<Rightarrow> bool" where
  "forgotten p m \<longleftrightarrow> manager_ok m \<and> fmlookup (pm_panes m) p = None"

lemma awaits_yields: "yields p f \<Longrightarrow> awaits p r c m \<Longrightarrow> awaits p r c (f m)"
  using yieldsD [of p f m r] by (fastforce simp: awaits_def yields_def keepsD pane_frame_def leases_end_def fmempty_iff)

lemma awaits_drop: "awaits p r c m \<Longrightarrow> r' \<noteq> r \<Longrightarrow> q \<noteq> p \<Longrightarrow> awaits p r c (dropLocked m q r')"
  by (auto simp: awaits_def ok_drop) (auto simp: dropLocked_def Let_def holds_def upd_pane_def)

interpretation awaiting: undisturbed p "awaits p r c" for p r c
proof
  fix q m r' s assume q: "q \<noteq> p" and P: "awaits p r c m" and h: "holds m q r'"
  then have r: "r' \<noteq> r" by (auto simp: awaits_def manager_ok_def holds_def)
  then show "pane_ok s \<Longrightarrow> awaits p r c (upd_pane m r' s)" using P by (simp add: awaits_def ok_upd)
  show "yields p f \<Longrightarrow> awaits p r c (dropLocked (f m) q r')" for f using awaits_drop [OF awaits_yields [OF _ P] r q] by blast
qed (auto simp: awaits_yields, simp add: awaits_def)

interpretation forgetting: undisturbed p "forgotten p" for p
  by unfold_locales
    (auto simp: forgotten_def yields_def keepsD ok_upd ok_drop, auto simp: dropLocked_def Let_def upd_pane_def)

lemma fst_visit_all: "fst (visit_all name visit (x # xs) m) = fst (visit_all name visit xs (fst (visit x m)))"
  by (simp add: Let_def case_prod_beta)

lemma visit_all_append: "fst (visit_all name visit (xs @ ys) m) = fst (visit_all name visit ys (fst (visit_all name visit xs m)))"
  by (induction xs arbitrary: m) (simp_all add: fst_visit_all del: visit_all.simps(2))

lemma visit_all_keeps: "(\<And>x m. x \<in> set xs \<Longrightarrow> P m \<Longrightarrow> P (fst (visit x m))) \<Longrightarrow> P m \<Longrightarrow> P (fst (visit_all name visit xs m))"
  by (induction xs arbitrary: m) (simp_all add: fst_visit_all del: visit_all.simps(2))

text \<open>A sweep past the deadline of a pending cleanup forgets the pane, whatever its terminal answers.\<close>

lemma sweep_all_forgets:
  assumes "distinct (map fst xs)" and "(p, r, CleanupWork (cl_generation c)) \<in> set xs" and "\<And>q. settle_calm p (ios q)"
    and "st_locked (ios p)" and "cl_deadline c \<le> ci_now (st_cleanup (ios p))" and "awaits p r c m"
  shows "forgotten p (fst (sweep_all ios xs m))"
proof -
  obtain ys zs where xs: "xs = ys @ (p, r, CleanupWork (cl_generation c)) # zs" using assms(2) by (metis split_list)
  have others: "x \<in> set ys \<union> set zs \<Longrightarrow> fst x \<noteq> p" for x using assms(1) xs by force
  define m1 where "m1 = fst (visit_all fst (sweep_visit ios) ys m)"
  have "awaits p r c m1"
    unfolding m1_def by (rule visit_all_keeps) (use others assms(3,6) awaiting.sweep_visit_other in auto)
  then have A: "awaits p r c (st_before (ios p) m1)" (is "awaits p r c ?m0")
    using assms(3) [of p] by (auto simp: settle_calm_def intro: awaits_yields)
  have "cleanup_ok (pm_states ?m0 r) c" using A by (auto simp: awaits_def manager_ok_def pane_ok_def dest!: spec [of _ r])
  then have "attemptCleanup ?m0 (st_cleanup (ios p)) p r (cl_generation c) = (dropLocked ?m0 p r, None)"
    using A assms(5) by (auto simp: attemptCleanup_def awaits_def cleanup_ok_def)
  moreover have "forgotten p (dropLocked ?m0 p r)"
    using A by (auto simp: forgotten_def awaits_def ok_drop) (simp add: dropLocked_def Let_def holds_def upd_pane_def)
  ultimately have F: "forgotten p (fst (sweep_visit ios (p, r, CleanupWork (cl_generation c)) m1))"
    using assms(4) by (simp add: sweep_visit_def Let_def)
  have "forgotten p (fst (visit_all fst (sweep_visit ios) zs (fst (sweep_visit ios (p, r, CleanupWork (cl_generation c)) m1))))"
    by (rule visit_all_keeps) (use others assms(3) forgetting.sweep_visit_other F in auto)
  then show ?thesis by (simp add: sweep_all_visits xs visit_all_append m1_def fst_visit_all del: visit_all.simps(2))
qed

lemma fold_latest: "(\<forall>l\<in>set ls. ls_ExpiresAt l \<le> b) \<Longrightarrow> (a :: time) \<le> b \<Longrightarrow>
   fold (\<lambda>l t. if ls_ExpiresAt l > t then ls_ExpiresAt l else t) ls a \<le> b"
  by (induction ls arbitrary: a) auto

text \<open>The cleanup of a pane whose last lease ended \<open>CleanupBudget\<close> ago is past its deadline.\<close>

lemma sweep_pane_overdue:
  assumes "pane_ok s" and "pn_leases s \<noteq> fmempty \<or> pn_cleanup s \<noteq> None"
    and "\<forall>l\<in>pane_leases s. ls_ExpiresAt l + CleanupBudget \<le> now" and "\<forall>c. pn_cleanup s = Some c \<longrightarrow> cl_deadline c \<le> now"
    and "CleanupBudget \<le> now"
  obtains s' c where "sweep_pane s now = (s', Some (CleanupWork (cl_generation c)))" "pn_cleanup s' = Some c" "pn_leases s' = fmempty"
    "cl_deadline c \<le> now" "pane_ok s'"
proof -
  define expired where "expired = filter (\<lambda>l. \<not> ls_ExpiresAt l > now) (fm_values (pn_leases s))"
  define latest where "latest = fold (\<lambda>l t. if ls_ExpiresAt l > t then ls_ExpiresAt l else t) expired 0"
  have past: "\<not> ls_ExpiresAt l > now" if "l \<in> pane_leases s" for l
    using assms(3) that by (force simp: CleanupBudget_def second_def)
  then have empty: "fm_drop_if (\<lambda>l. \<not> ls_ExpiresAt l > now) (pn_leases s) = fmempty"
    by (auto simp: fmempty_iff pane_leases_def split: option.splits)
  have some: "expired \<noteq> [] \<longleftrightarrow> pn_leases s \<noteq> fmempty"
  proof -
    have "expired = fm_values (pn_leases s)" using past by (auto simp: expired_def set_pane_leases filter_id_conv)
    then have "set expired = pane_leases s" by (simp add: set_pane_leases)
    moreover have "pane_leases s = {} \<longleftrightarrow> pn_leases s = fmempty" by (auto simp: pane_leases_def fmempty_iff) (metis not_Some_eq)
    ultimately show ?thesis by auto
  qed
  have late: "latest + CleanupBudget \<le> now"
  proof -
    have "\<forall>l\<in>set expired. ls_ExpiresAt l \<le> now - CleanupBudget" using assms(3) by (force simp: expired_def set_pane_leases)
    from fold_latest [OF this, of 0] assms(5) show ?thesis by (simp add: latest_def)
  qed
  have R: "removeExpiredLocked s now = (if expired \<noteq> [] then (fst (beginCleanupLocked (s\<lparr>pn_leases := fmempty\<rparr>) latest), True) else (s\<lparr>pn_leases := fmempty\<rparr>, False))"
    using empty by (simp add: removeExpiredLocked_def Let_def latest_def expired_def)
  obtain s' c where s': "fst (removeExpiredLocked s now) = s'" "pn_cleanup s' = Some c" "pn_leases s' = fmempty" "cl_deadline c \<le> now"
    using R assms(2,4) some late by (auto simp: beginCleanupLocked_def split: option.splits if_splits)
  have ok: "pane_ok s'" using pane_ok_expired [OF assms(1), of now] s'(1) by simp
  then have "cl_next c < cl_deadline c" using s'(2) by (simp add: pane_ok_def cleanup_ok_def)
  then have "sweep_pane s now = (s', Some (CleanupWork (cl_generation c)))"
    using s' by (simp add: sweep_pane_def Let_def beginCleanupLocked_def case_prod_beta)
  then show ?thesis using that s' ok by blast
qed

lemma sweep_scan_other:
  assumes "\<forall>x\<in>set xs. snd x \<noteq> r"
  shows "pm_states (fst (fold (sweep_scan now) xs (m, due))) r = pm_states m r"
    and "pm_panes (fst (fold (sweep_scan now) xs (m, due))) = pm_panes m"
    and "set due \<subseteq> set (snd (fold (sweep_scan now) xs (m, due)))"
proof -
  have "pm_states (fst (fold (sweep_scan now) xs (m, due))) r = pm_states m r \<and> pm_panes (fst (fold (sweep_scan now) xs (m, due))) = pm_panes m
    \<and> set due \<subseteq> set (snd (fold (sweep_scan now) xs (m, due)))"
    using assms
  proof (induction xs arbitrary: m due)
    case (Cons x xs)
    obtain m' due' where s: "sweep_scan now x (m, due) = (m', due')" by fastforce
    then have "pm_states m' r = pm_states m r" "pm_panes m' = pm_panes m" "set due \<subseteq> set due'"
      using Cons.prems by (auto simp: sweep_scan_def upd_pane_def split: prod.splits if_splits option.splits)
    then show ?case using Cons.IH [of m' due'] Cons.prems s by auto
  qed simp
  then show "pm_states (fst (fold (sweep_scan now) xs (m, due))) r = pm_states m r"
    "pm_panes (fst (fold (sweep_scan now) xs (m, due))) = pm_panes m" "set due \<subseteq> set (snd (fold (sweep_scan now) xs (m, due)))"
    by simp_all
qed

lemma scan_split:
  assumes "manager_ok m" and "fmlookup (pm_panes m) p = Some r"
  obtains ys zs where "sorted_list_of_fmap (pm_panes m) = ys @ (p, r) # zs" "\<forall>x\<in>set ys \<union> set zs. snd x \<noteq> r"
proof -
  have S: "set (sorted_list_of_fmap (pm_panes m)) = {(q, r'). fmlookup (pm_panes m) q = Some r'}"
    by (force simp: sorted_list_of_fmap_def fmlookup_dom_iff)
  then obtain ys zs where l: "sorted_list_of_fmap (pm_panes m) = ys @ (p, r) # zs"
    using split_list [of "(p, r)" "sorted_list_of_fmap (pm_panes m)"] assms(2) by auto
  have "p \<notin> fst ` (set ys \<union> set zs)" using distinct_panes [of "pm_panes m"] unfolding l image_Un by simp
  moreover have "x \<in> set ys \<union> set zs \<Longrightarrow> fmlookup (pm_panes m) (fst x) = Some (snd x)" for x
    using S by (cases x) (auto simp: l)
  ultimately have "x \<in> set ys \<union> set zs \<Longrightarrow> fst x \<noteq> p \<and> fmlookup (pm_panes m) (fst x) = Some (snd x)" for x by blast
  with assms have "\<forall>x\<in>set ys \<union> set zs. snd x \<noteq> r" by (metis manager_ok_def)
  with l show ?thesis by (rule that)
qed

lemma acquire_written: "Acquire m io c p columns rows = (m', res, Some w) \<Longrightarrow> \<exists>x. res = Inr x"
  by (auto simp: Acquire_def acquire_sized_def Let_def split: if_splits prod.splits sum.splits option.splits)

lemma restore_written: "restoreOnce s p tio iio = (err, Some w) \<Longrightarrow> terminal_matches p (pn_identity s) tio iio"
  using openValidated_matches [of p "pn_identity s" False tio iio]
  by (auto simp: restoreOnce_def Let_def split: if_splits prod.splits sum.splits option.splits)

section \<open>An example\<close>

definition demo_identity :: identity_io where
  "demo_identity = \<lparr>ii_pane = Reply (Some \<lparr>hp_ID = ''p'', hp_TerminalID = ''t''\<rparr>),
     ii_info = Reply (Some \<lparr>pi_PaneID = ''p'', pi_ShellPID = 7, pi_ForegroundProcessGroupID = 0, pi_ForegroundProcesses = []\<rparr>),
     ii_tty = (\<lambda>_. Some ''/dev/pts/1'')\<rparr>"

definition demo_terminal :: "Winsize \<Rightarrow> terminal_io" where
  "demo_terminal v = \<lparr>to_open = Opened, to_device = Some (5, True), to_deadline = False, to_size = Some v, to_set = True\<rparr>"

definition demo_size :: "u16 \<Rightarrow> Winsize" where
  "demo_size columns = \<lparr>ws_Rows = 24, ws_Columns = columns, ws_XPixel = 0, ws_YPixel = 0\<rparr>"

definition demo_acquire :: acquire_io where
  "demo_acquire = \<lparr>ac_cancelled = False, ac_waits = [], ac_cancelled_lock = False, ac_lookup = demo_identity,
     ac_terminal = demo_terminal (demo_size 80), ac_validate = demo_identity, ac_cancelled_sized = False, ac_during_lookup = (\<lambda>m. m),
     ac_cancelled_insert = False, ac_deadline_insert = False, ac_now = second, ac_during_write = (\<lambda>m. m), ac_now_commit = second\<rparr>"

definition demo_cleanup :: "string \<Rightarrow> settle_io" where
  "demo_cleanup p = \<lparr>st_locked = True, st_before = (\<lambda>m. m), st_now = 200 * second,
     st_cleanup = \<lparr>ci_now = 200 * second, ci_terminal = (demo_terminal (demo_size 60))\<lparr>to_open := OpenFailed\<rparr>, ci_validate = demo_identity,
        ci_during = (\<lambda>m. m), ci_during_write = (\<lambda>m. m), ci_now_after = 200 * second\<rparr>\<rparr>"

definition demo_pane :: paneState where
  "demo_pane = newPaneState\<lparr>pn_resolved := True,
     pn_identity := \<lparr>ti_terminalID = ''t'', ti_shellPID = 7, ti_ttyPath = ''/dev/pts/1'', ti_rdev = 5\<rparr>,
     pn_baseline := \<lparr>sz_columns = 80, sz_rows = 24\<rparr>, pn_applied := \<lparr>sz_columns = 60, sz_rows = 24\<rparr>, pn_resizedAt := second,
     pn_leases := fmupd ''c'' \<lparr>ls_Columns = 60, ls_Rows = 0, ls_ExpiresAt = 121 * second\<rparr> fmempty\<rparr>"

definition demo_manager :: size_manager where
  "demo_manager = (newSizeManager LeaseTTL ReleaseGrace)\<lparr>pm_panes := fmupd ''p'' 0 fmempty,
     pm_states := (\<lambda>_. newPaneState)(0 := demo_pane), pm_fresh := 1\<rparr>"

lemma fm_values_single [simp]: "fm_values (fmupd k v fmempty) = [v]"
  by (simp add: fm_values_def sorted_list_of_fmap_def sorted_list_of_fset.rep_eq)

lemma fm_drop_single: "\<not> q v \<Longrightarrow> fm_drop_if q (fmupd k v fmempty) = fmupd k v fmempty"
  by (rule fmap_ext) auto

lemma demo_acquired:
  "Acquire (newSizeManager LeaseTTL ReleaseGrace) demo_acquire ''c'' ''p'' 60 0 = (demo_manager, Inr (60, 24), Some (demo_size 60))"
  by (simp add: Acquire_def newSizeManager_def demo_acquire_def demo_identity_def demo_terminal_def demo_size_def lockPane.simps limits
      lookupIdentity_def openValidated_eq validateIdentity_def validateIdentity_run_def acquire_sized_def acquire_insert_def acquire_commit_def
      newPaneState_def leaseTargetLocked_def narrowest_def shortest_def sizeOf_def resized_def commitLocked_def removeExpiredLocked_def
      fm_drop_single upd_pane_def demo_manager_def demo_pane_def LeaseTTL_def Let_def)

lemma demo_calm [simp]: "acquire_calm p demo_acquire" "settle_calm p (demo_cleanup q)"
  by (simp_all add: acquire_calm_def demo_acquire_def settle_calm_def cleanup_calm_def demo_cleanup_def)

lemma demo_reached: "manager_step\<^sup>*\<^sup>* (newSizeManager LeaseTTL ReleaseGrace) demo_manager"
  using manager_step.acquire [OF acquire_calm_ok [OF demo_calm(1)], of "newSizeManager LeaseTTL ReleaseGrace" "''c''" "''p''" 60 0]
  unfolding demo_acquired fst_conv by (rule r_into_rtranclp)

section \<open>Properties\<close>

text \<open>
  whatever is acquired, released, swept or shut down, in whatever order and with whatever
  answers from terminals and lookups, a tracked pane has leases within the accepted sizes, sizes
  that fit the terminal's 16-bit fields, and a cleanup of the current generation with at most
  five attempts and its next attempt before its deadline; no two names share a pane.
\<close>

theorem leases_invariant:
  assumes "manager_step\<^sup>*\<^sup>* (newSizeManager ttl grace) m" and "fmlookup (pm_panes m) p = Some r"
  shows "(\<forall>c l. fmlookup (pn_leases (pm_states m r)) c = Some l \<longrightarrow>
       40 \<le> ls_Columns l \<and> ls_Columns l \<le> 240 \<and> (ls_Rows l = 0 \<or> 10 \<le> ls_Rows l \<and> ls_Rows l \<le> 120))
     \<and> (\<forall>z. z \<in> {pn_baseline (pm_states m r), pn_applied (pm_states m r)} \<longrightarrow>
       0 \<le> sz_columns z \<and> sz_columns z < 2 ^ 16 \<and> 0 \<le> sz_rows z \<and> sz_rows z < 2 ^ 16)
     \<and> (\<forall>c. pn_cleanup (pm_states m r) = Some c \<longrightarrow> cl_generation c = pn_generation (pm_states m r)
          \<and> 0 \<le> cl_attempts c \<and> cl_attempts c \<le> 5 \<and> cl_next c < cl_deadline c)
     \<and> (\<forall>q. fmlookup (pm_panes m) q = Some r \<longrightarrow> q = p)"
proof -
  have M: "manager_ok m" using ok_steps [OF assms(1) ok_new] .
  have inj: "q = p" if "fmlookup (pm_panes m) q = Some r" for q using M assms(2) that by (auto simp: manager_ok_def)
  have P: "pane_ok (pm_states m r)" using M by (rule ok_pane)
  show ?thesis
    using P lookup_ok [OF P] inj
    by (auto simp: pane_ok_def size_ok_def cleanup_ok_def [of "pm_states m r"] lease_ok_def limits)
qed

theorem leases_invariant_witness:
  "fmlookup (pm_panes demo_manager) ''p'' = Some 0 \<and> {q. fmlookup (pm_panes demo_manager) q = Some 0} = {''p''}"
proof -
  have "fmlookup (pm_panes demo_manager) ''p'' = Some 0" by (simp add: demo_manager_def)
  with leases_invariant [OF demo_reached this] show ?thesis by blast
qed

text \<open>
  the size a successful acquisition reports is the size the terminal then has, with its pixel
  fields kept; it is at least 40 columns, never wider or taller than the client asked for, and
  never wider or taller than any lease the pane has when the acquisition returns.
\<close>

theorem acquire_grants:
  assumes "manager_step\<^sup>*\<^sup>* (newSizeManager ttl grace) m" and "acquire_calm p io"
    and "Acquire m io c p columns rows = (m', Inr (w, h), written)"
  shows "\<exists>current r. to_size (ac_terminal io) = Some current \<and> fmlookup (pm_panes m') p = Some r
     \<and> sizeOf (now_sized current written) = \<lparr>sz_columns = w, sz_rows = h\<rparr>
     \<and> (\<forall>v. written = Some v \<longrightarrow> ws_XPixel v = ws_XPixel current \<and> ws_YPixel v = ws_YPixel current)
     \<and> 40 \<le> w \<and> w \<le> columns \<and> (0 < rows \<longrightarrow> 10 \<le> h \<and> h \<le> rows)
     \<and> (\<forall>d l. fmlookup (pn_leases (pm_states m' r)) d = Some l \<longrightarrow> w \<le> ls_Columns l \<and> (0 < ls_Rows l \<longrightarrow> h \<le> ls_Rows l))"
proof -
  obtain current r where A: "to_size (ac_terminal io) = Some current" "holds m' p r"
    "sizeOf (case written of Some v \<Rightarrow> v | None \<Rightarrow> current) = \<lparr>sz_columns = w, sz_rows = h\<rparr>"
    "\<forall>v. written = Some v \<longrightarrow> ws_XPixel v = ws_XPixel current \<and> ws_YPixel v = ws_YPixel current"
    "40 \<le> w" "w \<le> columns" "0 < rows \<Longrightarrow> 10 \<le> h \<and> h \<le> rows"
    "\<forall>l\<in>pane_leases (pm_states m' r). w \<le> ls_Columns l \<and> (0 < ls_Rows l \<longrightarrow> h \<le> ls_Rows l)"
    using acquire_grant [OF ok_steps [OF assms(1) ok_new] assms(2,3)] by blast
  then show ?thesis
    by (intro exI [of _ current] exI [of _ r]) (auto simp: now_sized_def holds_def pane_leases_def)
qed

theorem acquire_grants_witness:
  "\<exists>current r. to_size (ac_terminal demo_acquire) = Some current \<and> fmlookup (pm_panes demo_manager) ''p'' = Some r
     \<and> sizeOf (now_sized current (Some (demo_size 60))) = \<lparr>sz_columns = 60, sz_rows = 24\<rparr>"
  using acquire_grants [OF rtranclp.rtrancl_refl demo_calm(1) demo_acquired] by blast

lemma validate_calls:
  assumes "validateIdentity_run p identity iio = (asked, None)" and "0 < ti_shellPID identity"
  shows "asked = [PaneGet p, ProcessInfoFresh p, TTYPath (ti_shellPID identity)]" "ii_tty iio (ti_shellPID identity) = Some (ti_ttyPath identity)"
  using assms by (auto simp: validateIdentity_run_def Let_def split: reply.splits option.splits if_splits)

lemma open_calls:
  assumes "openValidated_run p identity0 capture tio iio = (calls, Inr identity)" and "0 < ti_shellPID identity"
  shows "calls = [OpenTTY (ti_ttyPath identity), StatTTY, PaneGet p, ProcessInfoFresh p, TTYPath (ti_shellPID identity)]"
    "ii_tty iio (ti_shellPID identity) = Some (ti_ttyPath identity)"
proof -
  obtain asked where "validateIdentity_run p identity iio = (asked, None)" "calls = [OpenTTY (ti_ttyPath identity), StatTTY] @ asked"
    using assms(1) by (auto simp: openValidated_run_def Let_def split: open_reply.splits option.splits if_splits prod.splits)
  from validate_calls [OF this(1) assms(2)] this(2)
  show "calls = [OpenTTY (ti_ttyPath identity), StatTTY, PaneGet p, ProcessInfoFresh p, TTYPath (ti_shellPID identity)]"
    "ii_tty iio (ti_shellPID identity) = Some (ti_ttyPath identity)" by simp_all
qed

text \<open>
  What the operating system holds at a time: the pseudo-terminal a path names, and the terminal of
  a process with the path of its device.
\<close>

record pty_world =
  pw_device :: "string \<Rightarrow> nat option"
  pw_tty :: "int \<Rightarrow> (string \<times> nat) option"

text \<open>
  C35: the descriptor that \<open>openValidated\<close> returns is on the terminal of the shell recorded for the
  pane and not on a reused pseudo-terminal of another one. Its calls are made one after the other,
  the call number \<open>k\<close> at time \<open>T k\<close>. A device that was opened stays the one its path names while the
  descriptor is held (the allocator does not reuse it), the lookup of a process's TTY tells what holds
  at its time, and the recorded shell has the terminal \<open>shell\<close> as long as it has one. The order of the
  calls is what makes it true: open, stat, \<open>pane.get\<close>, \<open>pane.process_info\<close>, and the TTY of the shell last.
\<close>

theorem open_pins_terminal:
  assumes "openValidated_run p identity0 capture tio iio = (calls, Inr identity)" and "0 < ti_shellPID identity" and "strict_mono T"
    and "\<And>k t. k < length calls \<Longrightarrow> calls ! k = OpenTTY (ti_ttyPath identity) \<Longrightarrow> T k \<le> t \<Longrightarrow> pw_device (w t) (ti_ttyPath identity) = Some device"
    and "\<And>k pid. k < length calls \<Longrightarrow> calls ! k = TTYPath pid \<Longrightarrow> ii_tty iio pid = map_option fst (pw_tty (w (T k)) pid)"
    and "\<And>t path pty. pw_tty (w t) (ti_shellPID identity) = Some (path, pty) \<Longrightarrow> pty = shell \<and> pw_device (w t) path = Some pty"
  shows "device = shell \<and> calls = [OpenTTY (ti_ttyPath identity), StatTTY, PaneGet p, ProcessInfoFresh p, TTYPath (ti_shellPID identity)]"
proof -
  note C = open_calls [OF assms(1,2)]
  have "pw_device (w (T 4)) (ti_ttyPath identity) = Some device" using assms(4) [of 0 "T 4"] assms(3) by (simp add: C(1) strict_mono_less_eq)
  moreover obtain pty where "pw_tty (w (T 4)) (ti_shellPID identity) = Some (ti_ttyPath identity, pty)"
    using assms(5) [of 4 "ti_shellPID identity"] by (cases "pw_tty (w (T 4)) (ti_shellPID identity)") (auto simp: C)
  ultimately show ?thesis using assms(6) C(1) by fastforce
qed

theorem open_pins_terminal_witness:
  "\<exists>calls identity. openValidated_run ''p'' (pn_identity demo_pane) False (demo_terminal (demo_size 60)) demo_identity = (calls, Inr identity)
     \<and> calls = [OpenTTY ''/dev/pts/1'', StatTTY, PaneGet ''p'', ProcessInfoFresh ''p'', TTYPath 7]"
proof -
  let ?w = "\<lambda>t :: nat. \<lparr>pw_device = (\<lambda>_. Some 3), pw_tty = (\<lambda>_. Some (''/dev/pts/1'', 3))\<rparr>"
  have i: "ti_shellPID (pn_identity demo_pane) = 7" "ti_ttyPath (pn_identity demo_pane) = ''/dev/pts/1''" by (simp_all add: demo_pane_def)
  obtain calls where run: "openValidated_run ''p'' (pn_identity demo_pane) False (demo_terminal (demo_size 60)) demo_identity = (calls, Inr (pn_identity demo_pane))"
    by (simp add: openValidated_run_def validateIdentity_run_def demo_pane_def demo_terminal_def demo_identity_def Let_def)
  have "(3 :: nat) = 3 \<and> calls = [OpenTTY (ti_ttyPath (pn_identity demo_pane)), StatTTY, PaneGet ''p'', ProcessInfoFresh ''p'', TTYPath (ti_shellPID (pn_identity demo_pane))]"
    by (rule open_pins_terminal [OF run, where T = "\<lambda>n. n" and w = ?w]) (simp_all add: i strict_mono_def demo_identity_def)
  with run show ?thesis by (simp add: i)
qed

text \<open>
  whichever operation writes a size, the device it opened is the character device recorded for the
  pane, and the lookups found the Herdr terminal, the shell and the path that are recorded.
\<close>

theorem writes_validated:
  "(Acquire m aio c p columns rows = (m1, res, Some w) \<longrightarrow>
      (\<exists>identity. terminal_matches p identity (ac_terminal aio) (ac_validate aio)
         \<and> (\<forall>m0 r0. lockPane m p (ac_waits aio) = (m0, Inr (r0, False)) \<longrightarrow> identity = pn_identity (pm_states m0 r0))))
   \<and> (attemptCleanup m io p r g = (m2, Some w) \<longrightarrow> terminal_matches p (pn_identity (pm_states m r)) (ci_terminal io) (ci_validate io))
   \<and> (reconcileActive m io p r = (m3, Some w) \<longrightarrow> terminal_matches p (pn_identity (pm_states m r)) (ci_terminal io) (ci_validate io))
   \<and> (shutdownPane m locked io p r = (m4, restored, Some w) \<longrightarrow>
        terminal_matches p (pn_identity (pm_states m r)) (ci_terminal io) (ci_validate io))"
proof (intro conjI impI)
  assume A: "Acquire m aio c p columns rows = (m1, res, Some w)"
  then obtain x where "res = Inr x" using acquire_written by blast
  with A have "Acquire m aio c p columns rows = (m1, Inr x, Some w)" by simp
  then obtain m' r' created identity0 identity where L: "lockPane m p (ac_waits aio) = (m', Inr (r', created))"
    and I: "if created then lookupIdentity p (ac_lookup aio) = Inr identity0 else identity0 = pn_identity (pm_states m' r')"
    and V: "openValidated p identity0 created (ac_terminal aio) (ac_validate aio) = Inr identity"
    by (rule acquire_success)
  show "\<exists>identity. terminal_matches p identity (ac_terminal aio) (ac_validate aio)
      \<and> (\<forall>m0 r0. lockPane m p (ac_waits aio) = (m0, Inr (r0, False)) \<longrightarrow> identity = pn_identity (pm_states m0 r0))"
    using openValidated_matches [OF V] L I by (intro exI [of _ identity]) auto
next
  assume "attemptCleanup m io p r g = (m2, Some w)"
  then show "terminal_matches p (pn_identity (pm_states m r)) (ci_terminal io) (ci_validate io)"
    by (cases rule: attempt_cases) (auto dest: restore_written)
next
  assume "reconcileActive m io p r = (m3, Some w)"
  then show "terminal_matches p (pn_identity (pm_states m r)) (ci_terminal io) (ci_validate io)"
    using openValidated_matches [of p "pn_identity (pm_states m r)" False "ci_terminal io" "ci_validate io"]
    by (auto simp: reconcileActive_def split: if_splits sum.splits option.splits)
next
  assume "shutdownPane m locked io p r = (m4, restored, Some w)"
  then show "terminal_matches p (pn_identity (pm_states m r)) (ci_terminal io) (ci_validate io)"
    by (auto simp: shutdownPane_def Let_def dest!: restore_written split: if_splits prod.splits)
qed

theorem writes_validated_witness:
  "\<exists>identity. terminal_matches ''p'' identity (demo_terminal (demo_size 80)) demo_identity"
proof -
  have "\<exists>identity. terminal_matches ''p'' identity (ac_terminal demo_acquire) (ac_validate demo_acquire)"
    using writes_validated [of "newSizeManager LeaseTTL ReleaseGrace" demo_acquire "''c''" "''p''" 60 0 demo_manager "Inr (60, 24)" "demo_size 60"]
      demo_acquired by blast
  then show ?thesis by (simp add: demo_acquire_def)
qed

text \<open>
  C34: the user gets their own size back: in every run of acquisitions, renewals, releases,
  disconnections, sweeps and resizes by the user, with whatever failures, over any number of leases
  one after the other, a restoration that reports success leaves the terminal at the user's size: the
  one it had at the start, with every dimension the user changed since at the user's value. Three
  things are excluded, as the design document does: a resize to the very value the lease applied, one
  between the read and the write of an operation, and a run in which the manager lost the user's size
  before, because it forgot the pane while the terminal still had another size.
\<close>

theorem user_size_restored:
  assumes "(terminal_step p)\<^sup>*\<^sup>* (newSizeManager ttl grace, t0, sizeOf t0, False) (m, t, u, False)" and "fmlookup (pm_panes m) p = Some r"
    and "pn_resolved (pm_states m r)" and "to_size tio = Some t" and "restoreOnce (pm_states m r) p tio iio = (None, written)"
  shows "sizeOf (now_sized t written) = u"
proof -
  have "run_tracks p (newSizeManager ttl grace, t0, sizeOf t0, False)" using ok_new by (simp add: run_tracks_def lost_def)
  then have K: "manager_ok m" "tracks m p t u" using terminal_run_keeps [OF assms(1)] run_tracksD(1,2) by blast+
  then have "remembers (pm_states m r) t u" using assms(2,3) by (simp add: tracks_def holds_def)
  then show ?thesis using restore_exact [OF _ ok_pane [OF K(1)] assms(4,5)] by simp
qed

theorem user_size_restored_witness:
  "(terminal_step ''p'')\<^sup>*\<^sup>* (newSizeManager LeaseTTL ReleaseGrace, demo_size 80, sizeOf (demo_size 80), False)
     (demo_manager, demo_size 60, sizeOf (demo_size 80), False) \<and>
   restoreOnce demo_pane ''p'' (demo_terminal (demo_size 60)) demo_identity = (None, Some (demo_size 80)) \<and>
   sizeOf (now_sized (demo_size 60) (Some (demo_size 80))) = sizeOf (demo_size 80)"
proof -
  let ?new = "newSizeManager LeaseTTL ReleaseGrace"
  have "sees (ac_terminal demo_acquire) (demo_size 80)" by (simp add: sees_def demo_acquire_def demo_terminal_def)
  from terminal_step.acquire [OF demo_calm(1) this demo_acquired, of "sizeOf (demo_size 80)" False]
  have run: "(terminal_step ''p'')\<^sup>*\<^sup>* (?new, demo_size 80, sizeOf (demo_size 80), False) (demo_manager, demo_size 60, sizeOf (demo_size 80), False)"
    by (simp add: after_def lost_def demo_manager_def r_into_rtranclp)
  have R: "restoreOnce demo_pane ''p'' (demo_terminal (demo_size 60)) demo_identity = (None, Some (demo_size 80))"
    by (simp add: restoreOnce_def demo_pane_def newPaneState_def openValidated_eq validateIdentity_def validateIdentity_run_def demo_terminal_def demo_identity_def
        demo_size_def resized_def Let_def)
  have D: "fmlookup (pm_panes demo_manager) ''p'' = Some 0" "pm_states demo_manager 0 = demo_pane" "pn_resolved demo_pane"
    by (simp_all add: demo_manager_def demo_pane_def)
  from user_size_restored [OF run D(1), unfolded D(2), OF D(3) _ R] R run show ?thesis by (simp add: demo_terminal_def)
qed

text \<open>
  no restoration is retried forever: once the leases of a pane have ended thirty seconds ago
  (and a cleanup begun earlier is past its deadline), one sweep that gets the pane's lock
  forgets the pane, whatever its terminal and the lookups answer.
\<close>

theorem abandoned_pane_forgotten:
  assumes "manager_step\<^sup>*\<^sup>* (newSizeManager ttl grace) m" and "\<not> pm_closed m" and "fmlookup (pm_panes m) p = Some r"
    and "pn_resolved (pm_states m r)" and "pn_leases (pm_states m r) \<noteq> fmempty \<or> pn_cleanup (pm_states m r) \<noteq> None"
    and "\<forall>c l. fmlookup (pn_leases (pm_states m r)) c = Some l \<longrightarrow> ls_ExpiresAt l + CleanupBudget \<le> now"
    and "\<forall>c. pn_cleanup (pm_states m r) = Some c \<longrightarrow> cl_deadline c \<le> now" and "CleanupBudget \<le> now"
    and "\<forall>q. settle_calm p (ios q)" and "st_locked (ios p)" and "now \<le> ci_now (st_cleanup (ios p))"
  shows "fmlookup (pm_panes (fst (SweepExpired m now ios))) p = None"
proof -
  have M: "manager_ok m" using ok_steps [OF assms(1) ok_new] .
  obtain ys zs where l: "sorted_list_of_fmap (pm_panes m) = ys @ (p, r) # zs" "\<forall>x\<in>set ys \<union> set zs. snd x \<noteq> r"
    using scan_split [OF M assms(3)] .
  have e: "\<forall>l\<in>pane_leases (pm_states m r). ls_ExpiresAt l + CleanupBudget \<le> now" using assms(6) by (auto simp: pane_leases_def)
  obtain s' c where s': "sweep_pane (pm_states m r) now = (s', Some (CleanupWork (cl_generation c)))" "pn_cleanup s' = Some c"
    "pn_leases s' = fmempty" "cl_deadline c \<le> now" using sweep_pane_overdue [OF ok_pane [OF M] assms(5) e assms(7,8)] by metis
  obtain m1 xs where f: "fold (sweep_scan now) (sorted_list_of_fmap (pm_panes m)) (m, []) = (m1, xs)" by fastforce
  have m1: "manager_ok m1" using ok_scan [of "sweep_scan now", OF ok_sweep_scan M, of _ "[]"] f by (metis fst_conv)
  have dist: "distinct (map fst xs)"
    using scan_names [of "sweep_scan now" "[]", OF sweep_scan_step(1), of "sorted_list_of_fmap (pm_panes m)" m] distinct_panes [of "pm_panes m"] f by simp
  obtain m2 due where f2: "fold (sweep_scan now) ys (m, []) = (m2, due)" by fastforce
  have "pm_states m2 r = pm_states m r" "pm_panes m2 = pm_panes m" using sweep_scan_other(1,2) [of ys r now m "[]"] l(2) f2 by simp_all
  then have "fold (sweep_scan now) zs (upd_pane m2 r s', due @ [(p, r, CleanupWork (cl_generation c))]) = (m1, xs)"
    using f f2 l(1) assms(4) s'(1) by (simp add: sweep_scan_def)
  then have "pm_states m1 r = s'" "pm_panes m1 = pm_panes m" "(p, r, CleanupWork (cl_generation c)) \<in> set xs"
    using sweep_scan_other [where xs = zs and r = r and now = now and m = "upd_pane m2 r s'" and due = "due @ [(p, r, CleanupWork (cl_generation c))]"] l(2) \<open>pm_panes m2 = pm_panes m\<close> by auto
  moreover from this have "awaits p r c m1" using m1 s' assms(3) by (simp add: awaits_def holds_def)
  ultimately have "forgotten p (fst (sweep_all ios xs m1))"
    using sweep_all_forgets [OF dist, of p r c ios m1] assms(9,10,11) s'(4) by simp
  with f assms(2) show ?thesis by (simp add: SweepExpired_def forgotten_def)
qed

theorem abandoned_pane_forgotten_witness:
  "fmlookup (pm_panes demo_manager) ''p'' = Some 0 \<and> fmlookup (pm_panes (fst (SweepExpired demo_manager (200 * second) demo_cleanup))) ''p'' = None"
proof -
  have D: "fmlookup (pm_panes demo_manager) ''p'' = Some 0" "\<not> pm_closed demo_manager" "pm_states demo_manager 0 = demo_pane"
    by (simp_all add: demo_manager_def newSizeManager_def)
  have P: "pn_resolved demo_pane" "pn_leases demo_pane \<noteq> fmempty" "pn_cleanup demo_pane = None"
    "\<forall>c l. fmlookup (pn_leases demo_pane) c = Some l \<longrightarrow> ls_ExpiresAt l + CleanupBudget \<le> 200 * second"
    by (auto simp: demo_pane_def newPaneState_def fmempty_iff limits)
  from abandoned_pane_forgotten [OF demo_reached D(2,1), unfolded D(3), of "200 * second" demo_cleanup] P D(1)
  show ?thesis by (simp add: limits demo_cleanup_def [of "''p''"])
qed

end
