(* ===== verification/Scheduler.thy ===== *)
theory Scheduler
  imports Prelude FMaps "HOL-Library.Multiset"
begin

text \<open>
  The command scheduler of package \<^verbatim>\<open>internal/coordinator\<close> (\<^verbatim>\<open>coordinator.go\<close>, \<^verbatim>\<open>types.go\<close>): one goroutine
  owns the queues, the idempotency ledger and the in-flight operations and handles one event at
  a time, so each event is one step on its state. Operations are shared by reference and live in
  a store; goroutines started, contexts cancelled and channel sends are entries of a log. The
  timer that is re-armed after each event is the freedom of the timer event to happen.
\<close>

section \<open>Commands, operations and slots\<close>

definition coordinatorIngressCapacity :: nat where "coordinatorIngressCapacity = 128"
definition defaultHerdrCapacity :: int where "defaultHerdrCapacity = 8"
definition maxLedgerEntries :: nat where "maxLedgerEntries = 256"
definition ledgerRetention :: duration where "ledgerRetention = 24 * 3600 * second"

datatype sched_error = ErrIngressFull | ErrConflict | ErrClosed | ErrPaneReplaced

type_synonym opid = nat
type_synonym waiter = nat

record CommandResult =
  cr_RequestID :: string
  cr_Action :: string
  cr_OK :: bool
  cr_Phase :: string
  cr_Error :: string
  cr_PaneID :: string
  cr_Data :: "string option"
  cr_replayed :: bool

record ScheduleOptions =
  so_ID :: u64
  so_RequestID :: string
  so_ReceivedAt :: time
  so_Deadline :: time
  so_Kind :: string
  so_PaneID :: string
  so_RelayLevel :: bool
  so_PaneGeneration :: u64
  so_AllowAbsent :: bool
  so_LedgerKey :: string
  so_PayloadHash :: string

type_synonym finalizer = "CommandResult option \<Rightarrow> sched_error option \<Rightarrow> CommandResult option"

text \<open>A runner is known by a number; the position in the heap of deadlines is membership in it.\<close>

record scheduledOperation =
  op_options :: ScheduleOptions
  op_runner :: nat
  op_sequence :: u64
  op_generation :: u64
  op_waiters :: "(waiter \<times> bool) list"
  op_dispatched :: bool
  op_finalize :: "finalizer option"

record EffectContinuation =
  ec_PaneID :: string
  ec_Generation :: u64
  ec_AllowAbsent :: bool
  ec_Deadline :: time
  ec_Runner :: nat
  ec_Finalize :: "finalizer option"

record EffectResult =
  er_Result :: "CommandResult option"
  er_BumpGeneration :: bool
  er_Continuation :: "EffectContinuation option"

record WorkerToken =
  wt_OperationID :: opid
  wt_PaneID :: string
  wt_Generation :: u64
  wt_AllowAbsent :: bool
  wt_Deadline :: time

record InFlightOperation =
  if_OperationID :: opid
  if_CommandID :: u64
  if_Generation :: u64
  if_StartedAt :: time

record PaneSlot =
  ps_Generation :: u64
  ps_Queue :: "opid list"
  ps_InFlight :: "InFlightOperation option"

record ledgerEntry =
  le_payloadHash :: string
  le_operation :: "opid option"
  le_result :: "CommandResult option"
  le_generation :: u64
  le_paneID :: string
  le_createdAt :: time

record SchedulerMetrics =
  sm_ExpiredQueued :: nat
  sm_Dispatched :: nat
  sm_Completed :: nat
  sm_HerdrInUse :: int
  sm_PaneSlots :: nat
  sm_LatencySamples :: nat
  sm_LatencyTotalMicros :: int
  sm_LatencyMaxMicros :: int

datatype sched_action =
    Replied waiter "CommandResult option" "sched_error option" bool
  | Started opid WorkerToken nat
  | Cancelled opid
  | TopologyApplied
  | LedgerApplied bool
  | LedgerReplayed "CommandResult option" bool "sched_error option"

record scheduler =
  sc_capacity :: int
  sc_slots :: "(string, PaneSlot) fmap"
  sc_relayQueue :: "opid list"
  sc_relayInFlight :: "opid fset"
  sc_ledger :: "(string, ledgerEntry) fmap"
  sc_knownActive :: "string fset"
  sc_deadlines :: "opid list"
  sc_inUse :: int
  sc_stopping :: bool
  sc_stopAck :: bool
  sc_ops :: "opid \<Rightarrow> scheduledOperation"
  sc_metrics :: SchedulerMetrics
  sc_log :: "sched_action list"

definition no_operation :: scheduledOperation where
  "no_operation = \<lparr>op_options = \<lparr>so_ID = 0, so_RequestID = [], so_ReceivedAt = 0, so_Deadline = 0, so_Kind = [], so_PaneID = [],
       so_RelayLevel = False, so_PaneGeneration = 0, so_AllowAbsent = False, so_LedgerKey = [], so_PayloadHash = []\<rparr>,
     op_runner = 0, op_sequence = 0, op_generation = 0, op_waiters = [], op_dispatched = False, op_finalize = None\<rparr>"

definition NewScheduler :: "int \<Rightarrow> scheduler" where
  "NewScheduler capacity = \<lparr>sc_capacity = (if capacity \<le> 0 then defaultHerdrCapacity else capacity), sc_slots = fmempty, sc_relayQueue = [],
     sc_relayInFlight = {||}, sc_ledger = fmempty, sc_knownActive = {||}, sc_deadlines = [], sc_inUse = 0, sc_stopping = False,
     sc_stopAck = False, sc_ops = (\<lambda>_. no_operation),
     sc_metrics = \<lparr>sm_ExpiredQueued = 0, sm_Dispatched = 0, sm_Completed = 0, sm_HerdrInUse = 0, sm_PaneSlots = 0,
       sm_LatencySamples = 0, sm_LatencyTotalMicros = 0, sm_LatencyMaxMicros = 0\<rparr>, sc_log = []\<rparr>"

section \<open>Submitting\<close>

text \<open>
  \<open>ExecuteAdmitted\<close> up to the send: \<open>closed\<close>, the number of requests waiting in the channel, the
  caller's deadline and the sequence numbers are what it meets.
\<close>

definition ExecuteAdmitted ::
  "bool \<Rightarrow> nat \<Rightarrow> time \<Rightarrow> u64 \<Rightarrow> time option \<Rightarrow> ScheduleOptions \<Rightarrow> nat \<Rightarrow> waiter \<Rightarrow> sched_error + scheduledOperation" where
  "ExecuteAdmitted closed waiting now nextID callerDeadline options0 runner response =
     (if closed then Inl ErrClosed
      else
        let options1 = (if so_ReceivedAt options0 = 0 then options0\<lparr>so_ReceivedAt := now\<rparr> else options0);
            options2 = (if so_ID options1 = 0 then options1\<lparr>so_ID := nextID\<rparr> else options1);
            options = (case callerDeadline of
                         Some d \<Rightarrow> if d < so_Deadline options2 then options2\<lparr>so_Deadline := d\<rparr> else options2
                       | None \<Rightarrow> options2);
            op = \<lparr>op_options = options, op_runner = runner, op_sequence = so_ID options, op_generation = 0,
                  op_waiters = [(response, False)], op_dispatched = False, op_finalize = None\<rparr>
        in if waiting < coordinatorIngressCapacity then Inr op else Inl ErrIngressFull)"

text \<open>What the caller gets from the reply.\<close>

definition Execute_reply :: "string \<Rightarrow> CommandResult option \<Rightarrow> sched_error option \<Rightarrow> bool \<Rightarrow> CommandResult option \<times> sched_error option" where
  "Execute_reply requestID result err replayed = (map_option (\<lambda>r. r\<lparr>cr_RequestID := requestID, cr_replayed := replayed\<rparr>) result, err)"

section \<open>Replies\<close>

definition log_action :: "sched_action \<Rightarrow> scheduler \<Rightarrow> scheduler" where
  "log_action a st = st\<lparr>sc_log := sc_log st @ [a]\<rparr>"

definition upd_op :: "opid \<Rightarrow> (scheduledOperation \<Rightarrow> scheduledOperation) \<Rightarrow> scheduler \<Rightarrow> scheduler" where
  "upd_op i f st = st\<lparr>sc_ops := (sc_ops st)(i := f (sc_ops st i))\<rparr>"

definition upd_metrics :: "(SchedulerMetrics \<Rightarrow> SchedulerMetrics) \<Rightarrow> scheduler \<Rightarrow> scheduler" where
  "upd_metrics f st = st\<lparr>sc_metrics := f (sc_metrics st)\<rparr>"

definition replyWithReplay :: "scheduler \<Rightarrow> opid \<Rightarrow> CommandResult option \<Rightarrow> sched_error option \<Rightarrow> bool \<Rightarrow> scheduler" where
  "replyWithReplay st i result err forceReplay =
     fold (\<lambda>(w, replayed). log_action (Replied w result err (forceReplay \<or> replayed))) (op_waiters (sc_ops st i)) st"

text \<open>The finalizer of an operation runs once, on its last result.\<close>

definition run_finalizer :: "scheduler \<Rightarrow> opid \<Rightarrow> CommandResult option \<Rightarrow> sched_error option \<Rightarrow>
    scheduler \<times> CommandResult option \<times> sched_error option" where
  "run_finalizer st i result err =
     (case op_finalize (sc_ops st i) of
        None \<Rightarrow> (st, result, err)
      | Some f \<Rightarrow> (upd_op i (\<lambda>op. op\<lparr>op_finalize := None\<rparr>) st, f result err, None))"

definition reply :: "scheduler \<Rightarrow> opid \<Rightarrow> CommandResult option \<Rightarrow> sched_error option \<Rightarrow> scheduler" where
  "reply st i result err =
     (case run_finalizer st i result err of (st', result', err') \<Rightarrow> replyWithReplay st' i result' err' False)"

definition finish :: "scheduler \<Rightarrow> opid \<Rightarrow> CommandResult option \<Rightarrow> sched_error option \<Rightarrow> scheduler" where
  "finish st0 i result0 err0 =
     (case run_finalizer st0 i result0 err0 of
        (st, result, err) \<Rightarrow>
          let key = so_LedgerKey (op_options (sc_ops st i));
              st' = (case fmlookup (sc_ledger st) key of
                       None \<Rightarrow> st
                     | Some entry \<Rightarrow>
                         (case result of
                            None \<Rightarrow> st\<lparr>sc_ledger := fmdrop key (sc_ledger st)\<rparr>
                          | Some r \<Rightarrow>
                              if cr_Phase r = ''not_started'' then st\<lparr>sc_ledger := fmdrop key (sc_ledger st)\<rparr>
                              else st\<lparr>sc_ledger := fmupd key (entry\<lparr>le_result := Some r, le_operation := None\<rparr>) (sc_ledger st)\<rparr>))
          in reply st' i result err)"

definition notStartedResult :: "scheduledOperation \<Rightarrow> CommandResult" where
  "notStartedResult op = \<lparr>cr_RequestID = so_RequestID (op_options op), cr_Action = so_Kind (op_options op), cr_OK = False,
     cr_Phase = ''not_started'', cr_Error = ''command was not sent; retry is safe'', cr_PaneID = so_PaneID (op_options op),
     cr_Data = None, cr_replayed = False\<rparr>"

definition replyNotStarted :: "scheduler \<Rightarrow> opid \<Rightarrow> scheduler" where
  "replyNotStarted st i = reply st i (Some (notStartedResult (sc_ops st i))) None"

definition expire_op :: "scheduler \<Rightarrow> opid \<Rightarrow> scheduler" where
  "expire_op st i =
     finish (upd_metrics (\<lambda>m. m\<lparr>sm_ExpiredQueued := sm_ExpiredQueued m + 1\<rparr>) st) i (Some (notStartedResult (sc_ops st i))) None"

definition staleResult :: "scheduledOperation \<Rightarrow> CommandResult" where
  "staleResult op = \<lparr>cr_RequestID = so_RequestID (op_options op), cr_Action = so_Kind (op_options op), cr_OK = False,
     cr_Phase = (if op_dispatched op then ''dispatched_unknown'' else ''failed''),
     cr_Error = (if op_dispatched op then ''command was dispatched before the pane session was replaced; outcome is unknown''
                 else ''pane session was replaced''),
     cr_PaneID = so_PaneID (op_options op), cr_Data = None, cr_replayed = False\<rparr>"

definition replyStale :: "scheduler \<Rightarrow> opid \<Rightarrow> scheduler" where
  "replyStale st i =
     (let op = sc_ops st i; key = so_LedgerKey (op_options op);
          st' = (if op_finalize op = None \<and> key \<noteq> [] then st\<lparr>sc_ledger := fmdrop key (sc_ledger st)\<rparr> else st)
      in finish st' i (Some (staleResult op)) None)"

section \<open>Queues, deadlines and the ledger\<close>

text \<open>The binary search of \<^verbatim>\<open>sort.Search\<close> between two positions.\<close>

function search_between :: "(nat \<Rightarrow> bool) \<Rightarrow> nat \<Rightarrow> nat \<Rightarrow> nat" where
  "search_between f i j =
     (if i < j then let h = (i + j) div 2 in if \<not> f h then search_between f (h + 1) j else search_between f i h else i)"
  by pat_completeness auto
termination
  by (relation "measure (\<lambda>(f, i, j). j - i)") auto

declare search_between.simps [simp del]

definition sort_Search :: "nat \<Rightarrow> (nat \<Rightarrow> bool) \<Rightarrow> nat" where
  "sort_Search n f = search_between f 0 n"

definition insertBySequence :: "(opid \<Rightarrow> scheduledOperation) \<Rightarrow> opid list \<Rightarrow> opid \<Rightarrow> opid list" where
  "insertBySequence ops queue i =
     (let at = sort_Search (length queue) (\<lambda>k. op_sequence (ops (queue ! k)) > op_sequence (ops i))
      in take at queue @ i # drop at queue)"

definition removeOperation :: "opid list \<Rightarrow> opid \<Rightarrow> opid list \<times> bool" where
  "removeOperation queue i = (remove1 i queue, i \<in> set queue)"

definition push_deadline :: "opid \<Rightarrow> scheduler \<Rightarrow> scheduler" where
  "push_deadline i st = st\<lparr>sc_deadlines := sc_deadlines st @ [i]\<rparr>"

definition drop_deadline :: "opid \<Rightarrow> scheduler \<Rightarrow> scheduler" where
  "drop_deadline i st = st\<lparr>sc_deadlines := remove1 i (sc_deadlines st)\<rparr>"

definition put_slot :: "string \<Rightarrow> PaneSlot \<Rightarrow> scheduler \<Rightarrow> scheduler" where
  "put_slot p s st = st\<lparr>sc_slots := fmupd p s (sc_slots st)\<rparr>"

definition new_slot :: PaneSlot where
  "new_slot = \<lparr>ps_Generation = 0, ps_Queue = [], ps_InFlight = None\<rparr>"

definition slot_of :: "scheduler \<Rightarrow> string \<Rightarrow> PaneSlot \<Rightarrow> PaneSlot" where
  "slot_of st p s = (case fmlookup (sc_slots st) p of Some s' \<Rightarrow> s' | None \<Rightarrow> s)"

definition minDeadline :: "time \<Rightarrow> time \<Rightarrow> time" where
  "minDeadline a b = (if b < a then b else a)"

text \<open>Dropping the ledger entries of older generations of a pane, all or all but one key.\<close>

definition forget_generation :: "string option \<Rightarrow> string \<Rightarrow> u64 \<Rightarrow> scheduler \<Rightarrow> scheduler" where
  "forget_generation keep p g st =
     st\<lparr>sc_ledger := fmfilter (\<lambda>k. \<not> (keep \<noteq> Some k \<and> (case fmlookup (sc_ledger st) k of
          Some e \<Rightarrow> le_paneID e = p \<and> le_generation e < g | None \<Rightarrow> False))) (sc_ledger st)\<rparr>"

definition cancel_inflight :: "PaneSlot \<Rightarrow> scheduler \<Rightarrow> scheduler" where
  "cancel_inflight s st = (case ps_InFlight s of Some f \<Rightarrow> log_action (Cancelled (if_OperationID f)) st | None \<Rightarrow> st)"

text \<open>A slot moves to a new generation: its effect is cancelled and its queue answered as stale.\<close>

definition fence_slot :: "string option \<Rightarrow> string \<Rightarrow> u64 \<Rightarrow> scheduler \<Rightarrow> scheduler" where
  "fence_slot keep p g st =
     (case fmlookup (sc_slots st) p of
        None \<Rightarrow> st
      | Some s \<Rightarrow>
          forget_generation keep p g
            (fold (\<lambda>i st. replyStale (drop_deadline i st) i) (ps_Queue s)
              (cancel_inflight s (put_slot p (s\<lparr>ps_Generation := g, ps_Queue := []\<rparr>) st))))"

text \<open>The oldest finished entry, in the order of the keys.\<close>

definition oldest_finished :: "(string, ledgerEntry) fmap \<Rightarrow> string option" where
  "oldest_finished ledger = map_option fst
     (fold (\<lambda>(k, e) best. if le_operation e \<noteq> None then best
        else case best of Some (k', t) \<Rightarrow> if le_createdAt e < t then Some (k, le_createdAt e) else best
             | None \<Rightarrow> Some (k, le_createdAt e)) (sorted_list_of_fmap ledger) None)"

fun drop_oldest :: "nat \<Rightarrow> (string, ledgerEntry) fmap \<Rightarrow> (string, ledgerEntry) fmap" where
  "drop_oldest 0 ledger = ledger"
| "drop_oldest (Suc n) ledger =
     (if fcard (fmdom ledger) \<ge> maxLedgerEntries
      then case oldest_finished ledger of None \<Rightarrow> ledger | Some k \<Rightarrow> drop_oldest n (fmdrop k ledger)
      else ledger)"

definition pruneLedger :: "time \<Rightarrow> scheduler \<Rightarrow> scheduler" where
  "pruneLedger now st =
     (let kept = fm_drop_if (\<lambda>e. le_operation e = None \<and> time_Sub now (le_createdAt e) \<ge> ledgerRetention) (sc_ledger st)
      in st\<lparr>sc_ledger := drop_oldest (fcard (fmdom kept)) kept\<rparr>)"

section \<open>Dispatching\<close>

definition start :: "scheduler \<Rightarrow> opid \<Rightarrow> u64 \<Rightarrow> scheduler" where
  "start st i generation =
     (let options = op_options (sc_ops st i);
          token = \<lparr>wt_OperationID = i, wt_PaneID = so_PaneID options, wt_Generation = generation,
                   wt_AllowAbsent = so_AllowAbsent options, wt_Deadline = so_Deadline options\<rparr>
      in log_action (Started i token (op_runner (sc_ops st i)))
           (upd_op i (\<lambda>op. op\<lparr>op_dispatched := True\<rparr>) (upd_metrics (\<lambda>m. m\<lparr>sm_Dispatched := sm_Dispatched m + 1\<rparr>) st)))"

definition expired :: "scheduler \<Rightarrow> time \<Rightarrow> opid \<Rightarrow> bool" where
  "expired st now i \<longleftrightarrow> \<not> now < so_Deadline (op_options (sc_ops st i))"

text \<open>The loop over the relay queue; its argument is the queue.\<close>

fun dispatch_relay :: "time \<Rightarrow> opid list \<Rightarrow> scheduler \<Rightarrow> scheduler" where
  "dispatch_relay now [] st = st\<lparr>sc_relayQueue := []\<rparr>"
| "dispatch_relay now (i # queue) st =
     (if sc_inUse st < sc_capacity st \<and> \<not> sc_stopping st
      then if expired st now i
           then dispatch_relay now queue (expire_op (drop_deadline i (st\<lparr>sc_relayQueue := queue\<rparr>)) i)
           else dispatch_relay now queue
                  (start (st\<lparr>sc_relayQueue := queue, sc_inUse := sc_inUse st + 1, sc_relayInFlight := finsert i (sc_relayInFlight st)\<rparr>) i 0)
      else st\<lparr>sc_relayQueue := i # queue\<rparr>)"

text \<open>One look at a pane: the new state and whether the queue advanced.\<close>

definition dispatch_pane :: "time \<Rightarrow> string \<Rightarrow> scheduler \<Rightarrow> scheduler \<times> bool" where
  "dispatch_pane now p st =
     (case fmlookup (sc_slots st) p of
        None \<Rightarrow> (st, False)
      | Some slot \<Rightarrow>
          (case ps_Queue slot of
             [] \<Rightarrow> (st, False)
           | i # queue \<Rightarrow>
               if ps_InFlight slot \<noteq> None then (st, False)
               else
                 let st1 = put_slot p (slot\<lparr>ps_Queue := queue\<rparr>) st in
                 if op_generation (sc_ops st i) \<noteq> ps_Generation slot then (replyStale (drop_deadline i st1) i, True)
                 else if expired st now i then (expire_op (drop_deadline i st1) i, True)
                 else (start (put_slot p (slot\<lparr>ps_Queue := queue, ps_InFlight := Some \<lparr>if_OperationID = i,
                               if_CommandID = so_ID (op_options (sc_ops st i)), if_Generation = ps_Generation slot, if_StartedAt = now\<rparr>\<rparr>)
                               (st\<lparr>sc_inUse := sc_inUse st + 1\<rparr>)) i (ps_Generation slot), True)))"

fun dispatch_pass :: "time \<Rightarrow> string list \<Rightarrow> scheduler \<Rightarrow> scheduler \<times> bool" where
  "dispatch_pass now [] st = (st, False)"
| "dispatch_pass now (p # ps) st =
     (if sc_inUse st \<ge> sc_capacity st then (st, False)
      else let (st1, moved) = dispatch_pane now p st; (st2, moved') = dispatch_pass now ps st1 in (st2, moved \<or> moved'))"

definition queued :: "scheduler \<Rightarrow> nat" where
  "queued st = fm_sum (\<lambda>s. length (ps_Queue s)) (sc_slots st)"

text \<open>Replies, finished operations and starts leave the queues alone.\<close>

definition same_queues :: "scheduler \<Rightarrow> scheduler \<Rightarrow> bool" where
  "same_queues st st' \<longleftrightarrow> sc_capacity st' = sc_capacity st \<and> sc_slots st' = sc_slots st \<and> sc_relayQueue st' = sc_relayQueue st
     \<and> sc_relayInFlight st' = sc_relayInFlight st \<and> sc_knownActive st' = sc_knownActive st \<and> sc_inUse st' = sc_inUse st
     \<and> sc_stopping st' = sc_stopping st \<and> sc_stopAck st' = sc_stopAck st"

lemma same_queues_refl [simp]: "same_queues st st"
  by (simp add: same_queues_def)

lemma same_queues_trans: "same_queues a b \<Longrightarrow> same_queues b c \<Longrightarrow> same_queues a c"
  by (simp add: same_queues_def)

lemma same_log [simp]: "same_queues st (log_action a st')= same_queues st st'"
  by (simp add: same_queues_def log_action_def)

lemma same_fold_log: "same_queues st (fold (\<lambda>x. log_action (f x)) xs st') = same_queues st st'"
  by (induction xs arbitrary: st') simp_all

lemma same_misc [simp]: "same_queues st (upd_op i f st') = same_queues st st'" "same_queues st (upd_metrics g st') = same_queues st st'"
    "same_queues st (st'\<lparr>sc_ledger := l\<rparr>) = same_queues st st'" "same_queues st (drop_deadline i st') = same_queues st st'"
    "same_queues st (push_deadline i st') = same_queues st st'"
  by (simp_all add: same_queues_def upd_op_def upd_metrics_def drop_deadline_def push_deadline_def)

lemma same_replyWithReplay [simp]: "same_queues st (replyWithReplay st' i r e b) = same_queues st st'"
  unfolding replyWithReplay_def case_prod_beta by (rule same_fold_log)

lemma same_reply [simp]: "same_queues st (reply st' i r e) = same_queues st st'"
  by (simp add: reply_def run_finalizer_def split: option.splits)

lemma same_finish [simp]: "same_queues st (finish st' i r e) = same_queues st st'"
  by (simp add: finish_def run_finalizer_def Let_def split: option.splits)

lemma same_replyStale [simp]: "same_queues st (replyStale st' i) = same_queues st st'"
  by (simp add: replyStale_def Let_def)

lemma same_expire [simp]: "same_queues st (expire_op st' i) = same_queues st st'"
  by (simp add: expire_op_def)

lemma same_start [simp]: "same_queues st (start st' i g) = same_queues st st'"
  by (simp add: start_def Let_def)

lemma same_fields: "same_queues st st' \<Longrightarrow> sc_slots st' = sc_slots st" "same_queues st st' \<Longrightarrow> sc_inUse st' = sc_inUse st"
    "same_queues st st' \<Longrightarrow> sc_capacity st' = sc_capacity st" "same_queues st st' \<Longrightarrow> sc_stopping st' = sc_stopping st"
  by (simp_all add: same_queues_def)

lemma slots_stale [simp]: "sc_slots (replyStale st i) = sc_slots st" "sc_slots (expire_op st i) = sc_slots st"
    "sc_slots (start st i g) = sc_slots st" "sc_slots (drop_deadline i st) = sc_slots st"
    "sc_slots (put_slot p s st) = fmupd p s (sc_slots st)"
  by (auto intro!: same_fields simp: drop_deadline_def put_slot_def)

lemma dispatch_pane_progress:
  assumes "dispatch_pane now p st = (st', moved)"
  shows "queued st = queued st' + (if moved then 1 else 0)"
proof (cases "fmlookup (sc_slots st) p")
  case (Some slot)
  have split: "queued st = length (ps_Queue slot) + fm_sum (\<lambda>s. length (ps_Queue s)) (fmdrop p (sc_slots st))"
    unfolding queued_def by (rule fm_sum_split) (rule Some)
  show ?thesis
  proof (cases "ps_Queue slot")
    case (Cons i queue)
    then show ?thesis
      using assms Some split by (auto simp: dispatch_pane_def Let_def queued_def [of st'] fm_sum_upd split: if_splits)
  qed (use assms Some in \<open>auto simp: dispatch_pane_def\<close>)
qed (use assms in \<open>auto simp: dispatch_pane_def\<close>)

lemma dispatch_pass_progress: "dispatch_pass now ps st = (st', moved) \<Longrightarrow> queued st' \<le> queued st \<and> (moved \<longrightarrow> queued st' < queued st)"
proof (induction ps arbitrary: st st' moved)
  case (Cons p ps)
  obtain st1 m1 where 1: "dispatch_pane now p st = (st1, m1)" by fastforce
  obtain st2 m2 where 2: "dispatch_pass now ps st1 = (st2, m2)" by fastforce
  show ?case using Cons.IH [OF 2] dispatch_pane_progress [OF 1] Cons.prems 1 2 by (auto split: if_splits)
qed simp

function dispatch_panes :: "time \<Rightarrow> string list \<Rightarrow> scheduler \<Rightarrow> scheduler" where
  "dispatch_panes now ps st =
     (if sc_inUse st < sc_capacity st \<and> \<not> sc_stopping st
      then case dispatch_pass now ps st of (st', progress) \<Rightarrow> if progress then dispatch_panes now ps st' else st'
      else st)"
  by pat_completeness auto
termination
  by (relation "measure (\<lambda>(now, ps, st). queued st)") (auto dest: dispatch_pass_progress [OF sym])

declare dispatch_panes.simps [simp del]

definition setOwnerMetrics :: "scheduler \<Rightarrow> scheduler" where
  "setOwnerMetrics st = upd_metrics (\<lambda>m. m\<lparr>sm_HerdrInUse := sc_inUse st, sm_PaneSlots := fcard (fmdom (sc_slots st))\<rparr>) st"

definition dispatch :: "time \<Rightarrow> scheduler \<Rightarrow> scheduler" where
  "dispatch now st =
     (let st1 = dispatch_relay now (sc_relayQueue st) st
      in setOwnerMetrics (dispatch_panes now (sorted_list_of_fset (fmdom (sc_slots st1))) st1))"

section \<open>Completions\<close>

text \<open>
  \<open>generationCurrent\<close>, if it is set, asks the inventory whether a pane still has a generation.
  The part of a completion that concerns the slot of a pane: whether the operation is stale.
\<close>

definition completion_stale :: "(string \<Rightarrow> u64 \<Rightarrow> bool) option \<Rightarrow> ScheduleOptions \<Rightarrow> PaneSlot \<Rightarrow> InFlightOperation \<Rightarrow> bool" where
  "completion_stale current options slot f =
     (if if_Generation f \<noteq> ps_Generation slot then True
      else if \<not> so_AllowAbsent options
           then case current of Some cur \<Rightarrow> \<not> cur (so_PaneID options) (if_Generation f) | None \<Rightarrow> False
           else False)"

definition close_slot :: "EffectResult \<Rightarrow> bool \<Rightarrow> string \<Rightarrow> string \<Rightarrow> scheduler \<Rightarrow> scheduler" where
  "close_slot result stale p key st =
     (case fmlookup (sc_slots st) p of
        None \<Rightarrow> st
      | Some slot \<Rightarrow>
          let bump = (er_BumpGeneration result \<and> \<not> stale);
              g = (if bump then ps_Generation slot + 1 else ps_Generation slot);
              st1 = (if bump then forget_generation (Some key) p g st else st);
              gone = (ps_Queue slot = [] \<and> bump \<and> (case er_Result result of Some r \<Rightarrow> cr_Phase r = ''closed'' | None \<Rightarrow> False))
          in if gone then st1\<lparr>sc_slots := fmdrop p (sc_slots st1)\<rparr>
             else put_slot p (slot\<lparr>ps_Generation := g, ps_InFlight := None\<rparr>) st1)"

text \<open>An operation that continues on a pane.\<close>

definition continue_op :: "time \<Rightarrow> (string \<Rightarrow> u64 \<Rightarrow> bool) option \<Rightarrow> opid \<Rightarrow> EffectContinuation \<Rightarrow> scheduler \<Rightarrow> scheduler" where
  "continue_op now current i cont st0 =
     (let st1 = upd_op i (\<lambda>op. op\<lparr>op_finalize := ec_Finalize cont,
            op_options := (op_options op)\<lparr>so_RelayLevel := False, so_PaneID := ec_PaneID cont, so_AllowAbsent := ec_AllowAbsent cont,
              so_Deadline := minDeadline (so_Deadline (op_options op)) (ec_Deadline cont)\<rparr>,
            op_generation := ec_Generation cont, op_runner := ec_Runner cont, op_dispatched := False\<rparr>) st0;
          p = ec_PaneID cont;
          slot = slot_of st1 p (new_slot\<lparr>ps_Generation := ec_Generation cont\<rparr>);
          st2 = put_slot p slot st1;
          st3 = (if ec_Generation cont > ps_Generation slot \<and> (case current of Some cur \<Rightarrow> cur p (ec_Generation cont) | None \<Rightarrow> False)
                 then fence_slot (Some (so_LedgerKey (op_options (sc_ops st2 i)))) p (ec_Generation cont) st2 else st2);
          slot' = slot_of st3 p slot;
          st4 = (if sc_stopping st3 then finish st3 i None (Some ErrClosed)
                 else if ps_Generation slot' \<noteq> ec_Generation cont then replyStale st3 i
                 else put_slot p (slot'\<lparr>ps_Queue := insertBySequence (sc_ops st3) (ps_Queue slot') i\<rparr>) (push_deadline i st3))
      in dispatch now st4)"

definition count_latency :: "time \<Rightarrow> opid \<Rightarrow> scheduler \<Rightarrow> scheduler" where
  "count_latency now i st =
     upd_metrics (\<lambda>m0.
       let m = m0\<lparr>sm_Completed := sm_Completed m0 + 1\<rparr>;
           latency = time_Sub now (so_ReceivedAt (op_options (sc_ops st i)))
       in if latency > 0
          then let micros = latency div 1000
               in m\<lparr>sm_LatencySamples := sm_LatencySamples m + 1, sm_LatencyTotalMicros := sm_LatencyTotalMicros m + micros,
                    sm_LatencyMaxMicros := max (sm_LatencyMaxMicros m) micros\<rparr>
          else m) st"

text \<open>\<open>completeAndRedispatch\<close>, first what happens once the operation left its place.\<close>

definition complete_op :: "time \<Rightarrow> (string \<Rightarrow> u64 \<Rightarrow> bool) option \<Rightarrow> opid \<Rightarrow> EffectResult \<Rightarrow> bool \<Rightarrow> scheduler \<Rightarrow> scheduler" where
  "complete_op now current i result stale st =
     (let st1 = drop_deadline i (st\<lparr>sc_inUse := sc_inUse st - 1\<rparr>) in
      if stale
      then dispatch now (replyStale (setOwnerMetrics (upd_metrics (\<lambda>m. m\<lparr>sm_Completed := sm_Completed m + 1\<rparr>) st1)) i)
      else case er_Continuation result of
             Some cont \<Rightarrow> continue_op now current i cont st1
           | None \<Rightarrow> dispatch now (finish (setOwnerMetrics (count_latency now i st1)) i (er_Result result) None))"

definition completeAndRedispatch :: "time \<Rightarrow> (string \<Rightarrow> u64 \<Rightarrow> bool) option \<Rightarrow> opid \<Rightarrow> EffectResult \<Rightarrow> scheduler \<Rightarrow> scheduler" where
  "completeAndRedispatch now current i result st =
     (let options = op_options (sc_ops st i) in
      if so_RelayLevel options
      then if i |\<in>| sc_relayInFlight st
           then complete_op now current i result False (st\<lparr>sc_relayInFlight := sc_relayInFlight st |-| {|i|}\<rparr>)
           else st
      else
        (case fmlookup (sc_slots st) (so_PaneID options) of
           None \<Rightarrow> st
         | Some slot \<Rightarrow>
             (case ps_InFlight slot of
                None \<Rightarrow> st
              | Some f \<Rightarrow>
                  if if_OperationID f \<noteq> i then st
                  else
                    let stale = completion_stale current options slot f
                    in complete_op now current i result stale (close_slot result stale (so_PaneID options) (so_LedgerKey options) st))))"

section \<open>The other events\<close>

definition applyTopology :: "time \<Rightarrow> string fset \<Rightarrow> (string, u64) fmap \<Rightarrow> scheduler \<Rightarrow> scheduler" where
  "applyTopology now active generations st =
     (let st1 = fold (\<lambda>p st. if p |\<in>| active then st
                       else case fmlookup (sc_slots st) p of
                              None \<Rightarrow> st
                            | Some slot \<Rightarrow> fence_slot None p (ps_Generation slot + 1) st)
                  (sorted_list_of_fset (sc_knownActive st)) st;
          st2 = fold (\<lambda>(p, g) st.
                       let slot = slot_of st p new_slot; st' = put_slot p slot st
                       in if g \<le> ps_Generation slot then st' else fence_slot None p g st')
                  (sorted_list_of_fmap generations) st1
      in dispatch now (log_action TopologyApplied (st2\<lparr>sc_knownActive := active\<rparr>)))"

definition topology_snapshot :: "(string, bool) fmap \<Rightarrow> string fset" where
  "topology_snapshot active = ffilter (\<lambda>p. fmlookup active p = Some True) (fmdom active)"

text \<open>Queueing an admitted operation.\<close>

definition enqueue_op :: "opid \<Rightarrow> scheduler \<Rightarrow> scheduler" where
  "enqueue_op i st0 =
     (let st = push_deadline i st0; options = op_options (sc_ops st i); p = so_PaneID options in
      if so_RelayLevel options then st\<lparr>sc_relayQueue := insertBySequence (sc_ops st) (sc_relayQueue st) i\<rparr>
      else
        let slot = slot_of st p new_slot;
            st1 = put_slot p slot st;
            st2 = (if so_PaneGeneration options > ps_Generation slot
                   then fence_slot (Some (so_LedgerKey options)) p (so_PaneGeneration options) st1 else st1);
            slot' = slot_of st2 p slot;
            st3 = (case fmlookup (sc_ledger st2) (so_LedgerKey options) of
                     Some entry \<Rightarrow> st2\<lparr>sc_ledger := fmupd (so_LedgerKey options) (entry\<lparr>le_generation := ps_Generation slot'\<rparr>) (sc_ledger st2)\<rparr>
                   | None \<Rightarrow> st2);
            st4 = upd_op i (\<lambda>op. op\<lparr>op_generation := ps_Generation slot'\<rparr>) st3
        in put_slot p (slot'\<lparr>ps_Queue := insertBySequence (sc_ops st4) (ps_Queue slot') i\<rparr>) st4)"

definition attach_waiters :: "opid \<Rightarrow> opid \<Rightarrow> scheduler \<Rightarrow> scheduler" where
  "attach_waiters i j st =
     upd_op j (\<lambda>op. op\<lparr>op_waiters := op_waiters op @ map (\<lambda>(w, _). (w, True)) (op_waiters (sc_ops st i))\<rparr>) st"

text \<open>
  \<open>ingress\<close>: a request arrives; the operation is put into the store by its submitter. The times
  are the readings for the pruning, for the deadline and for the dispatch. An entry of the ledger has
  a result or an operation; the code would dereference nil for one that had neither.
\<close>

definition ingress :: "time \<Rightarrow> time \<Rightarrow> time \<Rightarrow> opid \<Rightarrow> scheduler \<Rightarrow> scheduler" where
  "ingress nowPrune nowCheck nowDispatch i st0 =
     (let st = pruneLedger nowPrune st0; options = op_options (sc_ops st i); key = so_LedgerKey options in
      if sc_stopping st then reply st i None (Some ErrClosed)
      else if expired st nowCheck i then replyNotStarted st i
      else if \<not> so_RelayLevel options \<and>
              (case fmlookup (sc_slots st) (so_PaneID options) of Some slot \<Rightarrow> so_PaneGeneration options < ps_Generation slot | None \<Rightarrow> False)
      then replyStale st i
      else if key = [] then dispatch nowDispatch (enqueue_op i st)
      else case fmlookup (sc_ledger st) key of
             Some existing \<Rightarrow>
               if le_payloadHash existing \<noteq> so_PayloadHash options then reply st i None (Some ErrConflict)
               else (case le_result existing of
                       Some r \<Rightarrow> replyWithReplay st i (Some r) None True
                     | None \<Rightarrow> (case le_operation existing of Some j \<Rightarrow> attach_waiters i j st | None \<Rightarrow> st))
           | None \<Rightarrow>
               dispatch nowDispatch (enqueue_op i (st\<lparr>sc_ledger := fmupd key
                 \<lparr>le_payloadHash = so_PayloadHash options, le_operation = Some i, le_result = None, le_generation = 0,
                  le_paneID = so_PaneID options, le_createdAt = so_ReceivedAt options\<rparr> (sc_ledger st)\<rparr>)))"

definition ledger_update :: "string \<Rightarrow> u64 \<Rightarrow> CommandResult option \<Rightarrow> scheduler \<Rightarrow> scheduler" where
  "ledger_update key generation result st =
     (case (fmlookup (sc_ledger st) key, result) of
        (Some entry, Some r) \<Rightarrow>
          if le_generation entry = generation \<and> le_result entry \<noteq> None
          then log_action (LedgerApplied True) (st\<lparr>sc_ledger := fmupd key (entry\<lparr>le_result := Some r\<rparr>) (sc_ledger st)\<rparr>)
          else log_action (LedgerApplied False) st
      | _ \<Rightarrow> log_action (LedgerApplied False) st)"

definition UpdateLedgerPhase_result :: "string \<Rightarrow> CommandResult" where
  "UpdateLedgerPhase_result phase = \<lparr>cr_RequestID = [], cr_Action = [], cr_OK = (phase = ''confirmed''), cr_Phase = phase, cr_Error = [],
     cr_PaneID = [], cr_Data = None, cr_replayed = False\<rparr>"

definition ledger_replay :: "string \<Rightarrow> string \<Rightarrow> scheduler \<Rightarrow> scheduler" where
  "ledger_replay key payloadHash st =
     (case fmlookup (sc_ledger st) key of
        None \<Rightarrow> log_action (LedgerReplayed None False None) st
      | Some entry \<Rightarrow>
          if le_payloadHash entry \<noteq> payloadHash then log_action (LedgerReplayed None True (Some ErrConflict)) st
          else log_action (LedgerReplayed (le_result entry) True None) st)"

definition removeQueued :: "opid \<Rightarrow> scheduler \<Rightarrow> scheduler \<times> bool" where
  "removeQueued i st =
     (let options = op_options (sc_ops st i) in
      if so_RelayLevel options
      then (case removeOperation (sc_relayQueue st) i of (queue, removed) \<Rightarrow> (st\<lparr>sc_relayQueue := queue\<rparr>, removed))
      else
        (case fmlookup (sc_slots st) (so_PaneID options) of
           None \<Rightarrow> (st, False)
         | Some slot \<Rightarrow>
             if map_option if_OperationID (ps_InFlight slot) = Some i then (st, False)
             else (case removeOperation (ps_Queue slot) i of
                     (queue, removed) \<Rightarrow> (put_slot (so_PaneID options) (slot\<lparr>ps_Queue := queue\<rparr>) st, removed))))"

text \<open>The timer pops every operation whose deadline has passed, the earliest first.\<close>

definition timer :: "time \<Rightarrow> time \<Rightarrow> scheduler \<Rightarrow> scheduler" where
  "timer now nowDispatch st =
     (let due = sort_key (\<lambda>i. so_Deadline (op_options (sc_ops st i))) (filter (expired st now) (sc_deadlines st));
          st1 = st\<lparr>sc_deadlines := filter (\<lambda>i. \<not> expired st now i) (sc_deadlines st)\<rparr>
      in dispatch nowDispatch (fold (\<lambda>i st. case removeQueued i st of (st', removed) \<Rightarrow> if removed then expire_op st' i else st') due st1))"

text \<open>
  \<open>cancelInflight\<close> and \<open>stop\<close>: effects are cancelled and queued operations refused. A queue is
  emptied before its operations are answered, which no answer can see.
\<close>

definition stop_slot :: "string \<Rightarrow> scheduler \<Rightarrow> scheduler" where
  "stop_slot p st =
     (case fmlookup (sc_slots st) p of
        None \<Rightarrow> st
      | Some slot \<Rightarrow>
          fold (\<lambda>i st. reply st i None (Some ErrClosed)) (ps_Queue slot)
            (cancel_inflight slot (put_slot p (slot\<lparr>ps_Queue := []\<rparr>) st)))"

definition begin_stop :: "scheduler \<Rightarrow> scheduler" where
  "begin_stop st0 =
     (if sc_stopping st0 then st0
      else
        let st1 = fold stop_slot (sorted_list_of_fset (fmdom (sc_slots st0))) (st0\<lparr>sc_stopping := True\<rparr>);
            st2 = fold (\<lambda>i. log_action (Cancelled i)) (sorted_list_of_fset (sc_relayInFlight st1)) st1
        in fold (\<lambda>i st. reply st i None (Some ErrClosed)) (sc_relayQueue st2) (st2\<lparr>sc_relayQueue := []\<rparr>))"

definition stop_event :: "scheduler \<Rightarrow> scheduler" where
  "stop_event st = begin_stop (st\<lparr>sc_stopAck := True\<rparr>)"

definition finished :: "scheduler \<Rightarrow> bool" where
  "finished st \<longleftrightarrow> sc_stopping st \<and> sc_inUse st = 0 \<and> sc_stopAck st"

end
