(* ===== verification/SchedulerSafety.thy ===== *)
theory SchedulerSafety
  imports Scheduler
begin

text \<open>
  Correctness of the command scheduler: every request is answered exactly once, effects run one
  at a time on a pane and within the capacity, no admitted work is left lying while capacity is
  free, the ledger replays instead of repeating, and a stopped scheduler has answered everyone.
\<close>

section \<open>Accounting\<close>

definition inflight_ops :: "PaneSlot \<Rightarrow> opid multiset" where
  "inflight_ops s = (case ps_InFlight s of None \<Rightarrow> {#} | Some f \<Rightarrow> {#if_OperationID f#})"

definition waiting :: "scheduler \<Rightarrow> opid multiset" where
  "waiting st = mset (sc_relayQueue st) + fm_sum (\<lambda>s. mset (ps_Queue s)) (sc_slots st)"

definition running :: "scheduler \<Rightarrow> opid multiset" where
  "running st = mset_set (fset (sc_relayInFlight st)) + fm_sum inflight_ops (sc_slots st)"

definition live :: "scheduler \<Rightarrow> opid multiset" where
  "live st = waiting st + running st"

definition waiters :: "scheduler \<Rightarrow> opid \<Rightarrow> waiter multiset" where
  "waiters st i = mset (map fst (op_waiters (sc_ops st i)))"

definition replied_by :: "sched_action \<Rightarrow> waiter list" where
  "replied_by a = (case a of Replied w _ _ _ \<Rightarrow> [w] | _ \<Rightarrow> [])"

definition started_by :: "sched_action \<Rightarrow> opid list" where
  "started_by a = (case a of Started i _ _ \<Rightarrow> [i] | _ \<Rightarrow> [])"

definition replied :: "scheduler \<Rightarrow> waiter multiset" where
  "replied st = mset (concat (map replied_by (sc_log st)))"

definition started :: "scheduler \<Rightarrow> opid multiset" where
  "started st = mset (concat (map started_by (sc_log st)))"

definition key_of :: "scheduler \<Rightarrow> opid \<Rightarrow> string" where
  "key_of st i = so_LedgerKey (op_options (sc_ops st i))"

definition pane_of :: "scheduler \<Rightarrow> opid \<Rightarrow> string option" where
  "pane_of st i = (if so_RelayLevel (op_options (sc_ops st i)) then None else Some (so_PaneID (op_options (sc_ops st i))))"

text \<open>An entry of the ledger has a result or points to an operation of \<open>L\<close> with its key.\<close>

definition entry_ok :: "(opid \<Rightarrow> string) \<Rightarrow> opid set \<Rightarrow> string \<Rightarrow> ledgerEntry \<Rightarrow> bool" where
  "entry_ok key L k e \<longleftrightarrow> (case le_operation e of None \<Rightarrow> le_result e \<noteq> None | Some i \<Rightarrow> le_result e = None \<and> i \<in> L \<and> key i = k)"

definition ledger_ok :: "opid set \<Rightarrow> scheduler \<Rightarrow> bool" where
  "ledger_ok L st \<longleftrightarrow> (\<forall>k e. fmlookup (sc_ledger st) k = Some e \<longrightarrow> entry_ok (key_of st) L k e)"

definition placed :: "scheduler \<Rightarrow> bool" where
  "placed st \<longleftrightarrow> (\<forall>i. i \<in> set (sc_relayQueue st) \<union> fset (sc_relayInFlight st) \<longrightarrow> pane_of st i = None)
     \<and> (\<forall>p s i. fmlookup (sc_slots st) p = Some s \<longrightarrow> i \<in># mset (ps_Queue s) + inflight_ops s \<longrightarrow> pane_of st i = Some p)"

text \<open>
  The books of a scheduler that has the operations \<open>H\<close> in hand, was sent the requests of \<open>S\<close> and
  has received the completions \<open>C\<close>.
\<close>

definition books :: "opid multiset \<Rightarrow> waiter multiset \<Rightarrow> opid multiset \<Rightarrow> scheduler \<Rightarrow> bool" where
  "books H S C st \<longleftrightarrow>
     S = replied st + \<Sum>\<^sub># (image_mset (waiters st) (live st + H))
     \<and> (\<forall>i. count (live st + H) i \<le> 1)
     \<and> (\<not> sc_stopping st \<longrightarrow> ledger_ok (set_mset (live st + H)) st)
     \<and> sc_inUse st = int (size (running st)) \<and> sc_inUse st \<le> sc_capacity st
     \<and> placed st \<and> started st = C + running st"

subsection \<open>Steps that keep the books\<close>

lemma replied_log [simp]: "replied (log_action a st) = replied st + mset (replied_by a)"
  by (simp add: replied_def log_action_def)

lemma started_log [simp]: "started (log_action a st) = started st + mset (started_by a)"
  by (simp add: started_def log_action_def)

text \<open>What a step leaves alone: the queues, and of the operations their requests, keys and panes.\<close>

definition same_ops :: "scheduler \<Rightarrow> scheduler \<Rightarrow> bool" where
  "same_ops st st' \<longleftrightarrow> waiters st' = waiters st \<and> key_of st' = key_of st \<and> pane_of st' = pane_of st"

lemma same_live: "same_queues st st' \<Longrightarrow> live st' = live st" "same_queues st st' \<Longrightarrow> running st' = running st"
    "same_queues st st' \<Longrightarrow> waiting st' = waiting st"
  by (simp_all add: same_queues_def live_def waiting_def running_def)

lemma same_placed: "same_queues st st' \<Longrightarrow> same_ops st st' \<Longrightarrow> placed st' = placed st"
  by (simp add: same_queues_def same_ops_def placed_def)

definition ledger_shrinks :: "scheduler \<Rightarrow> scheduler \<Rightarrow> bool" where
  "ledger_shrinks st st' \<longleftrightarrow> (\<forall>k e'. fmlookup (sc_ledger st') k = Some e' \<longrightarrow>
     (le_operation e' = None \<and> le_result e' \<noteq> None) \<or>
     (\<exists>e. fmlookup (sc_ledger st) k = Some e \<and> le_operation e' = le_operation e \<and> (le_result e' = None \<longleftrightarrow> le_result e = None)))"

lemma entry_ok_same: "le_operation e' = le_operation e \<Longrightarrow> (le_result e' = None) = (le_result e = None) \<Longrightarrow>
    entry_ok key L k e' = entry_ok key L k e"
  by (simp add: entry_ok_def split: option.split)

lemma entry_ok_done [simp]: "le_operation e = None \<Longrightarrow> le_result e \<noteq> None \<Longrightarrow> entry_ok key L k e"
  by (simp add: entry_ok_def)

lemma ledger_shrinks_ok:
  assumes "ledger_shrinks st st'" and "same_ops st st'" and "ledger_ok L st"
  shows "ledger_ok L st'"
  unfolding ledger_ok_def
proof (intro allI impI)
  fix k e'
  assume "fmlookup (sc_ledger st') k = Some e'"
  then consider "le_operation e' = None" "le_result e' \<noteq> None"
    | e where "fmlookup (sc_ledger st) k = Some e" "le_operation e' = le_operation e" "(le_result e' = None) = (le_result e = None)"
    using assms(1) unfolding ledger_shrinks_def by metis
  then show "entry_ok (key_of st') L k e'"
  proof cases
    case (2 e)
    then have "entry_ok (key_of st) L k e" using assms(3) by (simp add: ledger_ok_def)
    then show ?thesis using entry_ok_same [OF 2(2,3), of "key_of st" L k] assms(2) by (simp add: same_ops_def)
  qed simp
qed

lemma same_eqs:
  assumes "same_queues st st'" and "same_ops st st'"
  shows "live st' = live st" "running st' = running st" "placed st' = placed st" "waiters st' = waiters st"
    "sc_inUse st' = sc_inUse st" "sc_capacity st' = sc_capacity st" "sc_stopping st' = sc_stopping st"
  using assms same_live [OF assms(1)] same_placed [OF assms] by (simp_all add: same_queues_def same_ops_def)

definition quiet :: "scheduler \<Rightarrow> scheduler \<Rightarrow> bool" where
  "quiet st st' \<longleftrightarrow> same_queues st st' \<and> same_ops st st' \<and> replied st' = replied st \<and> started st' = started st \<and> ledger_shrinks st st'"

lemma quiet_books:
  assumes "quiet st st'" and "books H S C st"
  shows "books H S C st'"
proof -
  have q: "same_queues st st'" "same_ops st st'" "replied st' = replied st" "started st' = started st" "ledger_shrinks st st'"
    using assms(1) by (simp_all add: quiet_def)
  show ?thesis
    using assms(2) ledger_shrinks_ok [OF q(5,2)] unfolding books_def by (simp add: same_eqs [OF q(1,2)] q(3,4))
qed

text \<open>An answer settles the requests of an operation; when it finishes the operation, its ledger entry too.\<close>

definition answers :: "opid \<Rightarrow> scheduler \<Rightarrow> scheduler \<Rightarrow> bool" where
  "answers i st st' \<longleftrightarrow> same_queues st st' \<and> same_ops st st' \<and> replied st' = replied st + waiters st i \<and> started st' = started st"

definition settles :: "opid \<Rightarrow> scheduler \<Rightarrow> scheduler \<Rightarrow> bool" where
  "settles i st st' \<longleftrightarrow> answers i st st' \<and> ledger_shrinks st st'
     \<and> (\<forall>e. fmlookup (sc_ledger st') (key_of st i) = Some e \<longrightarrow> le_operation e = None)"

lemma settled_ledger:
  assumes "settles i st st'" and "ledger_ok L st"
  shows "ledger_ok (L - {i}) st'"
proof -
  have "ledger_ok L st'" using assms by (auto simp: settles_def answers_def intro: ledger_shrinks_ok)
  moreover have "key_of st' = key_of st" using assms(1) by (simp add: settles_def answers_def same_ops_def)
  ultimately show ?thesis using assms(1) unfolding ledger_ok_def entry_ok_def settles_def by (fastforce split: option.splits)
qed

lemma books_once: "books H S C st \<Longrightarrow> count (live st + H) i \<le> 1"
  unfolding books_def by blast

lemma books_hand:
  assumes "books (add_mset i H) S C st"
  shows "i \<notin># live st" "i \<notin># H"
  using books_once [OF assms, of i] by (simp_all add: not_in_iff)

lemma books_placed: "books H S C st \<Longrightarrow> placed st"
  by (simp add: books_def)

lemma answers_books:
  assumes "answers i st st'" and "\<not> sc_stopping st \<Longrightarrow> settles i st st'" and "books (add_mset i H) S C st"
  shows "books H S C st'"
proof -
  have q: "same_queues st st'" "same_ops st st'" "replied st' = replied st + waiters st i" "started st' = started st"
    using assms(1) by (simp_all add: answers_def)
  note one = books_once [OF assms(3)]
  have "i \<notin># live st + H" using books_hand [OF assms(3)] by simp
  then have "\<not> sc_stopping st \<Longrightarrow> ledger_ok (set_mset (live st + H)) st'"
    using settled_ledger [of i st st' "set_mset (live st + add_mset i H)"] assms(2,3) by (simp add: books_def)
  moreover have "count (live st + H) j \<le> 1" for j
    using one [of j] by (cases "i = j") simp_all
  ultimately show ?thesis
    using assms(3) unfolding books_def by (simp add: same_eqs [OF q(1,2)] q(3,4))
qed

subsection \<open>What each helper does to the books\<close>

lemma same_ops_refl [simp]: "same_ops st st"
  by (simp add: same_ops_def)

lemma same_ops_store: "sc_ops st' = sc_ops st'' \<Longrightarrow> same_ops st st' = same_ops st st''"
  unfolding same_ops_def waiters_def [abs_def] key_of_def [abs_def] pane_of_def [abs_def] by (simp cong: if_cong)

lemma same_ops_misc [simp]: "same_ops st (log_action a st') = same_ops st st'" "same_ops st (upd_metrics g st') = same_ops st st'"
    "same_ops st (st'\<lparr>sc_ledger := l\<rparr>) = same_ops st st'" "same_ops st (drop_deadline i st') = same_ops st st'"
    "same_ops st (push_deadline i st') = same_ops st st'"
  by (rule same_ops_store, simp add: log_action_def upd_metrics_def drop_deadline_def push_deadline_def)+

lemma same_ops_upd:
  assumes "\<And>op. op_waiters (f op) = op_waiters op" and "\<And>op. op_options (f op) = op_options op"
  shows "same_ops st (upd_op i f st') = same_ops st st'"
proof -
  have "waiters (upd_op i f st') = waiters st'" "key_of (upd_op i f st') = key_of st'" "pane_of (upd_op i f st') = pane_of st'"
    by (auto simp: waiters_def key_of_def pane_of_def upd_op_def assms)
  then show ?thesis by (simp add: same_ops_def)
qed

lemma same_ops_finalized [simp]: "same_ops st (upd_op i (\<lambda>op. op\<lparr>op_finalize := f\<rparr>) st') = same_ops st st'"
    "same_ops st (upd_op i (\<lambda>op. op\<lparr>op_dispatched := b\<rparr>) st') = same_ops st st'"
    "same_ops st (upd_op i (\<lambda>op. op\<lparr>op_generation := g\<rparr>) st') = same_ops st st'"
  by (simp_all add: same_ops_upd)

lemma replied_misc [simp]: "replied (upd_op i f st) = replied st" "replied (upd_metrics g st) = replied st"
    "replied (st\<lparr>sc_ledger := l\<rparr>) = replied st" "replied (drop_deadline i st) = replied st" "replied (push_deadline i st) = replied st"
    "replied (put_slot p s st) = replied st"
  by (simp_all add: replied_def upd_op_def upd_metrics_def drop_deadline_def push_deadline_def put_slot_def)

lemma started_misc [simp]: "started (upd_op i f st) = started st" "started (upd_metrics g st) = started st"
    "started (st\<lparr>sc_ledger := l\<rparr>) = started st" "started (drop_deadline i st) = started st" "started (push_deadline i st) = started st"
    "started (put_slot p s st) = started st"
  by (simp_all add: started_def upd_op_def upd_metrics_def drop_deadline_def push_deadline_def put_slot_def)

lemma ledger_misc [simp]: "sc_ledger (upd_op i f st) = sc_ledger st" "sc_ledger (upd_metrics g st) = sc_ledger st"
    "sc_ledger (log_action a st) = sc_ledger st" "sc_ledger (drop_deadline i st) = sc_ledger st" "sc_ledger (push_deadline i st) = sc_ledger st"
    "sc_ledger (put_slot p s st) = sc_ledger st"
  by (simp_all add: upd_op_def upd_metrics_def drop_deadline_def push_deadline_def put_slot_def log_action_def)

lemma ledger_fold_log [simp]: "sc_ledger (fold (\<lambda>x. log_action (f x)) xs st) = sc_ledger st"
  by (induction xs arbitrary: st) simp_all

lemma same_ops_fold_log: "same_ops st (fold (\<lambda>x. log_action (f x)) xs st') = same_ops st st'"
  by (induction xs arbitrary: st') simp_all

lemma log_fold_log: "replied (fold (\<lambda>x. log_action (f x)) xs st) = replied st + mset (concat (map (replied_by \<circ> f) xs))"
    "started (fold (\<lambda>x. log_action (f x)) xs st) = started st + mset (concat (map (started_by \<circ> f) xs))"
  by (induction xs arbitrary: st) simp_all

lemma replyWithReplay_log: "replyWithReplay st i r e b =
    fold (\<lambda>x. log_action (Replied (fst x) r e (b \<or> snd x))) (op_waiters (sc_ops st i)) st"
  unfolding replyWithReplay_def case_prod_beta ..

lemma concat_singles: "concat (map (\<lambda>x. [f x]) xs) = map f xs"
  by (induction xs) simp_all

lemma replyWithReplay_frame [simp]: "same_ops st (replyWithReplay st' i r e b) = same_ops st st'"
    "replied (replyWithReplay st' i r e b) = replied st' + waiters st' i" "started (replyWithReplay st' i r e b) = started st'"
    "sc_ledger (replyWithReplay st' i r e b) = sc_ledger st'"
  by (simp_all add: replyWithReplay_log same_ops_fold_log log_fold_log comp_def replied_by_def started_by_def concat_singles waiters_def)

lemma waiters_same: "same_ops st st' \<Longrightarrow> waiters st' = waiters st" "same_ops st st' \<Longrightarrow> key_of st' = key_of st"
    "same_ops st st' \<Longrightarrow> pane_of st' = pane_of st"
  by (simp_all add: same_ops_def)

lemma run_finalizer_frame:
  assumes "run_finalizer st i r e = (st', r', e')"
  shows "same_queues st st' \<and> same_ops st st' \<and> replied st' = replied st \<and> started st' = started st \<and> sc_ledger st' = sc_ledger st"
  using assms by (auto simp: run_finalizer_def split: option.splits)

lemma reply_frame [simp]: "same_ops st (reply st' i r e) = same_ops st st'"
    "replied (reply st' i r e) = replied st' + waiters st' i" "started (reply st' i r e) = started st'"
    "sc_ledger (reply st' i r e) = sc_ledger st'"
  using waiters_same(1) [of st' "upd_op i (\<lambda>op. op\<lparr>op_finalize := None\<rparr>) st'"]
  by (auto simp: reply_def run_finalizer_def split: option.splits)

lemma reply_answers: "answers i st (reply st i r e)"
  by (simp add: answers_def)

lemma ledger_shrinks_refl [simp]: "ledger_shrinks st st"
  by (simp add: ledger_shrinks_def)

lemma quiet_misc [simp]: "quiet st (drop_deadline i st)" "quiet st (push_deadline i st)" "quiet st (upd_metrics g st)"
    "quiet st (setOwnerMetrics st)"
  by (simp_all add: quiet_def ledger_shrinks_def setOwnerMetrics_def)

lemma quiet_log: "replied_by a = [] \<Longrightarrow> started_by a = [] \<Longrightarrow> quiet st (log_action a st)"
  by (simp add: quiet_def ledger_shrinks_def)

lemma quiet_cancel [simp]: "quiet st (log_action (Cancelled i) st)" "quiet st (cancel_inflight s st)" "quiet st (log_action TopologyApplied st)"
    "quiet st (log_action (LedgerApplied b) st)" "quiet st (log_action (LedgerReplayed r f e) st)"
  by (simp_all add: cancel_inflight_def quiet_def ledger_shrinks_def replied_by_def started_by_def split: option.split)

lemma quiet_ledger: "ledger_shrinks st (st\<lparr>sc_ledger := l\<rparr>) \<Longrightarrow> quiet st (st\<lparr>sc_ledger := l\<rparr>)"
  by (simp add: quiet_def)

lemma ledger_sub_shrinks: "(\<And>k e. fmlookup l k = Some e \<Longrightarrow> fmlookup (sc_ledger st) k = Some e) \<Longrightarrow> ledger_shrinks st (st\<lparr>sc_ledger := l\<rparr>)"
  by (auto simp: ledger_shrinks_def)

lemma quiet_forget [simp]: "quiet st (forget_generation keep p g st)"
  unfolding forget_generation_def by (rule quiet_ledger, rule ledger_sub_shrinks) (simp split: if_splits)

lemma drop_oldest_sub: "fmlookup (drop_oldest n l) k = Some e \<Longrightarrow> fmlookup l k = Some e"
  by (induction n arbitrary: l) (fastforce split: if_splits option.splits)+

lemma quiet_prune [simp]: "quiet st (pruneLedger now st)"
  unfolding pruneLedger_def Let_def
  by (rule quiet_ledger, rule ledger_sub_shrinks) (auto dest!: drop_oldest_sub split: option.splits if_splits)

lemma quiet_update [simp]: "quiet st (ledger_update key g r st)"
  by (auto simp: ledger_update_def quiet_def ledger_shrinks_def replied_by_def started_by_def split: option.split)

lemma quiet_replay [simp]: "quiet st (ledger_replay key h st)"
  by (auto simp: ledger_replay_def split: option.split)

text \<open>The ledger after \<open>finish\<close>.\<close>

definition settle_ledger :: "string \<Rightarrow> CommandResult option \<Rightarrow> (string, ledgerEntry) fmap \<Rightarrow> (string, ledgerEntry) fmap" where
  "settle_ledger key r l = (case fmlookup l key of None \<Rightarrow> l | Some entry \<Rightarrow>
     (case r of None \<Rightarrow> fmdrop key l
      | Some r \<Rightarrow> if cr_Phase r = ''not_started'' then fmdrop key l else fmupd key (entry\<lparr>le_result := Some r, le_operation := None\<rparr>) l))"

lemma finish_unfold:
  assumes "run_finalizer st i r e = (st', r', e')"
  shows "finish st i r e = reply (st'\<lparr>sc_ledger := settle_ledger (key_of st' i) r' (sc_ledger st')\<rparr>) i r' e'"
  using assms by (simp add: finish_def settle_ledger_def key_of_def Let_def split: option.split)

lemma settle_ledger_shrinks: "ledger_shrinks st (st\<lparr>sc_ledger := settle_ledger k r (sc_ledger st)\<rparr>)"
  by (auto simp: ledger_shrinks_def settle_ledger_def split: option.splits if_splits)

lemma settle_ledger_key: "fmlookup (settle_ledger k r l) k = Some e \<Longrightarrow> le_operation e = None"
  by (auto simp: settle_ledger_def split: option.splits if_splits)

lemma ledger_shrinks_cong: "sc_ledger a = sc_ledger a' \<Longrightarrow> sc_ledger b = sc_ledger b' \<Longrightarrow> ledger_shrinks a b = ledger_shrinks a' b'"
  by (simp add: ledger_shrinks_def)

lemma finish_op_settles: "settles i st (finish st i r e)"
proof -
  obtain st' r' e' where f: "run_finalizer st i r e = (st', r', e')" by (metis prod_cases3)
  note q = run_finalizer_frame [OF f]
  have "key_of st' i = key_of st i" "waiters st' i = waiters st i" using q by (simp_all add: same_ops_def)
  moreover have "ledger_shrinks st (finish st i r e)"
    using settle_ledger_shrinks [of st "key_of st' i" r'] q by (simp add: ledger_shrinks_def finish_unfold [OF f])
  ultimately show ?thesis using q
    by (auto simp: finish_unfold [OF f] settles_def answers_def waiters_def dest: settle_ledger_key)
qed

lemma quiet_settles:
  assumes "quiet st st1" and "settles i st1 st2"
  shows "settles i st st2"
proof -
  have "ledger_shrinks st st2"
    using assms unfolding quiet_def settles_def ledger_shrinks_def by metis
  then show ?thesis using assms
    by (auto simp: quiet_def settles_def answers_def same_ops_def elim: same_queues_trans)
qed

lemma expire_settles: "settles i st (expire_op st i)"
  unfolding expire_op_def by (rule quiet_settles [OF _ finish_op_settles]) simp

lemma replyStale_settles: "settles i st (replyStale st i)"
proof -
  have "quiet st (st\<lparr>sc_ledger := fmdrop k (sc_ledger st)\<rparr>)" for k
    by (rule quiet_ledger, rule ledger_sub_shrinks) (simp split: if_splits)
  moreover have "quiet st st" by (simp add: quiet_def)
  ultimately show ?thesis
    unfolding replyStale_def Let_def by (intro quiet_settles [OF _ finish_op_settles]) simp
qed

lemma settles_books: "settles i st st' \<Longrightarrow> books (add_mset i H) S C st \<Longrightarrow> books H S C st'"
  by (rule answers_books) (simp_all add: settles_def)

lemmas finish_books = settles_books [OF finish_op_settles]
lemmas expire_books = settles_books [OF quiet_settles [OF quiet_misc(1) expire_settles]]
lemmas stale_books = settles_books [OF quiet_settles [OF quiet_misc(1) replyStale_settles]]

lemma fold_books:
  assumes "\<And>i H st. books (add_mset i H) S C st \<Longrightarrow> sc_stopping st = b \<Longrightarrow> books H S C (f i st) \<and> sc_stopping (f i st) = b"
    and "books (mset q + H) S C st" and "sc_stopping st = b"
  shows "books H S C (fold f q st) \<and> sc_stopping (fold f q st) = b"
  using assms(2,3)
proof (induction q arbitrary: st)
  case (Cons i q)
  then show ?case using assms(1) [of i "mset q + H" st] by simp
qed simp

text \<open>Changing the queue of one slot: what leaves the queue comes to hand and the other way round.\<close>

definition bare_slot :: "PaneSlot \<Rightarrow> bool" where
  "bare_slot s \<longleftrightarrow> ps_Queue s = [] \<and> ps_InFlight s = None"

lemma slot_split:
  assumes "bare_slot d"
  shows "waiting st = mset (sc_relayQueue st) + (mset (ps_Queue (slot_of st p d)) + fm_sum (\<lambda>s. mset (ps_Queue s)) (fmdrop p (sc_slots st)))"
    and "running st = mset_set (fset (sc_relayInFlight st)) + (inflight_ops (slot_of st p d) + fm_sum inflight_ops (fmdrop p (sc_slots st)))"
  using assms
  by (cases "fmlookup (sc_slots st) p";
      simp add: waiting_def running_def slot_of_def bare_slot_def inflight_ops_def fmdrop_absent fm_sum_split)+

lemma put_slot_sums: "waiting (put_slot p s st) = mset (sc_relayQueue st) + (mset (ps_Queue s) + fm_sum (\<lambda>s. mset (ps_Queue s)) (fmdrop p (sc_slots st)))"
    "running (put_slot p s st) = mset_set (fset (sc_relayInFlight st)) + (inflight_ops s + fm_sum inflight_ops (fmdrop p (sc_slots st)))"
  by (simp_all add: waiting_def running_def put_slot_def fm_sum_upd)

lemma slots_push [simp]: "sc_slots (push_deadline i st) = sc_slots st"
  by (simp add: push_deadline_def)

lemma put_slot_ops [simp]: "same_ops st (put_slot p s st') = same_ops st st'"
  by (rule same_ops_store) (simp add: put_slot_def)

lemma put_slot_fields [simp]: "sc_inUse (put_slot p s st) = sc_inUse st" "sc_capacity (put_slot p s st) = sc_capacity st"
    "sc_stopping (put_slot p s st) = sc_stopping st" "sc_ops (put_slot p s st) = sc_ops st" "sc_relayQueue (put_slot p s st) = sc_relayQueue st"
    "sc_relayInFlight (put_slot p s st) = sc_relayInFlight st"
  by (simp_all add: put_slot_def)

lemma placed_slot: "placed st \<Longrightarrow> bare_slot d \<Longrightarrow> i \<in># mset (ps_Queue (slot_of st p d)) + inflight_ops (slot_of st p d) \<Longrightarrow> pane_of st i = Some p"
  by (cases "fmlookup (sc_slots st) p") (auto simp: placed_def slot_of_def bare_slot_def inflight_ops_def)

lemma placed_put: "placed st \<Longrightarrow> (\<And>i. i \<in># mset (ps_Queue s) + inflight_ops s \<Longrightarrow> pane_of st i = Some p) \<Longrightarrow> placed (put_slot p s st)"
  using waiters_same(3) [of st "put_slot p s st"] unfolding placed_def by (auto split: if_splits)

lemma put_slot_books:
  assumes b: "books H S C st" and d: "bare_slot d" and q: "mset (ps_Queue (slot_of st p d)) + H = mset (ps_Queue s) + H'"
    and r: "inflight_ops s = inflight_ops (slot_of st p d)" and new: "\<And>i. i \<in># mset (ps_Queue s) \<Longrightarrow> i \<in># H \<Longrightarrow> pane_of st i = Some p"
  shows "books H' S C (put_slot p s st)"
proof -
  let ?st = "put_slot p s st"
  have run: "running ?st = running st" by (simp add: put_slot_sums slot_split [OF d, of st p] r)
  have live: "live ?st + H' = live st + H"
    using q unfolding live_def run by (simp add: put_slot_sums slot_split(1) [OF d, of st p] ac_simps)
  have "placed ?st"
  proof (rule placed_put)
    fix i
    assume "i \<in># mset (ps_Queue s) + inflight_ops s"
    moreover have "i \<in># mset (ps_Queue s) \<Longrightarrow> i \<in># mset (ps_Queue (slot_of st p d)) + H" unfolding q by simp
    ultimately show "pane_of st i = Some p"
      using new placed_slot [OF _ d, of st i p] b by (auto simp: r books_def)
  qed (use b in \<open>simp add: books_def\<close>)
  moreover have "waiters ?st = waiters st" "key_of ?st = key_of st" using waiters_same [of st ?st] by simp_all
  ultimately show ?thesis
    using b unfolding books_def live run by (simp add: ledger_ok_def)
qed

text \<open>The same for the relay queue.\<close>

lemma relay_queue_books:
  assumes b: "books H S C st" and q: "mset (sc_relayQueue st) + H = mset q + H'"
    and new: "\<And>i. i \<in># mset q \<Longrightarrow> i \<in># H \<Longrightarrow> pane_of st i = None"
  shows "books H' S C (st\<lparr>sc_relayQueue := q\<rparr>)"
proof -
  let ?st = "st\<lparr>sc_relayQueue := q\<rparr>"
  have run: "running ?st = running st" by (simp add: running_def)
  have live: "live ?st + H' = live st + H"
    using q unfolding live_def run by (simp add: waiting_def ac_simps)
  have same: "same_ops st ?st" using same_ops_store [of ?st st st] by simp
  have "set q \<subseteq> set (sc_relayQueue st) \<union> set_mset H" using arg_cong [OF q, of set_mset] by auto
  then have "placed ?st"
    using b new unfolding books_def placed_def waiters_same(3) [OF same] by auto
  then show ?thesis
    using b unfolding books_def live run by (simp add: waiters_same [OF same] ledger_ok_def replied_def started_def)
qed

text \<open>Starting an effect: an operation in hand begins to run.\<close>

lemma start_frame [simp]: "same_ops st (start st' i g) = same_ops st st'" "replied (start st i g) = replied st"
    "started (start st i g) = add_mset i (started st)" "sc_ledger (start st i g) = sc_ledger st"
  by (simp_all add: start_def Let_def replied_by_def started_by_def)

lemma begin_run_books:
  assumes b: "books (add_mset i H) S C st" and cap: "sc_inUse st < sc_capacity st"
    and same: "same_ops st st1" "sc_inUse st1 = sc_inUse st + 1" "sc_capacity st1 = sc_capacity st" "sc_stopping st1 = sc_stopping st"
      "replied st1 = replied st" "started st1 = started st" "sc_ledger st1 = sc_ledger st"
    and run: "waiting st1 = waiting st" "running st1 = add_mset i (running st)" and p: "placed st1"
  shows "books H S C (start st1 i g)"
proof -
  have q: "same_queues st1 (start st1 i g)" "same_ops st1 (start st1 i g)" by simp_all
  have live: "live st1 + H = live st + add_mset i H" by (simp add: live_def run)
  have "key_of (start st1 i g) = key_of st" using same(1) q(2) by (simp add: same_ops_def)
  then show ?thesis
    using b cap p unfolding books_def same_eqs [OF q] live
    by (simp add: same run ledger_ok_def waiters_same(1) [OF same(1)])
qed

lemma start_relay_books:
  assumes b: "books (add_mset i H) S C st" and cap: "sc_inUse st < sc_capacity st" and i: "pane_of st i = None"
  shows "books H S C (start (st\<lparr>sc_inUse := sc_inUse st + 1, sc_relayInFlight := finsert i (sc_relayInFlight st)\<rparr>) i g)"
proof (rule begin_run_books [OF b cap])
  let ?st = "st\<lparr>sc_inUse := sc_inUse st + 1, sc_relayInFlight := finsert i (sc_relayInFlight st)\<rparr>"
  show same: "same_ops st ?st" using same_ops_store [of ?st st st] by simp
  have "i \<notin># running st" using books_hand(1) [OF b] by (simp add: live_def)
  then have "i |\<notin>| sc_relayInFlight st" by (auto simp: running_def)
  then show "running ?st = add_mset i (running st)" by (simp add: running_def)
  show "placed ?st"
    using b i unfolding books_def placed_def waiters_same(3) [OF same] by auto
qed (simp_all add: waiting_def replied_def started_def)

lemma start_pane_books:
  assumes b: "books (add_mset i H) S C st" and cap: "sc_inUse st < sc_capacity st" and i: "pane_of st i = Some p"
    and s: "fmlookup (sc_slots st) p = Some s" "ps_InFlight s = None" "ps_Queue s' = ps_Queue s" "inflight_ops s' = {#i#}"
  shows "books H S C (start (put_slot p s' (st\<lparr>sc_inUse := sc_inUse st + 1\<rparr>)) i g)"
proof (rule begin_run_books [OF b cap])
  let ?st = "put_slot p s' (st\<lparr>sc_inUse := sc_inUse st + 1\<rparr>)"
  have bare: "bare_slot new_slot" by (simp add: bare_slot_def new_slot_def)
  have of: "slot_of st p new_slot = s" "inflight_ops s = {#}" using s by (simp_all add: slot_of_def inflight_ops_def)
  have same: "same_ops st (st\<lparr>sc_inUse := sc_inUse st + 1\<rparr>)" using same_ops_store [of "st\<lparr>sc_inUse := sc_inUse st + 1\<rparr>" st st] by simp
  then show "same_ops st ?st" by simp
  have pl: "placed st" using b by (simp add: books_def)
  then have "placed (st\<lparr>sc_inUse := sc_inUse st + 1\<rparr>)" unfolding placed_def waiters_same(3) [OF same] by auto
  then show "placed ?st"
    using placed_slot [OF pl bare, of _ p] i s(3,4) by (intro placed_put) (auto simp: of waiters_same(3) [OF same])
  show "waiting ?st = waiting st" "running ?st = add_mset i (running st)"
    by (simp_all add: put_slot_sums slot_split [OF bare, of st p] of s)
qed (simp_all add: replied_def started_def put_slot_def)

text \<open>An effect that ended: its operation is in hand again.\<close>

lemma stop_running_books:
  assumes b: "books H S C st"
    and same: "same_ops st st1" "sc_inUse st1 = sc_inUse st - 1" "sc_capacity st1 = sc_capacity st" "sc_stopping st1 = sc_stopping st"
      "replied st1 = replied st" "started st1 = started st" "ledger_shrinks st st1"
    and run: "waiting st1 = waiting st" "running st = add_mset i (running st1)" and p: "placed st1"
  shows "books (add_mset i H) S (add_mset i C) st1"
proof -
  have live: "live st1 + add_mset i H = live st + H" by (simp add: live_def run)
  show ?thesis
    using b p ledger_shrinks_ok [OF same(7,1)] unfolding books_def live
    by (simp add: same run waiters_same(1) [OF same(1)])
qed

subsection \<open>Dispatching keeps the books\<close>

lemma relay_self: "sc_relayQueue st = q \<Longrightarrow> st\<lparr>sc_relayQueue := q\<rparr> = st"
  by (cases st) simp

lemma relay_same: "same_queues st st' \<Longrightarrow> sc_relayQueue st' = sc_relayQueue st"
  by (simp add: same_queues_def)

lemma dispatch_relay_books: "books H S C (st\<lparr>sc_relayQueue := q\<rparr>) \<Longrightarrow> books H S C (dispatch_relay now q st)"
proof (induction q arbitrary: st)
  case (Cons i q)
  let ?st = "st\<lparr>sc_relayQueue := q\<rparr>"
  let ?stale = "expire_op (drop_deadline i ?st) i"
  let ?run = "start (st\<lparr>sc_relayQueue := q, sc_inUse := sc_inUse st + 1, sc_relayInFlight := finsert i (sc_relayInFlight st)\<rparr>) i 0"
  have b: "books (add_mset i H) S C ?st"
    using relay_queue_books [OF Cons.prems, of q "add_mset i H"] books_placed [OF Cons.prems] by (simp add: placed_def)
  have "pane_of (st\<lparr>sc_relayQueue := i # q\<rparr>) i = None" using books_placed [OF Cons.prems] by (simp add: placed_def)
  then have pane: "pane_of ?st i = None" by (simp add: pane_of_def cong: if_cong)
  have "sc_relayQueue ?stale = q" using relay_same [of ?st ?stale] by simp
  then have "books H S C (dispatch_relay now q ?stale)"
    using Cons.IH [of ?stale] expire_books [OF b] by (simp add: relay_self)
  moreover have "sc_relayQueue ?run = q" by (simp add: start_def Let_def log_action_def upd_op_def upd_metrics_def)
  then have "sc_inUse st < sc_capacity st \<Longrightarrow> books H S C (dispatch_relay now q ?run)"
    using Cons.IH [of ?run] start_relay_books [OF b, of 0] pane by (simp add: relay_self)
  ultimately show ?case using Cons.prems by simp
qed simp

lemma bare_new [simp]: "bare_slot new_slot" "bare_slot (new_slot\<lparr>ps_Generation := g\<rparr>)"
  by (simp_all add: bare_slot_def new_slot_def)

lemma slot_of_Some [simp]: "fmlookup (sc_slots st) p = Some s \<Longrightarrow> slot_of st p d = s"
  by (simp add: slot_of_def)

lemma put_put: "put_slot p s (put_slot p s' st) = put_slot p s st"
  by (simp add: put_slot_def fmupd_idem)

lemma take_books:
  assumes b: "books H S C st" and s: "fmlookup (sc_slots st) p = Some s" and q: "mset (ps_Queue s) = mset q + Q"
  shows "books (Q + H) S C (put_slot p (s\<lparr>ps_Generation := g, ps_Queue := q\<rparr>) st)"
proof (rule put_slot_books [OF b bare_new(1)])
  show "pane_of st i = Some p" if "i \<in># mset (ps_Queue (s\<lparr>ps_Generation := g, ps_Queue := q\<rparr>))" for i
    using placed_slot [OF books_placed [OF b] bare_new(1), of i p] that by (simp add: s q flip: set_mset_mset)
qed (simp_all add: s q inflight_ops_def)

lemma dispatch_pane_books:
  assumes b: "books H S C st" and cap: "sc_inUse st < sc_capacity st"
  shows "books H S C (fst (dispatch_pane now p st))"
proof (cases "fmlookup (sc_slots st) p")
  case (Some s)
  show ?thesis
  proof (cases "ps_Queue s")
    case (Cons i q)
    let ?st = "put_slot p (s\<lparr>ps_Queue := q\<rparr>) st"
    have hand: "books (add_mset i H) S C ?st"
      using take_books [OF b Some, of q "{#i#}" "ps_Generation s"] Cons by simp
    have "pane_of st i = Some p" using placed_slot [OF books_placed [OF b] bare_new(1), of i p] Some Cons by simp
    then have pane: "pane_of ?st i = Some p" using waiters_same(3) [of st ?st] by simp
    have "books H S C (start (put_slot p (s\<lparr>ps_Queue := q, ps_InFlight := Some f\<rparr>) (?st\<lparr>sc_inUse := sc_inUse ?st + 1\<rparr>)) i g)"
      if "ps_InFlight s = None" "if_OperationID f = i" for f g
      by (rule start_pane_books [OF hand, where s = "s\<lparr>ps_Queue := q\<rparr>"]) (use that cap pane in \<open>simp_all add: inflight_ops_def\<close>)
    moreover have "put_slot p s' (?st\<lparr>sc_inUse := n\<rparr>) = put_slot p s' (st\<lparr>sc_inUse := n\<rparr>)" for s' n
      by (simp add: put_slot_def fmupd_idem)
    ultimately show ?thesis
      using b expire_books [OF hand] stale_books [OF hand] by (simp add: dispatch_pane_def Some Cons Let_def)
  qed (simp add: dispatch_pane_def Some b)
qed (simp add: dispatch_pane_def b)

lemma dispatch_pass_books: "books H S C st \<Longrightarrow> books H S C (fst (dispatch_pass now ps st))"
proof (induction ps arbitrary: st)
  case (Cons p ps)
  then show ?case using dispatch_pane_books [OF Cons.prems, of now p] by (simp add: case_prod_beta Let_def)
qed simp

lemma dispatch_panes_books: "books H S C st \<Longrightarrow> books H S C (dispatch_panes now ps st)"
proof (induction now ps st rule: dispatch_panes.induct)
  case (1 now ps st)
  then show ?case using dispatch_pass_books [OF 1(2), of now ps]
    by (subst dispatch_panes.simps) (auto simp: Let_def split: prod.split)
qed

lemma dispatch_books: "books H S C st \<Longrightarrow> books H S C (dispatch now st)"
  unfolding dispatch_def Let_def
  by (rule quiet_books [OF quiet_misc(4)], rule dispatch_panes_books, rule dispatch_relay_books) (simp add: relay_self)

subsection \<open>Fencing, completing and submitting keep the books\<close>

lemma stale_keeps [simp]: "sc_stopping (replyStale st i) = sc_stopping st" "sc_stopping (drop_deadline i st) = sc_stopping st"
    "sc_stopping (reply st i r e) = sc_stopping st" "sc_stopping (finish st i r e) = sc_stopping st"
    "sc_stopping (cancel_inflight s st) = sc_stopping st" "sc_stopping (forget_generation k p g st) = sc_stopping st"
    "sc_stopping (log_action a st) = sc_stopping st" "sc_stopping (push_deadline i st) = sc_stopping st"
  by (auto intro!: same_fields simp: cancel_inflight_def forget_generation_def split: option.split)

lemma fold_stale_books:
  "books (mset q + H) S C st \<Longrightarrow> books H S C (fold (\<lambda>i st. replyStale (drop_deadline i st) i) q st)"
  by (rule fold_books [THEN conjunct1, OF _ _ refl]) (auto intro: stale_books)

lemma fence_slot_books:
  assumes "books H S C st"
  shows "books H S C (fence_slot keep p g st)"
proof (cases "fmlookup (sc_slots st) p")
  case (Some s)
  have "books (mset (ps_Queue s) + H) S C (put_slot p (s\<lparr>ps_Generation := g, ps_Queue := []\<rparr>) st)"
    by (rule take_books [OF assms Some]) simp
  then show ?thesis
    unfolding fence_slot_def Some option.case
    by (intro quiet_books [OF quiet_forget] fold_stale_books quiet_books [OF quiet_cancel(2)])
qed (simp add: fence_slot_def assms)

text \<open>Giving a pane a slot, and queueing an operation in hand on it.\<close>

lemma open_slot_books:
  assumes "books H S C st" and "bare_slot d"
  shows "books H S C (put_slot p (slot_of st p d) st)"
  by (rule put_slot_books [OF assms]) (auto intro: placed_slot [OF books_placed [OF assms(1)] assms(2)])

lemma mset_insertBySequence: "mset (insertBySequence ops q i) = add_mset i (mset q)"
proof -
  have "mset q = mset (take n q) + mset (drop n q)" for n by (metis append_take_drop_id mset_append)
  then show ?thesis by (simp add: insertBySequence_def Let_def)
qed

text \<open>The search finds the first later operation of a queue in order, so the queue stays in order.\<close>

lemma search_between_first:
  assumes mono: "\<And>a b. a \<le> b \<Longrightarrow> b < n \<Longrightarrow> f a \<Longrightarrow> f b"
  shows "i \<le> j \<Longrightarrow> j \<le> n \<Longrightarrow> (\<And>k. k < i \<Longrightarrow> \<not> f k) \<Longrightarrow> (\<And>k. j \<le> k \<Longrightarrow> k < n \<Longrightarrow> f k) \<Longrightarrow>
    search_between f i j \<le> n \<and> (\<forall>k. k < search_between f i j \<longrightarrow> \<not> f k) \<and> (\<forall>k. search_between f i j \<le> k \<longrightarrow> k < n \<longrightarrow> f k)"
proof (induction "j - i" arbitrary: i j rule: less_induct)
  case less
  define h where "h = (i + j) div 2"
  show ?case
  proof (cases "i < j")
    case True
    then have h: "i \<le> h" "h < j" by (auto simp: h_def)
    then have "f h \<Longrightarrow> h \<le> k \<Longrightarrow> k < n \<Longrightarrow> f k" "\<not> f h \<Longrightarrow> k < h + 1 \<Longrightarrow> \<not> f k" for k
      using mono [of h k] mono [of k h] less.prems(2) by auto
    note split = this
    have step: "search_between f i j = (if \<not> f h then search_between f (h + 1) j else search_between f i h)"
      using True by (subst search_between.simps) (simp add: h_def Let_def)
    show ?thesis
    proof (cases "f h")
      case True
      have "search_between f i h \<le> n \<and> (\<forall>k. k < search_between f i h \<longrightarrow> \<not> f k) \<and> (\<forall>k. search_between f i h \<le> k \<longrightarrow> k < n \<longrightarrow> f k)"
        by (rule less.hyps) (use h less.prems(2,3) split(1) [OF True] in auto)
      then show ?thesis using True by (simp add: step)
    next
      case False
      have "search_between f (h + 1) j \<le> n \<and> (\<forall>k. k < search_between f (h + 1) j \<longrightarrow> \<not> f k)
          \<and> (\<forall>k. search_between f (h + 1) j \<le> k \<longrightarrow> k < n \<longrightarrow> f k)"
        by (rule less.hyps) (use h less.prems(2,4) split(2) [OF False] in auto)
      then show ?thesis using False by (simp add: step)
    qed
  qed (use less.prems in \<open>auto simp: search_between.simps\<close>)
qed

lemma insertBySequence_sorted:
  assumes "sorted (map (op_sequence \<circ> ops) q)"
  shows "sorted (map (op_sequence \<circ> ops) (insertBySequence ops q i))"
proof -
  define at where "at = sort_Search (length q) (\<lambda>k. op_sequence (ops (q ! k)) > op_sequence (ops i))"
  have "op_sequence (ops (q ! a)) \<le> op_sequence (ops (q ! b))" if "a \<le> b" "b < length q" for a b
    using sorted_nth_mono [OF assms] that by simp
  then have at: "at \<le> length q \<and> (\<forall>k. k < at \<longrightarrow> \<not> op_sequence (ops (q ! k)) > op_sequence (ops i))
      \<and> (\<forall>k. at \<le> k \<longrightarrow> k < length q \<longrightarrow> op_sequence (ops (q ! k)) > op_sequence (ops i))"
    unfolding at_def sort_Search_def by (intro search_between_first) (auto intro: less_le_trans)
  have "x \<in> set (take at q) \<Longrightarrow> op_sequence (ops x) \<le> op_sequence (ops i)" for x
    using at by (auto simp: in_set_conv_nth not_less)
  moreover have "x \<in> set (drop at q) \<Longrightarrow> op_sequence (ops i) \<le> op_sequence (ops x)" for x
    using at by (auto simp: in_set_conv_nth intro!: less_imp_le)
  moreover have "sorted (map (op_sequence \<circ> ops) (take at q))" "sorted (map (op_sequence \<circ> ops) (drop at q))"
    using assms sorted_wrt_take sorted_wrt_drop by (metis take_map, metis drop_map)
  ultimately show ?thesis
    unfolding insertBySequence_def at_def [symmetric] Let_def by (auto simp: sorted_append intro: order_trans)
qed

lemma queue_books:
  assumes b: "books (add_mset i H) S C st" and s: "fmlookup (sc_slots st) p = Some s" and i: "pane_of st i = Some p"
  shows "books H S C (put_slot p (s\<lparr>ps_Queue := insertBySequence ops (ps_Queue s) i\<rparr>) st)"
proof (rule put_slot_books [OF b bare_new(1)])
  show "pane_of st j = Some p" if "j \<in># mset (ps_Queue (s\<lparr>ps_Queue := insertBySequence ops (ps_Queue s) i\<rparr>))" for j
    using that placed_slot [OF books_placed [OF b] bare_new(1), of j p] s i
    by (auto simp: mset_insertBySequence simp flip: set_mset_mset)
qed (simp_all add: s mset_insertBySequence inflight_ops_def)

text \<open>Rewriting the operation in hand but for its waiters and its key.\<close>

lemma slot_live: "fmlookup (sc_slots st) p = Some s \<Longrightarrow> i \<in># mset (ps_Queue s) + inflight_ops s \<Longrightarrow> i \<in># live st"
  by (auto simp: live_def slot_split [OF bare_new(1), of st p])

lemma relay_live: "i \<in> set (sc_relayQueue st) \<union> fset (sc_relayInFlight st) \<Longrightarrow> i \<in># live st"
  by (auto simp: live_def waiting_def running_def)

lemma placed_cong:
  assumes "same_queues st st'" and "\<And>i. i \<in># live st \<Longrightarrow> pane_of st' i = pane_of st i" and "placed st"
  shows "placed st'"
proof -
  have q: "sc_slots st' = sc_slots st" "sc_relayQueue st' = sc_relayQueue st" "sc_relayInFlight st' = sc_relayInFlight st"
    using assms(1) by (simp_all add: same_queues_def)
  show ?thesis
    using assms(2,3) slot_live [of st] relay_live [of _ st] unfolding placed_def q by metis
qed

lemma rewrite_books:
  assumes b: "books (add_mset i H) S C st" and w: "\<And>op. op_waiters (f op) = op_waiters op"
    and k: "\<And>op. so_LedgerKey (op_options (f op)) = so_LedgerKey (op_options op)"
  shows "books (add_mset i H) S C (upd_op i f st)"
proof -
  let ?st = "upd_op i f st"
  have q: "live ?st = live st" "running ?st = running st" using same_live [of st ?st] by simp_all
  have "waiters ?st = waiters st" "key_of ?st = key_of st" by (auto simp: waiters_def key_of_def upd_op_def w k)
  moreover have "pane_of ?st j = pane_of st j" if "j \<in># live st" for j
    using that books_hand(1) [OF b] by (auto simp: pane_of_def upd_op_def)
  then have "placed ?st" using books_placed [OF b] placed_cong [of st ?st] by simp
  ultimately show ?thesis
    using b unfolding books_def q by (simp add: ledger_ok_def upd_op_def replied_def started_def)
qed

text \<open>A slot that leaves with an empty queue is as good as an empty slot.\<close>

definition vacate :: "string \<Rightarrow> PaneSlot option \<Rightarrow> scheduler \<Rightarrow> scheduler" where
  "vacate p r st = (case r of None \<Rightarrow> st\<lparr>sc_slots := fmdrop p (sc_slots st), sc_inUse := sc_inUse st - 1\<rparr>
     | Some s \<Rightarrow> (put_slot p s st)\<lparr>sc_inUse := sc_inUse st - 1\<rparr>)"

lemma vacate_books:
  assumes b: "books H S C st" and s: "fmlookup (sc_slots st) p = Some s" "inflight_ops s = {#i#}"
    and r: "case r of None \<Rightarrow> ps_Queue s = [] | Some s' \<Rightarrow> ps_Queue s' = ps_Queue s \<and> ps_InFlight s' = None"
  shows "books (add_mset i H) S (add_mset i C) (vacate p r st)"
proof (rule stop_running_books [OF b])
  have same: "same_ops st (vacate p r st)"
    using same_ops_store [of "vacate p r st" st st] by (simp add: vacate_def put_slot_def split: option.split)
  then show "same_ops st (vacate p r st)" .
  have idle: "ps_InFlight s' = None \<Longrightarrow> inflight_ops s' = {#}" for s' by (simp add: inflight_ops_def)
  have fields: "sc_relayQueue (vacate p r st) = sc_relayQueue st" "sc_relayInFlight (vacate p r st) = sc_relayInFlight st"
    by (simp_all add: vacate_def put_slot_def split: option.split)
  show "waiting (vacate p r st) = waiting st" "running st = add_mset i (running (vacate p r st))"
    using r s unfolding slot_split [OF bare_new(1), of st p] waiting_def [of "vacate p r st"] running_def [of "vacate p r st"] fields
    by (simp_all add: vacate_def put_slot_def fm_sum_upd idle split: option.splits)
  have "fmlookup (sc_slots (vacate p r st)) q = Some s' \<Longrightarrow> \<exists>s0. fmlookup (sc_slots st) q = Some s0
      \<and> mset (ps_Queue s') + inflight_ops s' \<subseteq># mset (ps_Queue s0) + inflight_ops s0" for q s'
    using r s idle by (cases r) (auto simp: vacate_def put_slot_def split: if_splits)
  then show "placed (vacate p r st)"
    using books_placed [OF b] unfolding placed_def fields waiters_same(3) [OF same] by (meson mset_subset_eqD)
qed (simp_all add: vacate_def put_slot_def replied_def started_def ledger_shrinks_def split: option.split)

lemma close_slot_books:
  assumes b: "books H S C st" and s: "fmlookup (sc_slots st) p = Some s" "ps_InFlight s = Some f" "if_OperationID f = i"
  shows "books (add_mset i H) S (add_mset i C) ((close_slot result stale p key st)\<lparr>sc_inUse := sc_inUse (close_slot result stale p key st) - 1\<rparr>)"
proof -
  let ?bump = "er_BumpGeneration result \<and> \<not> stale"
  let ?g = "if ?bump then ps_Generation s + 1 else ps_Generation s"
  let ?r = "if ps_Queue s = [] \<and> ?bump \<and> (case er_Result result of Some r \<Rightarrow> cr_Phase r = ''closed'' | None \<Rightarrow> False) then None
            else Some (s\<lparr>ps_Generation := ?g, ps_InFlight := None\<rparr>)"
  let ?st = "if ?bump then forget_generation (Some key) p ?g st else st"
  have "books H S C ?st" using b quiet_books [OF quiet_forget b] by simp
  moreover have "fmlookup (sc_slots ?st) p = Some s" by (simp add: s forget_generation_def)
  ultimately have "books (add_mset i H) S (add_mset i C) (vacate p ?r ?st)"
    by (rule vacate_books) (simp_all add: s inflight_ops_def)
  moreover have "vacate p ?r ?st = (close_slot result stale p key st)\<lparr>sc_inUse := sc_inUse (close_slot result stale p key st) - 1\<rparr>"
    by (simp add: close_slot_def s vacate_def Let_def put_slot_def split del: if_split) simp
  ultimately show ?thesis by simp
qed

lemma relay_done_books:
  assumes b: "books H S C st" and i: "i |\<in>| sc_relayInFlight st"
  shows "books (add_mset i H) S (add_mset i C) (st\<lparr>sc_relayInFlight := sc_relayInFlight st |-| {|i|}, sc_inUse := sc_inUse st - 1\<rparr>)"
    (is "books _ _ _ ?st")
proof (rule stop_running_books [OF b])
  show same: "same_ops st ?st" using same_ops_store [of ?st st st] by simp
  show "placed ?st" using books_placed [OF b] unfolding placed_def waiters_same(3) [OF same] by auto
  show "running st = add_mset i (running ?st)" using i using mset_set.remove [of "fset (sc_relayInFlight st)" i] by (simp add: running_def)
qed (simp_all add: waiting_def replied_def started_def ledger_shrinks_def)

lemma fence_opens: "fmlookup (sc_slots (fence_slot keep p g st)) q =
    (if q = p then map_option (\<lambda>s. s\<lparr>ps_Generation := g, ps_Queue := []\<rparr>) (fmlookup (sc_slots st) p) else fmlookup (sc_slots st) q)"
proof (cases "fmlookup (sc_slots st) p")
  case (Some s)
  have "sc_slots (fold (\<lambda>i st. replyStale (drop_deadline i st) i) q' st') = sc_slots st'" for q' st'
    by (induction q' arbitrary: st') simp_all
  then show ?thesis using Some by (simp add: fence_slot_def forget_generation_def cancel_inflight_def log_action_def put_slot_def split: option.split)
qed (simp add: fence_slot_def)

lemma settles_ops: "settles i st st' \<Longrightarrow> same_ops st st'"
  by (simp add: settles_def answers_def)

lemma same_ops_trans: "same_ops a b \<Longrightarrow> same_ops b c \<Longrightarrow> same_ops a c"
  by (simp add: same_ops_def)

lemma same_ops_stale [simp]: "same_ops st st' \<Longrightarrow> same_ops st (replyStale st' i)" "same_ops st st' \<Longrightarrow> same_ops st (expire_op st' i)"
  by (blast intro: same_ops_trans settles_ops replyStale_settles expire_settles)+

lemma fence_ops: "same_ops st st' \<Longrightarrow> same_ops st (fence_slot keep p g st')"
proof -
  have *: "same_ops st st' \<Longrightarrow> same_ops st (fold (\<lambda>i st. replyStale (drop_deadline i st) i) q st')" for q st'
    by (induction q arbitrary: st') simp_all
  assume "same_ops st st'"
  then show ?thesis
    by (auto simp: fence_slot_def forget_generation_def cancel_inflight_def intro: * split: option.split)
qed

lemma continue_books:
  assumes b: "books (add_mset i H) S C st"
  shows "books H S C (continue_op now current i cont st)"
proof -
  define p where "p = ec_PaneID cont"
  define st1 where "st1 = upd_op i (\<lambda>op. op\<lparr>op_finalize := ec_Finalize cont,
            op_options := (op_options op)\<lparr>so_RelayLevel := False, so_PaneID := p, so_AllowAbsent := ec_AllowAbsent cont,
              so_Deadline := minDeadline (so_Deadline (op_options op)) (ec_Deadline cont)\<rparr>,
            op_generation := ec_Generation cont, op_runner := ec_Runner cont, op_dispatched := False\<rparr>) st"
  define slot where "slot = slot_of st1 p (new_slot\<lparr>ps_Generation := ec_Generation cont\<rparr>)"
  define st2 where "st2 = put_slot p slot st1"
  define st3 where "st3 = (if ec_Generation cont > ps_Generation slot \<and> (case current of Some cur \<Rightarrow> cur p (ec_Generation cont) | None \<Rightarrow> False)
                 then fence_slot (Some (so_LedgerKey (op_options (sc_ops st2 i)))) p (ec_Generation cont) st2 else st2)"
  define slot' where "slot' = slot_of st3 p slot"
  have "books (add_mset i H) S C st1" unfolding st1_def by (rule rewrite_books [OF b]) simp_all
  then have b2: "books (add_mset i H) S C st2" unfolding st2_def slot_def by (rule open_slot_books) simp
  then have b3: "books (add_mset i H) S C st3" by (simp add: st3_def fence_slot_books)
  have s: "fmlookup (sc_slots st3) p = Some slot'"
    by (simp add: slot'_def slot_of_def st3_def fence_opens st2_def)
  have "pane_of st1 i = Some p" by (simp add: pane_of_def st1_def upd_op_def p_def)
  moreover have "same_ops st1 st3" by (simp add: st3_def fence_ops st2_def)
  ultimately have "pane_of st3 i = Some p" by (simp add: waiters_same)
  then have "books H S C (put_slot p (slot'\<lparr>ps_Queue := insertBySequence (sc_ops st3) (ps_Queue slot') i\<rparr>) (push_deadline i st3))"
    using queue_books [OF quiet_books [OF quiet_misc(2) [of st3 i] b3], of p slot' "sc_ops st3"] s waiters_same(3) [of st3 "push_deadline i st3"]
    by simp
  then have "books H S C (if sc_stopping st3 then finish st3 i None (Some ErrClosed)
                 else if ps_Generation slot' \<noteq> ec_Generation cont then replyStale st3 i
                 else put_slot p (slot'\<lparr>ps_Queue := insertBySequence (sc_ops st3) (ps_Queue slot') i\<rparr>) (push_deadline i st3))"
    using finish_books [OF b3] settles_books [OF replyStale_settles b3] by simp
  then show ?thesis
    unfolding continue_op_def Let_def p_def [symmetric] st1_def [symmetric] slot_def [symmetric] st2_def [symmetric]
      st3_def [symmetric] slot'_def [symmetric] by (rule dispatch_books)
qed

lemma complete_op_books:
  assumes "books (add_mset i H) S C (st\<lparr>sc_inUse := sc_inUse st - 1\<rparr>)"
  shows "books H S C (complete_op now current i result stale st)"
proof -
  note b = quiet_books [OF quiet_misc(1) [of _ i] assms]
  have "books H S C (replyStale (setOwnerMetrics (upd_metrics (\<lambda>m. m\<lparr>sm_Completed := sm_Completed m + 1\<rparr>)
      (drop_deadline i (st\<lparr>sc_inUse := sc_inUse st - 1\<rparr>)))) i)"
    by (rule settles_books [OF replyStale_settles], rule quiet_books [OF quiet_misc(4)], rule quiet_books [OF quiet_misc(3) b])
  moreover have "books H S C (finish (setOwnerMetrics (count_latency now i (drop_deadline i (st\<lparr>sc_inUse := sc_inUse st - 1\<rparr>)))) i r e)" for r e
    unfolding count_latency_def by (rule finish_books, rule quiet_books [OF quiet_misc(4)], rule quiet_books [OF quiet_misc(3) b])
  ultimately show ?thesis
    unfolding complete_op_def Let_def using continue_books [OF b]
    by (auto intro: dispatch_books split: option.split)
qed

lemma complete_books:
  assumes b: "books H S C st" and i: "i \<in># running st"
  shows "books H S (add_mset i C) (completeAndRedispatch now current i result st)"
proof (cases "pane_of st i")
  case None
  have "i |\<in>| sc_relayInFlight st"
  proof (rule ccontr)
    assume "i |\<notin>| sc_relayInFlight st"
    then have "i \<in># fm_sum inflight_ops (sc_slots st)" using i by (simp add: running_def)
    then obtain p s where "fmlookup (sc_slots st) p = Some s" "i \<in># inflight_ops s" by (metis fm_sum_memberE)
    then show False using books_placed [OF b] None unfolding placed_def by fastforce
  qed
  then have "books H S (add_mset i C) (complete_op now current i result False (st\<lparr>sc_relayInFlight := sc_relayInFlight st |-| {|i|}\<rparr>))"
    using relay_done_books [OF b, of i] by (intro complete_op_books) simp
  then show ?thesis using None \<open>i |\<in>| sc_relayInFlight st\<close>
    by (simp add: completeAndRedispatch_def pane_of_def Let_def split: if_splits)
next
  case (Some p)
  then have "i |\<notin>| sc_relayInFlight st" using books_placed [OF b] by (auto simp: placed_def)
  then have "i \<in># fm_sum inflight_ops (sc_slots st)" using i by (simp add: running_def)
  then obtain q s where q: "fmlookup (sc_slots st) q = Some s" "i \<in># inflight_ops s" by (metis fm_sum_memberE)
  then have "q = p" using books_placed [OF b] Some unfolding placed_def by fastforce
  obtain f where f: "ps_InFlight s = Some f" "if_OperationID f = i" using q(2) by (auto simp: inflight_ops_def split: option.splits)
  have "books H S (add_mset i C) (complete_op now current i result stale (close_slot result stale p key st))" for stale key
    by (rule complete_op_books, rule close_slot_books [OF b]) (use q f \<open>q = p\<close> in simp_all)
  then show ?thesis using Some q f \<open>q = p\<close>
    by (simp add: completeAndRedispatch_def pane_of_def Let_def split: if_splits)
qed

text \<open>Fields the books do not look at.\<close>

lemma books_fields:
  assumes "books H S C st" and "sc_slots st' = sc_slots st" "sc_relayQueue st' = sc_relayQueue st" "sc_relayInFlight st' = sc_relayInFlight st"
    "sc_ledger st' = sc_ledger st" "sc_ops st' = sc_ops st" "sc_inUse st' = sc_inUse st" "sc_capacity st' = sc_capacity st"
    "sc_stopping st' = sc_stopping st" "sc_log st' = sc_log st"
  shows "books H S C st'"
proof -
  have "same_ops st st'" using same_ops_store [of st' st st] assms by simp
  note w = waiters_same [OF this]
  have q: "running st' = running st" "live st' = live st" "replied st' = replied st" "started st' = started st"
    by (simp_all add: running_def live_def waiting_def replied_def started_def assms(2-))
  show ?thesis
    using assms(1) unfolding books_def q w placed_def ledger_ok_def assms(2-) .
qed

lemma fold_keeps: "P st \<Longrightarrow> (\<And>x st. P st \<Longrightarrow> P (f x st)) \<Longrightarrow> P (fold f xs st)"
  by (induction xs arbitrary: st) simp_all

lemma topology_books:
  assumes "books H S C st"
  shows "books H S C (applyTopology now active generations st)"
proof -
  show ?thesis
    unfolding applyTopology_def Let_def
    by (intro dispatch_books quiet_books [OF quiet_cancel(3)])
      (rule books_fields, rule fold_keeps [where P = "books H S C"], rule fold_keeps [where P = "books H S C"],
        auto intro!: assms fence_slot_books open_slot_books split: option.split)
qed

lemma remove_books:
  assumes b: "books H S C st" and r: "removeQueued i st = (st', removed)"
  shows "if removed then books (add_mset i H) S C st' else books H S C st'"
proof (cases "pane_of st i")
  case None
  have "removed \<longleftrightarrow> i \<in> set (sc_relayQueue st)" "st' = st\<lparr>sc_relayQueue := remove1 i (sc_relayQueue st)\<rparr>"
    using r None by (simp_all add: removeQueued_def removeOperation_def pane_of_def Let_def split: if_splits)
  moreover have "books (if i \<in> set (sc_relayQueue st) then add_mset i H else H) S C (st\<lparr>sc_relayQueue := remove1 i (sc_relayQueue st)\<rparr>)"
    by (rule relay_queue_books [OF b]) (use books_placed [OF b] in \<open>auto simp: placed_def remove1_idem dest: in_diffD\<close>)
  ultimately show ?thesis by (simp split: if_splits)
next
  case (Some p)
  show ?thesis
  proof (cases "fmlookup (sc_slots st) p")
    case None
    then show ?thesis using r Some b by (auto simp: removeQueued_def pane_of_def Let_def split: if_splits)
  next
    case (Some s)
    then have "books H S C (put_slot p (s\<lparr>ps_Queue := ps_Queue s\<rparr>) st)"
      and "i \<in> set (ps_Queue s) \<Longrightarrow> books (add_mset i H) S C (put_slot p (s\<lparr>ps_Queue := remove1 i (ps_Queue s)\<rparr>) st)"
      using take_books [OF b Some, of "ps_Queue s" "{#}" "ps_Generation s"]
        take_books [OF b Some, of "remove1 i (ps_Queue s)" "{#i#}" "ps_Generation s"] by simp_all
    then show ?thesis using r \<open>pane_of st i = Some p\<close> Some b
      by (auto simp: removeQueued_def removeOperation_def pane_of_def Let_def remove1_idem split: if_splits)
  qed
qed

lemma timer_books:
  assumes "books H S C st"
  shows "books H S C (timer now nowDispatch st)"
proof -
  have one: "books H S C (case removeQueued i st of (st', removed) \<Rightarrow> if removed then expire_op st' i else st')" if "books H S C st" for i st
    using remove_books [OF that, of i] settles_books [OF expire_settles] by (auto split: prod.split if_splits)
  have "books H S C (fold (\<lambda>i st. case removeQueued i st of (st', removed) \<Rightarrow> if removed then expire_op st' i else st') due
      (st\<lparr>sc_deadlines := d\<rparr>))" for due d
    by (rule fold_keeps [where P = "books H S C", OF _ one]) (rule books_fields [OF assms]; simp)
  then show ?thesis unfolding timer_def Let_def by (rule dispatch_books)
qed

lemma close_reply_books:
  "books (add_mset i H) S C st \<Longrightarrow> sc_stopping st \<Longrightarrow> books H S C (reply st i None (Some ErrClosed))"
  by (rule answers_books [OF reply_answers]) simp_all

lemma fold_close_books: "books (mset q + H) S C st \<Longrightarrow> sc_stopping st \<Longrightarrow>
    books H S C (fold (\<lambda>i st. reply st i None (Some ErrClosed)) q st) \<and> sc_stopping (fold (\<lambda>i st. reply st i None (Some ErrClosed)) q st)"
  using fold_books [where b = True and f = "\<lambda>i st. reply st i None (Some ErrClosed)"] close_reply_books by simp

lemma stop_slot_books:
  assumes "books H S C st \<and> sc_stopping st"
  shows "books H S C (stop_slot p st) \<and> sc_stopping (stop_slot p st)"
proof (cases "fmlookup (sc_slots st) p")
  case (Some s)
  have "books (mset (ps_Queue s) + H) S C (cancel_inflight s (put_slot p (s\<lparr>ps_Queue := []\<rparr>) st))"
    using take_books [OF conjunct1 [OF assms] Some, of "[]" "mset (ps_Queue s)" "ps_Generation s"] by (intro quiet_books [OF quiet_cancel(2)]) simp
  then show ?thesis unfolding stop_slot_def Some option.case by (rule fold_close_books) (simp add: assms)
qed (simp add: stop_slot_def assms)

lemma begin_stop_books:
  assumes b: "books H S C st"
  shows "books H S C (begin_stop st)"
proof -
  define st1 where "st1 = fold stop_slot (sorted_list_of_fset (fmdom (sc_slots st))) (st\<lparr>sc_stopping := True\<rparr>)"
  define st2 where "st2 = fold (\<lambda>i. log_action (Cancelled i)) (sorted_list_of_fset (sc_relayInFlight st1)) st1"
  have same: "same_ops st (st\<lparr>sc_stopping := True\<rparr>)" using same_ops_store [of "st\<lparr>sc_stopping := True\<rparr>" st st] by simp
  have "books H S C (st\<lparr>sc_stopping := True\<rparr>)"
    using b unfolding books_def placed_def waiters_same [OF same] by (simp add: live_def waiting_def running_def replied_def started_def)
  then have "books H S C st1 \<and> sc_stopping st1"
    unfolding st1_def by (intro fold_keeps [where P = "\<lambda>st. books H S C st \<and> sc_stopping st"] stop_slot_books) simp_all
  then have 2: "books H S C st2 \<and> sc_stopping st2"
    unfolding st2_def
    by (rule fold_keeps [where P = "\<lambda>st. books H S C st \<and> sc_stopping st"]) (auto intro: quiet_books [OF quiet_cancel(1)])
  have "books (mset (sc_relayQueue st2) + H) S C (st2\<lparr>sc_relayQueue := []\<rparr>)"
    by (rule relay_queue_books [OF conjunct1 [OF 2]]) simp_all
  then have "books H S C (fold (\<lambda>i st. reply st i None (Some ErrClosed)) (sc_relayQueue st2) (st2\<lparr>sc_relayQueue := []\<rparr>))"
    by (rule fold_close_books [THEN conjunct1]) (simp add: 2)
  then show ?thesis using b by (simp add: begin_stop_def Let_def flip: st1_def st2_def)
qed

lemma stop_books: "books H S C st \<Longrightarrow> books H S C (stop_event st)"
  unfolding stop_event_def by (rule begin_stop_books, rule books_fields) simp_all

text \<open>A new operation: its store entry, and the requests it brings.\<close>

definition submit :: "opid \<Rightarrow> scheduledOperation \<Rightarrow> scheduler \<Rightarrow> scheduler" where
  "submit i op st = st\<lparr>sc_ops := (sc_ops st)(i := op)\<rparr>"

lemma submit_books:
  assumes b: "books {#} S C st" and i: "i \<notin># live st"
  shows "books {#} S C (submit i op st)"
proof -
  let ?st = "submit i op st"
  have q: "same_queues st ?st" by (simp add: same_queues_def submit_def)
  have other: "waiters ?st j = waiters st j" "key_of ?st j = key_of st j" "pane_of ?st j = pane_of st j" if "j \<in># live st" for j
    using that i by (auto simp: waiters_def key_of_def pane_of_def submit_def)
  have "ledger_ok (set_mset (live st)) ?st" if "ledger_ok (set_mset (live st)) st"
    unfolding ledger_ok_def
  proof (intro allI impI)
    fix k e
    assume "fmlookup (sc_ledger ?st) k = Some e"
    then have "entry_ok (key_of st) (set_mset (live st)) k e" using that by (simp add: ledger_ok_def submit_def)
    then show "entry_ok (key_of ?st) (set_mset (live st)) k e" using other(2) by (auto simp: entry_ok_def split: option.splits)
  qed
  moreover have "image_mset (waiters ?st) (live st) = image_mset (waiters st) (live st)" using other(1) by (rule image_mset_cong)
  moreover have "placed ?st" by (rule placed_cong [OF q other(3) books_placed [OF b]])
  ultimately show ?thesis
    using b unfolding books_def same_live [OF q] by (simp add: submit_def replied_def started_def)
qed

lemma answer_fresh_books:
  assumes b: "books {#} S C st" and a: "answers i st st'" "ledger_shrinks st st'"
  shows "books {#} (S + waiters st i) C st'"
proof -
  have q: "same_queues st st'" "same_ops st st'" "replied st' = replied st + waiters st i" "started st' = started st"
    using a(1) by (simp_all add: answers_def)
  show ?thesis
    using b ledger_shrinks_ok [OF a(2) q(2)] unfolding books_def by (simp add: same_eqs [OF q(1,2)] q(3,4))
qed

lemma hand_books:
  assumes b: "books {#} S C st" and i: "i \<notin># live st"
  shows "books {#i#} (S + waiters st i) C st"
    and "le_operation e = Some i \<Longrightarrow> le_result e = None \<Longrightarrow> books {#i#} (S + waiters st i) C (st\<lparr>sc_ledger := fmupd (key_of st i) e (sc_ledger st)\<rparr>)"
proof -
  have more: "ledger_ok L st \<Longrightarrow> ledger_ok (insert i L) st" for L
  proof -
    have "entry_ok (key_of st) L k e \<Longrightarrow> entry_ok (key_of st) (insert i L) k e" for k e by (auto simp: entry_ok_def split: option.splits)
    then show "ledger_ok L st \<Longrightarrow> ledger_ok (insert i L) st" unfolding ledger_ok_def by blast
  qed
  have one: "count (live st + {#i#}) j \<le> 1" for j
    using books_once [OF b, of j] i by (cases "j = i") (simp_all add: not_in_iff)
  then show 1: "books {#i#} (S + waiters st i) C st"
    using b more unfolding books_def by simp
  let ?st = "st\<lparr>sc_ledger := fmupd (key_of st i) e (sc_ledger st)\<rparr>"
  assume e: "le_operation e = Some i" "le_result e = None"
  have q: "same_queues st ?st" "same_ops st ?st" by simp_all
  have "ledger_ok (insert i L) ?st" if "ledger_ok L st" for L
    using more [OF that] e unfolding ledger_ok_def waiters_same(2) [OF q(2)] by (simp add: entry_ok_def split: option.split)
  then show "books {#i#} (S + waiters st i) C ?st"
    using b one unfolding books_def same_eqs [OF q] by simp
qed

lemma push_store: "sc_ops (push_deadline i st) = sc_ops st"
  by (simp add: push_deadline_def)

lemma push_slot_of: "slot_of (push_deadline i st) p d = slot_of st p d"
  by (simp add: slot_of_def)

lemma enqueue_books:
  assumes b: "books {#i#} S C st"
  shows "books {#} S C (enqueue_op i st)"
proof (cases "pane_of st i")
  case None
  have "books {#} S C ((push_deadline i st)\<lparr>sc_relayQueue := insertBySequence (sc_ops (push_deadline i st)) (sc_relayQueue (push_deadline i st)) i\<rparr>)"
    by (rule relay_queue_books [OF quiet_books [OF quiet_misc(2) b]]) (use None waiters_same(3) [of st "push_deadline i st"] in \<open>simp_all add: mset_insertBySequence\<close>)
  then show ?thesis using None by (simp add: enqueue_op_def pane_of_def push_deadline_def Let_def split: if_splits)
next
  case (Some p)
  define g where "g = so_PaneGeneration (op_options (sc_ops st i))"
  define k where "k = so_LedgerKey (op_options (sc_ops st i))"
  define st1 where "st1 = put_slot p (slot_of st p new_slot) (push_deadline i st)"
  define st2 where "st2 = (if g > ps_Generation (slot_of st p new_slot) then fence_slot (Some k) p g st1 else st1)"
  define slot where "slot = slot_of st2 p (slot_of st p new_slot)"
  define st3 where "st3 = (case fmlookup (sc_ledger st2) k of
                     Some entry \<Rightarrow> st2\<lparr>sc_ledger := fmupd k (entry\<lparr>le_generation := ps_Generation slot\<rparr>) (sc_ledger st2)\<rparr>
                   | None \<Rightarrow> st2)"
  define st4 where "st4 = upd_op i (\<lambda>op. op\<lparr>op_generation := ps_Generation slot\<rparr>) st3"
  have "books {#i#} S C st1"
    unfolding st1_def using open_slot_books [OF quiet_books [OF quiet_misc(2) [of st i] b], of new_slot p] by (simp add: push_slot_of)
  then have 2: "books {#i#} S C st2" by (simp add: st2_def fence_slot_books)
  have "quiet st2 st3"
    by (auto simp: st3_def quiet_def ledger_shrinks_def split: option.split)
  then have 4: "books {#i#} S C st4" unfolding st4_def by (intro rewrite_books quiet_books [OF _ 2]) simp_all
  have same: "same_ops st st4"
    by (auto simp: st4_def st3_def st2_def st1_def fence_ops split: option.split)
  have "fmlookup (sc_slots st2) p = Some slot"
    by (simp add: slot_def slot_of_def st2_def fence_opens st1_def)
  then have "fmlookup (sc_slots st4) p = Some slot" by (simp add: st4_def st3_def upd_op_def split: option.split)
  then have "books {#} S C (put_slot p (slot\<lparr>ps_Queue := insertBySequence (sc_ops st4) (ps_Queue slot) i\<rparr>) st4)"
    using queue_books [OF 4] Some waiters_same(3) [OF same] by simp
  moreover have at: "so_RelayLevel (op_options (sc_ops st i)) = False" "so_PaneID (op_options (sc_ops st i)) = p"
    using Some by (simp_all add: pane_of_def split: if_splits)
  have "enqueue_op i st = put_slot p (slot\<lparr>ps_Queue := insertBySequence (sc_ops st4) (ps_Queue slot) i\<rparr>) st4"
    unfolding enqueue_op_def Let_def push_store push_slot_of at if_False
      st4_def st3_def slot_def st2_def st1_def g_def k_def ..
  ultimately show ?thesis by simp
qed

lemma attach_books:
  assumes b: "books {#} S C st" and i: "i \<notin># live st" and j: "j \<in># live st"
  shows "books {#} (S + waiters st i) C (attach_waiters i j st)"
proof -
  let ?st = "attach_waiters i j st"
  have q: "same_queues st ?st" by (simp add: attach_waiters_def)
  have w: "waiters ?st = (waiters st)(j := waiters st j + waiters st i)" and k: "key_of ?st = key_of st" "pane_of ?st = pane_of st"
    by (auto simp: attach_waiters_def waiters_def key_of_def pane_of_def upd_op_def multiset.map_comp comp_def case_prod_beta)
  obtain L where L: "live st = add_mset j L" using j by (metis mset_add)
  have "j \<notin># L" using books_once [OF b, of j] by (simp add: L not_in_iff)
  then have "image_mset (waiters ?st) L = image_mset (waiters st) L" by (intro image_mset_cong) (auto simp: w)
  then have "\<Sum>\<^sub># (image_mset (waiters ?st) (live st)) = \<Sum>\<^sub># (image_mset (waiters st) (live st)) + waiters st i"
    by (simp add: L w)
  moreover have "placed ?st" using placed_cong [OF q _ books_placed [OF b]] by (simp add: k)
  ultimately show ?thesis
    using b unfolding books_def same_live [OF q] ledger_ok_def k by (simp add: attach_waiters_def upd_op_def replied_def started_def)
qed

lemma quiet_live: "quiet st st' \<Longrightarrow> live st' = live st" "quiet st st' \<Longrightarrow> waiters st' = waiters st" "quiet st st' \<Longrightarrow> key_of st' = key_of st"
  by (simp_all add: quiet_def same_live waiters_same)

lemma reply_fresh_books: "books {#} S C st \<Longrightarrow> books {#} (S + waiters st i) C (reply st i r e)"
  by (rule answer_fresh_books) (simp_all add: reply_answers ledger_shrinks_def)

lemma stale_fresh_books: "books {#} S C st \<Longrightarrow> books {#} (S + waiters st i) C (replyStale st i)"
  using replyStale_settles [of i st] by (auto intro: answer_fresh_books simp: settles_def)

lemma replay_fresh_books: "books {#} S C st \<Longrightarrow> books {#} (S + waiters st i) C (replyWithReplay st i r e b)"
  by (rule answer_fresh_books) (simp_all add: answers_def ledger_shrinks_def)

lemma ingress_books:
  assumes b: "books {#} S C st0" and i: "i \<notin># live st0"
  shows "books {#} (S + waiters st0 i) C (ingress t1 t2 t3 i st0)"
proof -
  define st where "st = pruneLedger t1 st0"
  let ?o = "op_options (sc_ops st i)"
  let ?entry = "\<lparr>le_payloadHash = so_PayloadHash ?o, le_operation = Some i, le_result = None, le_generation = 0,
                  le_paneID = so_PaneID ?o, le_createdAt = so_ReceivedAt ?o\<rparr>"
  have q: "quiet st0 st" by (simp add: st_def)
  have b: "books {#} S C st" and i: "i \<notin># live st" using quiet_books [OF q b] quiet_live [OF q] i by simp_all
  have 1: "books {#} (S + waiters st i) C (dispatch t3 (enqueue_op i st))"
    by (rule dispatch_books, rule enqueue_books, rule hand_books [OF b i])
  have 2: "books {#} (S + waiters st i) C (dispatch t3 (enqueue_op i (st\<lparr>sc_ledger := fmupd (so_LedgerKey ?o) ?entry (sc_ledger st)\<rparr>)))"
    using hand_books(2) [OF b i, of ?entry] by (intro dispatch_books enqueue_books) (simp add: key_of_def)
  have 3: "books {#} (S + waiters st i) C (case le_result e of
                       Some r \<Rightarrow> replyWithReplay st i (Some r) None True
                     | None \<Rightarrow> (case le_operation e of Some j \<Rightarrow> attach_waiters i j st | None \<Rightarrow> st))"
    if "fmlookup (sc_ledger st) k = Some e" "\<not> sc_stopping st" for k e
  proof -
    have "entry_ok (key_of st) (set_mset (live st)) k e" using b that by (simp add: books_def ledger_ok_def)
    then show ?thesis using replay_fresh_books [OF b] attach_books [OF b i] by (auto simp: entry_ok_def split: option.splits)
  qed
  have "books {#} (S + waiters st i) C (ingress t1 t2 t3 i st0)"
    unfolding ingress_def st_def [symmetric] Let_def replyNotStarted_def
    using 1 2 3 reply_fresh_books [OF b] stale_fresh_books [OF b] by (simp split: option.split)
  then show ?thesis by (simp add: quiet_live [OF q])
qed

section \<open>No work waits while capacity is free\<close>

definition idle :: "scheduler \<Rightarrow> string \<Rightarrow> bool" where
  "idle st p \<longleftrightarrow> (case fmlookup (sc_slots st) p of None \<Rightarrow> True | Some s \<Rightarrow> ps_Queue s = [] \<or> ps_InFlight s \<noteq> None)"

definition full :: "scheduler \<Rightarrow> bool" where
  "full st \<longleftrightarrow> sc_stopping st \<or> sc_inUse st \<ge> sc_capacity st"

definition busy :: "scheduler \<Rightarrow> bool" where
  "busy st \<longleftrightarrow> full st \<or> sc_relayQueue st = [] \<and> (\<forall>p. idle st p)"

lemma busy_same: "same_queues st st' \<Longrightarrow> busy st' = busy st"
  by (simp add: busy_def full_def idle_def same_queues_def)

lemma dispatch_relay_full: "full (dispatch_relay now q st) \<or> sc_relayQueue (dispatch_relay now q st) = []"
  by (induction now q st rule: dispatch_relay.induct) (auto simp: full_def)

lemma dispatch_pane_still: "\<not> snd (dispatch_pane now p st) \<Longrightarrow> fst (dispatch_pane now p st) = st \<and> idle st p"
  by (auto simp: dispatch_pane_def idle_def Let_def split: option.splits list.splits if_splits)

lemma dispatch_pane_frame: "fmdom (sc_slots (fst (dispatch_pane now p st))) = fmdom (sc_slots st)
    \<and> sc_relayQueue (fst (dispatch_pane now p st)) = sc_relayQueue st"
proof (cases "\<exists>s. fmlookup (sc_slots st) p = Some s")
  case True
  have same: "sc_relayQueue (replyStale st i) = sc_relayQueue st" "sc_relayQueue (expire_op st i) = sc_relayQueue st"
    "sc_relayQueue (start st i g) = sc_relayQueue st" "sc_relayQueue (drop_deadline i st) = sc_relayQueue st" for st i g
    by (simp_all add: relay_same)
  have "finsert p (fmdom (sc_slots st)) = fmdom (sc_slots st)" using True by (auto simp: fmlookup_dom_iff)
  moreover obtain s where "fmlookup (sc_slots st) p = Some s" using True by blast
  ultimately show ?thesis by (cases "ps_Queue s") (simp_all add: dispatch_pane_def Let_def same)
qed (auto simp: dispatch_pane_def split: option.split)

lemma dispatch_pass_frame: "fmdom (sc_slots (fst (dispatch_pass now ps st))) = fmdom (sc_slots st)
    \<and> sc_relayQueue (fst (dispatch_pass now ps st)) = sc_relayQueue st"
proof (induction ps arbitrary: st)
  case (Cons p ps)
  then show ?case using dispatch_pane_frame [of now p st] by (simp add: case_prod_beta Let_def)
qed simp

lemma dispatch_pass_still: "\<not> snd (dispatch_pass now ps st) \<Longrightarrow>
    fst (dispatch_pass now ps st) = st \<and> (sc_capacity st \<le> sc_inUse st \<or> (\<forall>p\<in>set ps. idle st p))"
proof (induction ps arbitrary: st)
  case (Cons p ps)
  then show ?case using dispatch_pane_still [of now p st] by (auto simp: case_prod_beta Let_def split: if_splits)
qed simp

lemma dispatch_panes_busy: "full (dispatch_panes now ps st)
    \<or> (\<forall>p\<in>set ps. idle (dispatch_panes now ps st) p) \<and> sc_relayQueue (dispatch_panes now ps st) = sc_relayQueue st
      \<and> fmdom (sc_slots (dispatch_panes now ps st)) = fmdom (sc_slots st)"
proof (induction now ps st rule: dispatch_panes.induct)
  case (1 now ps st)
  obtain st' m where p: "dispatch_pass now ps st = (st', m)" by fastforce
  have eq: "dispatch_panes now ps st = (if full st then st else if m then dispatch_panes now ps st' else st')"
    by (subst dispatch_panes.simps) (auto simp: p full_def)
  show ?case
    using 1 [OF _ p [symmetric]] dispatch_pass_still [of now ps st] dispatch_pass_frame [of now ps st]
    unfolding eq by (auto simp: p full_def not_le)
qed

lemma dispatch_busy: "busy (dispatch now st)"
proof -
  define st1 where "st1 = dispatch_relay now (sc_relayQueue st) st"
  define ps where "ps = sorted_list_of_fset (fmdom (sc_slots st1))"
  have all: "set ps = fset (fmdom (sc_slots st1))" by (simp add: ps_def)
  have "busy (dispatch_panes now ps st1)"
  proof (cases "full st1")
    case True
    then show ?thesis by (subst dispatch_panes.simps) (auto simp: busy_def full_def)
  next
    case False
    then have "sc_relayQueue st1 = []" using dispatch_relay_full [of now "sc_relayQueue st" st] by (simp add: st1_def)
    moreover have "idle st' p" if "\<forall>p\<in>set ps. idle st' p" "fmdom (sc_slots st') = fmdom (sc_slots st1)" for st' p
      using that all by (cases "p |\<in>| fmdom (sc_slots st')") (auto simp: idle_def fmdom_notD split: option.split)
    ultimately show ?thesis using dispatch_panes_busy [of now ps st1] by (auto simp: busy_def)
  qed
  then show ?thesis
    using busy_same [of "dispatch_panes now ps st1" "setOwnerMetrics (dispatch_panes now ps st1)"]
    by (simp add: dispatch_def Let_def setOwnerMetrics_def flip: st1_def ps_def)
qed

section \<open>Stopping\<close>

text \<open>Whether the scheduler is stopping, and if so nothing is queued.\<close>

definition halting :: "bool \<Rightarrow> scheduler \<Rightarrow> bool" where
  "halting b st \<longleftrightarrow> sc_stopping st = b \<and> (b \<longrightarrow> sc_relayQueue st = [] \<and> (\<forall>p s. fmlookup (sc_slots st) p = Some s \<longrightarrow> ps_Queue s = []))"

lemma halting_same: "same_queues st st' \<Longrightarrow> halting b st' = halting b st"
  by (simp add: halting_def same_queues_def)

lemma halting_misc [simp]: "halting b (log_action a st) = halting b st" "halting b (upd_op i f st) = halting b st"
    "halting b (upd_metrics m st) = halting b st" "halting b (st\<lparr>sc_ledger := l\<rparr>) = halting b st" "halting b (drop_deadline i st) = halting b st"
    "halting b (push_deadline i st) = halting b st" "halting b (reply st i r e) = halting b st" "halting b (finish st i r e) = halting b st"
    "halting b (replyStale st i) = halting b st" "halting b (expire_op st i) = halting b st" "halting b (start st i g) = halting b st"
    "halting b (cancel_inflight s st) = halting b st" "halting b (forget_generation k p g st) = halting b st" "halting b (setOwnerMetrics st) = halting b st"
  by (rule halting_same, simp add: cancel_inflight_def forget_generation_def setOwnerMetrics_def split: option.split)+

lemma halting_fields [simp]: "halting b (st\<lparr>sc_inUse := n\<rparr>) = halting b st" "halting b (st\<lparr>sc_relayInFlight := r\<rparr>) = halting b st"
    "halting b (st\<lparr>sc_knownActive := k\<rparr>) = halting b st" "halting b (st\<lparr>sc_deadlines := d\<rparr>) = halting b st"
    "halting b (st\<lparr>sc_stopAck := a\<rparr>) = halting b st"
  by (simp_all add: halting_def)

lemma halting_put: "halting b st \<Longrightarrow> (b \<Longrightarrow> ps_Queue s = []) \<Longrightarrow> halting b (put_slot p s st)"
  by (auto simp: halting_def put_slot_def)

lemma halting_relay: "halting b st \<Longrightarrow> (b \<Longrightarrow> q = []) \<Longrightarrow> halting b (st\<lparr>sc_relayQueue := q\<rparr>)"
  by (auto simp: halting_def)

lemma halting_drop: "halting b st \<Longrightarrow> halting b (st\<lparr>sc_slots := fmdrop p (sc_slots st)\<rparr>)"
  by (auto simp: halting_def)

lemma halting_slot: "halting True st \<Longrightarrow> fmlookup (sc_slots st) p = Some s \<Longrightarrow> ps_Queue s = []"
  by (simp add: halting_def)

lemma halting_open: "halting b st \<Longrightarrow> bare_slot d \<Longrightarrow> halting b (put_slot p (slot_of st p d) st)"
  by (rule halting_put) (auto simp: halting_def slot_of_def bare_slot_def split: option.split)

lemma halting_fence: "halting b st \<Longrightarrow> halting b (fence_slot keep p g st)"
proof -
  have *: "halting b st \<Longrightarrow> halting b (fold (\<lambda>i st. replyStale (drop_deadline i st) i) q st)" for q st
    by (induction q arbitrary: st) simp_all
  assume "halting b st"
  then show ?thesis by (auto simp: fence_slot_def intro!: * halting_put split: option.split)
qed

lemma halting_dispatch_pane: "halting False st \<Longrightarrow> halting False (fst (dispatch_pane now p st))"
  by (auto simp: dispatch_pane_def Let_def intro!: halting_put split: option.split list.split)

lemma halting_dispatch_pass: "halting False st \<Longrightarrow> halting False (fst (dispatch_pass now ps st))"
  by (induction ps arbitrary: st) (auto simp: case_prod_beta Let_def intro: halting_dispatch_pane)

lemma halting_dispatch_panes: "halting False st \<Longrightarrow> halting False (dispatch_panes now ps st)"
proof (induction now ps st rule: dispatch_panes.induct)
  case (1 now ps st)
  then show ?case using halting_dispatch_pass [OF 1(2), of now ps]
    by (subst dispatch_panes.simps) (auto split: prod.split)
qed

lemma halting_dispatch_relay: "halting False st \<Longrightarrow> halting False (dispatch_relay now q st)"
proof (induction q arbitrary: st)
  case (Cons i q)
  have "halting False (st\<lparr>sc_relayQueue := q'\<rparr>) = halting False st" for q' and st :: scheduler by (simp add: halting_def)
  then show ?case using Cons by simp
qed (simp add: halting_def)

lemma halting_dispatch: "halting b st \<Longrightarrow> halting b (dispatch now st)"
proof (cases b)
  case True
  assume "halting b st"
  then have "sc_relayQueue st = []" "sc_stopping st" using True by (simp_all add: halting_def)
  then have "dispatch_relay now (sc_relayQueue st) st = st" "dispatch_panes now ps st = st" for ps
    by (simp_all add: relay_self dispatch_panes.simps)
  then show ?thesis using \<open>halting b st\<close> by (simp add: dispatch_def Let_def)
qed (simp add: dispatch_def Let_def halting_dispatch_panes halting_dispatch_relay)

lemma halting_queue:
  "halting b st \<Longrightarrow> halting b (if sc_stopping st then finish st i r e else if c then replyStale st i else put_slot p s (push_deadline i st))"
  by (cases b) (auto simp: halting_def [of _ st] intro: halting_put [of False])

lemma halting_continue: "halting b st \<Longrightarrow> halting b (continue_op now current i cont st)"
  unfolding continue_op_def Let_def
  by (intro halting_dispatch halting_queue) (auto intro!: halting_fence halting_open)

lemma halting_complete_op: "halting b st \<Longrightarrow> halting b (complete_op now current i result stale st)"
  by (auto simp: complete_op_def count_latency_def Let_def intro!: halting_dispatch halting_continue split: option.split)

lemma halting_close: "halting b st \<Longrightarrow> halting b (close_slot result stale p key st)"
  by (auto simp: close_slot_def Let_def intro!: halting_put halting_drop dest: halting_slot split: option.split)

lemma halting_complete: "halting b st \<Longrightarrow> halting b (completeAndRedispatch now current i result st)"
  by (auto simp: completeAndRedispatch_def Let_def intro!: halting_complete_op halting_close split: option.split)

lemma halting_topology: "halting b st \<Longrightarrow> halting b (applyTopology now active generations st)"
  unfolding applyTopology_def Let_def
  by (rule halting_dispatch, simp, rule fold_keeps [where P = "halting b"], rule fold_keeps [where P = "halting b"])
    (auto intro!: halting_fence halting_open split: option.split)

lemma halting_remove: "halting b st \<Longrightarrow> halting b (fst (removeQueued i st))"
proof -
  assume h: "halting b st"
  then have "b \<Longrightarrow> sc_relayQueue st = []" by (simp add: halting_def)
  then show ?thesis using h halting_slot [of st]
    by (cases b) (auto simp: removeQueued_def removeOperation_def Let_def intro!: halting_put halting_relay split: option.split)
qed

lemma halting_timer: "halting b st \<Longrightarrow> halting b (timer now nowDispatch st)"
proof -
  have "halting b st \<Longrightarrow> halting b (case removeQueued i st of (st', removed) \<Rightarrow> if removed then expire_op st' i else st')" for i st
    using halting_remove [of b st i] by (auto split: prod.split)
  then show "halting b st \<Longrightarrow> halting b (timer now nowDispatch st)"
    unfolding timer_def Let_def by (intro halting_dispatch fold_keeps [where P = "halting b"]) simp_all
qed

lemma halting_enqueue: "halting False st \<Longrightarrow> halting False (enqueue_op i st)"
proof -
  have "halting False (st\<lparr>sc_relayQueue := q\<rparr>) = halting False st" "halting False (put_slot p s st) = halting False st" for q p s and st :: scheduler
    by (simp_all add: halting_def put_slot_def)
  then show "halting False st \<Longrightarrow> halting False (enqueue_op i st)"
    by (auto simp: enqueue_op_def Let_def halting_fence split: option.split)
qed

lemma halting_ingress:
  assumes "halting b st"
  shows "halting b (ingress t1 t2 t3 i st)"
proof -
  define st' where "st' = pruneLedger t1 st"
  have h: "halting b st'" using assms by (simp add: st'_def pruneLedger_def Let_def)
  have "halting b (replyWithReplay st' i r e f)" for r e f using h halting_same [of st' "replyWithReplay st' i r e f" b] by simp
  moreover have "sc_stopping st' = b" using h by (simp add: halting_def)
  ultimately show ?thesis using h unfolding ingress_def st'_def [symmetric] Let_def replyNotStarted_def attach_waiters_def
    by (cases b) (auto intro!: halting_dispatch halting_enqueue split: option.split)
qed

lemma halting_ledger: "halting b st \<Longrightarrow> halting b (ledger_update key g r st)" "halting b st \<Longrightarrow> halting b (ledger_replay key h st)"
  by (auto simp: ledger_update_def ledger_replay_def split: option.split)

lemma fold_reply_same: "same_queues st (fold (\<lambda>i st. reply st i r e) q st') = same_queues st st'"
  by (induction q arbitrary: st') simp_all

lemma fold_reply_slots: "sc_slots (fold (\<lambda>i st. reply st i r e) q st) = sc_slots st" "sc_relayQueue (fold (\<lambda>i st. reply st i r e) q st) = sc_relayQueue st"
    "sc_stopping (fold (\<lambda>i st. reply st i r e) q st) = sc_stopping st"
  using fold_reply_same [of st r e q st] by (simp_all add: same_queues_def)

lemma stop_slot_effect: "fmlookup (sc_slots (stop_slot q st)) p =
    (if p = q then map_option (\<lambda>s. s\<lparr>ps_Queue := []\<rparr>) (fmlookup (sc_slots st) p) else fmlookup (sc_slots st) p)"
    "sc_stopping (stop_slot q st) = sc_stopping st"
  by (auto simp: stop_slot_def fold_reply_slots cancel_inflight_def log_action_def put_slot_def split: option.split)

lemma stop_slots_effect: "fmlookup (sc_slots (fold stop_slot ps st)) p =
    (if p \<in> set ps then map_option (\<lambda>s. s\<lparr>ps_Queue := []\<rparr>) (fmlookup (sc_slots st) p) else fmlookup (sc_slots st) p)"
    "sc_stopping (fold stop_slot ps st) = sc_stopping st"
  by (induction ps arbitrary: st) (auto simp: stop_slot_effect option.map_comp comp_def)

lemma fold_cancel_same: "same_queues st (fold (\<lambda>i. log_action (Cancelled i)) xs st)"
  by (simp add: same_fold_log)

lemma halting_begin_stop: "halting b st \<Longrightarrow> halting True (begin_stop st)"
proof (cases "sc_stopping st")
  case False
  define st1 where "st1 = fold stop_slot (sorted_list_of_fset (fmdom (sc_slots st))) (st\<lparr>sc_stopping := True\<rparr>)"
  define st2 where "st2 = fold (\<lambda>i. log_action (Cancelled i)) (sorted_list_of_fset (sc_relayInFlight st1)) st1"
  have "sc_stopping st1" by (simp add: st1_def stop_slots_effect)
  moreover have "ps_Queue s = []" if "fmlookup (sc_slots st1) p = Some s" for p s
    using that by (auto simp: st1_def stop_slots_effect fmdom_notI split: if_splits)
  moreover have "sc_stopping st2 = sc_stopping st1" "sc_slots st2 = sc_slots st1"
    using fold_cancel_same [of st1] by (simp_all add: st2_def same_queues_def)
  ultimately have "halting True (st2\<lparr>sc_relayQueue := []\<rparr>)" by (auto simp: halting_def)
  then show ?thesis using False
    by (simp add: begin_stop_def Let_def halting_def fold_reply_slots flip: st1_def st2_def)
qed (auto simp: begin_stop_def halting_def)

section \<open>Runs of the scheduler\<close>

text \<open>
  A run: the state, the requests sent so far and the completions received. Every request is new
  and comes with an operation that is not being handled; a completion belongs to an effect that
  was started and has not completed; the inventory behind \<open>generationCurrent\<close>, the results of
  effects and the clock are arbitrary. The loop ends when the state is \<open>finished\<close>.
\<close>

record sched_run =
  sr_state :: scheduler
  sr_sent :: "waiter multiset"
  sr_done :: "opid multiset"

definition new_run :: "int \<Rightarrow> sched_run" where
  "new_run capacity = \<lparr>sr_state = NewScheduler capacity, sr_sent = {#}, sr_done = {#}\<rparr>"

inductive sched_step :: "sched_run \<Rightarrow> sched_run \<Rightarrow> bool" where
  Ingress: "\<not> finished (sr_state r) \<Longrightarrow> i \<notin># live (sr_state r) \<Longrightarrow> w \<notin># sr_sent r \<Longrightarrow>
    ExecuteAdmitted False n t0 nextID callerDeadline options runner w = Inr op \<Longrightarrow>
    sched_step r (r\<lparr>sr_state := ingress t1 t2 t3 i (submit i op (sr_state r)), sr_sent := add_mset w (sr_sent r)\<rparr>)"
| Completion: "\<not> finished (sr_state r) \<Longrightarrow> i \<in># started (sr_state r) - sr_done r \<Longrightarrow>
    sched_step r (r\<lparr>sr_state := completeAndRedispatch t current i result (sr_state r), sr_done := add_mset i (sr_done r)\<rparr>)"
| Topology: "\<not> finished (sr_state r) \<Longrightarrow> sched_step r (r\<lparr>sr_state := applyTopology t active generations (sr_state r)\<rparr>)"
| LedgerUpdate: "\<not> finished (sr_state r) \<Longrightarrow> sched_step r (r\<lparr>sr_state := ledger_update key g result (sr_state r)\<rparr>)"
| LedgerReplay: "\<not> finished (sr_state r) \<Longrightarrow> sched_step r (r\<lparr>sr_state := ledger_replay key h (sr_state r)\<rparr>)"
| Timer: "\<not> finished (sr_state r) \<Longrightarrow> sched_step r (r\<lparr>sr_state := timer t1 t2 (sr_state r)\<rparr>)"
| CancelInflight: "\<not> finished (sr_state r) \<Longrightarrow> sched_step r (r\<lparr>sr_state := begin_stop (sr_state r)\<rparr>)"
| Stop: "\<not> finished (sr_state r) \<Longrightarrow> sched_step r (r\<lparr>sr_state := stop_event (sr_state r)\<rparr>)"

definition sched_run_ok :: "sched_run \<Rightarrow> bool" where
  "sched_run_ok r \<longleftrightarrow> books {#} (sr_sent r) (sr_done r) (sr_state r) \<and> busy (sr_state r)
     \<and> halting (sc_stopping (sr_state r)) (sr_state r) \<and> (\<forall>w. count (sr_sent r) w \<le> 1)"

lemma sched_run_okI:
  assumes "books {#} (sr_sent r) (sr_done r) (sr_state r)" "busy (sr_state r)" "halting b (sr_state r)" "\<And>w. count (sr_sent r) w \<le> 1"
  shows "sched_run_ok r"
  using assms by (auto simp: sched_run_ok_def halting_def)

lemma quiet_busy: "quiet st st' \<Longrightarrow> busy st \<Longrightarrow> busy st'"
  using busy_same [of st st'] by (simp add: quiet_def)

lemma busy_stopping: "halting True st \<Longrightarrow> busy st"
  by (simp add: halting_def busy_def full_def)

lemma ingress_busy: "busy st \<Longrightarrow> busy (ingress t1 t2 t3 i st)"
proof -
  assume "busy st"
  then have b: "busy (pruneLedger t1 st)" using quiet_busy [OF quiet_prune] by blast
  define st' where "st' = pruneLedger t1 st"
  have "busy (replyWithReplay st' i r e f)" "busy (reply st' i r e)" "busy (replyStale st' i)" "busy (attach_waiters i j st')" for r e f j
    using b unfolding st'_def [symmetric] attach_waiters_def by (rule busy_same [THEN iffD2, rotated], simp)+
  then show ?thesis using b dispatch_busy unfolding ingress_def st'_def [symmetric] Let_def replyNotStarted_def
    by (simp split: option.split)
qed

lemma complete_op_busy: "busy (complete_op now current i result stale st)"
  by (simp add: complete_op_def continue_op_def Let_def dispatch_busy split: option.split)

lemma complete_busy: "busy st \<Longrightarrow> busy (completeAndRedispatch now current i result st)"
  by (simp add: completeAndRedispatch_def Let_def complete_op_busy split: option.split)

lemma submit_frame: "busy (submit i op st) = busy st" "halting b (submit i op st) = halting b st" "waiters (submit i op st) i = mset (map fst (op_waiters op))"
    "live (submit i op st) = live st"
  by (simp_all add: submit_def busy_def full_def idle_def halting_def waiters_def live_def waiting_def running_def)

lemma ExecuteAdmitted_waiter: "ExecuteAdmitted c n t0 nextID d options runner w = Inr op \<Longrightarrow> op_waiters op = [(w, False)]"
  by (auto simp: ExecuteAdmitted_def Let_def split: if_splits)

lemma new_run_ok: "sched_run_ok (new_run capacity)"
  by (auto simp: sched_run_ok_def new_run_def NewScheduler_def books_def live_def waiting_def running_def replied_def started_def
      ledger_ok_def placed_def busy_def idle_def halting_def defaultHerdrCapacity_def)

lemma sched_step_ok: "sched_step r r' \<Longrightarrow> sched_run_ok r \<Longrightarrow> sched_run_ok r'"
proof (induction rule: sched_step.induct)
  case (Ingress r i w n t0 nextID callerDeadline options runner op t1 t2 t3)
  let ?st = "submit i op (sr_state r)"
  note ok = Ingress.prems [unfolded sched_run_ok_def]
  have w: "waiters ?st i = {#w#}" by (simp add: submit_frame ExecuteAdmitted_waiter [OF Ingress.hyps(4)])
  have "books {#} (sr_sent r + waiters ?st i) (sr_done r) (ingress t1 t2 t3 i ?st)"
    by (rule ingress_books, rule submit_books) (use ok Ingress.hyps(2) in \<open>simp_all add: submit_frame\<close>)
  then have "books {#} (add_mset w (sr_sent r)) (sr_done r) (ingress t1 t2 t3 i ?st)" unfolding w by simp
  moreover have "count (add_mset w (sr_sent r)) v \<le> 1" for v
    using ok Ingress.hyps(3) by (cases "v = w") (simp_all add: not_in_iff)
  ultimately show ?case
    using ok by (intro sched_run_okI [where b = "sc_stopping (sr_state r)"]) (simp_all add: ingress_busy halting_ingress submit_frame)
next
  case (Completion r i t current result)
  note ok = Completion.prems [unfolded sched_run_ok_def]
  then have "started (sr_state r) = sr_done r + running (sr_state r)" by (simp add: books_def)
  then have "i \<in># running (sr_state r)" using Completion.hyps(2) by simp
  then show ?case
    using ok by (intro sched_run_okI [where b = "sc_stopping (sr_state r)"]) (simp_all add: complete_books complete_busy halting_complete)
next
  case (Topology r t active generations)
  have "busy (applyTopology t active generations (sr_state r))" by (simp add: applyTopology_def Let_def dispatch_busy)
  then show ?case using Topology
    by (intro sched_run_okI [where b = "sc_stopping (sr_state r)"]) (simp_all add: sched_run_ok_def topology_books halting_topology)
next
  case (LedgerUpdate r key g result)
  then show ?case
    by (intro sched_run_okI [where b = "sc_stopping (sr_state r)"])
      (simp_all add: sched_run_ok_def quiet_books [OF quiet_update] quiet_busy [OF quiet_update] halting_ledger)
next
  case (LedgerReplay r key h)
  then show ?case
    by (intro sched_run_okI [where b = "sc_stopping (sr_state r)"])
      (simp_all add: sched_run_ok_def quiet_books [OF quiet_replay] quiet_busy [OF quiet_replay] halting_ledger)
next
  case (Timer r t1 t2)
  have "busy (timer t1 t2 (sr_state r))" by (simp add: timer_def Let_def dispatch_busy)
  then show ?case using Timer
    by (intro sched_run_okI [where b = "sc_stopping (sr_state r)"]) (simp_all add: sched_run_ok_def timer_books halting_timer)
next
  case (CancelInflight r)
  then have "halting True (begin_stop (sr_state r))" by (auto simp: sched_run_ok_def intro: halting_begin_stop)
  then show ?case using CancelInflight
    by (intro sched_run_okI [where b = True]) (simp_all add: sched_run_ok_def begin_stop_books busy_stopping)
next
  case (Stop r)
  then have "halting True (stop_event (sr_state r))" by (auto simp: sched_run_ok_def stop_event_def intro!: halting_begin_stop)
  then show ?case using Stop
    by (intro sched_run_okI [where b = True]) (simp_all add: sched_run_ok_def stop_books busy_stopping)
qed

lemma sched_runs_ok: "sched_step\<^sup>*\<^sup>* (new_run capacity) r \<Longrightarrow> sched_run_ok r"
  by (induction rule: rtranclp_induct) (auto intro: new_run_ok sched_step_ok)

section \<open>What a run guarantees\<close>

text \<open>The request of a waiter that is not answered yet is attached to exactly one operation in the scheduler.\<close>

definition pending :: "scheduler \<Rightarrow> waiter multiset" where
  "pending st = \<Sum>\<^sub># (image_mset (waiters st) (live st))"

lemma halted_waiting: "halting True st \<Longrightarrow> waiting st = {#}"
  by (auto simp: waiting_def halting_def fm_sum_def fmlookup_dom_iff intro!: sum.neutral)

lemma running_pane: "placed st \<Longrightarrow> i \<in># running st \<Longrightarrow> pane_of st i = Some p \<Longrightarrow>
    \<exists>s f. fmlookup (sc_slots st) p = Some s \<and> ps_InFlight s = Some f \<and> if_OperationID f = i"
proof -
  assume a: "placed st" "i \<in># running st" "pane_of st i = Some p"
  then have "i |\<notin>| sc_relayInFlight st" by (auto simp: placed_def)
  then have "i \<in># fm_sum inflight_ops (sc_slots st)" using a by (simp add: running_def)
  then obtain q s where q: "fmlookup (sc_slots st) q = Some s" "i \<in># inflight_ops s" by (metis fm_sum_memberE)
  then have "q = p" using a unfolding placed_def by fastforce
  then show ?thesis using q by (auto simp: inflight_ops_def split: option.splits)
qed

lemma run_books: "sched_step\<^sup>*\<^sup>* (new_run capacity) r \<Longrightarrow> books {#} (sr_sent r) (sr_done r) (sr_state r)"
  using sched_runs_ok [of capacity r] by (simp add: sched_run_ok_def)

end
