(* ===== verification/SchedulerRuns.thy ===== *)
theory SchedulerRuns
  imports SchedulerSafety
begin

text \<open>
  What every run of the command scheduler guarantees, with sample runs in which the hypotheses
  hold: answers, bounds on the running effects, no idle capacity, shutdown, retries under a ledger
  key, the bounds of the ledger and of the dispatch loop, and how a replaced pane session lets one
  key run twice.
\<close>

section \<open>Sample runs\<close>

text \<open>Requests for one pane under one ledger key, and the events that meet them.\<close>

definition demo_options :: "string \<Rightarrow> u64 \<Rightarrow> ScheduleOptions" where
  "demo_options p g = \<lparr>so_ID = 0, so_RequestID = ''r'', so_ReceivedAt = 1, so_Deadline = 100, so_Kind = ''send'', so_PaneID = p,
     so_RelayLevel = (p = []), so_PaneGeneration = g, so_AllowAbsent = False, so_LedgerKey = ''k'', so_PayloadHash = ''h''\<rparr>"

definition demo_op :: "string \<Rightarrow> u64 \<Rightarrow> waiter \<Rightarrow> scheduledOperation" where
  "demo_op p g w = projr (ExecuteAdmitted False 0 1 1 None (demo_options p g) 0 w)"

lemma demo_admitted: "ExecuteAdmitted False 0 1 1 None (demo_options p g) 0 w = Inr (demo_op p g w)"
  by (simp add: demo_op_def ExecuteAdmitted_def Let_def coordinatorIngressCapacity_def)

definition demo_result :: EffectResult where
  "demo_result = \<lparr>er_Result = Some \<lparr>cr_RequestID = ''r'', cr_Action = ''send'', cr_OK = True, cr_Phase = ''accepted'', cr_Error = [],
     cr_PaneID = ''p'', cr_Data = None, cr_replayed = False\<rparr>, er_BumpGeneration = False, er_Continuation = None\<rparr>"

definition demo_send :: "opid \<Rightarrow> string \<Rightarrow> u64 \<Rightarrow> waiter \<Rightarrow> sched_run \<Rightarrow> sched_run" where
  "demo_send i p g w r = r\<lparr>sr_state := ingress 2 2 2 i (submit i (demo_op p g w) (sr_state r)), sr_sent := add_mset w (sr_sent r)\<rparr>"

definition demo_complete :: "opid \<Rightarrow> sched_run \<Rightarrow> sched_run" where
  "demo_complete i r = r\<lparr>sr_state := completeAndRedispatch 3 (Some (\<lambda>p g. g = 2)) i demo_result (sr_state r), sr_done := add_mset i (sr_done r)\<rparr>"

definition demo_topology :: "u64 \<Rightarrow> sched_run \<Rightarrow> sched_run" where
  "demo_topology g r = r\<lparr>sr_state := applyTopology 3 {|''p''|} (fmap_of_list [(''p'', g)]) (sr_state r)\<rparr>"

definition demo_stop :: "sched_run \<Rightarrow> sched_run" where
  "demo_stop r = r\<lparr>sr_state := stop_event (sr_state r)\<rparr>"

lemma demo_steps:
  "\<not> finished (sr_state r) \<and> i \<notin># live (sr_state r) \<and> w \<notin># sr_sent r \<Longrightarrow> sched_step r (demo_send i p g w r)"
  "\<not> finished (sr_state r) \<and> i \<in># started (sr_state r) - sr_done r \<Longrightarrow> sched_step r (demo_complete i r)"
  "\<not> finished (sr_state r) \<Longrightarrow> sched_step r (demo_topology g r)"
  "\<not> finished (sr_state r) \<Longrightarrow> sched_step r (demo_stop r)"
  unfolding demo_send_def demo_complete_def demo_topology_def demo_stop_def
  by (auto intro: sched_step.intros demo_admitted)

definition run1 :: sched_run where "run1 = demo_send 0 ''p'' 1 70 (new_run 2)"
definition run2 :: sched_run where "run2 = demo_topology 2 run1"
definition run3 :: sched_run where "run3 = demo_send 1 ''p'' 2 71 run2"
definition stopped_run :: sched_run where "stopped_run = demo_complete 0 (demo_stop run3)"

lemma run3: "sched_step\<^sup>*\<^sup>* (new_run 2) run3"
proof -
  have "sched_step\<^sup>*\<^sup>* (new_run 2) (new_run 2)" by simp
  also have "sched_step (new_run 2) run1" unfolding run1_def by (rule demo_steps) code_simp
  also have "sched_step run1 run2" unfolding run2_def by (rule demo_steps) code_simp
  also have "sched_step run2 run3" unfolding run3_def by (rule demo_steps) code_simp
  finally show ?thesis .
qed

lemma stopped_run_reachable: "sched_step\<^sup>*\<^sup>* (new_run 2) stopped_run"
proof -
  note run3
  also have "sched_step run3 (demo_stop run3)" by (rule demo_steps) code_simp
  also have "sched_step (demo_stop run3) stopped_run" unfolding stopped_run_def by (rule demo_steps) code_simp
  finally show ?thesis .
qed

section \<open>What a run guarantees\<close>

text \<open>
  C3: in every run of the scheduler each request that was sent has been answered exactly once, or
  is attached to exactly one operation that is queued or running; nothing else is ever answered.
\<close>

theorem requests_answered_once:
  assumes "sched_step\<^sup>*\<^sup>* (new_run capacity) r"
  shows "sr_sent r = replied (sr_state r) + pending (sr_state r) \<and> count (sr_sent r) w \<le> 1 \<and> count (live (sr_state r)) i \<le> 1"
proof -
  have "count (sr_sent r) w \<le> 1" using sched_runs_ok [OF assms] unfolding sched_run_ok_def by blast
  then show ?thesis
    using run_books [OF assms] books_once [OF run_books [OF assms], of i] unfolding books_def pending_def by simp
qed

theorem requests_answered_once_witness:
  "sched_step\<^sup>*\<^sup>* (new_run 2) run3 \<and> sr_sent run3 = {#71, 70#} \<and> replied (sr_state run3) = {#} \<and> pending (sr_state run3) = {#71, 70#}"
proof -
  have "replied (sr_state run3) = {#} \<and> sr_sent run3 = {#71, 70#}" by code_simp
  then show ?thesis using requests_answered_once [OF run3, of 70 0] run3 by auto
qed

text \<open>
  C4: the effects that were started and have not completed are the running ones; their number is
  the scheduler's count and at most its capacity, and never two of them run on one pane.
\<close>

theorem effects_bounded:
  assumes "sched_step\<^sup>*\<^sup>* (new_run capacity) r"
  shows "started (sr_state r) = sr_done r + running (sr_state r)
    \<and> int (size (running (sr_state r))) = sc_inUse (sr_state r) \<and> sc_inUse (sr_state r) \<le> sc_capacity (sr_state r)
    \<and> (i \<in># running (sr_state r) \<and> j \<in># running (sr_state r) \<and> pane_of (sr_state r) i = Some p \<and> pane_of (sr_state r) j = Some p \<longrightarrow> i = j)"
proof -
  note b = run_books [OF assms]
  have "i = j" if "i \<in># running (sr_state r)" "j \<in># running (sr_state r)" "pane_of (sr_state r) i = Some p" "pane_of (sr_state r) j = Some p"
    using running_pane [OF books_placed [OF b] that(1,3)] running_pane [OF books_placed [OF b] that(2,4)] by auto
  then show ?thesis using b unfolding books_def by auto
qed

theorem effects_bounded_witness:
  "sched_step\<^sup>*\<^sup>* (new_run 2) run3 \<and> started (sr_state run3) = running (sr_state run3) \<and> 0 \<in># running (sr_state run3)
    \<and> sc_inUse (sr_state run3) \<le> 2"
proof -
  have "sc_capacity (sr_state run3) = 2 \<and> sr_done run3 = {#} \<and> 0 \<in># running (sr_state run3)" by code_simp
  then show ?thesis using effects_bounded [OF run3, of 0 0 "''p''"] run3 by simp
qed

text \<open>
  C6: after every event, unless the scheduler is stopping or at capacity, nothing waits in the
  relay queue and a pane has waiting operations only while an effect runs on it.
\<close>

theorem work_conserving:
  assumes "sched_step\<^sup>*\<^sup>* (new_run capacity) r"
    and "\<not> sc_stopping (sr_state r)" and "sc_inUse (sr_state r) < sc_capacity (sr_state r)"
  shows "sc_relayQueue (sr_state r) = []
    \<and> (fmlookup (sc_slots (sr_state r)) p = Some s \<and> ps_Queue s \<noteq> [] \<longrightarrow> ps_InFlight s \<noteq> None)"
proof -
  have "busy (sr_state r)" using sched_runs_ok [OF assms(1)] by (simp add: sched_run_ok_def)
  then have "sc_relayQueue (sr_state r) = []" "idle (sr_state r) p" using assms(2,3) by (simp_all add: busy_def full_def)
  then show ?thesis by (auto simp: idle_def)
qed

theorem work_conserving_witness:
  "sched_step\<^sup>*\<^sup>* (new_run 2) run3 \<and> sc_relayQueue (sr_state run3) = []
    \<and> ps_Queue (slot_of (sr_state run3) ''p'' new_slot) = [1] \<and> ps_InFlight (slot_of (sr_state run3) ''p'' new_slot) \<noteq> None"
proof -
  define s where "s = slot_of (sr_state run3) ''p'' new_slot"
  have "\<not> sc_stopping (sr_state run3) \<and> sc_inUse (sr_state run3) < sc_capacity (sr_state run3)" by code_simp
  moreover have q: "fmlookup (sc_slots (sr_state run3)) ''p'' = Some s \<and> ps_Queue s = [1]" unfolding s_def by code_simp
  ultimately have "sc_relayQueue (sr_state run3) = [] \<and> ps_InFlight s \<noteq> None"
    using work_conserving [OF run3, of "''p''" s] by auto
  then show ?thesis using q run3 unfolding s_def [symmetric] by blast
qed

text \<open>
  C5: when the scheduler's loop ends every request that was sent has been answered, every effect
  that was started has completed, and nothing is left in a queue.
\<close>

theorem stopped_answers_all:
  assumes "sched_step\<^sup>*\<^sup>* (new_run capacity) r" and "finished (sr_state r)"
  shows "sr_sent r = replied (sr_state r) \<and> started (sr_state r) = sr_done r \<and> live (sr_state r) = {#}"
proof -
  have "halting True (sr_state r)" using sched_runs_ok [OF assms(1)] assms(2) by (simp add: sched_run_ok_def finished_def)
  moreover have "running (sr_state r) = {#}" using run_books [OF assms(1)] assms(2) by (simp add: books_def finished_def)
  ultimately have "live (sr_state r) = {#}" by (simp add: live_def halted_waiting)
  then show ?thesis using run_books [OF assms(1)] \<open>running (sr_state r) = {#}\<close> by (simp add: books_def)
qed

theorem stopped_answers_all_witness:
  "sched_step\<^sup>*\<^sup>* (new_run 2) stopped_run \<and> sr_sent stopped_run = {#71, 70#} \<and> replied (sr_state stopped_run) = {#71, 70#}
    \<and> started (sr_state stopped_run) = sr_done stopped_run"
proof -
  have "finished (sr_state stopped_run)" by code_simp
  moreover have "sr_sent stopped_run = {#71, 70#}" by code_simp
  ultimately show ?thesis using stopped_answers_all [OF stopped_run_reachable] stopped_run_reachable by simp
qed

section \<open>Retries and the bounds of the ledger\<close>

lemma fold_log: "sc_log (fold (\<lambda>x. log_action (f x)) xs st) = sc_log st @ map f xs"
  by (induction xs arbitrary: st) (simp_all add: log_action_def)

lemma prune_fields [simp]: "sc_log (pruneLedger t st) = sc_log st" "sc_ops (pruneLedger t st) = sc_ops st" "sc_stopping (pruneLedger t st) = sc_stopping st"
    "sc_slots (pruneLedger t st) = sc_slots st"
  by (simp_all add: pruneLedger_def Let_def)

lemma admitted_shape: "ExecuteAdmitted c n t0 nextID d options runner w = Inr op \<Longrightarrow> op_waiters op = [(w, False)] \<and> op_finalize op = None"
  by (auto simp: ExecuteAdmitted_def Let_def split: if_splits)

text \<open>
  C7: a retry under a key of the ledger starts nothing and queues nothing. Another payload is
  refused as a conflict, a finished command is answered with its result marked as replayed, and
  while the command is under way the retry waits with it, marked as replayed.
\<close>

theorem ledger_retry:
  assumes "ExecuteAdmitted False n t0 nextID callerDeadline options runner w = Inr op"
    and "\<not> sc_stopping st" and "t2 < so_Deadline (op_options op)"
    and "so_RelayLevel (op_options op) \<or> (case fmlookup (sc_slots st) (so_PaneID (op_options op)) of
           Some slot \<Rightarrow> ps_Generation slot \<le> so_PaneGeneration (op_options op) | None \<Rightarrow> True)"
    and "so_LedgerKey (op_options op) \<noteq> []" and "fmlookup (sc_ledger (pruneLedger t1 st)) (so_LedgerKey (op_options op)) = Some e"
  shows "sc_log (ingress t1 t2 t3 i (submit i op st)) = sc_log st @
      (if le_payloadHash e \<noteq> so_PayloadHash (op_options op) then [Replied w None (Some ErrConflict) False]
       else case le_result e of Some r \<Rightarrow> [Replied w (Some r) None True] | None \<Rightarrow> [])
    \<and> same_queues st (ingress t1 t2 t3 i (submit i op st))
    \<and> (le_payloadHash e = so_PayloadHash (op_options op) \<and> le_result e = None \<and> le_operation e = Some j \<and> i \<noteq> j \<longrightarrow>
         op_waiters (sc_ops (ingress t1 t2 t3 i (submit i op st)) j) = op_waiters (sc_ops st j) @ [(w, True)])"
proof -
  define st' where "st' = pruneLedger t1 (submit i op st)"
  have op: "sc_ops st' i = op" "sc_ops st' j = sc_ops st j \<or> i = j" by (simp_all add: st'_def submit_def)
  have st': "sc_stopping st' = sc_stopping st" "sc_slots st' = sc_slots st" "sc_ledger st' = sc_ledger (pruneLedger t1 st)" "sc_log st' = sc_log st"
    "same_queues st st'"
    by (simp_all add: st'_def submit_def pruneLedger_def same_queues_def Let_def)
  note shape = admitted_shape [OF assms(1)]
  have "ingress t1 t2 t3 i (submit i op st) =
      (if le_payloadHash e \<noteq> so_PayloadHash (op_options op) then reply st' i None (Some ErrConflict)
       else case le_result e of Some r \<Rightarrow> replyWithReplay st' i (Some r) None True
            | None \<Rightarrow> (case le_operation e of Some j \<Rightarrow> attach_waiters i j st' | None \<Rightarrow> st'))"
    unfolding ingress_def st'_def [symmetric] Let_def using assms(2-6)
    by (auto simp: op st' expired_def split: option.splits)
  then show ?thesis using op shape st'(4,5)
    by (auto simp: reply_def run_finalizer_def replyWithReplay_log fold_log attach_waiters_def upd_op_def same_queues_def log_action_def
        split: option.split)
qed

theorem ledger_retry_witness:
  "sc_log (ingress 2 2 2 2 (submit 2 (demo_op ''p'' 2 72) (sr_state run3))) = sc_log (sr_state run3)
    \<and> op_waiters (sc_ops (ingress 2 2 2 2 (submit 2 (demo_op ''p'' 2 72) (sr_state run3))) 1) = [(71, False), (72, True)]"
proof -
  define e where "e = the (fmlookup (sc_ledger (pruneLedger 2 (sr_state run3))) ''k'')"
  have opts: "op_options (demo_op ''p'' 2 72) = (demo_options ''p'' 2)\<lparr>so_ID := 1\<rparr>" by code_simp
  have e: "fmlookup (sc_ledger (pruneLedger 2 (sr_state run3))) ''k'' = Some e \<and> le_payloadHash e = ''h'' \<and> le_result e = None \<and> le_operation e = Some 1"
    unfolding e_def by code_simp
  have "\<not> sc_stopping (sr_state run3)" by code_simp
  moreover have "case fmlookup (sc_slots (sr_state run3)) ''p'' of Some slot \<Rightarrow>
      ps_Generation slot \<le> so_PaneGeneration (op_options (demo_op ''p'' 2 72)) | None \<Rightarrow> True" by code_simp
  moreover have "op_waiters (sc_ops (sr_state run3) 1) = [(71, False)]" by code_simp
  ultimately show ?thesis
    using ledger_retry [OF demo_admitted [of "''p''" 2 72], of "sr_state run3" 2 2 e 2 2 1] e by (simp add: opts demo_options_def)
qed

text \<open>The oldest finished entry: it is finished, and there is none only if every entry is under way.\<close>

lemma oldest_fold:
  fixes xs :: "(string \<times> ledgerEntry) list"
  defines "f \<equiv> \<lambda>(k, e) best. if le_operation e \<noteq> None then best
        else case best of Some (k', t) \<Rightarrow> if le_createdAt e < t then Some (k, le_createdAt e) else best
             | None \<Rightarrow> Some (k, le_createdAt e)"
  shows "case fold f xs b of None \<Rightarrow> b = None \<and> (\<forall>(k, e)\<in>set xs. le_operation e \<noteq> None)
    | Some (k, t) \<Rightarrow> (b = Some (k, t) \<or> (\<exists>e. (k, e) \<in> set xs \<and> le_operation e = None \<and> le_createdAt e = t))
        \<and> (\<forall>(k', e)\<in>set xs. le_operation e = None \<longrightarrow> t \<le> le_createdAt e) \<and> (\<forall>k' t'. b = Some (k', t') \<longrightarrow> t \<le> t')"
proof (induction xs arbitrary: b)
  case (Cons x xs)
  obtain k e where x: "x = (k, e)" by fastforce
  show ?case using Cons [of "f x b"] by (auto simp: f_def x split: option.splits prod.splits if_splits)
qed (auto split: option.split prod.split)

lemma oldest_finished_spec: "case oldest_finished l of
      None \<Rightarrow> \<forall>k e. fmlookup l k = Some e \<longrightarrow> le_operation e \<noteq> None
    | Some k \<Rightarrow> \<exists>e. fmlookup l k = Some e \<and> le_operation e = None
        \<and> (\<forall>k' e'. fmlookup l k' = Some e' \<longrightarrow> le_operation e' = None \<longrightarrow> le_createdAt e \<le> le_createdAt e')"
proof -
  have set: "set (sorted_list_of_fmap l) = {(k, e). fmlookup l k = Some e}"
    by (auto simp: sorted_list_of_fmap_def fmlookup_dom_iff image_iff)
  show ?thesis unfolding oldest_finished_def
    using oldest_fold [where xs = "sorted_list_of_fmap l" and b = None] unfolding set by (fastforce split: option.splits prod.splits)
qed

lemma drop_oldest_small: "fcard (fmdom l) < maxLedgerEntries \<Longrightarrow> drop_oldest n l = l"
  by (cases n) simp_all

lemma drop_oldest_bound:
  assumes "fcard (fmdom l) \<le> n"
  shows "fcard (fmdom (drop_oldest n l)) < maxLedgerEntries \<or> (\<forall>k e. fmlookup (drop_oldest n l) k = Some e \<longrightarrow> le_operation e \<noteq> None)"
  using assms
proof (induction n arbitrary: l)
  case 0
  then have "fcard (fmdom l) < maxLedgerEntries" unfolding maxLedgerEntries_def by linarith
  then show ?case by simp
next
  case (Suc n)
  show ?case
  proof (cases "oldest_finished l")
    case None
    then show ?thesis using oldest_finished_spec [of l] by auto
  next
    case (Some k)
    then have "k |\<in>| fmdom l" using oldest_finished_spec [of l] by (auto intro: fmdomI)
    then have "fcard (fmdom (fmdrop k l)) \<le> n" using Suc.prems by (simp add: fcard.rep_eq)
    then show ?thesis using Suc.IH [of "fmdrop k l"] Some by simp
  qed
qed

lemma drop_oldest_keeps: "fmlookup l k = Some e \<Longrightarrow> le_operation e \<noteq> None \<Longrightarrow> fmlookup (drop_oldest n l) k = Some e"
proof (induction n arbitrary: l)
  case (Suc n)
  show ?case
  proof (cases "oldest_finished l")
    case (Some k')
    then have "k' \<noteq> k" using oldest_finished_spec [of l] Suc.prems by auto
    then show ?thesis using Suc Some by simp
  qed (use Suc.prems in simp)
qed simp

text \<open>
  after pruning, the ledger has fewer than 256 entries or only entries of commands under way;
  no entry of a command under way is dropped, and a dropped entry was finished for a day or made
  room. The loop that makes room ends within the number of entries.
\<close>

theorem ledger_bounded:
  "(fcard (fmdom (sc_ledger (pruneLedger now st))) < maxLedgerEntries
      \<or> (\<forall>k e. fmlookup (sc_ledger (pruneLedger now st)) k = Some e \<longrightarrow> le_operation e \<noteq> None))
    \<and> (\<forall>k e. fmlookup (sc_ledger st) k = Some e \<and> le_operation e \<noteq> None \<longrightarrow> fmlookup (sc_ledger (pruneLedger now st)) k = Some e)
    \<and> (fcard (fmdom (sc_ledger st)) < maxLedgerEntries \<longrightarrow>
        (\<forall>k e. fmlookup (sc_ledger st) k = Some e \<and> time_Sub now (le_createdAt e) < ledgerRetention \<longrightarrow>
          fmlookup (sc_ledger (pruneLedger now st)) k = Some e))"
proof -
  define kept where "kept = fm_drop_if (\<lambda>e. le_operation e = None \<and> time_Sub now (le_createdAt e) \<ge> ledgerRetention) (sc_ledger st)"
  have p: "sc_ledger (pruneLedger now st) = drop_oldest (fcard (fmdom kept)) kept" by (simp add: pruneLedger_def kept_def Let_def)
  have "fcard (fmdom kept) \<le> fcard (fmdom (sc_ledger st))" unfolding kept_def by (rule fmdom_drop_if)
  then have "fcard (fmdom (sc_ledger st)) < maxLedgerEntries \<Longrightarrow> drop_oldest (fcard (fmdom kept)) kept = kept"
    by (intro drop_oldest_small) linarith
  then show ?thesis
    unfolding p using drop_oldest_bound [OF order_refl, of kept] drop_oldest_keeps [of kept] by (auto simp: kept_def)
qed

theorem ledger_bounded_witness:
  "le_operation (the (fmlookup (sc_ledger (pruneLedger (100 * ledgerRetention) (sr_state run3))) ''k'')) = Some 1"
proof -
  define e where "e = the (fmlookup (sc_ledger (sr_state run3)) ''k'')"
  have "fmlookup (sc_ledger (sr_state run3)) ''k'' = Some e \<and> le_operation e = Some 1" unfolding e_def by code_simp
  then have "fmlookup (sc_ledger (pruneLedger (100 * ledgerRetention) (sr_state run3))) ''k'' = Some e \<and> le_operation e = Some 1"
    using ledger_bounded [of "100 * ledgerRetention" "sr_state run3"] by blast
  then show ?thesis by simp
qed

section \<open>The dispatch loop ends\<close>

text \<open>The loop over the panes with a bound on its rounds; \<open>None\<close> when the rounds are used up.\<close>

fun dispatch_rounds :: "nat \<Rightarrow> time \<Rightarrow> string list \<Rightarrow> scheduler \<Rightarrow> scheduler option" where
  "dispatch_rounds 0 now ps st = None"
| "dispatch_rounds (Suc n) now ps st =
     (if sc_inUse st < sc_capacity st \<and> \<not> sc_stopping st
      then case dispatch_pass now ps st of (st', progress) \<Rightarrow> if progress then dispatch_rounds n now ps st' else Some st'
      else Some st)"

text \<open>
  C8: the loop of \<open>dispatch\<close> over the panes ends after at most one round more than there are queued
  operations, with the state the model gives it.
\<close>

theorem dispatch_terminates:
  assumes "queued st < n"
  shows "dispatch_rounds n now ps st = Some (dispatch_panes now ps st)"
  using assms
proof (induction n arbitrary: st)
  case (Suc n)
  obtain st' m where p: "dispatch_pass now ps st = (st', m)" by fastforce
  have "m \<Longrightarrow> queued st' < n" using dispatch_pass_progress [OF p] Suc.prems by simp
  then show ?case using Suc.IH [of st'] by (simp add: p dispatch_panes.simps [of now ps st])
qed simp

theorem dispatch_terminates_witness:
  "queued (sr_state run3) = 1 \<and> dispatch_rounds 2 5 [''p''] (sr_state run3) = Some (dispatch_panes 5 [''p''] (sr_state run3))"
proof -
  have "queued (sr_state run3) = 1" by code_simp
  then show ?thesis using dispatch_terminates [of "sr_state run3" 2] by simp
qed

section \<open>Stale completions and the ledger\<close>

lemma ledger_fields [simp]: "sc_ledger (log_action a st) = sc_ledger st" "sc_ledger (upd_op i f st) = sc_ledger st" "sc_ledger (upd_metrics g st) = sc_ledger st"
    "sc_ledger (drop_deadline i st) = sc_ledger st" "sc_ledger (put_slot p s st) = sc_ledger st" "sc_ledger (start st i g') = sc_ledger st"
    "sc_ledger (setOwnerMetrics st) = sc_ledger st"
  by (simp_all add: log_action_def upd_op_def upd_metrics_def drop_deadline_def put_slot_def start_def setOwnerMetrics_def Let_def)

lemma ledger_reply [simp]: "sc_ledger (replyWithReplay st i r e b) = sc_ledger st" "sc_ledger (reply st i r e) = sc_ledger st"
proof -
  have "sc_ledger (fold (\<lambda>(w, replayed). log_action (f w replayed)) ws st') = sc_ledger st'" for f ws st'
    by (induction ws arbitrary: st') auto
  then show 1: "sc_ledger (replyWithReplay st i r e b) = sc_ledger st" for st i r e b by (simp add: replyWithReplay_def)
  show "sc_ledger (reply st i r e) = sc_ledger st" by (simp add: reply_def run_finalizer_def 1 split: option.split)
qed

text \<open>Answering and dispatching add no entry to the ledger.\<close>

lemma finish_absent: "fmlookup (sc_ledger st) k = None \<Longrightarrow> fmlookup (sc_ledger (finish st i r e)) k = None"
  by (auto simp: finish_def run_finalizer_def Let_def split: option.splits)

lemma stale_absent: "fmlookup (sc_ledger st) k = None \<Longrightarrow> fmlookup (sc_ledger (replyStale st i)) k = None"
  by (simp add: replyStale_def Let_def finish_absent)

lemma dispatch_relay_absent: "fmlookup (sc_ledger st) k = None \<Longrightarrow> fmlookup (sc_ledger (dispatch_relay now q st)) k = None"
  by (induction now q st rule: dispatch_relay.induct) (auto simp: expire_op_def finish_absent)

lemma dispatch_pane_absent: "fmlookup (sc_ledger st) k = None \<Longrightarrow> fmlookup (sc_ledger (fst (dispatch_pane now p st))) k = None"
  by (auto simp: dispatch_pane_def expire_op_def finish_absent stale_absent Let_def split: option.split list.split)

lemma dispatch_pass_absent: "fmlookup (sc_ledger st) k = None \<Longrightarrow> fmlookup (sc_ledger (fst (dispatch_pass now ps st))) k = None"
proof (induction ps arbitrary: st)
  case (Cons p ps)
  then show ?case using Cons.IH [OF dispatch_pane_absent [OF Cons.prems, of now p]] by (auto simp: case_prod_beta)
qed simp

lemma dispatch_panes_absent: "fmlookup (sc_ledger st) k = None \<Longrightarrow> fmlookup (sc_ledger (dispatch_panes now ps st)) k = None"
proof (induction now ps st rule: dispatch_panes.induct)
  case (1 now ps st)
  obtain st' progress where p: "dispatch_pass now ps st = (st', progress)" by fastforce
  have "fmlookup (sc_ledger st') k = None" using dispatch_pass_absent [OF "1.prems", of now ps] p by simp
  then show ?case using "1.IH" [OF _ p [symmetric]] "1.prems" by (simp add: dispatch_panes.simps [of now ps st] p)
qed

lemma dispatch_absent: "fmlookup (sc_ledger st) k = None \<Longrightarrow> fmlookup (sc_ledger (dispatch now st)) k = None"
  by (simp add: dispatch_def Let_def dispatch_panes_absent dispatch_relay_absent)

text \<open>
  a stale completion leaves no entry for the key of its operation in the ledger, whichever operation
  the entry belongs to: also that of a newer request under the same key, so that a retry of the newer request is
  carried out again instead of being answered from the ledger (compare \<open>ledger_retry\<close>).
\<close>

theorem stale_completion_forgets:
  fixes st :: scheduler and i :: opid
  defines "options \<equiv> op_options (sc_ops st i)"
  assumes "fmlookup (sc_slots st) (so_PaneID options) = Some slot" and "ps_InFlight slot = Some f" and "if_OperationID f = i"
    and "completion_stale current options slot f" and "\<not> so_RelayLevel options" and "op_finalize (sc_ops st i) = None" and "so_LedgerKey options \<noteq> []"
  shows "fmlookup (sc_ledger (completeAndRedispatch now current i result st)) (so_LedgerKey options) = None"
proof -
  define st1 where "st1 = close_slot result True (so_PaneID options) (so_LedgerKey options) st"
  define st2 where "st2 = setOwnerMetrics (upd_metrics (\<lambda>m. m\<lparr>sm_Completed := sm_Completed m + 1\<rparr>) (drop_deadline i (st1\<lparr>sc_inUse := sc_inUse st1 - 1\<rparr>)))"
  have ops: "sc_ops st2 i = sc_ops st i"
    using assms(2) by (simp add: st2_def st1_def close_slot_def put_slot_def setOwnerMetrics_def upd_metrics_def drop_deadline_def Let_def)
  have "completeAndRedispatch now current i result st = dispatch now (replyStale st2 i)"
    using assms(2-6) unfolding options_def
    by (simp add: completeAndRedispatch_def complete_op_def Let_def st2_def st1_def options_def)
  moreover have "fmlookup (sc_ledger (replyStale st2 i)) (so_LedgerKey options) = None"
    using assms(7,8) by (simp add: replyStale_def Let_def ops options_def finish_absent)
  ultimately show ?thesis by (simp add: dispatch_absent)
qed

theorem stale_completion_forgets_witness:
  "map_option le_operation (fmlookup (sc_ledger (sr_state run3)) ''k'') = Some (Some 1)
    \<and> fmlookup (sc_ledger (completeAndRedispatch 3 (Some (\<lambda>p g. g = 2)) 0 demo_result (sr_state run3))) ''k'' = None"
proof -
  let ?st = "sr_state run3" and ?current = "Some (\<lambda>p g. g = (2 :: u64))"
  define slot where "slot = the (fmlookup (sc_slots ?st) ''p'')"
  define f where "f = the (ps_InFlight slot)"
  have o: "so_PaneID (op_options (sc_ops ?st 0)) = ''p''" "so_LedgerKey (op_options (sc_ops ?st 0)) = ''k''"
      "\<not> so_RelayLevel (op_options (sc_ops ?st 0))" "op_finalize (sc_ops ?st 0) = None" by code_simp+
  have s: "fmlookup (sc_slots ?st) ''p'' = Some slot \<and> ps_InFlight slot = Some f \<and> if_OperationID f = 0" unfolding f_def slot_def by code_simp
  have "completion_stale ?current (op_options (sc_ops ?st 0)) slot f" unfolding f_def slot_def by code_simp
  moreover have "map_option le_operation (fmlookup (sc_ledger ?st) ''k'') = Some (Some 1)" by code_simp
  ultimately show ?thesis using stale_completion_forgets [of ?st 0 slot f ?current 3 demo_result] o s by simp
qed

end
