(* ===== verification/Inventory.thy ===== *)
theory Inventory
  imports Prelude GoLib FMaps
begin

text \<open>
  The published state of the agents (\<^verbatim>\<open>coordinator/state.go\<close>, \<^verbatim>\<open>triage.go\<close>, \<^verbatim>\<open>launch_identity.go\<close>): the
  inventory that polls and events commit, revisions and generations of panes, the cycle of
  attention and completion, seen marks and the file that keeps them. Each method holds the mutex of
  the state, so it is one step. The SHA-256 digest of a triage key, the fingerprint of an approval
  and the key of a question are parameters; the readings of the clock and of the random source in
  a call are arguments of it.
\<close>

section \<open>Agents\<close>

text \<open>A Go map whose keys are only read one by one is a function that gives the zero value for an absent key.\<close>

definition AttentionApproval :: string where "AttentionApproval = ''approval''"
definition AttentionQuestion :: string where "AttentionQuestion = ''question''"
definition AttentionChat :: string where "AttentionChat = ''chat''"
definition AttentionUnknown :: string where "AttentionUnknown = ''unknown''"

record SummaryEntry =
  se_Question :: string
  se_Answer :: string

record question_Option =
  qo_Index :: int
  qo_Label :: string
  qo_Description :: string
  qo_Selected :: bool
  qo_Summary :: "SummaryEntry list"

record question_Other =
  qt_Selected :: bool
  qt_Text :: string
  qt_Label :: string
  qt_Placeholder :: string
  qt_AllowEmpty :: bool
  qt_Hidden :: bool

record Focus =
  fc_Kind :: string
  fc_Index :: int

record Interaction =
  in_ID :: string
  in_Kind :: string
  in_Question :: string
  in_Options :: "question_Option list"
  in_Other :: question_Other
  in_SubmitLabel :: string
  in_CanChat :: bool
  in_CanGoBack :: bool
  in_QuestionIndex :: int
  in_QuestionTotal :: int
  in_Focus :: Focus
  in_AllOptionCount :: int
  in_Agent :: string
  in_NotesActive :: bool

text \<open>The fields of an agent that describe what it is blocked on.\<close>

record blocked_details =
  bd_EventID :: string
  bd_AttentionKind :: string
  bd_Prompt :: string
  bd_Command :: string
  bd_Options :: "string list"
  bd_ApprovalFingerprint :: string
  bd_Interaction :: "Interaction option"
  bd_QuestionLayout :: bool
  bd_InteractionID :: string

record AgentState =
  ag_PaneID :: string
  ag_RawPaneID :: string
  ag_TerminalID :: string
  ag_ServerSessionID :: string
  ag_Generation :: int
  ag_AgentSessionID :: string
  ag_TabID :: string
  ag_TabLabel :: string
  ag_TabNumber :: int
  ag_TabOrder :: int
  ag_WorkspaceID :: string
  ag_Agent :: string
  ag_Name :: string
  ag_Status :: string
  ag_Focused :: bool
  ag_Cwd :: string
  ag_Project :: string
  ag_Host :: string
  ag_Session :: string
  ag_SessionName :: string
  ag_UpdatedAt :: int
  ag_LastActiveAt :: int
  ag_LastSeenAt :: int
  ag_ActivitySeq :: int
  ag_blocked :: blocked_details
  ag_SessionID :: string
  ag_SessionKind :: string
  ag_ConversationProcess :: string
  ag_ConversationSource :: string
  ag_ConversationInferred :: bool
  ag_ConversationInferredOwner :: string
  ag_ConversationReason :: string
  ag_ConversationHistoryAvailable :: bool
  ag_PaneRevision :: int
  ag_StateRevision :: int
  ag_ScrollMaxOffset :: int
  ag_ForegroundCwd :: string

record WorkspaceWorktree =
  ww_RepoKey :: string
  ww_RepoName :: string
  ww_RepoRoot :: string
  ww_CheckoutPath :: string
  ww_IsLinkedWorktree :: bool

record Workspace =
  ws_ID :: string
  ws_Number :: int
  ws_Label :: string
  ws_Focused :: bool
  ws_PaneCount :: int
  ws_TabCount :: int
  ws_ActiveTabID :: string
  ws_AgentStatus :: string
  ws_Cwd :: string
  ws_Worktree :: "WorkspaceWorktree option"

record pendingEvent =
  pv_tabID :: string
  pv_workspaceID :: string
  pv_status :: string
  pv_updatedAt :: int
  pv_expiresAt :: time

record sessionDiscovery =
  sd_generation :: u64
  sd_terminalID :: string
  sd_sessionID :: string

record triageRecord =
  tg_LastActiveAt :: int
  tg_LastSeenAt :: int

record PollToken =
  pt_BaseRevision :: int
  pt_TopologyGeneration :: int

text \<open>A call of the transition callback: pane, agent, project, status and revision.\<close>

record transition_call =
  tc_pane :: string
  tc_agent :: string
  tc_project :: string
  tc_status :: string
  tc_revision :: int

record State =
  iv_agents :: "(string, AgentState) fmap"
  iv_workspaces :: "Workspace list"
  iv_revision :: "string \<Rightarrow> int"
  iv_contentRev :: "string \<Rightarrow> int"
  iv_attentionRev :: "string \<Rightarrow> int"
  iv_prevStatus :: "string \<Rightarrow> string"
  iv_topologyGen :: int
  iv_revCounter :: int
  iv_unseenDone :: "string \<Rightarrow> bool"
  iv_ackDone :: "string \<Rightarrow> bool"
  iv_finishedNotif :: "string \<Rightarrow> bool"
  iv_completionRev :: "string \<Rightarrow> int"
  iv_generation :: "(string, int) fmap"
  iv_sessionDiscoveries :: "string \<Rightarrow> sessionDiscovery option"
  iv_triage :: "(string, triageRecord) fmap"
  iv_triagePath :: bool
  iv_triageFile :: "(string, triageRecord) fmap option"
  iv_inventoryReady :: bool
  iv_inventoryErrorCode :: string
  iv_inventoryMessage :: string
  iv_lastAttemptAt :: "time option"
  iv_lastSuccessAt :: "time option"
  iv_onTransition :: "transition_call list option"
  iv_onInventory :: "AgentState list list option"
  iv_pendingInventory :: "AgentState list option"
  iv_pendingEvents :: "(string, pendingEvent) fmap"
  iv_topologyRetries :: nat
  iv_blockedEventSeq :: nat
  iv_customAnswers :: "string \<Rightarrow> (string, string) fmap"

definition no_details :: blocked_details where
  "no_details = \<lparr>bd_EventID = [], bd_AttentionKind = [], bd_Prompt = [], bd_Command = [], bd_Options = [], bd_ApprovalFingerprint = [],
     bd_Interaction = None, bd_QuestionLayout = False, bd_InteractionID = []\<rparr>"

definition NewState :: State where
  "NewState = \<lparr>iv_agents = fmempty, iv_workspaces = [], iv_revision = (\<lambda>_. 0), iv_contentRev = (\<lambda>_. 0), iv_attentionRev = (\<lambda>_. 0),
     iv_prevStatus = (\<lambda>_. []), iv_topologyGen = 0, iv_revCounter = 0, iv_unseenDone = (\<lambda>_. False), iv_ackDone = (\<lambda>_. False),
     iv_finishedNotif = (\<lambda>_. False), iv_completionRev = (\<lambda>_. 0), iv_generation = fmempty, iv_sessionDiscoveries = (\<lambda>_. None),
     iv_triage = fmempty, iv_triagePath = False, iv_triageFile = None, iv_inventoryReady = False, iv_inventoryErrorCode = [],
     iv_inventoryMessage = [], iv_lastAttemptAt = None, iv_lastSuccessAt = None, iv_onTransition = None, iv_onInventory = None,
     iv_pendingInventory = None, iv_pendingEvents = fmempty, iv_topologyRetries = 0, iv_blockedEventSeq = 0,
     iv_customAnswers = (\<lambda>_. fmempty)\<rparr>"

definition attentionStatuses :: "string \<Rightarrow> bool" where
  "attentionStatuses s \<longleftrightarrow> s \<in> {''working'', ''blocked''}"

definition doneStatuses :: "string \<Rightarrow> bool" where
  "doneStatuses s \<longleftrightarrow> s \<in> {''done'', ''complete'', ''completed'', ''finished'', ''success'', ''succeeded'', ''unread''}"

definition generation_of :: "State \<Rightarrow> string \<Rightarrow> int" where
  "generation_of st p = (case fmlookup (iv_generation st) p of Some g \<Rightarrow> g | None \<Rightarrow> 0)"

definition bump_generation :: "string \<Rightarrow> State \<Rightarrow> State" where
  "bump_generation p st = st\<lparr>iv_generation := fmupd p (generation_of st p + 1) (iv_generation st)\<rparr>"

section \<open>Readers\<close>

definition BeginPoll :: "State \<Rightarrow> PollToken" where
  "BeginPoll st = \<lparr>pt_BaseRevision = iv_revCounter st, pt_TopologyGeneration = iv_topologyGen st\<rparr>"

definition PaneSession :: "State \<Rightarrow> string \<Rightarrow> int \<times> bool" where
  "PaneSession st p = (generation_of st p, p |\<in>| fmdom (iv_agents st))"

definition PaneSessionCurrent :: "State \<Rightarrow> string \<Rightarrow> u64 \<Rightarrow> bool" where
  "PaneSessionCurrent st p g \<longleftrightarrow> p |\<in>| fmdom (iv_agents st) \<and> word_of_int (generation_of st p) = g"

definition PaneGenerations :: "State \<Rightarrow> (string, u64) fmap" where
  "PaneGenerations st = fmmap word_of_int (iv_generation st)"

definition TransitionCurrent :: "State \<Rightarrow> string \<Rightarrow> string \<Rightarrow> int \<Rightarrow> bool" where
  "TransitionCurrent st p status revision \<longleftrightarrow>
     (case fmlookup (iv_agents st) p of None \<Rightarrow> False | Some a \<Rightarrow> ag_Status a = status \<and> iv_revision st p = revision)"

definition BlockedTransitionCurrent :: "State \<Rightarrow> string \<Rightarrow> string \<Rightarrow> u64 \<Rightarrow> bool" where
  "BlockedTransitionCurrent st p eventID g \<longleftrightarrow>
     (case fmlookup (iv_agents st) p of None \<Rightarrow> False
      | Some a \<Rightarrow> ag_Status a = ''blocked'' \<and> bd_EventID (ag_blocked a) = eventID \<and> word_of_int (generation_of st p) = g)"

definition AttentionTransitionCurrent :: "State \<Rightarrow> string \<Rightarrow> string \<Rightarrow> u64 \<Rightarrow> string \<Rightarrow> int \<Rightarrow> bool" where
  "AttentionTransitionCurrent st p eventID g attentionKind attentionRevision \<longleftrightarrow>
     (case fmlookup (iv_agents st) p of None \<Rightarrow> False
      | Some a \<Rightarrow> ag_Status a = ''blocked'' \<and> bd_EventID (ag_blocked a) = eventID \<and> word_of_int (generation_of st p) = g
          \<and> bd_AttentionKind (ag_blocked a) = attentionKind \<and> iv_attentionRev st p = attentionRevision)"

definition CompletionCurrent :: "State \<Rightarrow> string \<Rightarrow> int \<Rightarrow> bool" where
  "CompletionCurrent st p revision \<longleftrightarrow>
     (case fmlookup (iv_agents st) p of None \<Rightarrow> False
      | Some a \<Rightarrow> (\<not> attentionStatuses (ag_Status a) \<or> ag_Status a = ''blocked'' \<and> bd_AttentionKind (ag_blocked a) = AttentionChat)
          \<and> iv_completionRev st p = revision)"

definition DisplayedStatus :: "State \<Rightarrow> string \<Rightarrow> string" where
  "DisplayedStatus st p =
     (case fmlookup (iv_agents st) p of None \<Rightarrow> []
      | Some a \<Rightarrow> if doneStatuses (ag_Status a) \<and> iv_ackDone st p then ''idle''
                  else if ag_Status a = ''idle'' \<and> iv_unseenDone st p then ''done''
                  else ag_Status a)"

definition publish_agent :: "State \<Rightarrow> AgentState \<Rightarrow> AgentState" where
  "publish_agent st a =
     (let cp = a\<lparr>ag_StateRevision := iv_revision st (ag_PaneID a), ag_Generation := generation_of st (ag_PaneID a)\<rparr>;
          cp1 = (if doneStatuses (ag_Status cp) \<and> iv_ackDone st (ag_PaneID cp) then cp\<lparr>ag_Status := ''idle''\<rparr> else cp)
      in if ag_Status cp1 = ''idle'' \<and> iv_unseenDone st (ag_PaneID cp1) then cp1\<lparr>ag_Status := ''done''\<rparr> else cp1)"

text \<open>The agents in the order of the map's keys, sorted by pane.\<close>

definition snapshotLocked :: "State \<Rightarrow> AgentState list" where
  "snapshotLocked st = sort_key ag_PaneID (map (publish_agent st) (fm_values (iv_agents st)))"

definition Agent_copy :: "State \<Rightarrow> string \<Rightarrow> AgentState option" where
  "Agent_copy st p = map_option (\<lambda>a. a\<lparr>ag_StateRevision := iv_revision st p, ag_Generation := generation_of st p\<rparr>) (fmlookup (iv_agents st) p)"

record inventory_status =
  is_state :: string
  is_error_code :: string
  is_message :: string
  is_stale :: bool

definition inventoryStatusLocked :: "State \<Rightarrow> inventory_status" where
  "inventoryStatusLocked st =
     (let s = (if iv_inventoryReady st then ''ready'' else if iv_inventoryErrorCode st \<noteq> [] then ''error'' else ''starting'')
      in \<lparr>is_state = s, is_error_code = iv_inventoryErrorCode st, is_message = iv_inventoryMessage st,
          is_stale = (s \<noteq> ''ready'' \<and> iv_lastSuccessAt st \<noteq> None)\<rparr>)"

section \<open>Triage: when an agent was last active and last seen\<close>

definition triageStateLimit :: nat where "triageStateLimit = 2048"
definition triageStateMaxAge :: int where "triageStateMaxAge = 90 * 24 * 3600 * 1000"

definition firstNonEmpty :: "string \<Rightarrow> string \<Rightarrow> string" where
  "firstNonEmpty a b = (if a \<noteq> [] then a else b)"

definition join_nul :: "string list \<Rightarrow> string" where
  "join_nul parts = (case parts of [] \<Rightarrow> [] | x # xs \<Rightarrow> x @ concat (map (\<lambda>y. CHR 0x00 # y) xs))"

definition triageIdentity :: "(string \<Rightarrow> string) \<Rightarrow> AgentState \<Rightarrow> string" where
  "triageIdentity sha a =
     (let parts = (if ag_TerminalID a \<noteq> [] then [''terminal='' @ ag_TerminalID a]
                   else [''pane='' @ firstNonEmpty (ag_RawPaneID a) (ag_PaneID a), ''tab='' @ ag_TabID a, ''workspace='' @ ag_WorkspaceID a]);
          parts' = (if ag_SessionID a \<noteq> [] then parts @ [''session='' @ ag_SessionID a] else parts)
      in sha (join_nul parts'))"

definition applyTriageLocked :: "(string \<Rightarrow> string) \<Rightarrow> State \<Rightarrow> AgentState \<Rightarrow> AgentState" where
  "applyTriageLocked sha st a =
     (case fmlookup (iv_triage st) (triageIdentity sha a) of
        Some r \<Rightarrow> a\<lparr>ag_LastActiveAt := tg_LastActiveAt r, ag_LastSeenAt := tg_LastSeenAt r\<rparr>
      | None \<Rightarrow> a\<lparr>ag_LastActiveAt := 0, ag_LastSeenAt := 0\<rparr>)"

definition syncTriageLocked :: "(string \<Rightarrow> string) \<Rightarrow> AgentState \<Rightarrow> State \<Rightarrow> State \<times> bool" where
  "syncTriageLocked sha a st =
     (let key = triageIdentity sha a; r = \<lparr>tg_LastActiveAt = ag_LastActiveAt a, tg_LastSeenAt = ag_LastSeenAt a\<rparr> in
      if key = [] then (st, False)
      else if tg_LastActiveAt r = 0 \<and> tg_LastSeenAt r = 0 then (st, False)
      else if fmlookup (iv_triage st) key = Some r then (st, False)
      else (st\<lparr>iv_triage := fmupd key r (iv_triage st)\<rparr>, True))"

definition maxInt64 :: "int \<Rightarrow> int \<Rightarrow> int" where
  "maxInt64 left right = (if left > right then left else right)"

definition triage_time :: "triageRecord \<Rightarrow> int" where
  "triage_time r = maxInt64 (tg_LastActiveAt r) (tg_LastSeenAt r)"

definition pruneTriageLocked :: "int \<Rightarrow> State \<Rightarrow> State" where
  "pruneTriageLocked cutoff st =
     (let kept = fm_drop_if (\<lambda>r. triage_time r < cutoff) (iv_triage st) in
      if fcard (fmdom kept) \<le> triageStateLimit then st\<lparr>iv_triage := kept\<rparr>
      else
        let ordered = sort_key snd (map (\<lambda>(k, r). (k, triage_time r)) (sorted_list_of_fmap kept))
        in st\<lparr>iv_triage := fold (\<lambda>(k, t). fmdrop k) (take (length ordered - triageStateLimit) ordered) kept\<rparr>)"

text \<open>\<open>now\<close> is the clock in milliseconds, \<open>written\<close> whether the file could be replaced.\<close>

definition persistTriageLocked :: "int \<Rightarrow> bool \<Rightarrow> State \<Rightarrow> State" where
  "persistTriageLocked now written st =
     (if \<not> iv_triagePath st then st
      else
        let st' = pruneTriageLocked (now - triageStateMaxAge) st
        in if written then st'\<lparr>iv_triageFile := Some (iv_triage st')\<rparr> else st')"

text \<open>Reading the file at startup: absent, invalid, or a version with its records.\<close>

datatype triage_read = TriageAbsent | TriageUnreadable | TriageVersion int "(string, triageRecord) fmap"

definition EnableTriagePersistence :: "bool \<Rightarrow> triage_read \<Rightarrow> int \<Rightarrow> bool \<Rightarrow> State \<Rightarrow> State option" where
  "EnableTriagePersistence dirReady file now written st =
     (if \<not> dirReady then None
      else case file of
             TriageUnreadable \<Rightarrow> None
           | TriageAbsent \<Rightarrow> Some (st\<lparr>iv_triagePath := True, iv_triage := fmempty\<rparr>)
           | TriageVersion v panes \<Rightarrow>
               if v \<noteq> 1 \<and> v \<noteq> 2 then None
               else
                 let good = fmfilter (\<lambda>k. k \<noteq> [] \<and> (case fmlookup panes k of
                              Some r \<Rightarrow> tg_LastActiveAt r \<ge> 0 \<and> tg_LastSeenAt r \<ge> 0 | None \<Rightarrow> False)) panes;
                     loaded = (if v = 1 then fmmap (\<lambda>r. r\<lparr>tg_LastActiveAt := 0\<rparr>) good else good);
                     st' = st\<lparr>iv_triagePath := True, iv_triage := loaded\<rparr>
                 in Some (if v = 1 then persistTriageLocked now written st' else st'))"

section \<open>Attention and completion\<close>

definition call_transition :: "string \<Rightarrow> string \<Rightarrow> State \<Rightarrow> State" where
  "call_transition p status st =
     (let (agent, project) = (case fmlookup (iv_agents st) p of Some a \<Rightarrow> (ag_Agent a, ag_Project a) | None \<Rightarrow> ([], []))
      in st\<lparr>iv_onTransition := map_option (\<lambda>calls. calls @ [\<lparr>tc_pane = p, tc_agent = agent, tc_project = project, tc_status = status,
              tc_revision = iv_revision st p\<rparr>]) (iv_onTransition st)\<rparr>)"

definition complete_pane :: "string \<Rightarrow> string \<Rightarrow> State \<Rightarrow> State" where
  "complete_pane p status st =
     call_transition p status (st\<lparr>iv_ackDone := (iv_ackDone st)(p := False), iv_unseenDone := (iv_unseenDone st)(p := True),
       iv_completionRev := (iv_completionRev st)(p := iv_revision st p)\<rparr>)"

definition registerTransition :: "string \<Rightarrow> string \<Rightarrow> string \<Rightarrow> string \<Rightarrow> State \<Rightarrow> State" where
  "registerTransition p prev status previousAttention st =
     (if attentionStatuses status
      then
        let st1 = (if prev \<noteq> status then st\<lparr>iv_unseenDone := (iv_unseenDone st)(p := False), iv_ackDone := (iv_ackDone st)(p := False),
                     iv_finishedNotif := (iv_finishedNotif st)(p := False), iv_completionRev := (iv_completionRev st)(p := 0)\<rparr> else st)
        in if status = ''blocked'' \<and> prev \<noteq> ''blocked'' then call_transition p status st1
           else if status = ''working'' \<and> prev \<noteq> ''working'' then call_transition p status st1
           else st1
      else if doneStatuses status then (if attentionStatuses prev then complete_pane p status st else st)
      else if status = ''idle'' \<and> attentionStatuses prev
      then if prev = ''blocked'' \<and> previousAttention = AttentionChat then st else complete_pane p status st
      else st)"

definition syncAttentionCompletionLocked :: "string \<Rightarrow> string \<Rightarrow> string \<Rightarrow> State \<Rightarrow> State" where
  "syncAttentionCompletionLocked p previous current st =
     (if current = AttentionChat
      then if previous \<noteq> AttentionChat
           then st\<lparr>iv_finishedNotif := (iv_finishedNotif st)(p := False), iv_completionRev := (iv_completionRev st)(p := iv_revision st p)\<rparr>
           else st
      else if previous = AttentionChat
      then st\<lparr>iv_finishedNotif := (iv_finishedNotif st)(p := False), iv_completionRev := (iv_completionRev st)(p := 0)\<rparr>
      else st)"

definition preservesChatCompletion :: "string \<Rightarrow> string \<Rightarrow> string \<Rightarrow> bool" where
  "preservesChatCompletion previousStatus currentStatus previousAttention \<longleftrightarrow>
     previousStatus = ''blocked'' \<and> currentStatus = ''idle'' \<and> previousAttention = AttentionChat"

definition interactionsEqual :: "Interaction option \<Rightarrow> Interaction option \<Rightarrow> bool" where
  "interactionsEqual left right \<longleftrightarrow> (case (left, right) of (Some l, Some r) \<Rightarrow> in_ID l = in_ID r | (None, None) \<Rightarrow> True | _ \<Rightarrow> False)"

definition blockedDetailsEqual :: "blocked_details option \<Rightarrow> blocked_details option \<Rightarrow> bool" where
  "blockedDetailsEqual left right \<longleftrightarrow>
     (case (left, right) of
        (Some l, Some r) \<Rightarrow> bd_EventID l = bd_EventID r \<and> bd_AttentionKind l = bd_AttentionKind r \<and> bd_Prompt l = bd_Prompt r
          \<and> bd_Command l = bd_Command r \<and> bd_Options l = bd_Options r \<and> bd_ApprovalFingerprint l = bd_ApprovalFingerprint r
          \<and> interactionsEqual (bd_Interaction l) (bd_Interaction r) \<and> bd_QuestionLayout l = bd_QuestionLayout r
          \<and> bd_InteractionID l = bd_InteractionID r
      | (None, None) \<Rightarrow> True
      | _ \<Rightarrow> False)"

text \<open>A new event: twelve random bytes, or the clock and a counter when the random source fails.\<close>

definition newBlockedEventIDLocked :: "bytes option \<Rightarrow> nat \<Rightarrow> State \<Rightarrow> State \<times> string" where
  "newBlockedEventIDLocked random nano st =
     (case random of
        Some value \<Rightarrow> (st, b64_encode value)
      | None \<Rightarrow>
          let n = iv_blockedEventSeq st + 1
          in (st\<lparr>iv_blockedEventSeq := n\<rparr>, ''blocked-'' @ FormatUint nano @ ''-'' @ FormatUint n))"

definition clearBlockedDetails :: "AgentState \<Rightarrow> AgentState" where
  "clearBlockedDetails a = a\<lparr>ag_blocked := no_details\<rparr>"

definition copyBlockedDetails :: "AgentState \<Rightarrow> AgentState \<Rightarrow> AgentState" where
  "copyBlockedDetails destination source = destination\<lparr>ag_blocked := ag_blocked source\<rparr>"

definition applyBlockedCycleLocked :: "bytes option \<Rightarrow> nat \<Rightarrow> AgentState \<Rightarrow> AgentState option \<Rightarrow> State \<Rightarrow> State \<times> AgentState" where
  "applyBlockedCycleLocked random nano agent existing st =
     (if ag_Status agent \<noteq> ''blocked'' then (st, clearBlockedDetails agent)
      else
        let d = ag_blocked agent;
            d1 = (if bd_AttentionKind d = [] then d\<lparr>bd_AttentionKind := AttentionUnknown\<rparr> else d);
            agent1 = agent\<lparr>ag_blocked := d1\<rparr>
        in if bd_EventID d1 \<noteq> [] then (st, agent1)
           else case existing of
                  Some e \<Rightarrow>
                    if ag_Status e = ''blocked'' \<and> bd_EventID (ag_blocked e) \<noteq> []
                    then (st, agent1\<lparr>ag_blocked := d1\<lparr>bd_EventID := bd_EventID (ag_blocked e)\<rparr>\<rparr>)
                    else (case newBlockedEventIDLocked random nano st of (st', event) \<Rightarrow> (st', agent1\<lparr>ag_blocked := d1\<lparr>bd_EventID := event\<rparr>\<rparr>))
                | None \<Rightarrow> (case newBlockedEventIDLocked random nano st of (st', event) \<Rightarrow> (st', agent1\<lparr>ag_blocked := d1\<lparr>bd_EventID := event\<rparr>\<rparr>)))"

section \<open>Committing an inventory\<close>

definition paneSessionReplaced :: "AgentState \<Rightarrow> AgentState \<Rightarrow> bool" where
  "paneSessionReplaced existing incoming \<longleftrightarrow>
     ag_ConversationProcess existing \<noteq> ag_ConversationProcess incoming \<or> ag_ConversationSource existing \<noteq> ag_ConversationSource incoming
     \<or> (\<exists>(a, b)\<in>set [(ag_RawPaneID existing, ag_RawPaneID incoming), (ag_TerminalID existing, ag_TerminalID incoming),
                   (ag_TabID existing, ag_TabID incoming), (ag_WorkspaceID existing, ag_WorkspaceID incoming)].
          a \<noteq> [] \<and> b \<noteq> [] \<and> a \<noteq> b)"

definition eventIdentityMatches :: "AgentState \<Rightarrow> string \<Rightarrow> string \<Rightarrow> bool" where
  "eventIdentityMatches agent tabID workspaceID \<longleftrightarrow>
     \<not> (tabID \<noteq> [] \<and> ag_TabID agent \<noteq> [] \<and> tabID \<noteq> ag_TabID agent)
     \<and> \<not> (workspaceID \<noteq> [] \<and> ag_WorkspaceID agent \<noteq> [] \<and> workspaceID \<noteq> ag_WorkspaceID agent)"

text \<open>
  What a commit reads: the clock at its start, for the pending event and the time stamp of each
  pane, at its end and when the triage file is written; the random source; the outcome of the write.
\<close>

record commit_env =
  ce_start :: time
  ce_pending :: "string \<Rightarrow> time"
  ce_millis :: "string \<Rightarrow> int"
  ce_random :: "string \<Rightarrow> bytes option"
  ce_nano :: "string \<Rightarrow> nat"
  ce_end :: time
  ce_persist :: int
  ce_written :: bool

text \<open>The pane's session: a changed agent session ends the generation, a replaced pane its history too.\<close>

definition commit_session :: "bool \<Rightarrow> AgentState \<Rightarrow> AgentState option \<Rightarrow> State \<Rightarrow> State" where
  "commit_session initialSnapshot incoming existing st =
     (let p = ag_PaneID incoming in
      case existing of
        Some e \<Rightarrow>
          if paneSessionReplaced e incoming
          then (bump_generation p st)\<lparr>iv_sessionDiscoveries := (iv_sessionDiscoveries st)(p := None), iv_prevStatus := (iv_prevStatus st)(p := []),
                 iv_unseenDone := (iv_unseenDone st)(p := False), iv_ackDone := (iv_ackDone st)(p := False),
                 iv_finishedNotif := (iv_finishedNotif st)(p := False), iv_completionRev := (iv_completionRev st)(p := 0)\<rparr>
          else if ag_SessionID e \<noteq> ag_SessionID incoming
          then bump_generation p (st\<lparr>iv_sessionDiscoveries := (iv_sessionDiscoveries st)(p :=
                 if ag_SessionID e = [] \<and> ag_SessionID incoming \<noteq> [] \<and> ag_TerminalID e \<noteq> [] \<and> ag_TerminalID e = ag_TerminalID incoming
                 then Some \<lparr>sd_generation = word_of_int (generation_of st p), sd_terminalID = ag_TerminalID incoming, sd_sessionID = ag_SessionID incoming\<rparr>
                 else None)\<rparr>)
          else st
      | None \<Rightarrow> if \<not> initialSnapshot \<and> generation_of st p > 0 then bump_generation p st else st)"

text \<open>
  The status, time stamps and activity the incoming agent is stored with; \<open>existing\<close> is the agent of
  the same session. First what it carries on: when it was active and seen, and the status of an
  event that came after the poll began.
\<close>

definition carry_times :: "(string \<Rightarrow> string) \<Rightarrow> AgentState option \<Rightarrow> State \<Rightarrow> AgentState \<Rightarrow> AgentState" where
  "carry_times sha existing st incoming =
     (case existing of
        Some e \<Rightarrow> incoming\<lparr>ag_LastActiveAt := ag_LastActiveAt e, ag_LastSeenAt := ag_LastSeenAt e\<rparr>
      | None \<Rightarrow> applyTriageLocked sha st incoming)"

definition carry_status :: "int \<Rightarrow> AgentState option \<Rightarrow> State \<Rightarrow> AgentState \<Rightarrow> AgentState" where
  "carry_status baseRev existing st cp =
     (case existing of
        Some e \<Rightarrow>
          if iv_revision st (ag_PaneID cp) > baseRev \<and> ag_Status cp \<noteq> ag_Status e
          then (let c = cp\<lparr>ag_Status := ag_Status e\<rparr> in if ag_Status e = ''blocked'' then copyBlockedDetails c e else c)
          else cp
      | None \<Rightarrow> cp)"

text \<open>An event that waited for this pane.\<close>

definition waiting_event :: "commit_env \<Rightarrow> State \<Rightarrow> AgentState \<Rightarrow> pendingEvent option" where
  "waiting_event env st incoming =
     (case fmlookup (iv_pendingEvents st) (ag_PaneID incoming) of
        Some ev \<Rightarrow> if ce_pending env (ag_PaneID incoming) < pv_expiresAt ev \<and> eventIdentityMatches incoming (pv_tabID ev) (pv_workspaceID ev)
                   then Some ev else None
      | None \<Rightarrow> None)"

definition apply_waiting :: "pendingEvent option \<Rightarrow> AgentState \<Rightarrow> AgentState" where
  "apply_waiting pending cp = (case pending of Some ev \<Rightarrow> cp\<lparr>ag_Status := pv_status ev, ag_UpdatedAt := pv_updatedAt ev\<rparr> | None \<Rightarrow> cp)"

definition stamp_updated :: "int \<Rightarrow> bool \<Rightarrow> pendingEvent option \<Rightarrow> AgentState option \<Rightarrow> AgentState \<Rightarrow> AgentState" where
  "stamp_updated millis initialSnapshot pending existing cp =
     (case existing of
        None \<Rightarrow> if pending \<noteq> None then cp
                else if initialSnapshot then cp\<lparr>ag_UpdatedAt := 0\<rparr>
                else cp\<lparr>ag_UpdatedAt := millis\<rparr>
      | Some e \<Rightarrow>
          if ag_Status e = ag_Status cp \<and> ag_Name e = ag_Name cp \<and> ag_Cwd e = ag_Cwd cp \<and> ag_Agent e = ag_Agent cp
             \<and> ag_ActivitySeq e = ag_ActivitySeq cp \<and> ag_PaneRevision e = ag_PaneRevision cp
             \<and> ag_ScrollMaxOffset e = ag_ScrollMaxOffset cp \<and> ag_ForegroundCwd e = ag_ForegroundCwd cp
          then cp\<lparr>ag_UpdatedAt := ag_UpdatedAt e\<rparr>
          else cp\<lparr>ag_UpdatedAt := millis\<rparr>)"

definition stamp_active :: "pendingEvent option \<Rightarrow> AgentState option \<Rightarrow> AgentState \<Rightarrow> AgentState" where
  "stamp_active pending existing cp =
     (if (pending \<noteq> None \<or> (case existing of Some e \<Rightarrow> ag_Status e \<noteq> ag_Status cp \<or> ag_ActivitySeq e \<noteq> ag_ActivitySeq cp | None \<Rightarrow> False))
         \<and> ag_UpdatedAt cp > ag_LastActiveAt cp
      then cp\<lparr>ag_LastActiveAt := ag_UpdatedAt cp\<rparr> else cp)"

definition commit_status :: "commit_env \<Rightarrow> (string \<Rightarrow> string) \<Rightarrow> int \<Rightarrow> bool \<Rightarrow> AgentState \<Rightarrow> AgentState option \<Rightarrow> State \<Rightarrow> AgentState" where
  "commit_status env sha baseRev initialSnapshot incoming existing st =
     (let cp = carry_status baseRev existing st (carry_times sha existing st incoming);
          pending = waiting_event env st incoming
      in stamp_active pending existing
           (stamp_updated (ce_millis env (ag_PaneID incoming)) initialSnapshot pending existing (apply_waiting pending cp)))"

text \<open>Storing the agent: revisions, transition, seen marks, triage and completion of chats.\<close>

definition commit_store :: "(string \<Rightarrow> string) \<Rightarrow> AgentState \<Rightarrow> AgentState option \<Rightarrow> State \<Rightarrow> State \<times> bool" where
  "commit_store sha cp existing st =
     (let p = ag_PaneID cp;
          attentionChanged = (\<not> blockedDetailsEqual (map_option ag_blocked existing) (Some (ag_blocked cp)));
          contentChanged = (case existing of None \<Rightarrow> True
            | Some e \<Rightarrow> ag_Status e \<noteq> ag_Status cp \<or> ag_Name e \<noteq> ag_Name cp \<or> ag_Cwd e \<noteq> ag_Cwd cp \<or> ag_Agent e \<noteq> ag_Agent cp
                \<or> ag_ActivitySeq e \<noteq> ag_ActivitySeq cp \<or> attentionChanged);
          prev = iv_prevStatus st p;
          previousAttention = (case existing of Some e \<Rightarrow> bd_AttentionKind (ag_blocked e) | None \<Rightarrow> []);
          st1 = st\<lparr>iv_contentRev := (if contentChanged then (iv_contentRev st)(p := iv_contentRev st p + 1) else iv_contentRev st),
                   iv_attentionRev := (if attentionChanged then (iv_attentionRev st)(p := iv_attentionRev st p + 1) else iv_attentionRev st),
                   iv_revision := (iv_revision st)(p := iv_revCounter st),
                   iv_agents := fmupd p cp (iv_agents st),
                   iv_prevStatus := (iv_prevStatus st)(p := ag_Status cp)\<rparr>;
          st2 = registerTransition p prev (ag_Status cp) previousAttention st1;
          st3 = (if existing = None \<and> (doneStatuses (ag_Status cp) \<or> ag_Status cp = ''idle'')
                 then if ag_LastActiveAt cp > ag_LastSeenAt cp
                      then st2\<lparr>iv_unseenDone := (iv_unseenDone st2)(p := True), iv_ackDone := (iv_ackDone st2)(p := False)\<rparr>
                      else if doneStatuses (ag_Status cp) \<and> (ag_LastActiveAt cp > 0 \<or> ag_LastSeenAt cp > 0)
                      then st2\<lparr>iv_ackDone := (iv_ackDone st2)(p := True)\<rparr>
                      else st2
                 else st2);
          (st4, dirty) = syncTriageLocked sha cp st3;
          st5 = (if \<not> preservesChatCompletion prev (ag_Status cp) previousAttention
                 then syncAttentionCompletionLocked p previousAttention (bd_AttentionKind (ag_blocked cp)) st4 else st4);
          st6 = (if prev = ''blocked'' \<and> ag_Status cp = ''blocked'' \<and>
                    (previousAttention \<noteq> bd_AttentionKind (ag_blocked cp) \<or>
                     attentionChanged \<and> bd_AttentionKind (ag_blocked cp) = AttentionApproval)
                 then call_transition p (ag_Status cp) st5 else st5)
      in (st6, dirty))"

definition commit_agent :: "commit_env \<Rightarrow> (string \<Rightarrow> string) \<Rightarrow> int \<Rightarrow> bool \<Rightarrow> AgentState \<Rightarrow> State \<times> bool \<Rightarrow> State \<times> bool" where
  "commit_agent env sha baseRev initialSnapshot incoming state =
     (case state of (st, triageDirty) \<Rightarrow>
      let p = ag_PaneID incoming;
          stored = fmlookup (iv_agents st) p;
          st1 = commit_session initialSnapshot incoming stored st;
          existing = (case stored of Some e \<Rightarrow> if paneSessionReplaced e incoming then None else Some e | None \<Rightarrow> None);
          cp = commit_status env sha baseRev initialSnapshot incoming existing st1;
          st2 = st1\<lparr>iv_pendingEvents := fmdrop p (iv_pendingEvents st1)\<rparr>;
          (st3, cp1) = applyBlockedCycleLocked (ce_random env p) (ce_nano env p) cp existing st2;
          (st4, dirty) = commit_store sha cp1 existing st3
      in (st4, dirty \<or> triageDirty))"

text \<open>A pane that is gone.\<close>

definition forget_pane :: "string \<Rightarrow> State \<Rightarrow> State" where
  "forget_pane p st =
     (bump_generation p st)\<lparr>iv_sessionDiscoveries := (iv_sessionDiscoveries st)(p := None), iv_agents := fmdrop p (iv_agents st),
       iv_revision := (iv_revision st)(p := 0), iv_contentRev := (iv_contentRev st)(p := 0), iv_attentionRev := (iv_attentionRev st)(p := 0),
       iv_prevStatus := (iv_prevStatus st)(p := []), iv_unseenDone := (iv_unseenDone st)(p := False), iv_ackDone := (iv_ackDone st)(p := False),
       iv_finishedNotif := (iv_finishedNotif st)(p := False), iv_completionRev := (iv_completionRev st)(p := 0),
       iv_customAnswers := (iv_customAnswers st)(p := fmempty)\<rparr>"

definition topology_changed :: "AgentState list \<Rightarrow> State \<Rightarrow> bool" where
  "topology_changed agents st \<longleftrightarrow> length agents \<noteq> fcard (fmdom (iv_agents st))
     \<or> (\<exists>a\<in>set agents. case fmlookup (iv_agents st) (ag_PaneID a) of None \<Rightarrow> True | Some e \<Rightarrow> paneSessionReplaced e a)"

definition commitInventoryLocked :: "commit_env \<Rightarrow> (string \<Rightarrow> string) \<Rightarrow> AgentState list \<Rightarrow> int \<Rightarrow> State \<Rightarrow> State" where
  "commitInventoryLocked env sha agents baseRev st =
     (let st1 = st\<lparr>iv_topologyGen := (if topology_changed agents st then iv_topologyGen st + 1 else iv_topologyGen st),
                   iv_revCounter := iv_revCounter st + 1, iv_inventoryReady := True, iv_inventoryErrorCode := [], iv_inventoryMessage := [],
                   iv_lastAttemptAt := Some (ce_start env), iv_lastSuccessAt := Some (ce_start env)\<rparr>;
          (st2, triageDirty) = fold (commit_agent env sha baseRev (\<not> iv_inventoryReady st)) agents (st1, False);
          gone = filter (\<lambda>p. p \<notin> ag_PaneID ` set agents) (sorted_list_of_fset (fmdom (iv_agents st2)));
          st3 = fold forget_pane gone st2;
          st4 = st3\<lparr>iv_pendingEvents := fm_drop_if (\<lambda>ev. \<not> ce_end env < pv_expiresAt ev) (iv_pendingEvents st3)\<rparr>;
          st5 = (if triageDirty then persistTriageLocked (ce_persist env) (ce_written env) st4 else st4)
      in if iv_onInventory st5 \<noteq> None then st5\<lparr>iv_pendingInventory := Some (snapshotLocked st5)\<rparr> else st5)"

text \<open>The observer of the inventory is called with the newest staged snapshot after the lock is released.\<close>

definition notifyInventory :: "State \<Rightarrow> State" where
  "notifyInventory st =
     (case (iv_onInventory st, iv_pendingInventory st) of
        (Some seen, Some agents) \<Rightarrow> st\<lparr>iv_onInventory := Some (seen @ [agents]), iv_pendingInventory := None\<rparr>
      | _ \<Rightarrow> st\<lparr>iv_pendingInventory := None\<rparr>)"

definition CommitInventory :: "commit_env \<Rightarrow> (string \<Rightarrow> string) \<Rightarrow> AgentState list \<Rightarrow> int \<Rightarrow> State \<Rightarrow> State" where
  "CommitInventory env sha agents baseRev st = notifyInventory (commitInventoryLocked env sha agents baseRev st)"

definition workspacesEqual :: "Workspace list \<Rightarrow> Workspace list \<Rightarrow> bool" where
  "workspacesEqual left right \<longleftrightarrow> left = right"

definition commitWorkspacesLocked :: "Workspace list \<Rightarrow> State \<Rightarrow> State \<times> bool" where
  "commitWorkspacesLocked workspaces st =
     (let previousCwd = (\<lambda>i. case find (\<lambda>w. ws_ID w = i) (rev (iv_workspaces st)) of Some w \<Rightarrow> ws_Cwd w | None \<Rightarrow> []);
          merged = map (\<lambda>w. if ws_Cwd w = [] then w\<lparr>ws_Cwd := previousCwd (ws_ID w)\<rparr> else w) workspaces
      in if workspacesEqual (iv_workspaces st) merged then (st, False) else (st\<lparr>iv_workspaces := merged\<rparr>, True))"

text \<open>The topology of an event keeps the status of panes it does not replace; a nil agent panics in the commit.\<close>

definition topology_agent :: "State \<Rightarrow> AgentState \<Rightarrow> AgentState" where
  "topology_agent st incoming =
     (case fmlookup (iv_agents st) (ag_PaneID incoming) of
        None \<Rightarrow> incoming
      | Some e \<Rightarrow>
          if paneSessionReplaced e incoming then incoming
          else let cp = incoming\<lparr>ag_Status := ag_Status e\<rparr>
               in if ag_Status e = ''blocked'' then copyBlockedDetails cp e else cp)"

definition commitTopologyLocked :: "commit_env \<Rightarrow> (string \<Rightarrow> string) \<Rightarrow> AgentState option list \<Rightarrow> int \<Rightarrow> State \<Rightarrow> State option" where
  "commitTopologyLocked env sha agents baseRev st =
     map_option (\<lambda>as. commitInventoryLocked env sha (map (topology_agent st) as) baseRev st) (all_some agents)"

definition CommitTopology ::
  "commit_env \<Rightarrow> (string \<Rightarrow> string) \<Rightarrow> AgentState option list \<Rightarrow> Workspace list \<Rightarrow> int \<Rightarrow> State \<Rightarrow> (State \<times> bool) option" where
  "CommitTopology env sha agents workspaces baseRev st =
     (case commitWorkspacesLocked workspaces st of
        (st1, changed) \<Rightarrow>
          let st2 = (if changed then st1\<lparr>iv_topologyGen := iv_topologyGen st1 + 1\<rparr> else st1)
          in map_option (\<lambda>st3. (notifyInventory st3, changed)) (commitTopologyLocked env sha agents baseRev st2))"

definition CommitPoll :: "commit_env \<Rightarrow> (string \<Rightarrow> string) \<Rightarrow> AgentState list \<Rightarrow> Workspace list \<Rightarrow> PollToken \<Rightarrow> State \<Rightarrow> State \<times> bool \<times> bool" where
  "CommitPoll env sha agents workspaces token st =
     (if iv_topologyGen st \<noteq> pt_TopologyGeneration token then (st\<lparr>iv_topologyRetries := iv_topologyRetries st + 1\<rparr>, False, False)
      else case commitWorkspacesLocked workspaces st of
             (st1, changed) \<Rightarrow> (notifyInventory (commitInventoryLocked env sha agents (pt_BaseRevision token) st1), changed, True))"

section \<open>Events and acknowledgements\<close>

text \<open>The event that expires first; the loop over the map is taken in the order of the keys, and an empty key never counts as a choice.\<close>

definition oldest_pending :: "(string, pendingEvent) fmap \<Rightarrow> string" where
  "oldest_pending m =
     fst (fold (\<lambda>(k, ev) (oldestID, oldest). if oldestID = [] \<or> pv_expiresAt ev < oldest then (k, pv_expiresAt ev) else (oldestID, oldest))
            (sorted_list_of_fmap m) ([], 0))"

text \<open>An event for a pane that is not known yet waits thirty seconds for it, at most 128 of them.\<close>

definition pend_event :: "time \<Rightarrow> string \<Rightarrow> pendingEvent \<Rightarrow> State \<Rightarrow> State" where
  "pend_event now p ev st =
     (let m = (if fcard (fmdom (iv_pendingEvents st)) \<ge> 128 then fmdrop (oldest_pending (iv_pendingEvents st)) (iv_pendingEvents st)
               else iv_pendingEvents st)
      in st\<lparr>iv_pendingEvents := fmupd p (ev\<lparr>pv_expiresAt := now + 30 * second\<rparr>) m\<rparr>)"

text \<open>The agent after an event.\<close>

definition event_agent :: "int \<Rightarrow> string \<Rightarrow> int \<Rightarrow> AgentState \<Rightarrow> AgentState" where
  "event_agent millis status updatedAt a =
     (let a1 = a\<lparr>ag_Status := status, ag_UpdatedAt := updatedAt\<rparr>
      in if updatedAt > ag_LastActiveAt a1 then a1\<lparr>ag_LastActiveAt := updatedAt\<rparr>
         else if updatedAt \<le> 0 then a1\<lparr>ag_LastActiveAt := millis\<rparr> else a1)"

definition event_details :: "bytes option \<Rightarrow> nat \<Rightarrow> string \<Rightarrow> string \<Rightarrow> AgentState \<Rightarrow> State \<Rightarrow> State \<times> AgentState" where
  "event_details random nano prev status a st =
     (if status = ''blocked''
      then if prev \<noteq> ''blocked'' \<or> bd_EventID (ag_blocked a) = []
           then (case newBlockedEventIDLocked random nano st of
                   (st', event) \<Rightarrow> (st', a\<lparr>ag_blocked := no_details\<lparr>bd_EventID := event, bd_AttentionKind := AttentionUnknown\<rparr>\<rparr>))
           else (st, a)
      else (st, clearBlockedDetails a))"

definition commit_event :: "commit_env \<Rightarrow> (string \<Rightarrow> string) \<Rightarrow> string \<Rightarrow> string \<Rightarrow> int \<Rightarrow> AgentState \<Rightarrow> State \<Rightarrow> State" where
  "commit_event env sha p status updatedAt agent st =
     (let st1 = st\<lparr>iv_revCounter := iv_revCounter st + 1, iv_revision := (iv_revision st)(p := iv_revCounter st + 1)\<rparr>;
          prev = ag_Status agent;
          previousAttention = bd_AttentionKind (ag_blocked agent);
          a1 = event_agent (ce_millis env p) status updatedAt agent;
          st2 = (if prev \<noteq> status then st1\<lparr>iv_contentRev := (iv_contentRev st1)(p := iv_contentRev st1 p + 1)\<rparr> else st1);
          (st3, a2) = event_details (ce_random env p) (ce_nano env p) prev status a1 st2;
          st4 = (if \<not> blockedDetailsEqual (Some (ag_blocked agent)) (Some (ag_blocked a2))
                 then st3\<lparr>iv_attentionRev := (iv_attentionRev st3)(p := iv_attentionRev st3 p + 1)\<rparr> else st3);
          st5 = st4\<lparr>iv_agents := fmupd p a2 (iv_agents st4), iv_prevStatus := (iv_prevStatus st4)(p := status)\<rparr>;
          st6 = registerTransition p prev status previousAttention st5;
          st7 = (if \<not> preservesChatCompletion prev status previousAttention
                 then syncAttentionCompletionLocked p previousAttention (bd_AttentionKind (ag_blocked a2)) st6 else st6);
          (st8, dirty) = syncTriageLocked sha a2 st7
      in if dirty then persistTriageLocked (ce_persist env) (ce_written env) st8 else st8)"

definition CommitEventForSession ::
  "commit_env \<Rightarrow> (string \<Rightarrow> string) \<Rightarrow> string \<Rightarrow> string \<Rightarrow> string \<Rightarrow> string \<Rightarrow> int \<Rightarrow> State \<Rightarrow> State \<times> bool" where
  "CommitEventForSession env sha p tabID workspaceID status updatedAt st =
     (case fmlookup (iv_agents st) p of
        None \<Rightarrow> (pend_event (ce_start env) p \<lparr>pv_tabID = tabID, pv_workspaceID = workspaceID, pv_status = status, pv_updatedAt = updatedAt,
                   pv_expiresAt = 0\<rparr> st, False)
      | Some agent \<Rightarrow>
          if \<not> eventIdentityMatches agent tabID workspaceID then (st, False)
          else (commit_event env sha p status updatedAt agent st, True))"

record Classification =
  cl_Kind :: string
  cl_Prompt :: string
  cl_Command :: string
  cl_Options :: "string list"
  cl_ApprovalFocus :: int
  cl_Interaction :: "Interaction option"
  cl_QuestionLayout :: bool
  cl_ApprovalIdentity :: string
  cl_approvalSource :: string

text \<open>
  The replacement of \<^verbatim>\<open>approvalFocusSourcePattern\<close>, line by line: the indentation with a focus
  marker that is followed by a blank, and the padding at the end.
\<close>

definition is_blank :: "char \<Rightarrow> bool" where
  "is_blank c \<longleftrightarrow> c = CHR '' '' \<or> c = CHR 0x09"

definition focus_markers :: "string list" where
  "focus_markers = [[CHR 0xE2, CHR 0x9D, CHR 0xAF], [CHR 0xE2, CHR 0x80, CHR 0xBA], ''>'', [CHR 0xEF, CHR 0x81, CHR 0x94]]"

definition stable_line :: "string \<Rightarrow> string" where
  "stable_line line =
     (let s = dropWhile is_blank line;
          marked = find (\<lambda>mark. take (length mark) s = mark \<and> (case drop (length mark) s of c # _ \<Rightarrow> is_blank c | [] \<Rightarrow> False)) focus_markers;
          rest = (case marked of Some mark \<Rightarrow> dropWhile is_blank (drop (length mark) s) | None \<Rightarrow> s)
      in rev (dropWhile is_blank (rev rest)))"

fun on_lines :: "(string \<Rightarrow> string) \<Rightarrow> string \<Rightarrow> string \<Rightarrow> string" where
  "on_lines f line [] = f (rev line)"
| "on_lines f line (c # cs) = (if c = CHR 0x0A then f (rev line) @ c # on_lines f [] cs else on_lines f (c # line) cs)"

definition stableApprovalSource :: "string \<Rightarrow> string" where
  "stableApprovalSource source = on_lines stable_line [] source"

text \<open>
  The fingerprint of an approval; \<open>digest\<close> stands for the SHA-256 of the encoded source, prompt,
  command and options.
\<close>

definition ApprovalFingerprint :: "(string \<Rightarrow> string \<Rightarrow> string \<Rightarrow> string list \<Rightarrow> string) \<Rightarrow> Classification \<Rightarrow> string" where
  "ApprovalFingerprint digest c =
     (if cl_Kind c \<noteq> AttentionApproval \<or> length (cl_Options c) < 2 then []
      else if cl_ApprovalIdentity c \<noteq> [] then cl_ApprovalIdentity c
      else digest (stableApprovalSource (cl_approvalSource c)) (cl_Prompt c) (cl_Command c) (cl_Options c))"

definition applyAttentionClassification :: "(string \<Rightarrow> string \<Rightarrow> string \<Rightarrow> string list \<Rightarrow> string) \<Rightarrow> Classification \<Rightarrow> AgentState \<Rightarrow> AgentState \<times> bool" where
  "applyAttentionClassification digest c agent =
     (let approval = (cl_Kind c = AttentionApproval);
          question = (cl_Kind c = AttentionQuestion);
          nextInteraction = (if question then cl_Interaction c else None);
          d = \<lparr>bd_EventID = bd_EventID (ag_blocked agent), bd_AttentionKind = cl_Kind c, bd_Prompt = cl_Prompt c, bd_Command = cl_Command c,
               bd_Options = (if approval then cl_Options c else []), bd_ApprovalFingerprint = (if approval then ApprovalFingerprint digest c else []),
               bd_Interaction = nextInteraction, bd_QuestionLayout = (question \<and> cl_QuestionLayout c),
               bd_InteractionID = (case nextInteraction of Some i \<Rightarrow> in_ID i | None \<Rightarrow> [])\<rparr>
      in (agent\<lparr>ag_blocked := d\<rparr>, \<not> blockedDetailsEqual (Some (ag_blocked agent)) (Some d)))"

definition CommitAttentionClassification ::
  "(string \<Rightarrow> string \<Rightarrow> string \<Rightarrow> string list \<Rightarrow> string) \<Rightarrow> string \<Rightarrow> string \<Rightarrow> u64 \<Rightarrow> int \<Rightarrow> Classification \<Rightarrow> State \<Rightarrow> State \<times> AgentState option" where
  "CommitAttentionClassification digest p eventID generation contentRevision c0 st =
     (case fmlookup (iv_agents st) p of
        None \<Rightarrow> (st, None)
      | Some agent \<Rightarrow>
          if ag_Status agent \<noteq> ''blocked'' \<or> bd_EventID (ag_blocked agent) \<noteq> eventID \<or> word_of_int (generation_of st p) \<noteq> generation
             \<or> iv_contentRev st p \<noteq> contentRevision
          then (st, None)
          else
            let c = (if cl_Kind c0 = [] then c0\<lparr>cl_Kind := AttentionUnknown\<rparr> else c0);
                (agent', changed) = applyAttentionClassification digest c agent;
                st1 = st\<lparr>iv_agents := fmupd p agent' (iv_agents st)\<rparr>;
                st2 = (if changed
                       then syncAttentionCompletionLocked p (bd_AttentionKind (ag_blocked agent)) (bd_AttentionKind (ag_blocked agent'))
                              (st1\<lparr>iv_revCounter := iv_revCounter st1 + 1, iv_revision := (iv_revision st1)(p := iv_revCounter st1 + 1),
                                   iv_contentRev := (iv_contentRev st1)(p := iv_contentRev st1 p + 1),
                                   iv_attentionRev := (iv_attentionRev st1)(p := iv_attentionRev st1 p + 1)\<rparr>)
                       else st1)
            in (st2, Some (agent'\<lparr>ag_StateRevision := iv_revision st2 p\<rparr>)))"

definition AcknowledgePane :: "commit_env \<Rightarrow> (string \<Rightarrow> string) \<Rightarrow> string \<Rightarrow> State \<Rightarrow> State \<times> bool" where
  "AcknowledgePane env sha p st =
     (case fmlookup (iv_agents st) p of
        None \<Rightarrow> (st, False)
      | Some agent \<Rightarrow>
          let a = agent\<lparr>ag_LastSeenAt := maxInt64 (ce_millis env p) (ag_LastActiveAt agent)\<rparr>;
              st1 = st\<lparr>iv_agents := fmupd p a (iv_agents st)\<rparr>;
              st2 = (if iv_unseenDone st1 p \<or> doneStatuses (ag_Status a)
                     then st1\<lparr>iv_unseenDone := (iv_unseenDone st1)(p := False), iv_ackDone := (iv_ackDone st1)(p := True)\<rparr> else st1);
              (st3, dirty) = syncTriageLocked sha a st2
          in (if dirty then persistTriageLocked (ce_persist env) (ce_written env) st3 else st3, True))"

definition RegisterFinishedNotification :: "string \<Rightarrow> State \<Rightarrow> State \<times> bool" where
  "RegisterFinishedNotification p st =
     (if iv_finishedNotif st p then (st, False) else (st\<lparr>iv_finishedNotif := (iv_finishedNotif st)(p := True)\<rparr>, True))"

definition RegisterFinishedNotificationForTransition :: "string \<Rightarrow> int \<Rightarrow> State \<Rightarrow> State \<times> bool" where
  "RegisterFinishedNotificationForTransition p revision st =
     (case fmlookup (iv_agents st) p of
        None \<Rightarrow> (st, False)
      | Some a \<Rightarrow>
          if attentionStatuses (ag_Status a) \<and> \<not> (ag_Status a = ''blocked'' \<and> bd_AttentionKind (ag_blocked a) = AttentionChat)
             \<or> iv_completionRev st p \<noteq> revision \<or> iv_finishedNotif st p
          then (st, False)
          else (st\<lparr>iv_finishedNotif := (iv_finishedNotif st)(p := True)\<rparr>, True))"

text \<open>\<open>summaryKey\<close> normalises a question: trimmed, compacted and in lower case.\<close>

definition RecordCustomAnswer :: "(string \<Rightarrow> string) \<Rightarrow> string \<Rightarrow> string \<Rightarrow> string \<Rightarrow> State \<Rightarrow> State" where
  "RecordCustomAnswer summaryKey p questionText text0 st =
     (let key = summaryKey questionText; txt = TrimSpace text0; answers = iv_customAnswers st p in
      if p = [] \<or> key = [] \<or> txt = [] then st
      else if fmlookup answers key = None \<and> fcard (fmdom answers) \<ge> 32 then st
      else st\<lparr>iv_customAnswers := (iv_customAnswers st)(p := fmupd key txt answers)\<rparr>)"

definition CustomAnswers :: "State \<Rightarrow> string \<Rightarrow> (string, string) fmap option" where
  "CustomAnswers st p = (if fmdom (iv_customAnswers st p) = {||} then None else Some (iv_customAnswers st p))"

definition SetOnTransition :: "bool \<Rightarrow> State \<Rightarrow> State" where
  "SetOnTransition fn st = st\<lparr>iv_onTransition := (if fn then Some [] else None)\<rparr>"

definition CommitWorkspaces :: "Workspace list \<Rightarrow> State \<Rightarrow> State \<times> bool" where
  "CommitWorkspaces workspaces st = commitWorkspacesLocked workspaces st"

definition Workspace_of :: "State \<Rightarrow> string \<Rightarrow> Workspace option" where
  "Workspace_of st i = find (\<lambda>w. ws_ID w = i) (iv_workspaces st)"

definition LastUpdatedAt :: "State \<Rightarrow> int" where
  "LastUpdatedAt st = fold (\<lambda>a latest. if ag_UpdatedAt a > latest then ag_UpdatedAt a else latest) (fm_values (iv_agents st)) 0"

datatype inventory_failure = NoFailure | ServerNotRunning | CommandFailed

definition MarkInventoryFailure :: "time \<Rightarrow> inventory_failure \<Rightarrow> State \<Rightarrow> State" where
  "MarkInventoryFailure now err st0 =
     (let st = st0\<lparr>iv_lastAttemptAt := Some now, iv_inventoryReady := False\<rparr> in
      case err of
        NoFailure \<Rightarrow> st\<lparr>iv_inventoryErrorCode := [], iv_inventoryMessage := []\<rparr>
      | ServerNotRunning \<Rightarrow> st\<lparr>iv_inventoryErrorCode := ''server_not_running'',
          iv_inventoryMessage := ''Herdr is not running on this computer. Start it with `herdr`.''\<rparr>
      | CommandFailed \<Rightarrow> st\<lparr>iv_inventoryErrorCode := ''command_failed'',
          iv_inventoryMessage := ''Unable to read the current Herdr agent inventory.''\<rparr>)"

definition MarkTopologyDegraded :: "time \<Rightarrow> State \<Rightarrow> State" where
  "MarkTopologyDegraded now st = st\<lparr>iv_lastAttemptAt := Some now, iv_inventoryReady := False, iv_inventoryErrorCode := ''topology_churn'',
     iv_inventoryMessage := ''Agent inventory is changing too quickly to produce a stable snapshot.''\<rparr>"

definition MarkTopologyChanged :: "State \<Rightarrow> State" where
  "MarkTopologyChanged st = st\<lparr>iv_topologyGen := iv_topologyGen st + 1\<rparr>"

section \<open>Launches\<close>

record LaunchIdentity =
  li_Generation :: u64
  li_TerminalID :: string
  li_SessionID :: string
  li_Valid :: bool

record launchSnapshot =
  ls_generations :: "(string, u64) fmap"
  ls_terminals :: "(string, string) fmap"

definition beginLaunch :: "State \<Rightarrow> launchSnapshot" where
  "beginLaunch st = \<lparr>ls_generations = PaneGenerations st, ls_terminals = fmmap ag_TerminalID (iv_agents st)\<rparr>"

definition launchIdentityCurrent :: "State \<Rightarrow> string \<Rightarrow> LaunchIdentity \<Rightarrow> bool" where
  "launchIdentityCurrent st p li \<longleftrightarrow> li_Valid li \<and> word_of_int (generation_of st p) = li_Generation li
     \<and> (case fmlookup (iv_agents st) p of Some a \<Rightarrow> \<not> (li_TerminalID li \<noteq> [] \<and> ag_TerminalID a \<noteq> li_TerminalID li) | None \<Rightarrow> True)"

definition finishLaunch :: "State \<Rightarrow> launchSnapshot \<Rightarrow> string \<Rightarrow> LaunchIdentity" where
  "finishLaunch st snapshot p =
     (let baseline = (case fmlookup (ls_generations snapshot) p of Some g \<Rightarrow> g | None \<Rightarrow> 0);
          generation = word_of_int (generation_of st p);
          agent = fmlookup (iv_agents st) p;
          identity = (case agent of
            Some a \<Rightarrow> \<lparr>li_Generation = baseline, li_TerminalID = ag_TerminalID a, li_SessionID = ag_SessionID a, li_Valid = False\<rparr>
          | None \<Rightarrow> \<lparr>li_Generation = baseline, li_TerminalID = [], li_SessionID = [], li_Valid = False\<rparr>)
      in if generation = baseline then identity\<lparr>li_Valid := True\<rparr>
         else case (iv_sessionDiscoveries st p, agent) of
                (Some d, Some a) \<Rightarrow>
                  if sd_generation d \<noteq> baseline \<or> generation \<noteq> baseline + 1 \<or> sd_terminalID d \<noteq> ag_TerminalID a \<or> sd_sessionID d \<noteq> ag_SessionID a
                  then identity
                  else (case fmlookup (ls_terminals snapshot) p of
                          Some t \<Rightarrow> if t \<noteq> sd_terminalID d then identity else identity\<lparr>li_Generation := generation, li_Valid := True\<rparr>
                        | None \<Rightarrow> identity\<lparr>li_Generation := generation, li_Valid := True\<rparr>)
              | _ \<Rightarrow> identity)"

end
