(* ===== verification/InventorySafety.thy ===== *)
theory InventorySafety
  imports Inventory
begin

text \<open>
  Correctness of the agent inventory: what every operation keeps of the state, which poll or event
  decides a status, how generations fence the sessions of a pane, and that a completion is
  announced once.
\<close>

section \<open>One pane at a time\<close>

text \<open>An operation on one pane leaves the others alone.\<close>

definition only_pane :: "string \<Rightarrow> State \<Rightarrow> State \<Rightarrow> bool" where
  "only_pane p st st' \<longleftrightarrow> (\<forall>q. q \<noteq> p \<longrightarrow> fmlookup (iv_agents st') q = fmlookup (iv_agents st) q \<and> iv_prevStatus st' q = iv_prevStatus st q
      \<and> iv_unseenDone st' q = iv_unseenDone st q \<and> iv_ackDone st' q = iv_ackDone st q \<and> iv_finishedNotif st' q = iv_finishedNotif st q
      \<and> iv_completionRev st' q = iv_completionRev st q \<and> iv_revision st' q = iv_revision st q \<and> generation_of st' q = generation_of st q
      \<and> fmlookup (iv_pendingEvents st') q = fmlookup (iv_pendingEvents st) q)"

lemma only_pane_refl [simp]: "only_pane p st st"
  by (simp add: only_pane_def)

lemma only_pane_trans: "only_pane p st st' \<Longrightarrow> only_pane p st' st'' \<Longrightarrow> only_pane p st st''"
  by (simp add: only_pane_def)

definition details_ok :: "AgentState \<Rightarrow> bool" where
  "details_ok a \<longleftrightarrow> (if ag_Status a = ''blocked'' then bd_EventID (ag_blocked a) \<noteq> [] \<and> bd_AttentionKind (ag_blocked a) \<noteq> []
     else ag_blocked a = no_details)"

definition pane_inv :: "State \<Rightarrow> string \<Rightarrow> bool" where
  "pane_inv st p \<longleftrightarrow>
     (case fmlookup (iv_agents st) p of
        Some a \<Rightarrow> ag_PaneID a = p \<and> details_ok a \<and> iv_prevStatus st p = ag_Status a \<and> fmlookup (iv_pendingEvents st) p = None
      | None \<Rightarrow> iv_prevStatus st p = [] \<and> \<not> iv_unseenDone st p \<and> \<not> iv_ackDone st p \<and> iv_completionRev st p = 0)
     \<and> \<not> (iv_unseenDone st p \<and> iv_ackDone st p) \<and> iv_revision st p \<le> iv_revCounter st \<and> iv_completionRev st p \<le> iv_revCounter st"

definition inventory_ok :: "State \<Rightarrow> bool" where
  "inventory_ok st \<longleftrightarrow> (\<forall>p. pane_inv st p) \<and> fcard (fmdom (iv_pendingEvents st)) \<le> 128 \<and> 0 \<le> iv_revCounter st"

lemma only_pane_inv: "only_pane p st st' \<Longrightarrow> iv_revCounter st \<le> iv_revCounter st' \<Longrightarrow> q \<noteq> p \<Longrightarrow> pane_inv st q \<Longrightarrow> pane_inv st' q"
  by (auto simp: only_pane_def pane_inv_def cong: option.case_cong)

section \<open>What the helpers keep\<close>

text \<open>Fields that say nothing about the cycle of a pane.\<close>

definition same_panes :: "State \<Rightarrow> State \<Rightarrow> bool" where
  "same_panes st st' \<longleftrightarrow> iv_agents st' = iv_agents st \<and> iv_prevStatus st' = iv_prevStatus st \<and> iv_unseenDone st' = iv_unseenDone st
     \<and> iv_ackDone st' = iv_ackDone st \<and> iv_finishedNotif st' = iv_finishedNotif st \<and> iv_completionRev st' = iv_completionRev st
     \<and> iv_revision st' = iv_revision st \<and> iv_generation st' = iv_generation st \<and> iv_pendingEvents st' = iv_pendingEvents st
     \<and> iv_revCounter st' = iv_revCounter st"

lemma same_panes_refl [simp]: "same_panes st st"
  by (simp add: same_panes_def)

lemma same_panes_trans: "same_panes a b \<Longrightarrow> same_panes b c \<Longrightarrow> same_panes a c"
  by (simp add: same_panes_def)

lemma same_panes_only: "same_panes st st' \<Longrightarrow> only_pane p st st'"
  by (simp add: same_panes_def only_pane_def generation_of_def)

lemma same_panes_inv: "same_panes st st' \<Longrightarrow> pane_inv st' p = pane_inv st p"
  by (simp add: same_panes_def pane_inv_def cong: option.case_cong)

lemma same_panes_ok: "same_panes st st' \<Longrightarrow> inventory_ok st' = inventory_ok st"
  by (simp add: inventory_ok_def same_panes_inv) (simp add: same_panes_def)

lemma call_transition_same: "same_panes st (call_transition p status st)"
  by (simp add: same_panes_def call_transition_def split: prod.split)

lemma prune_triage_same: "same_panes st (pruneTriageLocked cutoff st)"
  by (simp add: same_panes_def pruneTriageLocked_def Let_def)

lemma persist_same: "same_panes st (persistTriageLocked now written st)"
  using prune_triage_same [of st "now - triageStateMaxAge"] by (simp add: same_panes_def persistTriageLocked_def Let_def)

lemma sync_triage_same: "same_panes st (fst (syncTriageLocked sha a st))"
  by (simp add: same_panes_def syncTriageLocked_def Let_def)

lemma event_id_same: "same_panes st (fst (newBlockedEventIDLocked r n st))"
  by (simp add: same_panes_def newBlockedEventIDLocked_def Let_def split: option.split)

lemma notify_same: "same_panes st (notifyInventory st)"
  by (simp add: same_panes_def notifyInventory_def split: option.split prod.split)

lemma workspaces_same: "same_panes st (fst (commitWorkspacesLocked ws st))"
  by (simp add: same_panes_def commitWorkspacesLocked_def Let_def)

text \<open>
  A step of the cycle of one pane: only its marks change, it never becomes both seen and unseen, and
  its completion stays announced, ends, or is the one of the pane's revision.
\<close>

definition cycle_step :: "string \<Rightarrow> State \<Rightarrow> State \<Rightarrow> bool" where
  "cycle_step p st st' \<longleftrightarrow> iv_agents st' = iv_agents st \<and> iv_prevStatus st' = iv_prevStatus st \<and> iv_revision st' = iv_revision st
     \<and> iv_generation st' = iv_generation st \<and> iv_pendingEvents st' = iv_pendingEvents st \<and> iv_revCounter st' = iv_revCounter st
     \<and> (\<forall>q. q \<noteq> p \<longrightarrow> iv_unseenDone st' q = iv_unseenDone st q \<and> iv_ackDone st' q = iv_ackDone st q
          \<and> iv_finishedNotif st' q = iv_finishedNotif st q \<and> iv_completionRev st' q = iv_completionRev st q)
     \<and> (\<not> (iv_unseenDone st p \<and> iv_ackDone st p) \<longrightarrow> \<not> (iv_unseenDone st' p \<and> iv_ackDone st' p))
     \<and> (iv_completionRev st' p = iv_completionRev st p \<and> (iv_finishedNotif st p \<longrightarrow> iv_finishedNotif st' p)
        \<or> iv_completionRev st' p \<in> {0, iv_revision st p})"

lemma cycle_refl [simp]: "cycle_step p st st"
  by (simp add: cycle_step_def)

lemma cycle_trans: "cycle_step p a b \<Longrightarrow> cycle_step p b c \<Longrightarrow> cycle_step p a c"
  by (auto simp: cycle_step_def)

lemma cycle_same: "same_panes st st' \<Longrightarrow> cycle_step p st st'"
  by (simp add: same_panes_def cycle_step_def)

lemma cycle_complete: "cycle_step p st (complete_pane p status st)"
  by (simp add: cycle_step_def complete_pane_def call_transition_def split: prod.split)

lemma cycle_register: "cycle_step p st (registerTransition p prev status attention st)"
proof -
  let ?st1 = "st\<lparr>iv_unseenDone := (iv_unseenDone st)(p := False), iv_ackDone := (iv_ackDone st)(p := False),
                     iv_finishedNotif := (iv_finishedNotif st)(p := False), iv_completionRev := (iv_completionRev st)(p := 0)\<rparr>"
  have 1: "cycle_step p st ?st1" by (simp add: cycle_step_def)
  have call: "cycle_step p st (call_transition p s st')" if "cycle_step p st st'" for s st'
    by (rule cycle_trans [OF that cycle_same [OF call_transition_same]])
  show ?thesis
    by (simp add: registerTransition_def Let_def call 1 cycle_complete)
qed

lemma cycle_sync: "cycle_step p st (syncAttentionCompletionLocked p previous current st)"
  by (simp add: cycle_step_def syncAttentionCompletionLocked_def)

lemma cycle_only: "cycle_step p st st' \<Longrightarrow> only_pane p st st'"
  by (simp add: cycle_step_def only_pane_def generation_of_def)

lemma cycle_fields: "cycle_step p st st' \<Longrightarrow> iv_agents st' = iv_agents st" "cycle_step p st st' \<Longrightarrow> iv_revCounter st' = iv_revCounter st"
    "cycle_step p st st' \<Longrightarrow> iv_prevStatus st' = iv_prevStatus st" "cycle_step p st st' \<Longrightarrow> iv_revision st' = iv_revision st"
    "cycle_step p st st' \<Longrightarrow> iv_generation st' = iv_generation st" "cycle_step p st st' \<Longrightarrow> iv_pendingEvents st' = iv_pendingEvents st"
  by (simp_all add: cycle_step_def)

text \<open>What a stored pane needs after its cycle.\<close>

lemma cycle_pane_inv:
  assumes c: "cycle_step p st st'" and a: "fmlookup (iv_agents st) p = Some a" "ag_PaneID a = p" "details_ok a" "iv_prevStatus st p = ag_Status a"
    and "fmlookup (iv_pendingEvents st) p = None" "\<not> (iv_unseenDone st p \<and> iv_ackDone st p)" "iv_revision st p \<le> iv_revCounter st"
      "iv_completionRev st p \<le> iv_revCounter st" "0 \<le> iv_revCounter st"
  shows "pane_inv st' p"
  using assms unfolding cycle_step_def pane_inv_def by auto

section \<open>Blocked details\<close>

definition env_ok :: "commit_env \<Rightarrow> bool" where
  "env_ok env \<longleftrightarrow> (\<forall>p v. ce_random env p = Some v \<longrightarrow> length v = 12)"

lemma event_id_ne: "env_ok env \<Longrightarrow> snd (newBlockedEventIDLocked (ce_random env p) n st) \<noteq> []"
proof (cases "ce_random env p")
  case (Some v)
  assume "env_ok env"
  then have "length (b64_encode v) = 16" using Some by (simp add: env_ok_def)
  then have "b64_encode v \<noteq> []" by fastforce
  then show ?thesis by (simp add: newBlockedEventIDLocked_def Some)
qed (simp add: newBlockedEventIDLocked_def Let_def)

lemma blocked_cycle_facts:
  assumes "applyBlockedCycleLocked (ce_random env q) n agent existing st = (st', agent')" and "env_ok env"
    and "\<And>e. existing = Some e \<Longrightarrow> details_ok e"
  shows "same_panes st st' \<and> details_ok agent' \<and> ag_PaneID agent' = ag_PaneID agent \<and> ag_Status agent' = ag_Status agent
    \<and> ag_SessionID agent' = ag_SessionID agent \<and> ag_TerminalID agent' = ag_TerminalID agent"
proof -
  obtain st1 event where e: "newBlockedEventIDLocked (ce_random env q) n st = (st1, event)" by fastforce
  have "same_panes st st1" "event \<noteq> []" using event_id_same [of st "ce_random env q" n] event_id_ne [OF assms(2), of q n st] by (simp_all add: e)
  then show ?thesis using assms(1,3)
    by (auto simp: applyBlockedCycleLocked_def Let_def e details_ok_def clearBlockedDetails_def AttentionUnknown_def
        split: if_splits option.splits)
qed

section \<open>One agent of an inventory\<close>

lemma generation_bump [simp]: "generation_of (bump_generation p st) q = (if q = p then generation_of st p + 1 else generation_of st q)"
  by (simp add: generation_of_def bump_generation_def)

lemma bump_fields [simp]: "iv_agents (bump_generation p st) = iv_agents st" "iv_prevStatus (bump_generation p st) = iv_prevStatus st"
    "iv_unseenDone (bump_generation p st) = iv_unseenDone st" "iv_ackDone (bump_generation p st) = iv_ackDone st"
    "iv_finishedNotif (bump_generation p st) = iv_finishedNotif st" "iv_completionRev (bump_generation p st) = iv_completionRev st"
    "iv_revision (bump_generation p st) = iv_revision st" "iv_pendingEvents (bump_generation p st) = iv_pendingEvents st"
    "iv_revCounter (bump_generation p st) = iv_revCounter st"
  by (simp_all add: bump_generation_def)

lemma generation_frame: "iv_generation st' = iv_generation st \<Longrightarrow> generation_of st' q = generation_of st q"
  by (simp add: generation_of_def)

definition kept_agent :: "AgentState \<Rightarrow> AgentState option \<Rightarrow> AgentState option" where
  "kept_agent incoming stored = (case stored of Some e \<Rightarrow> if paneSessionReplaced e incoming then None else Some e | None \<Rightarrow> None)"

text \<open>Whether the generation of the pane goes up.\<close>

definition session_ends :: "bool \<Rightarrow> AgentState \<Rightarrow> AgentState option \<Rightarrow> State \<Rightarrow> bool" where
  "session_ends initial incoming stored st \<longleftrightarrow>
     (case stored of
        Some e \<Rightarrow> paneSessionReplaced e incoming \<or> ag_SessionID e \<noteq> ag_SessionID incoming
      | None \<Rightarrow> \<not> initial \<and> generation_of st (ag_PaneID incoming) > 0)"

lemma commit_session_facts:
  assumes st': "st' = commit_session initial incoming (fmlookup (iv_agents st) p) st" and p: "ag_PaneID incoming = p" and inv: "pane_inv st p"
  shows "only_pane p st st' \<and> iv_agents st' = iv_agents st \<and> iv_revCounter st' = iv_revCounter st \<and> iv_revision st' = iv_revision st
    \<and> iv_pendingEvents st' = iv_pendingEvents st
    \<and> generation_of st' p = generation_of st p + (if session_ends initial incoming (fmlookup (iv_agents st) p) st then 1 else 0)
    \<and> \<not> (iv_unseenDone st' p \<and> iv_ackDone st' p) \<and> (iv_completionRev st' p = iv_completionRev st p \<and> iv_finishedNotif st' p = iv_finishedNotif st p \<or> iv_completionRev st' p = 0)
    \<and> (case kept_agent incoming (fmlookup (iv_agents st) p) of
         Some e \<Rightarrow> fmlookup (iv_agents st) p = Some e \<and> iv_prevStatus st' p = ag_Status e \<and> details_ok e
       | None \<Rightarrow> iv_prevStatus st' p = [] \<and> \<not> iv_unseenDone st' p \<and> \<not> iv_ackDone st' p \<and> iv_completionRev st' p = 0)"
proof (cases "fmlookup (iv_agents st) p")
  case None
  then show ?thesis using inv p unfolding st'
    by (auto simp: commit_session_def session_ends_def kept_agent_def only_pane_def pane_inv_def)
next
  case (Some e)
  have gen: "generation_of (st0\<lparr>iv_sessionDiscoveries := d, iv_prevStatus := a, iv_unseenDone := b, iv_ackDone := c, iv_finishedNotif := f, iv_completionRev := g\<rparr>) q
      = generation_of st0 q" "generation_of (st0\<lparr>iv_sessionDiscoveries := d\<rparr>) q = generation_of st0 q" for st0 a b c d f g q
    by (simp_all add: generation_of_def)
  show ?thesis using Some inv p unfolding st'
    by (simp add: commit_session_def session_ends_def kept_agent_def only_pane_def pane_inv_def Let_def gen)
qed

text \<open>Time stamps leave the rest of an agent alone.\<close>

definition agent_like :: "AgentState \<Rightarrow> AgentState \<Rightarrow> bool" where
  "agent_like a b \<longleftrightarrow> ag_PaneID a = ag_PaneID b \<and> ag_Status a = ag_Status b \<and> ag_SessionID a = ag_SessionID b \<and> ag_TerminalID a = ag_TerminalID b
     \<and> ag_blocked a = ag_blocked b \<and> ag_RawPaneID a = ag_RawPaneID b \<and> ag_TabID a = ag_TabID b \<and> ag_WorkspaceID a = ag_WorkspaceID b
     \<and> ag_ConversationProcess a = ag_ConversationProcess b \<and> ag_ConversationSource a = ag_ConversationSource b"

lemma agent_like_refl [simp]: "agent_like a a"
  by (simp add: agent_like_def)

lemma agent_like_trans: "agent_like a b \<Longrightarrow> agent_like b c \<Longrightarrow> agent_like a c"
  by (simp add: agent_like_def)

lemma stamps_like: "agent_like (carry_times sha existing st a) a" "agent_like (stamp_updated m i pending existing a) a"
    "agent_like (stamp_active pending existing a) a"
  by (auto simp: agent_like_def carry_times_def applyTriageLocked_def stamp_updated_def stamp_active_def split: option.split)

text \<open>The identity of an agent without its status and details.\<close>

definition same_session :: "AgentState \<Rightarrow> AgentState \<Rightarrow> bool" where
  "same_session a b \<longleftrightarrow> ag_PaneID a = ag_PaneID b \<and> ag_SessionID a = ag_SessionID b \<and> ag_TerminalID a = ag_TerminalID b
     \<and> ag_RawPaneID a = ag_RawPaneID b \<and> ag_TabID a = ag_TabID b \<and> ag_WorkspaceID a = ag_WorkspaceID b
     \<and> ag_ConversationProcess a = ag_ConversationProcess b \<and> ag_ConversationSource a = ag_ConversationSource b"

lemma like_session: "agent_like a b \<Longrightarrow> same_session a b"
  by (simp add: agent_like_def same_session_def)

lemma same_session_trans: "same_session a b \<Longrightarrow> same_session b c \<Longrightarrow> same_session a c"
  by (simp add: same_session_def)

lemma carry_session: "same_session (carry_status baseRev existing st a) a" "same_session (apply_waiting pending a) a"
  by (auto simp: same_session_def carry_status_def copyBlockedDetails_def apply_waiting_def Let_def split: option.split)

lemma commit_status_session: "same_session (commit_status env sha baseRev initial incoming existing st) incoming"
  unfolding commit_status_def Let_def
  by (rule same_session_trans [OF like_session [OF stamps_like(3)]], rule same_session_trans [OF like_session [OF stamps_like(2)]],
      rule same_session_trans [OF carry_session(2)], rule same_session_trans [OF carry_session(1)], rule like_session [OF stamps_like(1)])

definition stored :: "AgentState \<Rightarrow> AgentState option \<Rightarrow> State \<Rightarrow> State" where
  "stored cp existing st =
     (let p = ag_PaneID cp;
          attentionChanged = (\<not> blockedDetailsEqual (map_option ag_blocked existing) (Some (ag_blocked cp)));
          contentChanged = (case existing of None \<Rightarrow> True
            | Some e \<Rightarrow> ag_Status e \<noteq> ag_Status cp \<or> ag_Name e \<noteq> ag_Name cp \<or> ag_Cwd e \<noteq> ag_Cwd cp \<or> ag_Agent e \<noteq> ag_Agent cp
                \<or> ag_ActivitySeq e \<noteq> ag_ActivitySeq cp \<or> attentionChanged)
      in st\<lparr>iv_contentRev := (if contentChanged then (iv_contentRev st)(p := iv_contentRev st p + 1) else iv_contentRev st),
            iv_attentionRev := (if attentionChanged then (iv_attentionRev st)(p := iv_attentionRev st p + 1) else iv_attentionRev st),
            iv_revision := (iv_revision st)(p := iv_revCounter st),
            iv_agents := fmupd p cp (iv_agents st),
            iv_prevStatus := (iv_prevStatus st)(p := ag_Status cp)\<rparr>)"

lemma stored_fields [simp]: "iv_agents (stored cp e st) = fmupd (ag_PaneID cp) cp (iv_agents st)"
    "iv_prevStatus (stored cp e st) = (iv_prevStatus st)(ag_PaneID cp := ag_Status cp)"
    "iv_revision (stored cp e st) = (iv_revision st)(ag_PaneID cp := iv_revCounter st)"
    "iv_unseenDone (stored cp e st) = iv_unseenDone st" "iv_ackDone (stored cp e st) = iv_ackDone st"
    "iv_finishedNotif (stored cp e st) = iv_finishedNotif st" "iv_completionRev (stored cp e st) = iv_completionRev st"
    "iv_generation (stored cp e st) = iv_generation st" "iv_pendingEvents (stored cp e st) = iv_pendingEvents st"
    "iv_revCounter (stored cp e st) = iv_revCounter st"
  by (simp_all add: stored_def Let_def)

lemma register_new: "\<not> iv_unseenDone st p \<Longrightarrow> \<not> attentionStatuses prev \<Longrightarrow> \<not> iv_unseenDone (registerTransition p prev status attention st) p"
  by (simp add: registerTransition_def call_transition_def Let_def split: prod.split)

lemma commit_store_cycle:
  assumes "existing = None \<Longrightarrow> iv_prevStatus st (ag_PaneID cp) = [] \<and> \<not> iv_unseenDone st (ag_PaneID cp)"
  shows "cycle_step (ag_PaneID cp) (stored cp existing st) (fst (commit_store sha cp existing st))"
proof -
  define p where "p = ag_PaneID cp"
  define prev where "prev = iv_prevStatus st p"
  define att where "att = (case existing of Some e \<Rightarrow> bd_AttentionKind (ag_blocked e) | None \<Rightarrow> [])"
  define ch where "ch \<longleftrightarrow> \<not> blockedDetailsEqual (map_option ag_blocked existing) (Some (ag_blocked cp))"
  define st1 where "st1 = stored cp existing st"
  define st2 where "st2 = registerTransition p prev (ag_Status cp) att st1"
  define st3 where "st3 = (if existing = None \<and> (doneStatuses (ag_Status cp) \<or> ag_Status cp = ''idle'')
                 then if ag_LastActiveAt cp > ag_LastSeenAt cp
                      then st2\<lparr>iv_unseenDone := (iv_unseenDone st2)(p := True), iv_ackDone := (iv_ackDone st2)(p := False)\<rparr>
                      else if doneStatuses (ag_Status cp) \<and> (ag_LastActiveAt cp > 0 \<or> ag_LastSeenAt cp > 0)
                      then st2\<lparr>iv_ackDone := (iv_ackDone st2)(p := True)\<rparr>
                      else st2
                 else st2)"
  define st4 where "st4 = fst (syncTriageLocked sha cp st3)"
  define st5 where "st5 = (if \<not> preservesChatCompletion prev (ag_Status cp) att
                 then syncAttentionCompletionLocked p att (bd_AttentionKind (ag_blocked cp)) st4 else st4)"
  have new: "existing = None \<Longrightarrow> \<not> iv_unseenDone st2 p"
    using assms unfolding st2_def st1_def p_def prev_def by (intro register_new) (auto simp: attentionStatuses_def)
  have "cycle_step p st1 st2" unfolding st2_def by (rule cycle_register)
  moreover have "cycle_step p st2 st3" using new by (auto simp: st3_def cycle_step_def)
  moreover have "cycle_step p st3 st4" unfolding st4_def by (rule cycle_same [OF sync_triage_same])
  moreover have "cycle_step p st4 st5" unfolding st5_def by (simp add: cycle_sync)
  moreover have "cycle_step p st5 (call_transition p s st5)" for s by (rule cycle_same [OF call_transition_same])
  ultimately have "cycle_step p st1 st5 \<and> cycle_step p st1 (call_transition p s st5)" for s by (meson cycle_trans)
  moreover have "fst (commit_store sha cp existing st) = (if prev = ''blocked'' \<and> ag_Status cp = ''blocked'' \<and>
                    (att \<noteq> bd_AttentionKind (ag_blocked cp) \<or> ch \<and> bd_AttentionKind (ag_blocked cp) = AttentionApproval)
                 then call_transition p (ag_Status cp) st5 else st5)"
    unfolding commit_store_def Let_def st5_def st4_def st3_def st2_def st1_def stored_def p_def prev_def att_def ch_def
    by (simp add: case_prod_beta)
  ultimately show ?thesis unfolding p_def st1_def by (simp split: if_split)
qed

text \<open>What a commit does to the completion of a pane at revision \<open>r\<close>.\<close>

definition completion_step :: "int \<Rightarrow> string \<Rightarrow> State \<Rightarrow> State \<Rightarrow> bool" where
  "completion_step r p st st' \<longleftrightarrow>
     iv_completionRev st' p = iv_completionRev st p \<and> (iv_finishedNotif st p \<longrightarrow> iv_finishedNotif st' p) \<or> iv_completionRev st' p \<in> {0, r}"

definition agent_committed :: "bool \<Rightarrow> int \<Rightarrow> commit_env \<Rightarrow> (string \<Rightarrow> string) \<Rightarrow> AgentState \<Rightarrow> State \<Rightarrow> State \<Rightarrow> bool" where
  "agent_committed initial baseRev env sha incoming st st' \<longleftrightarrow>
     (let p = ag_PaneID incoming; old = fmlookup (iv_agents st) p; kept = kept_agent incoming old in
      only_pane p st st' \<and> pane_inv st' p \<and> iv_revCounter st' = iv_revCounter st
      \<and> (\<exists>a. fmlookup (iv_agents st') p = Some a \<and> same_session a incoming
           \<and> ag_Status a = ag_Status (apply_waiting (waiting_event env st incoming) (carry_status baseRev kept st incoming)))
      \<and> generation_of st' p = generation_of st p + (if session_ends initial incoming old st then 1 else 0)
      \<and> completion_step (iv_revCounter st) p st st'
      \<and> iv_revision st' p = iv_revCounter st
      \<and> iv_pendingEvents st' = fmdrop p (iv_pendingEvents st))"

lemma waiting_cong: "iv_pendingEvents st' = iv_pendingEvents st \<Longrightarrow> waiting_event env st' a = waiting_event env st a"
  by (simp add: waiting_event_def)

lemma carry_cong: "iv_revision st' = iv_revision st \<Longrightarrow> carry_status b e st' a = carry_status b e st a"
  by (simp add: carry_status_def split: option.split)

lemma carry_status_like: "agent_like a b \<Longrightarrow> agent_like (carry_status r e st a) (carry_status r e st b)"
  by (auto simp: agent_like_def carry_status_def copyBlockedDetails_def Let_def split: option.split)

lemma waiting_like: "agent_like a b \<Longrightarrow> agent_like (apply_waiting ev a) (apply_waiting ev b)"
  by (auto simp: agent_like_def apply_waiting_def split: option.split)

lemma commit_status_like: "agent_like (commit_status env sha baseRev initial incoming existing st)
    (apply_waiting (waiting_event env st incoming) (carry_status baseRev existing st incoming))"
  unfolding commit_status_def Let_def
  by (rule agent_like_trans [OF stamps_like(3)], rule agent_like_trans [OF stamps_like(2)], rule waiting_like, rule carry_status_like, rule stamps_like(1))

lemma blocked_cycle_session:
  "same_session (snd (applyBlockedCycleLocked r n agent existing st)) agent"
  by (auto simp: applyBlockedCycleLocked_def clearBlockedDetails_def same_session_def Let_def split: option.split prod.split)

lemma commit_agent_facts:
  assumes inv: "pane_inv st (ag_PaneID incoming)" and env: "env_ok env" and pos: "0 \<le> iv_revCounter st"
  shows "agent_committed initial baseRev env sha incoming st (fst (commit_agent env sha baseRev initial incoming (st, d)))"
proof -
  define p where "p = ag_PaneID incoming"
  define old where "old = fmlookup (iv_agents st) p"
  define st1 where "st1 = commit_session initial incoming old st"
  define kept where "kept = kept_agent incoming old"
  define cp where "cp = commit_status env sha baseRev initial incoming kept st1"
  define st2 where "st2 = st1\<lparr>iv_pendingEvents := fmdrop p (iv_pendingEvents st1)\<rparr>"
  obtain st3 cp1 where b: "applyBlockedCycleLocked (ce_random env p) (ce_nano env p) cp kept st2 = (st3, cp1)" by fastforce
  define st4 where "st4 = fst (commit_store sha cp1 kept st3)"
  note f = commit_session_facts [OF st1_def [unfolded old_def] p_def [symmetric] inv [folded p_def], folded old_def kept_def]
  have kept_ok: "e = e \<and> details_ok e \<and> iv_prevStatus st1 p = ag_Status e" if "kept = Some e" for e using f that by simp
  have b': "same_panes st2 st3 \<and> details_ok cp1 \<and> ag_Status cp1 = ag_Status cp"
    using blocked_cycle_facts [OF b env] kept_ok by blast
  have cp: "ag_PaneID cp = p" "same_session cp incoming" "ag_Status cp = ag_Status (apply_waiting (waiting_event env st incoming) (carry_status baseRev kept st incoming))"
    using commit_status_session [of env sha baseRev initial incoming kept st1] commit_status_like [of env sha baseRev initial incoming kept st1]
      waiting_cong [of st1 st env incoming] carry_cong [of st1 st baseRev kept incoming] f
    by (simp_all add: cp_def same_session_def agent_like_def p_def)
  have id: "ag_PaneID cp1 = p" "same_session cp1 incoming"
    using blocked_cycle_session [of "ce_random env p" "ce_nano env p" cp kept st2] cp by (auto simp: b same_session_def)
  have same2: "iv_agents st3 = iv_agents st" "iv_prevStatus st3 = iv_prevStatus st1" "iv_unseenDone st3 = iv_unseenDone st1" "iv_ackDone st3 = iv_ackDone st1"
    "iv_finishedNotif st3 = iv_finishedNotif st1" "iv_completionRev st3 = iv_completionRev st1" "iv_revision st3 = iv_revision st"
    "iv_generation st3 = iv_generation st1" "iv_pendingEvents st3 = fmdrop p (iv_pendingEvents st)" "iv_revCounter st3 = iv_revCounter st"
    using b' f by (simp_all add: same_panes_def st2_def)
  have c: "cycle_step p (stored cp1 kept st3) st4"
    using commit_store_cycle [of kept st3 cp1 sha] f by (cases kept) (simp_all add: st4_def id same2)
  have rev: "iv_revision st p \<le> iv_revCounter st" "iv_completionRev st1 p \<le> iv_revCounter st"
    using f inv pos unfolding pane_inv_def p_def [symmetric] by auto
  have "pane_inv st4 p"
    by (rule cycle_pane_inv [OF c, of cp1]) (use f b' pos rev in \<open>simp_all add: id same2\<close>)
  moreover have "only_pane p st st4"
    using f cycle_only [OF c] by (simp add: only_pane_def id same2 generation_frame [of st3 st1] generation_frame [of "stored cp1 kept st3" st3])
  moreover have "fmlookup (iv_agents st4) p = Some cp1" "iv_revision st4 p = iv_revCounter st" "iv_pendingEvents st4 = fmdrop p (iv_pendingEvents st)"
    "iv_revCounter st4 = iv_revCounter st" "generation_of st4 p = generation_of st1 p"
    using cycle_fields [OF c] by (simp_all add: id same2 generation_of_def)
  moreover have "completion_step (iv_revCounter st) p st st4"
    using c f by (auto simp: completion_step_def cycle_step_def same2 id)
  moreover have "fst (commit_agent env sha baseRev initial incoming (st, d)) = st4"
    unfolding commit_agent_def Let_def prod.case p_def [symmetric] old_def [symmetric] st1_def [symmetric] kept_agent_def [symmetric]
      kept_def [symmetric] cp_def [symmetric] st2_def [symmetric] b st4_def by (simp add: case_prod_beta)
  ultimately show ?thesis
    using f b' cp(3) id unfolding agent_committed_def Let_def p_def [symmetric] old_def [symmetric] kept_def [symmetric] by simp
qed

section \<open>A whole inventory\<close>

definition same_at :: "string \<Rightarrow> State \<Rightarrow> State \<Rightarrow> bool" where
  "same_at p st st' \<longleftrightarrow> fmlookup (iv_agents st') p = fmlookup (iv_agents st) p \<and> iv_prevStatus st' p = iv_prevStatus st p
      \<and> iv_unseenDone st' p = iv_unseenDone st p \<and> iv_ackDone st' p = iv_ackDone st p \<and> iv_finishedNotif st' p = iv_finishedNotif st p
      \<and> iv_completionRev st' p = iv_completionRev st p \<and> iv_revision st' p = iv_revision st p \<and> generation_of st' p = generation_of st p
      \<and> fmlookup (iv_pendingEvents st') p = fmlookup (iv_pendingEvents st) p \<and> iv_revCounter st' = iv_revCounter st"

lemma same_at_refl [simp]: "same_at p st st"
  by (simp add: same_at_def)

lemma same_at_trans: "same_at p a b \<Longrightarrow> same_at p b c \<Longrightarrow> same_at p a c"
  by (simp add: same_at_def)

lemma only_same_at: "only_pane q st st' \<Longrightarrow> iv_revCounter st' = iv_revCounter st \<Longrightarrow> q \<noteq> p \<Longrightarrow> same_at p st st'"
  by (simp add: only_pane_def same_at_def)

lemma same_at_inv: "same_at p st st' \<Longrightarrow> pane_inv st' p = pane_inv st p"
  by (simp add: same_at_def pane_inv_def cong: option.case_cong)

text \<open>What the commit of an agent does to its own pane.\<close>

definition pane_committed :: "bool \<Rightarrow> int \<Rightarrow> commit_env \<Rightarrow> AgentState \<Rightarrow> State \<Rightarrow> State \<Rightarrow> bool" where
  "pane_committed initial baseRev env incoming st st' \<longleftrightarrow>
     (let p = ag_PaneID incoming; old = fmlookup (iv_agents st) p; kept = kept_agent incoming old in
      (\<exists>a. fmlookup (iv_agents st') p = Some a \<and> same_session a incoming
           \<and> ag_Status a = ag_Status (apply_waiting (waiting_event env st incoming) (carry_status baseRev kept st incoming)))
      \<and> generation_of st' p = generation_of st p + (if session_ends initial incoming old st then 1 else 0)
      \<and> iv_revision st' p = iv_revCounter st)"

lemma at_same:
  assumes "same_at (ag_PaneID a) st0 st"
  shows "waiting_event env st a = waiting_event env st0 a" "carry_status b e st a = carry_status b e st0 a"
    "session_ends i a (fmlookup (iv_agents st) (ag_PaneID a)) st = session_ends i a (fmlookup (iv_agents st0) (ag_PaneID a)) st0"
proof -
  have eq: "fmlookup (iv_agents st) (ag_PaneID a) = fmlookup (iv_agents st0) (ag_PaneID a)" "iv_revision st (ag_PaneID a) = iv_revision st0 (ag_PaneID a)"
    "generation_of st (ag_PaneID a) = generation_of st0 (ag_PaneID a)" "fmlookup (iv_pendingEvents st) (ag_PaneID a) = fmlookup (iv_pendingEvents st0) (ag_PaneID a)"
    using assms by (simp_all add: same_at_def)
  show "waiting_event env st a = waiting_event env st0 a" "carry_status b e st a = carry_status b e st0 a"
    "session_ends i a (fmlookup (iv_agents st) (ag_PaneID a)) st = session_ends i a (fmlookup (iv_agents st0) (ag_PaneID a)) st0"
    by (simp_all only: waiting_event_def carry_status_def session_ends_def eq)
qed

lemma committed_before:
  assumes "same_at (ag_PaneID incoming) st0 st" and "pane_committed initial baseRev env incoming st st'"
  shows "pane_committed initial baseRev env incoming st0 st'"
proof -
  have eq: "fmlookup (iv_agents st) (ag_PaneID incoming) = fmlookup (iv_agents st0) (ag_PaneID incoming)"
    "generation_of st (ag_PaneID incoming) = generation_of st0 (ag_PaneID incoming)" "iv_revCounter st = iv_revCounter st0"
    using assms(1) by (simp_all add: same_at_def)
  show ?thesis using assms(2) unfolding pane_committed_def Let_def at_same [OF assms(1)] by (simp only: eq)
qed

lemma committed_after: "same_at (ag_PaneID incoming) st st' \<Longrightarrow> pane_committed initial baseRev env incoming st0 st \<Longrightarrow>
    pane_committed initial baseRev env incoming st0 st'"
  by (simp add: pane_committed_def same_at_def Let_def)

lemma agent_pane_committed: "agent_committed initial baseRev env sha incoming st st' \<Longrightarrow> pane_committed initial baseRev env incoming st st'"
  by (simp add: agent_committed_def pane_committed_def Let_def)

lemma completion_trans: "completion_step r p a b \<Longrightarrow> completion_step r p b c \<Longrightarrow> completion_step r p a c"
  by (auto simp: completion_step_def)

lemma completion_same: "same_at p st st' \<Longrightarrow> completion_step r p st st'"
  by (simp add: completion_step_def same_at_def)

lemma fcard_fmdrop: "fcard (fmdom (fmdrop k m)) \<le> fcard (fmdom m)"
  by (rule fcard_mono) auto

lemma agent_committed_ok:
  assumes "inventory_ok st" and "agent_committed initial baseRev env sha incoming st st'"
  shows "inventory_ok st' \<and> iv_revCounter st' = iv_revCounter st \<and> (\<forall>q. q \<noteq> ag_PaneID incoming \<longrightarrow> same_at q st st')
    \<and> (\<forall>q. generation_of st q \<le> generation_of st' q \<and> completion_step (iv_revCounter st) q st st')
    \<and> fmdom (iv_agents st') = finsert (ag_PaneID incoming) (fmdom (iv_agents st))"
proof -
  let ?p = "ag_PaneID incoming"
  note A = assms(2) [unfolded agent_committed_def Let_def]
  have c: "only_pane ?p st st'" "pane_inv st' ?p" "iv_revCounter st' = iv_revCounter st" "generation_of st ?p \<le> generation_of st' ?p"
    "completion_step (iv_revCounter st) ?p st st'" "iv_pendingEvents st' = fmdrop ?p (iv_pendingEvents st)" "fmlookup (iv_agents st') ?p \<noteq> None"
    using A by (blast, blast, blast, simp, blast, blast, blast)
  have other: "same_at q st st'" if "q \<noteq> ?p" for q by (rule only_same_at [OF c(1,3)]) (use that in simp)
  have "pane_inv st' q" for q using assms(1) c(2) other same_at_inv [of q st st'] by (cases "q = ?p") (simp_all add: inventory_ok_def)
  moreover have "fcard (fmdom (iv_pendingEvents st')) \<le> 128"
    using assms(1) fcard_fmdrop [of ?p "iv_pendingEvents st"] by (simp add: c(6) inventory_ok_def del: fmdom_drop)
  moreover have "fmdom (iv_agents st') = finsert ?p (fmdom (iv_agents st))"
  proof (rule fset_eqI)
    fix q
    show "q |\<in>| fmdom (iv_agents st') \<longleftrightarrow> q |\<in>| finsert ?p (fmdom (iv_agents st))"
      using c(7) other [of q] by (cases "q = ?p") (auto simp: same_at_def fmlookup_dom_iff)
  qed
  moreover have "generation_of st q \<le> generation_of st' q \<and> completion_step (iv_revCounter st) q st st'" for q
    using c(4,5) other [of q] completion_same [of q st st'] by (cases "q = ?p") (auto simp: same_at_def)
  ultimately show ?thesis using assms(1) c(3) other by (auto simp: inventory_ok_def)
qed

lemma commit_agents_facts:
  assumes "inventory_ok st" and "env_ok env"
  shows "let st' = fst (fold (commit_agent env sha baseRev initial) agents (st, d)) in
     inventory_ok st' \<and> iv_revCounter st' = iv_revCounter st \<and> (\<forall>q. q \<notin> ag_PaneID ` set agents \<longrightarrow> same_at q st st')
     \<and> (\<forall>q. generation_of st q \<le> generation_of st' q \<and> completion_step (iv_revCounter st) q st st')
     \<and> (distinct (map ag_PaneID agents) \<longrightarrow> (\<forall>a\<in>set agents. pane_committed initial baseRev env a st st'))
     \<and> fset (fmdom (iv_agents st')) = fset (fmdom (iv_agents st)) \<union> ag_PaneID ` set agents"
  using assms(1)
proof (induction agents arbitrary: st d)
  case Nil
  then show ?case by (simp add: completion_same)
next
  case (Cons a agents)
  obtain st1 d1 where s: "commit_agent env sha baseRev initial a (st, d) = (st1, d1)" by fastforce
  have c: "agent_committed initial baseRev env sha a st st1"
    using commit_agent_facts [of st a env initial baseRev sha d] Cons.prems assms(2) by (simp add: s inventory_ok_def)
  note f = agent_committed_ok [OF Cons.prems c]
  define st' where "st' = fst (fold (commit_agent env sha baseRev initial) agents (st1, d1))"
  note g = Cons.IH [of st1 d1, unfolded Let_def, folded st'_def]
  have "pane_committed initial baseRev env x st st'" if "distinct (map ag_PaneID (a # agents))" "x \<in> set (a # agents)" for x
  proof (cases "x = a")
    case True
    have "same_at (ag_PaneID a) st1 st'" using f g that(1) by simp
    then show ?thesis using committed_after agent_pane_committed [OF c] True by blast
  next
    case False
    then have x: "x \<in> set agents" using that by simp
    then have "ag_PaneID x \<noteq> ag_PaneID a" using that(1) by (metis distinct.simps(2) image_eqI list.set_map list.simps(9))
    then show ?thesis using x using f g that(1) by (auto intro: committed_before)
  qed
  then show ?case
    using f g unfolding fold_Cons comp_def s Let_def st'_def [symmetric]
    by (auto intro: same_at_trans completion_trans order_trans)
qed

text \<open>Panes that are gone.\<close>

lemma forget_facts: "only_pane p st (forget_pane p st)" "fmlookup (iv_agents (forget_pane p st)) p = None" "iv_revCounter (forget_pane p st) = iv_revCounter st"
    "generation_of (forget_pane p st) p = generation_of st p + 1" "iv_pendingEvents (forget_pane p st) = iv_pendingEvents st"
    "iv_completionRev (forget_pane p st) p = 0" "0 \<le> iv_revCounter st \<Longrightarrow> pane_inv (forget_pane p st) p"
proof -
  have gen: "generation_of (forget_pane p st) q = generation_of (bump_generation p st) q" for q
    by (simp add: forget_pane_def generation_of_def)
  then show "only_pane p st (forget_pane p st)" "generation_of (forget_pane p st) p = generation_of st p + 1"
    by (simp_all add: only_pane_def) (simp_all add: forget_pane_def)
qed (simp_all add: forget_pane_def pane_inv_def)

lemma forget_all_facts:
  assumes "distinct ps" and "0 \<le> iv_revCounter st"
  shows "(\<forall>q. q \<notin> set ps \<longrightarrow> same_at q st (fold forget_pane ps st)) \<and> iv_revCounter (fold forget_pane ps st) = iv_revCounter st
     \<and> iv_pendingEvents (fold forget_pane ps st) = iv_pendingEvents st
     \<and> (\<forall>q\<in>set ps. pane_inv (fold forget_pane ps st) q \<and> fmlookup (iv_agents (fold forget_pane ps st)) q = None
          \<and> generation_of (fold forget_pane ps st) q = generation_of st q + 1 \<and> iv_completionRev (fold forget_pane ps st) q = 0)"
  using assms
proof (induction ps arbitrary: st)
  case (Cons p ps)
  have 1: "same_at q st (forget_pane p st)" if "q \<noteq> p" for q
    by (rule only_same_at [OF forget_facts(1,3)]) (use that in simp)
  note IH = Cons.IH [of "forget_pane p st"]
  have p: "p \<notin> set ps" "distinct ps" using Cons.prems by auto
  have "same_at p (forget_pane p st) (fold forget_pane ps (forget_pane p st))" using IH p Cons.prems by (simp add: forget_facts)
  note at = this
  have "pane_inv (fold forget_pane ps (forget_pane p st)) p" using same_at_inv [OF at] forget_facts(7) Cons.prems by simp
  moreover have "fmlookup (iv_agents (fold forget_pane ps (forget_pane p st))) p = None"
     "generation_of (fold forget_pane ps (forget_pane p st)) p = generation_of st p + 1" "iv_completionRev (fold forget_pane ps (forget_pane p st)) p = 0"
    using at by (simp_all add: same_at_def forget_facts)
  moreover have "same_at q st (fold forget_pane ps (forget_pane p st))" if "q \<notin> set (p # ps)" for q
    using same_at_trans [OF 1 [of q]] IH p that Cons.prems by (simp add: forget_facts)
  moreover have "generation_of (forget_pane p st) q = generation_of st q" if "q \<in> set ps" for q
    using 1 [of q] p that by (cases "q = p") (auto simp: same_at_def)
  ultimately show ?case using IH p Cons.prems by (simp add: forget_facts)
qed simp

text \<open>What a commit of an inventory does to the panes.\<close>

definition inventory_committed :: "int \<Rightarrow> commit_env \<Rightarrow> AgentState list \<Rightarrow> State \<Rightarrow> State \<Rightarrow> bool" where
  "inventory_committed baseRev env agents st st' \<longleftrightarrow>
     inventory_ok st' \<and> iv_revCounter st' = iv_revCounter st + 1
     \<and> (\<forall>q. generation_of st q \<le> generation_of st' q \<and> completion_step (iv_revCounter st + 1) q st st')
     \<and> (\<forall>q. q \<notin> ag_PaneID ` set agents \<longrightarrow> fmlookup (iv_agents st') q = None
          \<and> (fmlookup (iv_agents st) q \<noteq> None \<longrightarrow> generation_of st' q > generation_of st q))
     \<and> (distinct (map ag_PaneID agents) \<longrightarrow> (\<forall>a\<in>set agents.
          pane_committed (\<not> iv_inventoryReady st) baseRev env a (st\<lparr>iv_revCounter := iv_revCounter st + 1\<rparr>) st'))"

lemma same_panes_at: "same_panes st st' \<Longrightarrow> same_at q st st'"
  by (simp add: same_panes_def same_at_def generation_of_def)

lemma later_ok:
  assumes "inventory_ok st" and "iv_agents st' = iv_agents st" "iv_prevStatus st' = iv_prevStatus st" "iv_unseenDone st' = iv_unseenDone st"
    "iv_ackDone st' = iv_ackDone st" "iv_completionRev st' = iv_completionRev st" "iv_revision st' = iv_revision st"
    "iv_pendingEvents st' = iv_pendingEvents st" "iv_revCounter st \<le> iv_revCounter st'"
  shows "inventory_ok st'"
proof -
  have "pane_inv st' p" for p
  proof -
    have "pane_inv st p" using assms(1) by (simp add: inventory_ok_def)
    then show ?thesis using assms(9) unfolding pane_inv_def assms(2-8) by (meson order_trans)
  qed
  then show ?thesis using assms(1,9) unfolding inventory_ok_def assms(8) by auto
qed

lemma fset_gone: "set (filter P (sorted_list_of_fset F)) = {p. p |\<in>| F \<and> P p}" "distinct (filter P (sorted_list_of_fset F))"
  by (auto simp: sorted_list_of_fset.rep_eq)

lemma commitInventory_facts:
  assumes ok: "inventory_ok st" and env: "env_ok env"
  shows "inventory_committed baseRev env agents st (commitInventoryLocked env sha agents baseRev st)"
proof -
  define st1 where "st1 = st\<lparr>iv_topologyGen := (if topology_changed agents st then iv_topologyGen st + 1 else iv_topologyGen st),
                   iv_revCounter := iv_revCounter st + 1, iv_inventoryReady := True, iv_inventoryErrorCode := [], iv_inventoryMessage := [],
                   iv_lastAttemptAt := Some (ce_start env), iv_lastSuccessAt := Some (ce_start env)\<rparr>"
  define st2 where "st2 = fst (fold (commit_agent env sha baseRev (\<not> iv_inventoryReady st)) agents (st1, False))"
  define gone where "gone = filter (\<lambda>p. p \<notin> ag_PaneID ` set agents) (sorted_list_of_fset (fmdom (iv_agents st2)))"
  define st3 where "st3 = fold forget_pane gone st2"
  define st4 where "st4 = st3\<lparr>iv_pendingEvents := fm_drop_if (\<lambda>ev. \<not> ce_end env < pv_expiresAt ev) (iv_pendingEvents st3)\<rparr>"
  have ok1: "inventory_ok st1" by (rule later_ok [OF ok]) (simp_all add: st1_def)
  have st1: "same_at p (st\<lparr>iv_revCounter := iv_revCounter st + 1\<rparr>) st1" for p by (simp add: same_at_def st1_def generation_of_def)
  note c = commit_agents_facts [OF ok1 env, of sha baseRev "\<not> iv_inventoryReady st" agents False, unfolded Let_def, folded st2_def]
  have rc: "iv_revCounter st1 = iv_revCounter st + 1" "0 \<le> iv_revCounter st2" using c ok1 by (simp_all add: st1_def inventory_ok_def)
  have gone: "set gone = {p. p |\<in>| fmdom (iv_agents st2) \<and> p \<notin> ag_PaneID ` set agents}" "distinct gone"
    unfolding gone_def by (rule fset_gone)+
  note f = forget_all_facts [OF gone(2) rc(2), folded st3_def]
  have at: "same_at q st2 st3" if "q \<notin> set gone" for q using f that by blast
  have gone_none: "fmlookup (iv_agents st3) q = None" if "q \<notin> ag_PaneID ` set agents" for q
    using f at [of q] gone(1) that by (cases "q \<in> set gone") (auto simp: same_at_def fmlookup_dom_iff)
  have st3_ok: "pane_inv st3 q" for q
    using c f at [of q] same_at_inv [of q st2 st3] by (cases "q \<in> set gone") (auto simp: inventory_ok_def)
  have st_st1: "generation_of st1 q = generation_of st q" "iv_completionRev st1 q = iv_completionRev st q" "iv_finishedNotif st1 q = iv_finishedNotif st q"
      "iv_agents st1 = iv_agents st" for q
    by (simp_all add: st1_def generation_of_def)
  have rest: "generation_of st q \<le> generation_of st2 q \<and> completion_step (iv_revCounter st + 1) q st st2" for q
    using c by (simp add: st_st1 rc completion_step_def)
  have step: "generation_of st q \<le> generation_of st3 q \<and> completion_step (iv_revCounter st + 1) q st st3" for q
  proof (cases "q \<in> set gone")
    case True
    then show ?thesis using f rest [of q] by (simp add: completion_step_def)
  next
    case False
    then show ?thesis using at [OF False] rest [of q] by (auto simp: same_at_def completion_step_def)
  qed
  have left: "generation_of st3 q > generation_of st q" if "q \<notin> ag_PaneID ` set agents" "fmlookup (iv_agents st) q \<noteq> None" for q
  proof -
    have "q |\<in>| fmdom (iv_agents st2)" using c that by (auto simp: st_st1 fmlookup_dom_iff)
    then show ?thesis using f gone(1) that rest [of q] by auto
  qed
  have done3: "pane_committed (\<not> iv_inventoryReady st) baseRev env a (st\<lparr>iv_revCounter := iv_revCounter st + 1\<rparr>) st3"
    if "distinct (map ag_PaneID agents)" "a \<in> set agents" for a
    using c that by (intro committed_after [OF at] committed_before [OF st1]) (auto simp: gone(1))
  define st5 where "st5 = commitInventoryLocked env sha agents baseRev st"
  have "same_panes st4 st5" using persist_same [of st4 "ce_persist env" "ce_written env"]
    unfolding st5_def commitInventoryLocked_def Let_def st1_def [symmetric] st4_def st3_def gone_def st2_def
    by (simp add: case_prod_beta same_panes_def)
  then have s5: "iv_agents st5 = iv_agents st3" "iv_prevStatus st5 = iv_prevStatus st3" "iv_unseenDone st5 = iv_unseenDone st3"
      "iv_ackDone st5 = iv_ackDone st3" "iv_finishedNotif st5 = iv_finishedNotif st3" "iv_completionRev st5 = iv_completionRev st3"
      "iv_revision st5 = iv_revision st3" "iv_generation st5 = iv_generation st3" "iv_revCounter st5 = iv_revCounter st3"
      "iv_pendingEvents st5 = fm_drop_if (\<lambda>ev. \<not> ce_end env < pv_expiresAt ev) (iv_pendingEvents st3)"
    by (simp_all add: same_panes_def st4_def)
  note gen5 = generation_frame [OF s5(8)]
  have "pane_inv st5 q" for q using st3_ok [of q] by (auto simp: pane_inv_def s5 split: option.splits)
  then have "inventory_ok st5" using c f fmdom_drop_if [of "\<lambda>ev. \<not> ce_end env < pv_expiresAt ev" "iv_pendingEvents st2"] rc
    by (auto simp: inventory_ok_def s5)
  then show ?thesis using step left gone_none done3 c f rc(1) unfolding inventory_committed_def st5_def [symmetric]
    by (simp add: s5 gen5 completion_step_def pane_committed_def)
qed

end
