(* ===== verification/SessionFence.thy ===== *)
theory SessionFence
  imports Scheduler
begin

text \<open>
  What the command scheduler relies on when it asks the inventory whether the session an operation
  was started for is still the one in the pane (\<^verbatim>\<open>generationCurrent\<close> of
  \<^verbatim>\<open>coordinator.go\<close>): a session that has ended is not current, and stays ended.
\<close>

locale session_fence =
  fixes current :: "'s \<Rightarrow> string \<Rightarrow> u64 \<Rightarrow> bool"
    and ended :: "'s \<Rightarrow> string \<Rightarrow> u64 \<Rightarrow> bool"
    and later :: "'s \<Rightarrow> 's \<Rightarrow> bool"
  assumes ended_not_current: "ended s p g \<Longrightarrow> \<not> current s p g"
    and ended_later: "ended s p g \<Longrightarrow> later s s' \<Longrightarrow> ended s' p g"
begin

lemma ended_for_good: "ended s p g \<Longrightarrow> later s s' \<Longrightarrow> \<not> current s' p g"
  using ended_not_current ended_later by blast

lemma completion_is_stale:
  "ended s p g \<Longrightarrow> later s s' \<Longrightarrow> so_PaneID options = p \<Longrightarrow> if_Generation f = g \<Longrightarrow> \<not> so_AllowAbsent options
     \<Longrightarrow> completion_stale (Some (current s')) options slot f"
  using ended_for_good [of s p g s'] by (auto simp: completion_stale_def)

text \<open>The result of an operation whose session ended changes nothing: any other result leads to the same scheduler.\<close>

lemma ended_result_unused:
  assumes "ended s p g" "later s s'" and "\<not> so_RelayLevel (op_options (sc_ops st i))" "so_PaneID (op_options (sc_ops st i)) = p"
    "\<not> so_AllowAbsent (op_options (sc_ops st i))" "fmlookup (sc_slots st) p = Some slot" "ps_InFlight slot = Some f"
    "if_OperationID f = i" "if_Generation f = g"
  shows "completeAndRedispatch now (Some (current s')) i result st = completeAndRedispatch now (Some (current s')) i result' st"
  using completion_is_stale [OF assms(1,2,4,9,5), of slot] assms
  by (simp add: completeAndRedispatch_def close_slot_def complete_op_def Let_def)

end

end
