(* ===== verification/InventoryRuns.thy ===== *)
theory InventoryRuns
  imports InventorySafety SessionFence
begin

text \<open>
  Runs of the agent inventory: every public operation of the state as a step, what all of them
  keep, and the properties of whole runs.
\<close>

section \<open>Steps\<close>

datatype inv_op =
    OpInventory commit_env "AgentState list" int
  | OpTopology commit_env "AgentState option list" "Workspace list" int
  | OpPoll commit_env "AgentState list" "Workspace list" PollToken
  | OpWorkspaces "Workspace list"
  | OpEvent commit_env string string string string int
  | OpClassification string string u64 int Classification
  | OpAcknowledge commit_env string
  | OpFinished string
  | OpFinishedTransition string int
  | OpCustomAnswer string string string
  | OpFailure time inventory_failure
  | OpDegraded time
  | OpTopologyChanged
  | OpBumpGeneration string

record inv_lib =
  il_sha :: "string \<Rightarrow> string"
  il_digest :: "string \<Rightarrow> string \<Rightarrow> string \<Rightarrow> string list \<Rightarrow> string"
  il_summaryKey :: "string \<Rightarrow> string"

text \<open>
  The state after an operation and the announcements of a completion it grants, as pane and
  revision; no result when the operation panics.
\<close>

fun inv_step :: "inv_lib \<Rightarrow> inv_op \<Rightarrow> State \<Rightarrow> (State \<times> (string \<times> int) list) option" where
  "inv_step lib (OpInventory env agents base) st = Some (CommitInventory env (il_sha lib) agents base st, [])"
| "inv_step lib (OpTopology env agents ws base) st = map_option (\<lambda>(st', changed). (st', [])) (CommitTopology env (il_sha lib) agents ws base st)"
| "inv_step lib (OpPoll env agents ws token) st = Some (fst (CommitPoll env (il_sha lib) agents ws token st), [])"
| "inv_step lib (OpWorkspaces ws) st = Some (fst (CommitWorkspaces ws st), [])"
| "inv_step lib (OpEvent env p tab ws status t) st = Some (fst (CommitEventForSession env (il_sha lib) p tab ws status t st), [])"
| "inv_step lib (OpClassification p e g content c) st = Some (fst (CommitAttentionClassification (il_digest lib) p e g content c st), [])"
| "inv_step lib (OpAcknowledge env p) st = Some (fst (AcknowledgePane env (il_sha lib) p st), [])"
| "inv_step lib (OpFinished p) st = (case RegisterFinishedNotification p st of (st', ok) \<Rightarrow> Some (st', if ok then [(p, iv_completionRev st p)] else []))"
| "inv_step lib (OpFinishedTransition p r) st =
     (case RegisterFinishedNotificationForTransition p r st of (st', ok) \<Rightarrow> Some (st', if ok then [(p, r)] else []))"
| "inv_step lib (OpCustomAnswer p q t) st = Some (RecordCustomAnswer (il_summaryKey lib) p q t st, [])"
| "inv_step lib (OpFailure now err) st = Some (MarkInventoryFailure now err st, [])"
| "inv_step lib (OpDegraded now) st = Some (MarkTopologyDegraded now st, [])"
| "inv_step lib OpTopologyChanged st = Some (MarkTopologyChanged st, [])"
| "inv_step lib (OpBumpGeneration p) st = Some (bump_generation p st, [])"

fun inv_run :: "inv_lib \<Rightarrow> inv_op list \<Rightarrow> State \<Rightarrow> (State \<times> (string \<times> int) list) option" where
  "inv_run lib [] st = Some (st, [])"
| "inv_run lib (op # ops) st =
     (case inv_step lib op st of None \<Rightarrow> None
      | Some (st1, out1) \<Rightarrow> (case inv_run lib ops st1 of None \<Rightarrow> None | Some (st2, out2) \<Rightarrow> Some (st2, out1 @ out2)))"

text \<open>Random identifiers have the length the code reads.\<close>

fun op_env_ok :: "inv_op \<Rightarrow> bool" where
  "op_env_ok (OpInventory env agents base) = env_ok env"
| "op_env_ok (OpTopology env agents ws base) = env_ok env"
| "op_env_ok (OpPoll env agents ws token) = env_ok env"
| "op_env_ok (OpEvent env p tab ws status t) = env_ok env"
| "op_env_ok _ = True"

section \<open>What every operation keeps\<close>

definition completion_moves :: "string \<Rightarrow> State \<Rightarrow> State \<Rightarrow> bool" where
  "completion_moves q st st' \<longleftrightarrow>
     iv_completionRev st' q = iv_completionRev st q \<and> (iv_finishedNotif st q \<longrightarrow> iv_finishedNotif st' q)
     \<or> iv_completionRev st' q = 0 \<or> iv_revCounter st < iv_completionRev st' q"

definition op_safe :: "State \<Rightarrow> State \<Rightarrow> bool" where
  "op_safe st st' \<longleftrightarrow> inventory_ok st' \<and> iv_revCounter st \<le> iv_revCounter st'
     \<and> (\<forall>q. generation_of st q \<le> generation_of st' q \<and> completion_moves q st st')"

lemma op_safe_same: "inventory_ok st \<Longrightarrow> same_panes st st' \<Longrightarrow> op_safe st st'"
  using same_panes_ok [of st st'] by (simp add: op_safe_def) (simp add: same_panes_def completion_moves_def generation_of_def)

lemma op_safe_then_same: "op_safe st st1 \<Longrightarrow> same_panes st1 st' \<Longrightarrow> op_safe st st'"
  using same_panes_ok [of st1 st'] by (simp add: op_safe_def) (simp add: same_panes_def completion_moves_def generation_of_def)

lemma op_safe_after_same: "same_panes st st1 \<Longrightarrow> op_safe st1 st' \<Longrightarrow> op_safe st st'"
  by (simp add: op_safe_def) (simp add: same_panes_def completion_moves_def generation_of_def)

lemma one_pane_safe:
  assumes "inventory_ok st" "only_pane p st st'" "pane_inv st' p" "iv_revCounter st \<le> iv_revCounter st'"
    "fcard (fmdom (iv_pendingEvents st')) \<le> 128" "generation_of st p \<le> generation_of st' p" "completion_moves p st st'"
  shows "op_safe st st'"
proof -
  have "pane_inv st' q" for q
    using assms(1,3) only_pane_inv [OF assms(2,4), of q] by (cases "q = p") (simp_all add: inventory_ok_def)
  moreover have "generation_of st q \<le> generation_of st' q \<and> completion_moves q st st'" for q
    using assms(2,6,7) by (cases "q = p") (simp_all add: only_pane_def completion_moves_def)
  ultimately show ?thesis using assms by (auto simp: op_safe_def inventory_ok_def)
qed

text \<open>An operation that stores the agent of a pane and then runs its cycle.\<close>

lemma cycle_safe:
  assumes ok: "inventory_ok st" and old: "fmlookup (iv_agents st) p = Some a0" and c: "cycle_step p st1 st'"
    and a: "fmlookup (iv_agents st1) p = Some a" "ag_PaneID a = p" "details_ok a" "iv_prevStatus st1 p = ag_Status a"
    and only: "only_pane p st st1" and same: "iv_unseenDone st1 = iv_unseenDone st" "iv_ackDone st1 = iv_ackDone st" "iv_finishedNotif st1 = iv_finishedNotif st"
      "iv_completionRev st1 = iv_completionRev st" "iv_pendingEvents st1 = iv_pendingEvents st" "iv_generation st1 = iv_generation st"
    and rev: "iv_revCounter st1 = iv_revCounter st \<and> iv_revision st1 p = iv_revision st p \<and> iv_completionRev st' p = iv_completionRev st p
        \<and> iv_finishedNotif st' p = iv_finishedNotif st p
      \<or> iv_revCounter st1 = iv_revCounter st + 1 \<and> iv_revision st1 p = iv_revCounter st1"
  shows "op_safe st st'"
proof (rule one_pane_safe [OF ok, of p])
  have inv: "pane_inv st p" "0 \<le> iv_revCounter st" using ok by (simp_all add: inventory_ok_def)
  show "only_pane p st st'" by (rule only_pane_trans [OF only cycle_only [OF c]])
  show "pane_inv st' p" using inv old rev by (intro cycle_pane_inv [OF c a]) (auto simp: same pane_inv_def)
  show "iv_revCounter st \<le> iv_revCounter st'" using rev cycle_fields(2) [OF c] by auto
  show "fcard (fmdom (iv_pendingEvents st')) \<le> 128" using ok cycle_fields(6) [OF c] by (simp add: same inventory_ok_def)
  show "generation_of st p \<le> generation_of st' p" using cycle_fields(5) [OF c] by (simp add: generation_of_def same)
  show "completion_moves p st st'" using rev c by (auto simp: completion_moves_def cycle_step_def same)
qed

lemma persist_cycle: "cycle_step p st (if d then persistTriageLocked now written st else st)"
  by (simp add: cycle_same [OF persist_same])

lemma event_details_facts:
  assumes "event_details (ce_random env p) n prev status a st = (st', a')" and "env_ok env"
    and "prev = ''blocked'' \<Longrightarrow> bd_AttentionKind (ag_blocked a) \<noteq> []" and "ag_Status a = status"
  shows "same_panes st st' \<and> details_ok a' \<and> ag_PaneID a' = ag_PaneID a \<and> ag_Status a' = status"
proof -
  obtain st1 event where e: "newBlockedEventIDLocked (ce_random env p) n st = (st1, event)" by fastforce
  have "same_panes st st1" "event \<noteq> []" using event_id_same [of st "ce_random env p" n] event_id_ne [OF assms(2), of p n st] by (simp_all add: e)
  then show ?thesis using assms(1,3,4)
    by (auto simp: event_details_def e details_ok_def clearBlockedDetails_def AttentionUnknown_def split: if_splits)
qed

definition event_stored :: "string \<Rightarrow> string \<Rightarrow> AgentState \<Rightarrow> State \<Rightarrow> State \<Rightarrow> bool" where
  "event_stored p status a st st' \<longleftrightarrow> ag_PaneID a = p \<and> details_ok a \<and> ag_Status a = status \<and> iv_agents st' = fmupd p a (iv_agents st)
     \<and> iv_prevStatus st' = (iv_prevStatus st)(p := status) \<and> iv_unseenDone st' = iv_unseenDone st \<and> iv_ackDone st' = iv_ackDone st
     \<and> iv_finishedNotif st' = iv_finishedNotif st \<and> iv_completionRev st' = iv_completionRev st \<and> iv_pendingEvents st' = iv_pendingEvents st
     \<and> iv_generation st' = iv_generation st \<and> iv_revCounter st' = iv_revCounter st + 1 \<and> iv_revision st' = (iv_revision st)(p := iv_revCounter st + 1)"

lemma event_cycle:
  assumes ok: "inventory_ok st" and env: "env_ok env" and old: "fmlookup (iv_agents st) p = Some agent"
  shows "\<exists>a st1. event_stored p status a st st1 \<and> cycle_step p st1 (commit_event env sha p status t agent st)"
proof -
  have old_ok: "ag_PaneID agent = p" "details_ok agent" using ok old by (simp_all add: inventory_ok_def pane_inv_def split: option.splits)
  define st1 where "st1 = st\<lparr>iv_revCounter := iv_revCounter st + 1, iv_revision := (iv_revision st)(p := iv_revCounter st + 1)\<rparr>"
  define a1 where "a1 = event_agent (ce_millis env p) status t agent"
  define st2 where "st2 = (if ag_Status agent \<noteq> status then st1\<lparr>iv_contentRev := (iv_contentRev st1)(p := iv_contentRev st1 p + 1)\<rparr> else st1)"
  obtain st3 a2 where e: "event_details (ce_random env p) (ce_nano env p) (ag_Status agent) status a1 st2 = (st3, a2)" by fastforce
  define st4 where "st4 = (if \<not> blockedDetailsEqual (Some (ag_blocked agent)) (Some (ag_blocked a2))
                 then st3\<lparr>iv_attentionRev := (iv_attentionRev st3)(p := iv_attentionRev st3 p + 1)\<rparr> else st3)"
  define st5 where "st5 = st4\<lparr>iv_agents := fmupd p a2 (iv_agents st4), iv_prevStatus := (iv_prevStatus st4)(p := status)\<rparr>"
  have a1: "ag_PaneID a1 = p" "ag_Status a1 = status" "ag_blocked a1 = ag_blocked agent"
    using old_ok by (simp_all add: a1_def event_agent_def Let_def)
  have a2: "same_panes st2 st3" "ag_PaneID a2 = p" "details_ok a2" "ag_Status a2 = status"
    using event_details_facts [OF e env _ a1(2)] a1 old_ok(2) by (auto simp: details_ok_def)
  then have same: "same_panes st1 st4" by (auto simp: same_panes_def st2_def st4_def)
  have "cycle_step p st5 (commit_event env sha p status t agent st)"
    unfolding commit_event_def Let_def st1_def [symmetric] a1_def [symmetric] st2_def [symmetric] e prod.case st4_def [symmetric] st5_def [symmetric]
    unfolding case_prod_beta
    by (rule cycle_trans [OF _ persist_cycle], rule cycle_trans [OF _ cycle_same [OF sync_triage_same]])
      (simp add: cycle_register cycle_trans [OF cycle_register cycle_sync])
  moreover have "event_stored p status a2 st st5" using same a2 by (auto simp: event_stored_def same_panes_def st5_def st1_def)
  ultimately show ?thesis by blast
qed

lemma event_safe:
  assumes ok: "inventory_ok st" and env: "env_ok env" and old: "fmlookup (iv_agents st) p = Some agent"
  shows "op_safe st (commit_event env sha p status t agent st)"
proof -
  obtain a st1 where c: "event_stored p status a st st1" "cycle_step p st1 (commit_event env sha p status t agent st)"
    using event_cycle [OF assms] by blast
  show ?thesis
    by (rule cycle_safe [OF ok old c(2), where a = a]) (use c(1) in \<open>auto simp: event_stored_def only_pane_def generation_of_def\<close>)
qed

lemma classification_safe:
  assumes ok: "inventory_ok st"
  shows "op_safe st (fst (CommitAttentionClassification digest p e g content c st))"
proof (cases "fmlookup (iv_agents st) p")
  case (Some agent)
  have old_ok: "ag_PaneID agent = p" "details_ok agent" "iv_prevStatus st p = ag_Status agent"
    using ok Some by (simp_all add: inventory_ok_def pane_inv_def split: option.splits)
  define c1 where "c1 = (if cl_Kind c = [] then c\<lparr>cl_Kind := AttentionUnknown\<rparr> else c)"
  obtain a changed where a: "applyAttentionClassification digest c1 agent = (a, changed)" by fastforce
  have kind: "cl_Kind c1 \<noteq> []" by (simp add: c1_def AttentionUnknown_def)
  have a': "ag_PaneID a = p" "ag_Status a = ag_Status agent" "ag_Status agent = ''blocked'' \<Longrightarrow> details_ok a"
    using a old_ok kind by (auto simp: applyAttentionClassification_def Let_def details_ok_def)
  define st1 where "st1 = st\<lparr>iv_agents := fmupd p a (iv_agents st)\<rparr>"
  define st2 where "st2 = st1\<lparr>iv_revCounter := iv_revCounter st1 + 1, iv_revision := (iv_revision st1)(p := iv_revCounter st1 + 1),
                                   iv_contentRev := (iv_contentRev st1)(p := iv_contentRev st1 p + 1),
                                   iv_attentionRev := (iv_attentionRev st1)(p := iv_attentionRev st1 p + 1)\<rparr>"
  have 1: "op_safe st st1" if "ag_Status agent = ''blocked''"
    by (rule cycle_safe [OF ok Some cycle_refl, where a = a]) (use a' old_ok that in \<open>auto simp: st1_def only_pane_def generation_of_def\<close>)
  have 2: "op_safe st (syncAttentionCompletionLocked p k k' st2)" if "ag_Status agent = ''blocked''" for k k'
    by (rule cycle_safe [OF ok Some cycle_sync, where a = a]) (use a' old_ok that in \<open>auto simp: st2_def st1_def only_pane_def generation_of_def\<close>)
  show ?thesis
    unfolding CommitAttentionClassification_def Some option.case Let_def c1_def [symmetric] a prod.case st1_def [symmetric] st2_def [symmetric]
    using 1 2 op_safe_same [OF ok] by (simp split: if_split)
qed (simp add: CommitAttentionClassification_def op_safe_same ok)

lemma acknowledge_safe:
  assumes ok: "inventory_ok st"
  shows "op_safe st (fst (AcknowledgePane env sha p st))"
proof (cases "fmlookup (iv_agents st) p")
  case (Some agent)
  have old_ok: "ag_PaneID agent = p" "details_ok agent" "iv_prevStatus st p = ag_Status agent"
    using ok Some by (simp_all add: inventory_ok_def pane_inv_def split: option.splits)
  define a where "a = agent\<lparr>ag_LastSeenAt := maxInt64 (ce_millis env p) (ag_LastActiveAt agent)\<rparr>"
  define st1 where "st1 = st\<lparr>iv_agents := fmupd p a (iv_agents st)\<rparr>"
  define st2 where "st2 = (if iv_unseenDone st1 p \<or> doneStatuses (ag_Status a)
                     then st1\<lparr>iv_unseenDone := (iv_unseenDone st1)(p := False), iv_ackDone := (iv_ackDone st1)(p := True)\<rparr> else st1)"
  have a: "ag_PaneID a = p" "details_ok a" "ag_Status a = ag_Status agent" using old_ok by (simp_all add: a_def details_ok_def)
  have 2: "cycle_step p st1 st2" by (simp add: st2_def cycle_step_def)
  have "op_safe st st2"
    by (rule cycle_safe [OF ok Some 2, where a = a])
      (use a old_ok in \<open>auto simp: st2_def st1_def only_pane_def generation_of_def\<close>)
  moreover have "same_panes st2 (fst (AcknowledgePane env sha p st))"
    unfolding AcknowledgePane_def Some option.case Let_def a_def [symmetric] st1_def [symmetric] st2_def [symmetric] case_prod_beta
    using same_panes_trans [OF sync_triage_same persist_same] by (simp add: sync_triage_same)
  ultimately show ?thesis by (rule op_safe_then_same)
qed (simp add: AcknowledgePane_def op_safe_same ok)

text \<open>Events that wait for their pane: at most 128 of them.\<close>

lemma oldest_pending_dom:
  assumes "fmdom m \<noteq> {||}"
  shows "oldest_pending m |\<in>| fmdom m"
proof -
  define f where "f = (\<lambda>(k, ev :: pendingEvent) (oldestID :: string, oldest). if oldestID = [] \<or> pv_expiresAt ev < oldest then (k, pv_expiresAt ev) else (oldestID, oldest))"
  have fold_in: "fst (fold f xs b) \<in> fst ` set xs \<or> fst (fold f xs b) = fst b \<and> (xs = [] \<or> fst b \<noteq> [])" for xs b
  proof (induction xs arbitrary: b)
    case (Cons x xs)
    show ?case using Cons.IH [of "f x b"] by (cases x; cases b) (auto simp: f_def split: if_splits)
  qed simp
  have "sorted_list_of_fmap m \<noteq> []"
  proof
    assume "sorted_list_of_fmap m = []"
    then show False using assms by (simp add: sorted_list_of_fmap_def sorted_list_of_fset.rep_eq) (metis bot_fset.rep_eq fset_inject)
  qed
  then have "oldest_pending m \<in> fst ` set (sorted_list_of_fmap m)"
    using fold_in [of "sorted_list_of_fmap m" "([], 0)"] unfolding oldest_pending_def f_def by auto
  then show ?thesis by (auto simp: sorted_list_of_fmap_def sorted_list_of_fset.rep_eq)
qed

lemma pend_card:
  assumes "fcard (fmdom (iv_pendingEvents st)) \<le> 128"
  shows "fcard (fmdom (iv_pendingEvents (pend_event now p ev st))) \<le> 128"
proof -
  define m where "m = (if fcard (fmdom (iv_pendingEvents st)) \<ge> 128 then fmdrop (oldest_pending (iv_pendingEvents st)) (iv_pendingEvents st)
               else iv_pendingEvents st)"
  have "fcard (fmdom m) \<le> 127"
  proof (cases "fcard (fmdom (iv_pendingEvents st)) \<ge> 128")
    case True
    then have "fmdom (iv_pendingEvents st) \<noteq> {||}" by (auto simp: fcard.rep_eq)
    then show ?thesis using oldest_pending_dom [of "iv_pendingEvents st"] assms by (simp add: m_def True fcard_fminus_fsingleton)
  qed (simp add: m_def)
  moreover have "fcard (finsert p (fmdom m)) \<le> Suc (fcard (fmdom m))" by (simp add: fcard_finsert_if)
  ultimately show ?thesis by (simp add: pend_event_def Let_def m_def [symmetric])
qed

lemma pend_safe:
  assumes ok: "inventory_ok st" and "fmlookup (iv_agents st) p = None"
  shows "op_safe st (pend_event now p ev st)"
proof -
  have "pane_inv (pend_event now p ev st) q" for q
  proof -
    have "pane_inv st q" using ok by (simp add: inventory_ok_def)
    then show ?thesis using assms(2) by (cases "q = p") (auto simp: pend_event_def Let_def pane_inv_def split: option.splits)
  qed
  then show ?thesis using ok pend_card [of st now p ev]
    by (simp add: op_safe_def inventory_ok_def) (simp add: pend_event_def Let_def completion_moves_def generation_of_def)
qed

section \<open>All operations\<close>

lemma committed_safe: "inventory_committed base env agents st st' \<Longrightarrow> op_safe st st'"
  by (auto simp: inventory_committed_def op_safe_def completion_step_def completion_moves_def)

lemma commitInventory_safe: "inventory_ok st \<Longrightarrow> env_ok env \<Longrightarrow> op_safe st (commitInventoryLocked env sha agents base st)"
  by (rule committed_safe [OF commitInventory_facts])

lemma later_safe:
  assumes "inventory_ok st" and "same_panes st (st'\<lparr>iv_generation := iv_generation st, iv_finishedNotif := iv_finishedNotif st\<rparr>)"
    and "\<And>q. generation_of st q \<le> generation_of st' q" "\<And>q. iv_finishedNotif st q \<Longrightarrow> iv_finishedNotif st' q"
  shows "op_safe st st'"
proof -
  have "inventory_ok st'" by (rule later_ok [OF assms(1)]) (use assms(2) in \<open>simp_all add: same_panes_def\<close>)
  then show ?thesis using assms by (simp add: op_safe_def same_panes_def completion_moves_def)
qed

lemma step_safe:
  assumes ok: "inventory_ok st" and env: "op_env_ok op" and step: "inv_step lib op st = Some (st', out)"
  shows "op_safe st st'"
proof (cases op)
  case (OpInventory env agents base)
  then show ?thesis using step env op_safe_then_same [OF commitInventory_safe [OF ok] notify_same]
    by (auto simp: CommitInventory_def)
next
  case (OpTopology env agents ws base)
  obtain st1 changed where w: "commitWorkspacesLocked ws st = (st1, changed)" by fastforce
  define st2 where "st2 = (if changed then st1\<lparr>iv_topologyGen := iv_topologyGen st1 + 1\<rparr> else st1)"
  have s: "same_panes st st2" using workspaces_same [of st ws] by (simp add: w st2_def same_panes_def)
  obtain as where "st' = notifyInventory (commitInventoryLocked env (il_sha lib) as base st2)"
    using step by (auto simp: OpTopology CommitTopology_def w st2_def commitTopologyLocked_def Let_def)
  then show ?thesis using commitInventory_safe [of st2 env] same_panes_ok [OF s] ok env
    by (auto simp: OpTopology intro: op_safe_then_same [OF op_safe_after_same [OF s] notify_same])
next
  case (OpPoll env agents ws token)
  obtain st1 changed where w: "commitWorkspacesLocked ws st = (st1, changed)" by fastforce
  have s: "same_panes st st1" using workspaces_same [of st ws] by (simp add: w)
  have "op_safe st (notifyInventory (commitInventoryLocked env (il_sha lib) agents (pt_BaseRevision token) st1))"
    using commitInventory_safe [of st1 env] same_panes_ok [OF s] ok env
    by (auto simp: OpPoll intro: op_safe_then_same [OF op_safe_after_same [OF s] notify_same])
  moreover have "op_safe st (st\<lparr>iv_topologyRetries := iv_topologyRetries st + 1\<rparr>)" by (rule op_safe_same [OF ok]) (simp add: same_panes_def)
  ultimately show ?thesis using step by (auto simp: OpPoll CommitPoll_def w split: if_splits)
next
  case (OpEvent env p tab ws status t)
  then show ?thesis using step env pend_safe [OF ok] event_safe [OF ok] op_safe_same [OF ok]
    by (auto simp: CommitEventForSession_def split: option.splits if_splits)
next
  case (OpFinishedTransition p r)
  then show ?thesis using step op_safe_same [OF ok] later_safe [OF ok]
    by (auto simp: RegisterFinishedNotificationForTransition_def same_panes_def generation_of_def split: option.splits if_splits prod.splits)
next
  case (OpBumpGeneration p)
  then show ?thesis using step by (auto intro!: later_safe [OF ok] simp: same_panes_def)
qed (use step op_safe_same [OF ok] classification_safe [OF ok] acknowledge_safe [OF ok] workspaces_same [of st] later_safe [OF ok] in
      \<open>auto simp: CommitWorkspaces_def RegisterFinishedNotification_def RecordCustomAnswer_def MarkInventoryFailure_def MarkTopologyDegraded_def
        MarkTopologyChanged_def same_panes_def generation_of_def Let_def split: if_splits inventory_failure.splits\<close>)

lemma op_safe_refl: "inventory_ok st \<Longrightarrow> op_safe st st"
  by (simp add: op_safe_same)

lemma op_safe_trans: "op_safe a b \<Longrightarrow> op_safe b c \<Longrightarrow> op_safe a c"
  unfolding op_safe_def completion_moves_def by (smt (verit) order_trans order_le_less_trans)

lemma run_safe:
  "inventory_ok st \<Longrightarrow> list_all op_env_ok ops \<Longrightarrow> inv_run lib ops st = Some (st', out) \<Longrightarrow> op_safe st st'"
proof (induction ops arbitrary: st out)
  case (Cons op ops)
  then obtain st1 out1 out2 where s: "inv_step lib op st = Some (st1, out1)" "inv_run lib ops st1 = Some (st', out2)"
    by (auto split: option.splits)
  have "op_safe st st1" using step_safe [OF Cons.prems(1) _ s(1)] Cons.prems(2) by simp
  moreover have "op_safe st1 st'"
    by (rule Cons.IH [OF _ _ s(2)]) (use \<open>op_safe st st1\<close> Cons.prems(2) in \<open>simp_all add: op_safe_def\<close>)
  ultimately show ?case by (rule op_safe_trans)
qed (simp add: op_safe_refl)

lemma new_state_ok: "inventory_ok NewState"
  by (simp add: inventory_ok_def pane_inv_def NewState_def fcard.rep_eq)

section \<open>Announcements\<close>

text \<open>A completion that was announced, or is over, is not announced again.\<close>

definition announced :: "State \<Rightarrow> string \<Rightarrow> int \<Rightarrow> bool" where
  "announced st p r \<longleftrightarrow> r \<le> iv_revCounter st \<and> (iv_completionRev st p = r \<longrightarrow> iv_finishedNotif st p)"

lemma announced_stays: "op_safe st st' \<Longrightarrow> 0 < r \<Longrightarrow> announced st p r \<Longrightarrow> announced st' p r"
  unfolding op_safe_def completion_moves_def announced_def by (metis order.strict_trans1 order_trans less_irrefl order_less_le_trans)

lemma step_announces:
  assumes "inv_step lib op st = Some (st', out)" and "(p, r) \<in> set out"
  shows "out = [(p, r)] \<and> iv_completionRev st p = r \<and> \<not> iv_finishedNotif st p \<and> iv_completionRev st' p = r \<and> iv_finishedNotif st' p"
  using assms
  by (cases op) (auto simp: RegisterFinishedNotification_def RegisterFinishedNotificationForTransition_def split: option.splits if_splits prod.splits)

lemma completion_bound: "inventory_ok st \<Longrightarrow> iv_completionRev st p \<le> iv_revCounter st"
  by (simp add: inventory_ok_def pane_inv_def)

lemma run_announces:
  assumes "inventory_ok st" "list_all op_env_ok ops" "inv_run lib ops st = Some (st', out)" "0 < r"
  shows "count_list out (p, r) \<le> (if announced st p r then 0 else 1)"
  using assms
proof (induction ops arbitrary: st out)
  case (Cons op ops)
  then obtain st1 out1 out2 where s: "inv_step lib op st = Some (st1, out1)" "inv_run lib ops st1 = Some (st', out2)" "out = out1 @ out2"
    by (auto split: option.splits)
  have safe: "op_safe st st1" using step_safe [OF Cons.prems(1) _ s(1)] Cons.prems(2) by simp
  then have IH: "count_list out2 (p, r) \<le> (if announced st1 p r then 0 else 1)"
    using Cons.IH [OF _ _ s(2) Cons.prems(4)] Cons.prems(2) by (simp add: op_safe_def)
  show ?case
  proof (cases "(p, r) \<in> set out1")
    case True
    note f = step_announces [OF s(1) True]
    have "r \<le> iv_revCounter st1" "r \<le> iv_revCounter st"
      using f safe Cons.prems(1) completion_bound [of st p] completion_bound [of st1 p] by (auto simp: op_safe_def)
    then have "announced st1 p r" "\<not> announced st p r" using f by (auto simp: announced_def)
    then show ?thesis using f IH s(3) by simp
  next
    case False
    then show ?thesis using IH announced_stays [OF safe Cons.prems(4), of p] s(3) by (auto split: if_splits)
  qed
qed simp

section \<open>Polls and sessions\<close>

lemma poll_committed:
  assumes "inventory_ok st" "env_ok env" "CommitPoll env sha agents ws token st = (st', changed, True)"
  shows "inventory_committed (pt_BaseRevision token) env agents st st'"
proof -
  obtain st1 c where w: "commitWorkspacesLocked ws st = (st1, c)" by fastforce
  have s: "same_panes st st1" "iv_inventoryReady st1 = iv_inventoryReady st" using workspaces_same [of st ws] w
    by (auto simp: commitWorkspacesLocked_def Let_def split: if_splits)
  define st2 where "st2 = commitInventoryLocked env sha agents (pt_BaseRevision token) st1"
  have st': "st' = notifyInventory st2" using assms(3) by (simp add: CommitPoll_def w st2_def split: if_splits)
  have "inventory_committed (pt_BaseRevision token) env agents st1 st2"
    unfolding st2_def by (rule commitInventory_facts [OF _ assms(2)]) (use same_panes_ok [OF s(1)] assms(1) in simp)
  moreover have "same_panes st2 st'" unfolding st' by (rule notify_same)
  ultimately show ?thesis using s same_panes_ok [OF \<open>same_panes st2 st'\<close>]
    unfolding inventory_committed_def
    by (simp add: same_panes_def generation_of_def completion_step_def pane_committed_def waiting_event_def carry_status_def session_ends_def Let_def
        cong: option.case_cong if_cong)
qed

section \<open>The inventory as a fence for sessions\<close>

text \<open>Generations stay below the range of a signed 64-bit counter.\<close>

definition session_ended :: "State \<Rightarrow> string \<Rightarrow> u64 \<Rightarrow> bool" where
  "session_ended st p g \<longleftrightarrow> uint g < generation_of st p \<and> generation_of st p < 2 ^ 63"

definition state_later :: "State \<Rightarrow> State \<Rightarrow> bool" where
  "state_later st st' \<longleftrightarrow> (\<forall>p. generation_of st p \<le> generation_of st' p \<and> generation_of st' p < 2 ^ 63)"

lemma generation_word: "0 \<le> n \<Longrightarrow> n < 2 ^ 63 \<Longrightarrow> uint (word_of_int n :: u64) = n"
  by (simp add: uint_word_of_int take_bit_int_eq_self)

interpretation inventory_fence: session_fence PaneSessionCurrent session_ended state_later
proof
  show "\<not> PaneSessionCurrent s p g" if "session_ended s p g" for s p g
    using that generation_word [of "generation_of s p"] uint_ge_0 [of g] by (auto simp: session_ended_def PaneSessionCurrent_def)
  show "session_ended s' p g" if "session_ended s p g" "state_later s s'" for s s' p g
    using that by (auto simp: session_ended_def state_later_def intro: order_less_le_trans)
qed

lemma new_generation: "generation_of NewState p = 0"
  by (simp add: NewState_def generation_of_def)

lemma reachable:
  assumes "list_all op_env_ok ops" "inv_run lib ops NewState = Some (st, out)"
  shows "inventory_ok st" "0 \<le> generation_of st p"
proof -
  have "op_safe NewState st" by (rule run_safe [OF new_state_ok assms])
  then show "inventory_ok st" "0 \<le> generation_of st p" using new_generation [of p] unfolding op_safe_def by (blast, metis)
qed

text \<open>Whether an inventory goes on with the session of a pane.\<close>

definition session_kept :: "AgentState list \<Rightarrow> AgentState \<Rightarrow> bool" where
  "session_kept agents e \<longleftrightarrow> (\<exists>a\<in>set agents. ag_PaneID a = ag_PaneID e \<and> \<not> paneSessionReplaced e a \<and> ag_SessionID a = ag_SessionID e)"

lemma poll_generation:
  assumes "inventory_ok st" "env_ok env" "CommitPoll env sha agents ws token st = (st', changed, True)"
    and "distinct (map ag_PaneID agents)" "fmlookup (iv_agents st) p = Some e"
  shows "if session_kept agents e then generation_of st' p = generation_of st p \<and> p |\<in>| fmdom (iv_agents st')
         else generation_of st p < generation_of st' p"
proof -
  note c = poll_committed [OF assms(1-3), unfolded inventory_committed_def]
  have e: "ag_PaneID e = p" using assms(1,5) by (auto simp: inventory_ok_def pane_inv_def split: option.splits)
  show ?thesis
  proof (cases "p \<in> ag_PaneID ` set agents")
    case True
    then obtain a where a: "a \<in> set agents" "ag_PaneID a = p" by auto
    have only: "b = a" if "b \<in> set agents" "ag_PaneID b = p" for b
      using a that assms(4) by (auto simp: distinct_map inj_on_def)
    have "pane_committed (\<not> iv_inventoryReady st) (pt_BaseRevision token) env a (st\<lparr>iv_revCounter := iv_revCounter st + 1\<rparr>) st'"
      using c a(1) assms(4) by blast
    then have "generation_of st' p = generation_of st p + (if paneSessionReplaced e a \<or> ag_SessionID e \<noteq> ag_SessionID a then 1 else 0)"
      "fmlookup (iv_agents st') p \<noteq> None"
      unfolding pane_committed_def Let_def a(2) session_ends_def by (simp add: assms(5) generation_of_def, blast)
    moreover have "session_kept agents e \<longleftrightarrow> \<not> paneSessionReplaced e a \<and> ag_SessionID a = ag_SessionID e"
      unfolding session_kept_def e using a only by metis
    ultimately show ?thesis by (auto simp: fmlookup_dom_iff)
  next
    case False
    then have "generation_of st p < generation_of st' p" using c assms(5) by blast
    moreover have "\<not> session_kept agents e" unfolding session_kept_def e using False by (metis image_eqI)
    ultimately show ?thesis by simp
  qed
qed

lemma poll_session_ended:
  assumes "list_all op_env_ok ops" "inv_run lib ops NewState = Some (st, out)" "env_ok env"
    and "PaneSessionCurrent st p g" "fmlookup (iv_agents st) p = Some e"
    and "CommitPoll env sha agents ws token st = (st1, changed, True)" "distinct (map ag_PaneID agents)"
    and "list_all op_env_ok ops'" "inv_run lib ops' st1 = Some (st2, out')" "\<forall>q. generation_of st2 q < 2 ^ 63"
    and "\<not> session_kept agents e"
  shows "session_ended st1 p g \<and> state_later st1 st2"
proof -
  note ok = reachable [OF assms(1,2)]
  have s1: "op_safe st st1" by (rule committed_safe [OF poll_committed [OF ok(1) assms(3,6)]])
  have "inventory_ok st1" using s1 by (simp add: op_safe_def)
  then have s2: "op_safe st1 st2" by (rule run_safe [OF _ assms(8,9)])
  have le: "generation_of st q \<le> generation_of st1 q" "generation_of st1 q \<le> generation_of st2 q" for q
    using s1 s2 by (simp_all add: op_safe_def)
  have up: "generation_of st p < generation_of st1 p"
    using poll_generation [OF ok(1) assms(3,6,7,5)] assms(11) by simp
  have "generation_of st1 p < 2 ^ 63" using le [of p] assms(10) by (meson order_le_less_trans)
  moreover have "uint g = generation_of st p"
    using assms(4) generation_word [of "generation_of st p"] ok(2) up calculation by (auto simp: PaneSessionCurrent_def)
  ultimately show ?thesis using up le assms(10) by (simp add: session_ended_def state_later_def)
qed

text \<open>An event sets the status of the pane and gives it a new revision.\<close>

lemma commit_event_fields:
  assumes "inventory_ok st" "env_ok env" "fmlookup (iv_agents st) p = Some agent"
  shows "iv_revCounter (commit_event env sha p status t agent st) = iv_revCounter st + 1
    \<and> iv_revision (commit_event env sha p status t agent st) p = iv_revCounter st + 1
    \<and> (\<exists>a. fmlookup (iv_agents (commit_event env sha p status t agent st)) p = Some a \<and> ag_Status a = status)"
proof -
  obtain a st1 where c: "event_stored p status a st st1" "cycle_step p st1 (commit_event env sha p status t agent st)"
    using event_cycle [OF assms] by blast
  then show ?thesis using cycle_fields [OF c(2)] by (simp add: event_stored_def)
qed

lemma polled_status:
  assumes ok: "inventory_ok st" and env: "env_ok env" and poll: "CommitPoll env sha agents ws token st = (st', changed, True)"
    and a: "distinct (map ag_PaneID agents)" "a \<in> set agents" "ag_PaneID a = p"
    and e: "fmlookup (iv_agents st) p = Some e" "\<not> paneSessionReplaced e a"
  shows "map_option ag_Status (fmlookup (iv_agents st') p) = Some (if pt_BaseRevision token < iv_revision st p then ag_Status e else ag_Status a)"
proof -
  have none: "fmlookup (iv_pendingEvents st) p = None" using ok e(1) by (auto simp: inventory_ok_def pane_inv_def split: option.splits)
  have "pane_committed (\<not> iv_inventoryReady st) (pt_BaseRevision token) env a (st\<lparr>iv_revCounter := iv_revCounter st + 1\<rparr>) st'"
    using poll_committed [OF ok env poll] a(1,2) by (simp add: inventory_committed_def)
  then show ?thesis using none e(2)
    by (auto simp: pane_committed_def Let_def a(3) e(1) kept_agent_def waiting_event_def apply_waiting_def carry_status_def copyBlockedDetails_def)
qed

text \<open>A snapshot.\<close>

lemma publish_facts:
  assumes "\<not> (iv_unseenDone st (ag_PaneID a) \<and> iv_ackDone st (ag_PaneID a))" "fmlookup (iv_agents st) (ag_PaneID a) = Some a"
  shows "ag_PaneID (publish_agent st a) = ag_PaneID a" "ag_Status (publish_agent st a) = DisplayedStatus st (ag_PaneID a)"
    "ag_Generation (publish_agent st a) = generation_of st (ag_PaneID a)" "ag_StateRevision (publish_agent st a) = iv_revision st (ag_PaneID a)"
  using assms by (auto simp: publish_agent_def DisplayedStatus_def Let_def)

lemma snapshot_facts:
  assumes ok: "inventory_ok st"
  shows "sorted (map ag_PaneID (snapshotLocked st)) \<and> distinct (map ag_PaneID (snapshotLocked st))
    \<and> ag_PaneID ` set (snapshotLocked st) = fset (fmdom (iv_agents st))
    \<and> (\<forall>a\<in>set (snapshotLocked st). ag_Status a = DisplayedStatus st (ag_PaneID a) \<and> ag_Generation a = generation_of st (ag_PaneID a)
         \<and> ag_StateRevision a = iv_revision st (ag_PaneID a))"
proof -
  have a: "ag_PaneID a = k \<and> \<not> (iv_unseenDone st (ag_PaneID a) \<and> iv_ackDone st (ag_PaneID a))" if "fmlookup (iv_agents st) k = Some a" for a k
    using ok that by (auto simp: inventory_ok_def pane_inv_def split: option.splits)
  have pub: "ag_PaneID (publish_agent st v) = ag_PaneID v" for v by (simp add: publish_agent_def Let_def)
  have "map ag_PaneID (map (publish_agent st) (fm_values (iv_agents st))) = sorted_list_of_fset (fmdom (iv_agents st))"
    unfolding fm_values_def sorted_list_of_fmap_def using a
    by (auto simp: pub fmlookup_dom_iff sorted_list_of_fset.rep_eq intro!: map_idI)
  note keys = this
  have "mset (map ag_PaneID (snapshotLocked st)) = mset (sorted_list_of_fset (fmdom (iv_agents st)))"
    unfolding keys [symmetric] by (simp add: snapshotLocked_def multiset.map_comp)
  then have "distinct (map ag_PaneID (snapshotLocked st)) \<and> set (map ag_PaneID (snapshotLocked st)) = fset (fmdom (iv_agents st))"
    by (metis mset_eq_imp_distinct_iff mset_eq_setD sorted_list_of_fset.rep_eq distinct_sorted_list_of_set set_sorted_list_of_set finite_fset)
  moreover have "sorted (map ag_PaneID (snapshotLocked st))" by (simp add: snapshotLocked_def)
  moreover have "\<exists>v. x = publish_agent st v \<and> fmlookup (iv_agents st) (ag_PaneID v) = Some v \<and> \<not> (iv_unseenDone st (ag_PaneID v) \<and> iv_ackDone st (ag_PaneID v))"
    if "x \<in> set (snapshotLocked st)" for x
    using that a by (fastforce simp: snapshotLocked_def set_fm_values)
  ultimately show ?thesis using publish_facts by fastforce
qed
section \<open>Properties of runs\<close>

text \<open>C10: in every state an inventory can reach, whatever polls, events, classifications and
  acknowledgements it was given, the panes are consistent: a stored agent carries its own pane, has an event and an attention kind
  exactly while it is blocked and no waiting event; a pane that is gone keeps no mark; no completion is both seen and unseen; revisions
  are not ahead of the counter; and at most 128 events wait.\<close>

theorem inventory_invariant:
  assumes "list_all op_env_ok ops" "inv_run lib ops NewState = Some (st, out)"
  shows "inventory_ok st"
  by (rule reachable(1) [OF assms])

text \<open>C13: over any run, the completion of a pane at a revision is announced at most once.\<close>

theorem finished_once:
  assumes "list_all op_env_ok ops" "inv_run lib ops NewState = Some (st, out)" "0 < r"
  shows "count_list out (p, r) \<le> 1"
  using run_announces [OF new_state_ok assms, of p] by (simp split: if_splits)

text \<open>C12: a poll that began before an event cannot take back the status of the event, and one that
  begins after it decides the status.\<close>

theorem event_beats_older_poll:
  assumes "list_all op_env_ok ops" "inv_run lib ops NewState = Some (st0, out)"
    and "list_all op_env_ok during" "inv_run lib during st0 = Some (st1, out')"
    and "env_ok env" "env_ok env'"
    and event: "CommitEventForSession env sha p tab ws status t st1 = (st2, True)"
    and listed: "distinct (map ag_PaneID agents)" "a \<in> set agents" "ag_PaneID a = p"
    and same: "fmlookup (iv_agents st2) p = Some e" "\<not> paneSessionReplaced e a"
  shows "(\<forall>st3 changed. CommitPoll env' sha agents wss (BeginPoll st0) st2 = (st3, changed, True) \<longrightarrow>
            map_option ag_Status (fmlookup (iv_agents st3) p) = Some status)
    \<and> (\<exists>st3 changed. CommitPoll env' sha agents wss (BeginPoll st2) st2 = (st3, changed, True)
          \<and> map_option ag_Status (fmlookup (iv_agents st3) p) = Some (ag_Status a))"
proof -
  have ok0: "inventory_ok st0" by (rule reachable(1) [OF assms(1,2)])
  have s01: "op_safe st0 st1" by (rule run_safe [OF ok0 assms(3,4)])
  have ok1: "inventory_ok st1" using s01 by (simp add: op_safe_def)
  obtain agent where agent: "fmlookup (iv_agents st1) p = Some agent" "st2 = commit_event env sha p status t agent st1"
    using event by (auto simp: CommitEventForSession_def split: option.splits if_splits)
  have ok2: "inventory_ok st2" using event_safe [OF ok1 assms(5) agent(1), of sha status t] by (simp add: agent(2) op_safe_def)
  note f = commit_event_fields [OF ok1 assms(5) agent(1), of sha status t, folded agent(2)]
  have base: "pt_BaseRevision (BeginPoll st0) < iv_revision st2 p" "pt_BaseRevision (BeginPoll st2) = iv_revision st2 p"
    using s01 f by (simp_all add: BeginPoll_def op_safe_def)
  have polled: "map_option ag_Status (fmlookup (iv_agents st3) p) = Some (if pt_BaseRevision token < iv_revision st2 p then ag_Status e else ag_Status a)"
    if "CommitPoll env' sha agents wss token st2 = (st3, changed, True)" for token st3 changed
    by (rule polled_status [OF ok2 assms(6) that listed same])
  obtain st3 changed where "CommitPoll env' sha agents wss (BeginPoll st2) st2 = (st3, changed, True)"
    by (cases "commitWorkspacesLocked wss st2") (simp add: CommitPoll_def BeginPoll_def)
  then show ?thesis using polled base f same(1) by fastforce
qed

text \<open>C11: a poll ends the session of a pane exactly when it does not list the pane with the same
  identity and agent session, and the generation of a session that ended is never current again.\<close>

theorem session_ends_for_good:
  assumes "list_all op_env_ok ops" "inv_run lib ops NewState = Some (st, out)" "env_ok env"
    and "PaneSessionCurrent st p g" "fmlookup (iv_agents st) p = Some e"
    and "CommitPoll env sha agents ws token st = (st1, changed, True)" "distinct (map ag_PaneID agents)"
    and "list_all op_env_ok ops'" "inv_run lib ops' st1 = Some (st2, out')" "\<forall>q. generation_of st2 q < 2 ^ 63"
  shows "(PaneSessionCurrent st1 p g \<longleftrightarrow> session_kept agents e) \<and> (\<not> session_kept agents e \<longrightarrow> \<not> PaneSessionCurrent st2 p g)"
proof -
  note e = poll_session_ended [OF assms(1-10)]
  show ?thesis
  proof (cases "session_kept agents e")
    case True
    then show ?thesis using poll_generation [OF reachable(1) [OF assms(1,2)] assms(3,6,7,5)] assms(4) by (simp add: PaneSessionCurrent_def)
  next
    case False
    then show ?thesis using e inventory_fence.ended_not_current inventory_fence.ended_for_good by blast
  qed
qed

text \<open>a snapshot lists every agent once, in the order of the panes, with the generation and
  revision of its pane and the status that is displayed for it.\<close>

theorem snapshot_faithful:
  assumes "list_all op_env_ok ops" "inv_run lib ops NewState = Some (st, out)"
  shows "sorted (map ag_PaneID (snapshotLocked st)) \<and> distinct (map ag_PaneID (snapshotLocked st))
    \<and> ag_PaneID ` set (snapshotLocked st) = fset (fmdom (iv_agents st))
    \<and> (\<forall>a\<in>set (snapshotLocked st). ag_Status a = DisplayedStatus st (ag_PaneID a) \<and> ag_Generation a = generation_of st (ag_PaneID a)
         \<and> ag_StateRevision a = iv_revision st (ag_PaneID a))"
  using snapshot_facts [OF reachable(1) [OF assms]] by blast

text \<open>C14: a pane that comes back starts a new session only if the last poll succeeded: after a
  failed one it keeps the generation that was current during its absence.\<close>

theorem reappearance_generation:
  assumes "list_all op_env_ok ops" "inv_run lib ops NewState = Some (st, out)" "env_ok env"
    and "fmlookup (iv_agents st) p = None" "CommitPoll env sha agents ws token st = (st', changed, True)"
    and "distinct (map ag_PaneID agents)" "p \<in> ag_PaneID ` set agents"
  shows "generation_of st' p = generation_of st p + (if iv_inventoryReady st \<and> generation_of st p > 0 then 1 else 0)
    \<and> p |\<in>| fmdom (iv_agents st')"
proof -
  obtain a where a: "a \<in> set agents" "ag_PaneID a = p" using assms(7) by auto
  have "pane_committed (\<not> iv_inventoryReady st) (pt_BaseRevision token) env a (st\<lparr>iv_revCounter := iv_revCounter st + 1\<rparr>) st'"
    using poll_committed [OF reachable(1) [OF assms(1,2)] assms(3,5)] a(1) assms(6) by (simp add: inventory_committed_def)
  then show ?thesis using a(2) assms(4) by (auto simp: pane_committed_def Let_def session_ends_def generation_of_def fmlookup_dom_iff)
qed

section \<open>Witnesses\<close>

definition demo_commit_env :: commit_env where
  "demo_commit_env = \<lparr>ce_start = 0, ce_pending = (\<lambda>_. 0), ce_millis = (\<lambda>_. 5), ce_random = (\<lambda>_. Some (replicate 12 7)), ce_nano = (\<lambda>_. 0),
     ce_end = 0, ce_persist = 0, ce_written = True\<rparr>"

definition demo_lib :: inv_lib where
  "demo_lib = \<lparr>il_sha = (\<lambda>s. s), il_digest = (\<lambda>source prompt command options. prompt), il_summaryKey = (\<lambda>s. s)\<rparr>"

definition demo_agent :: "string \<Rightarrow> string \<Rightarrow> string \<Rightarrow> AgentState" where
  "demo_agent p status session = \<lparr>ag_PaneID = p, ag_RawPaneID = p, ag_TerminalID = [], ag_ServerSessionID = [], ag_Generation = 0,
     ag_AgentSessionID = [], ag_TabID = [], ag_TabLabel = [], ag_TabNumber = 0, ag_TabOrder = 0, ag_WorkspaceID = [], ag_Agent = [], ag_Name = [],
     ag_Status = status, ag_Focused = False, ag_Cwd = [], ag_Project = [], ag_Host = [], ag_Session = [], ag_SessionName = [], ag_UpdatedAt = 0,
     ag_LastActiveAt = 0, ag_LastSeenAt = 0, ag_ActivitySeq = 0, ag_blocked = no_details, ag_SessionID = session, ag_SessionKind = [],
     ag_ConversationProcess = [], ag_ConversationSource = [], ag_ConversationInferred = False, ag_ConversationInferredOwner = [],
     ag_ConversationReason = [], ag_ConversationHistoryAvailable = False, ag_PaneRevision = 0, ag_StateRevision = 0, ag_ScrollMaxOffset = 0,
     ag_ForegroundCwd = []\<rparr>"

definition demo_poll :: "AgentState list \<Rightarrow> int \<Rightarrow> inv_op" where
  "demo_poll agents gen = OpPoll demo_commit_env agents [] \<lparr>pt_BaseRevision = 9, pt_TopologyGeneration = gen\<rparr>"

definition demo_work :: "inv_op list" where
  "demo_work = [demo_poll [demo_agent ''p'' ''working'' ''s'', demo_agent ''q'' ''blocked'' []] 0, OpEvent demo_commit_env ''p'' [] [] ''done'' 3,
     OpFinishedTransition ''p'' 2, OpFinishedTransition ''p'' 2, OpEvent demo_commit_env ''r'' [] [] ''idle'' 3, OpAcknowledge demo_commit_env ''p'']"

definition demo_state :: "inv_op list \<Rightarrow> State" where
  "demo_state ops = fst (the (inv_run demo_lib ops NewState))"

definition demo_out :: "inv_op list \<Rightarrow> (string \<times> int) list" where
  "demo_out ops = snd (the (inv_run demo_lib ops NewState))"

lemma demo_envs_ok: "env_ok demo_commit_env" "list_all op_env_ok demo_work" "op_env_ok (demo_poll agents gen)"
  by (simp_all add: env_ok_def demo_commit_env_def demo_work_def demo_poll_def)

lemma demo_run: "inv_run demo_lib ops NewState \<noteq> None \<Longrightarrow> inv_run demo_lib ops NewState = Some (demo_state ops, demo_out ops)"
  by (auto simp: demo_state_def demo_out_def)

lemma demo_work_runs: "inv_run demo_lib demo_work NewState \<noteq> None"
  by code_simp
lemma demo_work_out: "demo_out demo_work = [(''p'', 2)]"
  by code_simp
lemma demo_work_shown: "map (\<lambda>a. (ag_PaneID a, ag_Status a)) (snapshotLocked (demo_state demo_work)) = [(''p'', ''idle''), (''q'', ''blocked'')]"
  by code_simp

theorem inventory_invariant_witness: "inventory_ok (demo_state demo_work) \<and> demo_out demo_work = [(''p'', 2)]"
  using inventory_invariant [OF demo_envs_ok(2) demo_run [OF demo_work_runs]] demo_work_out by simp

theorem finished_once_witness: "count_list (demo_out demo_work) (''p'', 2) \<le> 1 \<and> demo_out demo_work = [(''p'', 2)]"
  using finished_once [OF demo_envs_ok(2) demo_run [OF demo_work_runs], of 2 "''p''"] demo_work_out by simp

theorem snapshot_faithful_witness:
  "map (\<lambda>a. (ag_PaneID a, ag_Status a)) (snapshotLocked (demo_state demo_work)) = [(''p'', ''idle''), (''q'', ''blocked'')]
   \<and> sorted (map ag_PaneID (snapshotLocked (demo_state demo_work)))"
  using snapshot_faithful [OF demo_envs_ok(2) demo_run [OF demo_work_runs]] demo_work_shown by blast

definition demo_first :: "inv_op list" where
  "demo_first = [demo_poll [demo_agent ''p'' ''working'' ''s''] 0]"

definition demo_status_event :: "State \<times> bool" where
  "demo_status_event = CommitEventForSession demo_commit_env (\<lambda>s. s) ''p'' [] [] ''done'' 3 (demo_state demo_first)"

lemma demo_first_run: "list_all op_env_ok demo_first" "inv_run demo_lib demo_first NewState = Some (demo_state demo_first, demo_out demo_first)"
proof -
  show "list_all op_env_ok demo_first" by (simp add: demo_first_def demo_envs_ok)
  have "inv_run demo_lib demo_first NewState \<noteq> None" by code_simp
  then show "inv_run demo_lib demo_first NewState = Some (demo_state demo_first, demo_out demo_first)" by (rule demo_run)
qed

definition demo_after :: "AgentState" where
  "demo_after = the (fmlookup (iv_agents (fst demo_status_event)) ''p'')"

theorem event_beats_older_poll_witness:
  "map_option ag_Status (fmlookup (iv_agents (fst (CommitPoll demo_commit_env (\<lambda>s. s) [demo_agent ''p'' ''working'' ''s''] []
       (BeginPoll (demo_state demo_first)) (fst demo_status_event)))) ''p'') = Some ''done''"
proof -
  have 1: "snd (snd (CommitPoll demo_commit_env (\<lambda>s. s) [demo_agent ''p'' ''working'' ''s''] [] (BeginPoll (demo_state demo_first)) (fst demo_status_event)))"
    by code_simp
  have e: "snd demo_status_event" "fmlookup (iv_agents (fst demo_status_event)) ''p'' = Some demo_after"
    "\<not> paneSessionReplaced demo_after (demo_agent ''p'' ''working'' ''s'')"
    by code_simp+
  have event: "CommitEventForSession demo_commit_env (\<lambda>s. s) ''p'' [] [] ''done'' 3 (demo_state demo_first) = (fst demo_status_event, True)"
    using e(1) by (simp add: demo_status_event_def prod_eq_iff)
  obtain st3 c where poll: "CommitPoll demo_commit_env (\<lambda>s. s) [demo_agent ''p'' ''working'' ''s''] [] (BeginPoll (demo_state demo_first)) (fst demo_status_event) = (st3, c, True)"
    using 1 by (cases "CommitPoll demo_commit_env (\<lambda>s. s) [demo_agent ''p'' ''working'' ''s''] [] (BeginPoll (demo_state demo_first)) (fst demo_status_event)") auto
  have "map_option ag_Status (fmlookup (iv_agents st3) ''p'') = Some ''done''"
    using event_beats_older_poll [where during = "[]" and agents = "[demo_agent ''p'' ''working'' ''s'']" and wss = "[]",
        OF demo_first_run _ _ demo_envs_ok(1) demo_envs_ok(1) event _ _ _ e(2,3)] poll
    by (simp add: demo_agent_def)
  then show ?thesis by (simp add: poll)
qed

text \<open>A poll that finds another agent session in the pane.\<close>

definition demo_replaced :: State where
  "demo_replaced = fst (CommitPoll demo_commit_env (\<lambda>s. s) [demo_agent ''p'' ''working'' ''t''] [] \<lparr>pt_BaseRevision = 9, pt_TopologyGeneration = 1\<rparr>
     (demo_state demo_first))"

definition demo_agent_p :: AgentState where
  "demo_agent_p = the (fmlookup (iv_agents (demo_state demo_first)) ''p'')"

lemma demo_replaced_facts: "PaneSessionCurrent (demo_state demo_first) ''p'' 0" "fmlookup (iv_agents (demo_state demo_first)) ''p'' = Some demo_agent_p"
    "CommitPoll demo_commit_env (\<lambda>s. s) [demo_agent ''p'' ''working'' ''t''] [] \<lparr>pt_BaseRevision = 9, pt_TopologyGeneration = 1\<rparr>
       (demo_state demo_first) = (demo_replaced, False, True)"
    "\<not> session_kept [demo_agent ''p'' ''working'' ''t''] demo_agent_p" "\<forall>q. generation_of demo_replaced q < 2 ^ 63"
proof -
  show "PaneSessionCurrent (demo_state demo_first) ''p'' 0" by code_simp
  show "fmlookup (iv_agents (demo_state demo_first)) ''p'' = Some demo_agent_p" by code_simp
  have "snd (CommitPoll demo_commit_env (\<lambda>s. s) [demo_agent ''p'' ''working'' ''t''] [] \<lparr>pt_BaseRevision = 9, pt_TopologyGeneration = 1\<rparr>
       (demo_state demo_first)) = (False, True)" by code_simp
  then show "CommitPoll demo_commit_env (\<lambda>s. s) [demo_agent ''p'' ''working'' ''t''] [] \<lparr>pt_BaseRevision = 9, pt_TopologyGeneration = 1\<rparr>
       (demo_state demo_first) = (demo_replaced, False, True)" by (simp add: demo_replaced_def prod_eq_iff)
  show "\<not> session_kept [demo_agent ''p'' ''working'' ''t''] demo_agent_p" by code_simp
  have "iv_generation demo_replaced = fmap_of_list [(''p'', 1)]" by code_simp
  then show "\<forall>q. generation_of demo_replaced q < 2 ^ 63" by (simp add: generation_of_def fmlookup_of_list)
qed

theorem session_ends_for_good_witness: "\<not> PaneSessionCurrent demo_replaced ''p'' 0 \<and> PaneSessionCurrent (demo_state demo_first) ''p'' 0"
  using session_ends_for_good [OF demo_first_run demo_envs_ok(1) demo_replaced_facts(1-3) _ _ _ demo_replaced_facts(5), where ops' = "[]"]
    demo_replaced_facts(1,4) by simp

text \<open>A pane that vanishes, a failed poll, and a pane of the same name.\<close>

definition demo_absent :: "inv_op list" where
  "demo_absent = [demo_poll [demo_agent ''p'' ''working'' ''s''] 0, demo_poll [] 1, OpFailure 0 CommandFailed]"

definition demo_back :: State where
  "demo_back = fst (CommitPoll demo_commit_env (\<lambda>s. s) [demo_agent ''p'' ''working'' ''t''] [] \<lparr>pt_BaseRevision = 9, pt_TopologyGeneration = 2\<rparr>
     (demo_state demo_absent))"

theorem reappearance_generation_witness:
  "generation_of (demo_state demo_absent) ''p'' = 1 \<and> generation_of demo_back ''p'' = 1 \<and> PaneSessionCurrent demo_back ''p'' 1"
proof -
  have "inv_run demo_lib demo_absent NewState \<noteq> None" by code_simp
  note run = demo_run [OF this]
  have envs: "list_all op_env_ok demo_absent" by (simp add: demo_absent_def demo_envs_ok)
  have g: "generation_of (demo_state demo_absent) ''p'' = 1" "fmlookup (iv_agents (demo_state demo_absent)) ''p'' = None" "iv_inventoryReady (demo_state demo_absent) = False"
    by code_simp+
  have "snd (CommitPoll demo_commit_env (\<lambda>s. s) [demo_agent ''p'' ''working'' ''t''] [] \<lparr>pt_BaseRevision = 9, pt_TopologyGeneration = 2\<rparr>
     (demo_state demo_absent)) = (False, True)" by code_simp
  then have poll: "CommitPoll demo_commit_env (\<lambda>s. s) [demo_agent ''p'' ''working'' ''t''] [] \<lparr>pt_BaseRevision = 9, pt_TopologyGeneration = 2\<rparr>
     (demo_state demo_absent) = (demo_back, False, True)" by (simp add: demo_back_def prod_eq_iff)
  have "generation_of demo_back ''p'' = generation_of (demo_state demo_absent) ''p'' \<and> ''p'' |\<in>| fmdom (iv_agents demo_back)"
    using reappearance_generation [OF envs run demo_envs_ok(1) g(2) poll] g(3) by (simp add: demo_agent_def)
  then show ?thesis using g(1) by (simp add: PaneSessionCurrent_def)
qed

end
