(* ===== verification/Activity.thy ===== *)
theory Activity
  imports Prelude GoLib FMaps
begin

text \<open>
  The activity journal (\<^verbatim>\<open>activity/journal.go\<close>, \<^verbatim>\<open>activity/worker.go\<close>): a bounded list of receipts kept
  in memory and in a file of JSON lines, with a second file of tombstones that makes removals
  survive a crash. Every operation yields the contents the two files take one after the other, so
  that a crash is a stop at one of them. \<^verbatim>\<open>json.Marshal\<close> and \<^verbatim>\<open>json.Unmarshal\<close> of an entry are
  parameters.
\<close>

section \<open>Entries\<close>

definition maxItems :: nat where "maxItems = 500"
definition maxBytes :: nat where "maxBytes = 2 * 1024 * 1024"
definition maxExtractChars :: nat where "maxExtractChars = 100000"

text \<open>The details of an entry are its JSON text.\<close>

record Entry =
  en_ID :: string
  en_Timestamp :: int
  en_Kind :: string
  en_Status :: string
  en_Summary :: string
  en_Host :: string
  en_PaneID :: string
  en_Agent :: string
  en_Project :: string
  en_RequestID :: string
  en_Extract :: string
  en_Session :: string
  en_Details :: string

record journal_codec =
  jc_marshal :: "Entry \<Rightarrow> string option"
  jc_unmarshal :: "string \<Rightarrow> Entry option"

definition NewEntry :: "nat \<Rightarrow> int \<Rightarrow> nat \<Rightarrow> string \<Rightarrow> string \<Rightarrow> string \<Rightarrow> string \<Rightarrow> string \<Rightarrow> string \<Rightarrow> string \<Rightarrow> Entry" where
  "NewEntry nano millis sequence kind status summary paneID agent project requestID =
     \<lparr>en_ID = FormatUint nano @ ''-'' @ FormatUint sequence @ ''-'' @ paneID, en_Timestamp = millis, en_Kind = kind, en_Status = status,
      en_Summary = summary, en_Host = [], en_PaneID = paneID, en_Agent = agent, en_Project = project, en_RequestID = requestID,
      en_Extract = [], en_Session = [], en_Details = []\<rparr>"

text \<open>A rune of a string as it is written back: a byte that is not UTF-8 becomes the replacement character.\<close>

definition rune_text :: "nat \<times> string \<Rightarrow> string" where
  "rune_text seg = (case seg of (r, s) \<Rightarrow> if r = RuneError \<and> length s = 1 then [CHR 0xEF, CHR 0xBF, CHR 0xBD] else s)"

definition NormalizeEntry :: "Entry \<Rightarrow> Entry" where
  "NormalizeEntry entry =
     (let runes = utf8_segs (en_Extract entry) in
      if length runes > maxExtractChars then entry\<lparr>en_Extract := concat (map rune_text (take maxExtractChars runes))\<rparr> else entry)"

definition encodeEntry :: "journal_codec \<Rightarrow> Entry \<Rightarrow> string option" where
  "encodeEntry codec entry = map_option (\<lambda>data. data @ [CHR 0x0A]) (jc_marshal codec entry)"

section \<open>Files\<close>

record journal_disk =
  jd_journal :: "string option"
  jd_tombstones :: "string option"

text \<open>An append can be refused before the file is written, or reach it with only some bytes of the line.\<close>

datatype append_fault = Appended | AppendRefused | AppendTorn nat

record journal_faults =
  jf_readTombstones :: bool
  jf_readJournal :: bool
  jf_prepare :: write_fault
  jf_compact :: write_fault
  jf_restore :: write_fault
  jf_append :: append_fault

datatype journal_error = TombstonesUnreadable | JournalUnreadable | JournalOversized | ScanFailed | EncodeFailed | EntryTooLarge
  | TombstonesFailed | CompactFailed | AppendFailed

record Journal =
  jl_entries :: "Entry list"
  jl_bytes :: int

text \<open>\<^verbatim>\<open>bufio.ScanLines\<close>: the lines of a file, and the scanner's limit on the length of one.\<close>

fun raw_lines :: "string \<Rightarrow> string list" where
  "raw_lines [] = []"
| "raw_lines (c # cs) = (if c = CHR 0x0A then [] # raw_lines cs else case raw_lines cs of [] \<Rightarrow> [[c]] | l # ls \<Rightarrow> (c # l) # ls)"

text \<open>The lines after a line feed start anew: \<open>raw_lines\<close> joins a character only with the line it is in.\<close>

definition dropCR :: "string \<Rightarrow> string" where
  "dropCR l = (if l \<noteq> [] \<and> last l = CHR 0x0D then butlast l else l)"

definition scan_lines :: "nat \<Rightarrow> string \<Rightarrow> string list option" where
  "scan_lines limit s = (let ls = raw_lines s in if \<exists>l\<in>set ls. limit \<le> length l then None else Some (map dropCR ls))"

definition loadTombstones :: "bool \<Rightarrow> journal_disk \<Rightarrow> journal_error + string fset" where
  "loadTombstones unreadable disk =
     (case jd_tombstones disk of
        None \<Rightarrow> Inr {||}
      | Some s \<Rightarrow>
          if unreadable then Inl TombstonesUnreadable
          else if length s > maxBytes then Inl JournalOversized
          else case scan_lines maxBytes s of
                 None \<Rightarrow> Inl ScanFailed
               | Some ls \<Rightarrow> Inr (fset_of_list (filter (\<lambda>i. i \<noteq> []) (map TrimSpace ls))))"

definition tombstone_text :: "string fset \<Rightarrow> string" where
  "tombstone_text tombstones = concat (map (\<lambda>i. i @ [CHR 0x0A]) (filter (\<lambda>i. TrimSpace i \<noteq> []) (sorted_list_of_fset tombstones)))"

definition tombstone_file :: "string fset \<Rightarrow> string option" where
  "tombstone_file tombstones = (if tombstones = {||} then None else Some (tombstone_text tombstones))"

definition writeTombstonesLocked :: "write_fault \<Rightarrow> string fset \<Rightarrow> journal_disk \<Rightarrow> journal_disk \<times> journal_error option" where
  "writeTombstonesLocked fault tombstones disk =
     (let written = disk\<lparr>jd_tombstones := tombstone_file tombstones\<rparr> in
      case fault of
        NoFault \<Rightarrow> (written, None)
      | FaultBeforeRename \<Rightarrow> (disk, Some TombstonesFailed)
      | FaultAfterRename \<Rightarrow> (written, Some TombstonesFailed))"

definition compactEntriesLocked ::
  "journal_codec \<Rightarrow> write_fault \<Rightarrow> Entry list \<Rightarrow> Journal \<Rightarrow> journal_disk \<Rightarrow> Journal \<times> journal_disk \<times> journal_error option" where
  "compactEntriesLocked codec fault entries j disk =
     (case all_some (map (encodeEntry codec) entries) of
        None \<Rightarrow> (j, disk, Some EncodeFailed)
      | Some datas \<Rightarrow>
          let written = disk\<lparr>jd_journal := Some (concat datas)\<rparr> in
          case fault of
            NoFault \<Rightarrow> (\<lparr>jl_entries = entries, jl_bytes = int (length (concat datas))\<rparr>, written, None)
          | FaultBeforeRename \<Rightarrow> (j, disk, Some CompactFailed)
          | FaultAfterRename \<Rightarrow> (j, written, Some CompactFailed))"

section \<open>Limits\<close>

text \<open>The loop that drops the oldest entries while the bytes are too many and more than one entry is left.\<close>

fun drop_oldest_entries :: "int \<Rightarrow> (Entry \<times> nat) list \<Rightarrow> Entry list \<times> int" where
  "drop_oldest_entries bytes (x # y # xs) =
     (if bytes > int maxBytes then drop_oldest_entries (bytes - int (snd x)) (y # xs) else (map fst (x # y # xs), bytes))"
| "drop_oldest_entries bytes xs = (map fst xs, bytes)"

definition retainWithinLimits :: "journal_codec \<Rightarrow> Entry list \<Rightarrow> journal_error + (Entry list \<times> int)" where
  "retainWithinLimits codec entries0 =
     (let entries = (if length entries0 > maxItems then drop (length entries0 - maxItems) entries0 else entries0) in
      case all_some (map (encodeEntry codec) entries) of
        None \<Rightarrow> Inl EncodeFailed
      | Some datas \<Rightarrow>
          let (kept, bytes) = drop_oldest_entries (sum_list (map (int \<circ> length) datas)) (zip entries (map length datas))
          in if bytes > int maxBytes then Inl EntryTooLarge else Inr (kept, bytes))"

section \<open>Operations\<close>

text \<open>Reading the lines at startup: the entries that are not discarded, and whether the file has to be rewritten.\<close>

definition load_line :: "journal_codec \<Rightarrow> string fset \<Rightarrow> string \<Rightarrow> Entry list \<times> bool \<Rightarrow> Entry list \<times> bool" where
  "load_line codec tombstones line loaded =
     (case loaded of (entries, needsCompact) \<Rightarrow>
      if line = [] then loaded
      else case jc_unmarshal codec line of
             None \<Rightarrow> loaded
           | Some entry \<Rightarrow>
               if en_ID entry |\<in>| tombstones then loaded
               else let normalized = NormalizeEntry entry
                    in (entries @ [normalized], needsCompact \<or> en_Extract normalized \<noteq> en_Extract entry))"

text \<open>The contents of the files, the first being those at the start, and the journal or the error.\<close>

definition load_cleanup :: "journal_faults \<Rightarrow> string fset \<Rightarrow> Journal \<Rightarrow> journal_disk list \<Rightarrow> journal_disk list \<times> (journal_error + Journal)" where
  "load_cleanup f tombstones j disks =
     (if tombstones = {||} then (disks, Inr j)
      else case writeTombstonesLocked (jf_restore f) {||} (last disks) of
             (disk, None) \<Rightarrow> (disks @ [disk], Inr j)
           | (disk, Some err) \<Rightarrow> (disks @ [disk], Inl err))"

definition load_journal :: "journal_codec \<Rightarrow> journal_faults \<Rightarrow> journal_disk \<Rightarrow> journal_disk list \<times> (journal_error + Journal)" where
  "load_journal codec f disk =
     (case loadTombstones (jf_readTombstones f) disk of
        Inl err \<Rightarrow> ([disk], Inl err)
      | Inr tombstones \<Rightarrow>
          (case jd_journal disk of
             None \<Rightarrow> load_cleanup f tombstones \<lparr>jl_entries = [], jl_bytes = 0\<rparr> [disk]
           | Some content \<Rightarrow>
               if jf_readJournal f then ([disk], Inl JournalUnreadable)
               else if length content > maxBytes * 4 then ([disk], Inl JournalOversized)
               else case scan_lines maxBytes content of
                      None \<Rightarrow> ([disk], Inl ScanFailed)
                    | Some ls \<Rightarrow>
                        let (entries, needs) = fold (load_line codec tombstones) ls ([], tombstones \<noteq> {||} \<or> length content > maxBytes) in
                        (case retainWithinLimits codec entries of
                           Inl err \<Rightarrow> ([disk], Inl err)
                         | Inr (retained, retainedBytes) \<Rightarrow>
                             let j = \<lparr>jl_entries = retained, jl_bytes = retainedBytes\<rparr> in
                             if needs \<or> length retained \<noteq> length entries \<or> retainedBytes \<noteq> int (length content)
                             then (case compactEntriesLocked codec (jf_compact f) retained j disk of
                                     (j', disk', None) \<Rightarrow> load_cleanup f tombstones j' [disk, disk']
                                   | (j', disk', Some err) \<Rightarrow> ([disk, disk'], Inl err))
                             else load_cleanup f tombstones j [disk])))"

definition Append_entry ::
  "journal_codec \<Rightarrow> journal_faults \<Rightarrow> Entry \<Rightarrow> Journal \<Rightarrow> journal_disk \<Rightarrow> Journal \<times> journal_disk list \<times> journal_error option" where
  "Append_entry codec f entry0 j disk =
     (let entry = NormalizeEntry entry0 in
      case encodeEntry codec entry of
        None \<Rightarrow> (j, [disk], Some EncodeFailed)
      | Some data \<Rightarrow>
          if length data > maxBytes then (j, [disk], Some EntryTooLarge)
          else
            let candidate = jl_entries j @ [entry] in
            (case retainWithinLimits codec candidate of
               Inl err \<Rightarrow> (j, [disk], Some err)
             | Inr (retained, retainedBytes) \<Rightarrow>
                 if length retained \<noteq> length candidate \<or> retainedBytes > int maxBytes \<or> length candidate > maxItems
                 then (case compactEntriesLocked codec (jf_compact f) retained j disk of (j', disk', err) \<Rightarrow> (j', [disk, disk'], err))
                 else
                   let old = (case jd_journal disk of Some s \<Rightarrow> s | None \<Rightarrow> []) in
                   (case jf_append f of
                      AppendRefused \<Rightarrow> (j, [disk], Some AppendFailed)
                    | AppendTorn n \<Rightarrow> (j, [disk, disk\<lparr>jd_journal := Some (old @ take n data)\<rparr>], Some AppendFailed)
                    | Appended \<Rightarrow> (\<lparr>jl_entries = candidate, jl_bytes = jl_bytes j + int (length data)\<rparr>,
                        [disk, disk\<lparr>jd_journal := Some (old @ data)\<rparr>], None))))"

text \<open>Removing entries: first the tombstones, then the file, then the tombstones as they were before.\<close>

definition remove_entries ::
  "journal_codec \<Rightarrow> journal_faults \<Rightarrow> (string fset \<Rightarrow> string fset) \<Rightarrow> Entry list \<Rightarrow> Journal \<Rightarrow> journal_disk \<Rightarrow> Journal \<times> journal_disk list \<times> journal_error option" where
  "remove_entries codec f mark retained j disk =
     (case loadTombstones (jf_readTombstones f) disk of
        Inl err \<Rightarrow> (j, [disk], Some err)
      | Inr previous \<Rightarrow>
          (case writeTombstonesLocked (jf_prepare f) (mark previous) disk of
             (disk1, Some err) \<Rightarrow> (j, [disk, disk1], Some err)
           | (disk1, None) \<Rightarrow>
               (case compactEntriesLocked codec (jf_compact f) retained j disk1 of
                  (j', disk2, err) \<Rightarrow>
                    (j', [disk, disk1, disk2, fst (writeTombstonesLocked (jf_restore f) previous disk2)], err))))"

definition Clear_journal :: "journal_codec \<Rightarrow> journal_faults \<Rightarrow> Journal \<Rightarrow> journal_disk \<Rightarrow> Journal \<times> journal_disk list \<times> journal_error option" where
  "Clear_journal codec f j disk =
     remove_entries codec f (\<lambda>previous. previous |\<union>| fset_of_list (filter (\<lambda>i. i \<noteq> []) (map en_ID (jl_entries j)))) [] j disk"

definition Discard_entry ::
  "journal_codec \<Rightarrow> journal_faults \<Rightarrow> string \<Rightarrow> Journal \<Rightarrow> journal_disk \<Rightarrow> Journal \<times> journal_disk list \<times> journal_error option" where
  "Discard_entry codec f i j disk =
     (if i = [] then (j, [disk], None)
      else if i \<notin> en_ID ` set (jl_entries j) then (j, [disk], None)
      else remove_entries codec f (\<lambda>previous. finsert i previous) (filter (\<lambda>e. en_ID e \<noteq> i) (jl_entries j)) j disk)"

definition Recent :: "int \<Rightarrow> Journal \<Rightarrow> Entry list" where
  "Recent limit0 j =
     (let n = length (jl_entries j);
          limit = (if limit0 \<le> 0 \<or> limit0 > int n then n else nat limit0)
      in drop (n - limit) (jl_entries j))"

section \<open>The worker\<close>

text \<open>One goroutine carries out the requests in the order they were sent, until it is told to stop.\<close>

datatype workerRequest = WorkerCommit Entry | WorkerClear | WorkerDiscard string | WorkerStop

record worker_state =
  wk_journal :: Journal
  wk_disk :: journal_disk
  wk_replies :: "(Entry option \<times> journal_error option) list"
  wk_stopped :: bool

definition worker_done :: "Entry option \<Rightarrow> Journal \<times> journal_disk list \<times> journal_error option \<Rightarrow> worker_state \<Rightarrow> worker_state" where
  "worker_done entry outcome w =
     (case outcome of (j, disks, err) \<Rightarrow> w\<lparr>wk_journal := j, wk_disk := last disks, wk_replies := wk_replies w @ [(entry, err)]\<rparr>)"

definition worker_step :: "journal_codec \<Rightarrow> journal_faults \<times> workerRequest \<Rightarrow> worker_state \<Rightarrow> worker_state" where
  "worker_step codec request w =
     (if wk_stopped w then w
      else case request of
             (f, WorkerStop) \<Rightarrow> w\<lparr>wk_stopped := True\<rparr>
           | (f, WorkerCommit entry0) \<Rightarrow>
               let entry = NormalizeEntry entry0 in worker_done (Some entry) (Append_entry codec f entry (wk_journal w) (wk_disk w)) w
           | (f, WorkerDiscard i) \<Rightarrow> worker_done None (Discard_entry codec f i (wk_journal w) (wk_disk w)) w
           | (f, WorkerClear) \<Rightarrow> worker_done None (Clear_journal codec f (wk_journal w) (wk_disk w)) w)"

definition worker_run :: "journal_codec \<Rightarrow> (journal_faults \<times> workerRequest) list \<Rightarrow> worker_state \<Rightarrow> worker_state" where
  "worker_run codec = fold (worker_step codec)"

end
