(* ===== verification/ActivityRuns.thy ===== *)
theory ActivityRuns
  imports Activity
begin

text \<open>
  Correctness of the activity journal: what is read back after a crash at any point of an
  operation or of the recovery itself, durability over runs of the worker, the bounds, and how a
  torn append takes the next entry with it.
\<close>

section \<open>Lines\<close>

lemma raw_lines_line: "CHR 0x0A \<notin> set d \<Longrightarrow> raw_lines (d @ CHR 0x0A # s) = d # raw_lines s"
  by (induction d) auto

lemma raw_lines_lines: "\<forall>d\<in>set ds. CHR 0x0A \<notin> set d \<Longrightarrow> raw_lines (concat (map (\<lambda>d. d @ [CHR 0x0A]) ds) @ s) = ds @ raw_lines s"
  by (induction ds) (auto simp: raw_lines_line)

lemma raw_lines_rest: "CHR 0x0A \<notin> set d \<Longrightarrow> raw_lines d = (if d = [] then [] else [d])"
  by (induction d) auto

lemma scan_written:
  assumes "\<forall>d\<in>set ds. CHR 0x0A \<notin> set d \<and> d \<noteq> [] \<and> last d \<noteq> CHR 0x0D \<and> length d < limit"
  shows "scan_lines limit (concat (map (\<lambda>d. d @ [CHR 0x0A]) ds)) = Some ds"
proof -
  have "raw_lines (concat (map (\<lambda>d. d @ [CHR 0x0A]) ds)) = ds" using raw_lines_lines [of ds "[]"] assms by simp
  moreover have "map dropCR ds = ds" using assms by (auto simp: dropCR_def intro: map_idI)
  ultimately show ?thesis using assms by (auto simp: scan_lines_def Let_def not_le)
qed

section \<open>What the journal relies on\<close>

text \<open>
  \<^verbatim>\<open>encoding/json\<close> on entries whose strings are valid UTF-8: one object without a line feed that is
  read back as the entry, files_hold its identifier, and no proper prefix of which is valid.
\<close>

definition clean_entry :: "Entry \<Rightarrow> bool" where
  "clean_entry e \<longleftrightarrow> list_all ValidString [en_ID e, en_Kind e, en_Status e, en_Summary e, en_Host e, en_PaneID e, en_Agent e, en_Project e,
     en_RequestID e, en_Extract e, en_Session e, en_Details e]"

definition codec_ok :: "journal_codec \<Rightarrow> bool" where
  "codec_ok codec \<longleftrightarrow> (\<forall>e d. clean_entry e \<and> jc_marshal codec e = Some d \<longrightarrow>
     CHR 0x0A \<notin> set d \<and> CHR 0x0D \<notin> set d \<and> d \<noteq> [] \<and> length (en_ID e) < length d
     \<and> jc_unmarshal codec d = Some e \<and> (\<forall>n<length d. jc_unmarshal codec (take n d) = None))"

definition data_of :: "journal_codec \<Rightarrow> Entry \<Rightarrow> string" where
  "data_of codec e = the (jc_marshal codec e)"

definition receipt_ok :: "journal_codec \<Rightarrow> Entry \<Rightarrow> bool" where
  "receipt_ok codec e \<longleftrightarrow> clean_entry e \<and> NormalizeEntry e = e \<and> jc_marshal codec e \<noteq> None"

definition stored_text :: "journal_codec \<Rightarrow> Entry list \<Rightarrow> string" where
  "stored_text codec es = concat (map (\<lambda>e. data_of codec e @ [CHR 0x0A]) es)"

definition journal_list :: "journal_codec \<Rightarrow> Entry list \<Rightarrow> bool" where
  "journal_list codec es \<longleftrightarrow> (\<forall>e\<in>set es. receipt_ok codec e) \<and> length es \<le> maxItems \<and> length (stored_text codec es) \<le> maxBytes"

lemma encode_ok: "receipt_ok codec e \<Longrightarrow> encodeEntry codec e = Some (data_of codec e @ [CHR 0x0A])"
  by (auto simp: receipt_ok_def encodeEntry_def data_of_def)

lemma encode_all: "\<forall>e\<in>set es. receipt_ok codec e \<Longrightarrow>
    all_some (map (encodeEntry codec) es) = Some (map (\<lambda>e. data_of codec e @ [CHR 0x0A]) es)"
  by (induction es) (simp_all add: encode_ok)

lemma data_ok:
  assumes "codec_ok codec" "receipt_ok codec e"
  shows "CHR 0x0A \<notin> set (data_of codec e)" "data_of codec e \<noteq> []" "CHR 0x0D \<notin> set (data_of codec e)" "length (en_ID e) < length (data_of codec e)"
    "jc_unmarshal codec (data_of codec e) = Some e" "n < length (data_of codec e) \<Longrightarrow> jc_unmarshal codec (take n (data_of codec e)) = None"
proof -
  obtain d where "jc_marshal codec e = Some d" "clean_entry e" using assms(2) by (auto simp: receipt_ok_def)
  then show "CHR 0x0A \<notin> set (data_of codec e)" "data_of codec e \<noteq> []" "CHR 0x0D \<notin> set (data_of codec e)" "length (en_ID e) < length (data_of codec e)"
    "jc_unmarshal codec (data_of codec e) = Some e" "n < length (data_of codec e) \<Longrightarrow> jc_unmarshal codec (take n (data_of codec e)) = None"
    using assms(1) by (auto simp: codec_ok_def data_of_def)
qed

lemma data_last: "codec_ok codec \<Longrightarrow> receipt_ok codec e \<Longrightarrow> last (data_of codec e) \<noteq> CHR 0x0D"
  using data_ok(2,3) [of codec e] by (metis last_in_set)

lemma stored_length: "length (stored_text codec es) = sum_list (map (\<lambda>e. Suc (length (data_of codec e))) es)"
  by (induction es) (simp_all add: stored_text_def)

lemma stored_member: "e \<in> set es \<Longrightarrow> Suc (length (data_of codec e)) \<le> length (stored_text codec es)"
  unfolding stored_length by (rule member_le_sum_list) auto

lemma stored_filter: "length (stored_text codec (filter P es)) \<le> length (stored_text codec es)"
  unfolding stored_length by (induction es) auto

lemma journal_list_filter: "journal_list codec es \<Longrightarrow> journal_list codec (filter P es)"
  by (auto simp: journal_list_def intro: order_trans [OF length_filter_le] order_trans [OF stored_filter])

lemma retain_all:
  assumes "journal_list codec es"
  shows "retainWithinLimits codec es = Inr (es, int (length (stored_text codec es)))"
proof -
  have "drop_oldest_entries b xs = (map fst xs, b)" if "\<not> b > int maxBytes" for b and xs :: "(Entry \<times> nat) list"
    using that by (cases "(b, xs)" rule: drop_oldest_entries.cases) simp_all
  moreover have "sum_list (map (int \<circ> length) (map (\<lambda>e. data_of codec e @ [CHR 0x0A]) es)) = int (length (stored_text codec es))"
    unfolding stored_length by (induction es) simp_all
  ultimately show ?thesis using assms encode_all [of es codec] by (simp add: retainWithinLimits_def journal_list_def Let_def comp_def)
qed

lemma load_lines:
  assumes "codec_ok codec" "\<forall>e\<in>set es. receipt_ok codec e"
  shows "fold (load_line codec ts) (map (data_of codec) es) (acc, needs) = (acc @ filter (\<lambda>e. en_ID e |\<notin>| ts) es, needs)"
  using assms(2)
proof (induction es arbitrary: acc)
  case (Cons e es)
  have "load_line codec ts (data_of codec e) (acc, needs) = (if en_ID e |\<in>| ts then acc else acc @ [e], needs)"
    using data_ok [OF assms(1), of e] Cons.prems by (simp add: load_line_def Let_def receipt_ok_def)
  then show ?case using Cons by simp
qed simp

section \<open>Recovery\<close>

definition no_journal_faults :: journal_faults where
  "no_journal_faults = \<lparr>jf_readTombstones = False, jf_readJournal = False, jf_prepare = NoFault, jf_compact = NoFault, jf_restore = NoFault, jf_append = Appended\<rparr>"

definition recover :: "journal_codec \<Rightarrow> journal_disk \<Rightarrow> Entry list option" where
  "recover codec d = (case load_journal codec no_journal_faults d of (_, Inr j) \<Rightarrow> Some (jl_entries j) | (_, Inl _) \<Rightarrow> None)"

text \<open>The files hold \<open>es\<close> and tombstones \<open>ts\<close>.\<close>

definition files_hold :: "journal_codec \<Rightarrow> Entry list \<Rightarrow> string fset \<Rightarrow> journal_disk \<Rightarrow> bool" where
  "files_hold codec es ts d \<longleftrightarrow> journal_list codec es \<and> (jd_journal d = Some (stored_text codec es) \<or> jd_journal d = None \<and> es = [])
     \<and> loadTombstones False d = Inr ts"

lemma compact_result:
  assumes "journal_list codec es" "compactEntriesLocked codec fault es j d = (j', d', err)"
  shows "jd_tombstones d' = jd_tombstones d \<and> jd_journal d' \<in> {jd_journal d, Some (stored_text codec es)}
    \<and> (if err = None then j' = \<lparr>jl_entries = es, jl_bytes = int (length (stored_text codec es))\<rparr> \<and> jd_journal d' = Some (stored_text codec es) else j' = j)
    \<and> (fault = NoFault \<longrightarrow> err = None)"
  using assms encode_all [of es codec] by (auto simp: compactEntriesLocked_def journal_list_def Let_def stored_text_def split: write_fault.splits)

lemma loadTombstones_cong: "jd_tombstones d' = jd_tombstones d \<Longrightarrow> loadTombstones b d' = loadTombstones b d"
  by (simp add: loadTombstones_def)

lemma loadTombstones_none: "jd_tombstones d = None \<Longrightarrow> loadTombstones b d = Inr {||}"
  by (simp add: loadTombstones_def)

lemma scan_stored:
  assumes "codec_ok codec" "journal_list codec es"
  shows "scan_lines maxBytes (stored_text codec es) = Some (map (data_of codec) es)"
proof -
  have "length (data_of codec e) < maxBytes" if "e \<in> set es" for e
    using stored_member [OF that, of codec] assms(2) by (simp add: journal_list_def)
  then have "\<forall>d\<in>set (map (data_of codec) es). CHR 0x0A \<notin> set d \<and> d \<noteq> [] \<and> last d \<noteq> CHR 0x0D \<and> length d < maxBytes"
    using data_ok(1,2) [OF assms(1)] data_last [OF assms(1)] assms(2) by (auto simp: journal_list_def)
  from scan_written [OF this] show ?thesis by (simp add: stored_text_def comp_def)
qed

text \<open>
  Loading files that hold entries: every content of the files on the way files_hold what counts, and
  if it succeeds the journal is what counts.
\<close>

abbreviation kept :: "string fset \<Rightarrow> Entry list \<Rightarrow> Entry list" where
  "kept ts es \<equiv> filter (\<lambda>e. en_ID e |\<notin>| ts) es"

definition counts :: "journal_codec \<Rightarrow> Entry list \<Rightarrow> journal_disk \<Rightarrow> bool" where
  "counts codec es d \<longleftrightarrow> (\<exists>es' ts. files_hold codec es' ts d \<and> kept ts es' = es)"

lemma countsI: "files_hold codec es' ts d \<Longrightarrow> kept ts es' = es \<Longrightarrow> counts codec es d"
  by (auto simp: counts_def)

lemma tombstone_file_empty [simp]: "tombstone_file {||} = None"
  by (simp add: tombstone_file_def)

lemma cleanup_holds:
  assumes "load_cleanup f ts j disks = (disks', res)"
  shows "set disks' \<subseteq> set disks \<union> {last disks, (last disks)\<lparr>jd_tombstones := None\<rparr>} \<and> (\<forall>j'. res = Inr j' \<longrightarrow> j' = j)
    \<and> (jf_restore f = NoFault \<longrightarrow> res = Inr j) \<and> (ts = {||} \<longrightarrow> disks' = disks)"
  using assms by (auto simp: load_cleanup_def writeTombstonesLocked_def tombstone_file_def Let_def split: if_splits write_fault.splits)

lemma cleared_holds: "journal_list codec es \<Longrightarrow> jd_journal d = Some (stored_text codec es) \<or> jd_journal d = None \<and> es = [] \<Longrightarrow>
    files_hold codec es {||} (d\<lparr>jd_tombstones := None\<rparr>)"
  by (simp add: files_hold_def loadTombstones_none)

lemma load_holds:
  assumes c: "codec_ok codec" and h: "files_hold codec es ts d" and l: "load_journal codec f d = (disks, res)"
  shows "(\<forall>d'\<in>set disks. counts codec (kept ts es) d')
    \<and> (\<forall>j. res = Inr j \<longrightarrow> jl_entries j = kept ts es) \<and> (f = no_journal_faults \<longrightarrow> (\<exists>j. res = Inr j))"
proof (cases "loadTombstones (jf_readTombstones f) d")
  case (Inl err)
  moreover have "f \<noteq> no_journal_faults" using h Inl by (auto simp: files_hold_def no_journal_faults_def)
  moreover have "counts codec (kept ts es) d" using countsI [OF h] by simp
  moreover have "disks = [d] \<and> res = Inl err" using l Inl by (simp add: load_journal_def)
  ultimately show ?thesis by simp
next
  case (Inr ts0)
  have ts0: "ts0 = ts" using Inr h by (auto simp: files_hold_def loadTombstones_def split: option.splits if_splits)
  have jl: "journal_list codec es" "journal_list codec (kept ts es)" using h journal_list_filter by (simp_all add: files_hold_def)
  have base: "counts codec (kept ts es) d" using countsI [OF h] by simp
  show ?thesis
  proof (cases "jd_journal d")
    case None
    then have es: "es = []" using h by (simp add: files_hold_def)
    have cl: "load_cleanup f ts \<lparr>jl_entries = [], jl_bytes = 0\<rparr> [d] = (disks, res)" using l Inr None by (simp add: load_journal_def ts0)
    have "files_hold codec [] {||} (d\<lparr>jd_tombstones := None\<rparr>)" by (rule cleared_holds) (use jl None in \<open>simp_all add: es\<close>)
    then have "counts codec (kept ts es) (d\<lparr>jd_tombstones := None\<rparr>)" by (rule countsI) (simp add: es)
    moreover have "d' = d \<or> d' = d\<lparr>jd_tombstones := None\<rparr>" if "d' \<in> set disks" for d' using cleanup_holds [OF cl] that by auto
    moreover have "kept ts es = []" by (simp add: es)
    ultimately show ?thesis using cleanup_holds [OF cl] base by (metis (no_types, lifting) Journal.select_convs(1) no_journal_faults_def journal_faults.select_convs(5))
  next
    case (Some content)
    have content: "content = stored_text codec es" using h Some by (simp add: files_hold_def)
    have small: "length content \<le> maxBytes" using jl(1) by (simp add: content journal_list_def)
    have lines: "fold (load_line codec ts) (map (data_of codec) es) ([], b) = (kept ts es, b)" for b
      using load_lines [OF c, of es ts "[]" b] jl(1) by (simp add: journal_list_def)
    define j where "j = \<lparr>jl_entries = kept ts es, jl_bytes = int (length (stored_text codec (kept ts es)))\<rparr>"
    define needs where "needs \<longleftrightarrow> ts \<noteq> {||} \<or> int (length (stored_text codec (kept ts es))) \<noteq> int (length content)"
    have load: "load_journal codec f d = (if jf_readJournal f then ([d], Inl JournalUnreadable)
        else if needs then (case compactEntriesLocked codec (jf_compact f) (kept ts es) j d of
                 (j', d', None) \<Rightarrow> load_cleanup f ts j' [d, d'] | (j', d', Some err) \<Rightarrow> ([d, d'], Inl err))
        else load_cleanup f ts j [d])"
    proof (cases "jf_readJournal f")
      case False
      have big: "(length (stored_text codec es) > maxBytes * 4) = False" "(length (stored_text codec es) > maxBytes) = False" using small by (simp_all add: content)
      show ?thesis
        unfolding load_journal_def Inr sum.case Some option.case ts0 content big if_False False scan_stored [OF c jl(1)] Let_def lines prod.case
          retain_all [OF jl(2)] j_def needs_def
        by simp
    qed (simp add: load_journal_def Inr Some)
    obtain j1 d1 err where co: "compactEntriesLocked codec (jf_compact f) (kept ts es) j d = (j1, d1, err)" by (metis prod_cases3)
    note cr = compact_result [OF jl(2) co]
    have h1: "counts codec (kept ts es) d1"
    proof (cases "jd_journal d1 = jd_journal d")
      case True
      then have "files_hold codec es ts d1" using h cr loadTombstones_cong [of d1 d] by (simp add: files_hold_def)
      then show ?thesis by (rule countsI) simp
    next
      case False
      then have "files_hold codec (kept ts es) ts d1" using h cr jl(2) loadTombstones_cong [of d1 d] by (simp add: files_hold_def)
      then show ?thesis by (rule countsI) simp
    qed
    have h2: "counts codec (kept ts es) (d1\<lparr>jd_tombstones := None\<rparr>)" if "err = None"
      using countsI [OF cleared_holds [OF jl(2), of d1]] cr that by simp
    have nf: "f = no_journal_faults \<Longrightarrow> jf_restore f = NoFault" by (simp add: no_journal_faults_def)
    have je: "jl_entries j = kept ts es" by (simp add: j_def)
    consider (unread) "jf_readJournal f" | (as_is) "\<not> jf_readJournal f" "\<not> needs" | (rewrite) "\<not> jf_readJournal f" "needs" by blast
    then show ?thesis
    proof cases
      case unread
      then have "disks = [d] \<and> res = Inl JournalUnreadable \<and> f \<noteq> no_journal_faults" using load l by (auto simp: no_journal_faults_def)
      then show ?thesis using base by simp
    next
      case as_is
      then have cl: "load_cleanup f ts j [d] = (disks, res)" and "ts = {||}" using load l by (simp_all add: needs_def)
      then have "disks = [d]" using cleanup_holds [OF cl] by blast
      then have "\<forall>d'\<in>set disks. counts codec (kept ts es) d'" using base by simp
      then show ?thesis using cleanup_holds [OF cl] je nf by blast
    next
      case rewrite
      show ?thesis
      proof (cases err)
        case None
        then have cl: "load_cleanup f ts j1 [d, d1] = (disks, res)" using load l co rewrite by simp
        have "d' = d \<or> d' = d1 \<or> d' = d1\<lparr>jd_tombstones := None\<rparr>" if "d' \<in> set disks" for d' using cleanup_holds [OF cl] that by auto
        then have "\<forall>d'\<in>set disks. counts codec (kept ts es) d'" using base h1 h2 [OF None] by blast
        moreover have "jl_entries j1 = kept ts es" using cr None by simp
        ultimately show ?thesis using cleanup_holds [OF cl] nf by blast
      next
        case (Some x)
        then have "disks = [d, d1] \<and> res = Inl x" using load l co rewrite by simp
        moreover have "f \<noteq> no_journal_faults" using cr Some by (auto simp: no_journal_faults_def)
        ultimately show ?thesis using base h1 by simp
      qed
    qed
  qed
qed

lemma recover_holds: "codec_ok codec \<Longrightarrow> files_hold codec es ts d \<Longrightarrow> recover codec d = Some (kept ts es)"
  using load_holds [of codec es ts d no_journal_faults] by (auto simp: recover_def split: prod.splits sum.splits)

section \<open>Tombstones\<close>

definition plain_id :: "string \<Rightarrow> bool" where
  "plain_id i \<longleftrightarrow> i \<noteq> [] \<and> TrimSpace i = i \<and> CHR 0x0A \<notin> set i \<and> last i \<noteq> CHR 0x0D"

lemma tombstones_read_back:
  assumes "\<forall>i. i |\<in>| ts \<longrightarrow> plain_id i" "length (tombstone_text ts) \<le> maxBytes" "jd_tombstones d = Some (tombstone_text ts)"
  shows "loadTombstones False d = Inr ts"
proof -
  define ids where "ids = sorted_list_of_fset ts"
  have ids: "set ids = fset ts" "distinct ids" by (simp_all add: ids_def sorted_list_of_fset.rep_eq)
  have content: "tombstone_text ts = concat (map (\<lambda>i. i @ [CHR 0x0A]) ids)"
    using assms(1) ids(1) by (auto simp: tombstone_text_def ids_def [symmetric] plain_id_def intro!: arg_cong [of _ _ concat] filter_True)
  have "length i < maxBytes" if "i \<in> set ids" for i
  proof -
    have "Suc (length i) \<le> length (concat (map (\<lambda>i. i @ [CHR 0x0A]) ids))"
      using that by (auto simp: length_concat comp_def intro!: member_le_sum_list)
    then show ?thesis using assms(2) by (simp add: content)
  qed
  then have "scan_lines maxBytes (tombstone_text ts) = Some ids"
    unfolding content using assms(1) ids(1) by (intro scan_written) (auto simp: plain_id_def)
  moreover have "filter (\<lambda>i. i \<noteq> []) (map TrimSpace ids) = ids"
  proof -
    have "map TrimSpace ids = ids" using assms(1) ids(1) by (auto simp: plain_id_def intro: map_idI)
    then show ?thesis using assms(1) ids(1) by (auto simp: plain_id_def)
  qed
  moreover have "fset_of_list ids = ts" using ids(1) by (simp add: fset_inject [symmetric] fset_of_list.rep_eq)
  ultimately show ?thesis using assms(2,3) by (simp add: loadTombstones_def)
qed

lemma sum_set_le_list: "sum f (set xs) \<le> sum_list (map f xs)" for f :: "'a \<Rightarrow> nat"
  by (induction xs) (auto simp: sum.insert_if intro: le_SucI trans_le_add2)

lemma tombstones_fit:
  assumes "codec_ok codec" "journal_list codec es" "fset ts \<subseteq> en_ID ` set es"
  shows "length (tombstone_text ts) \<le> maxBytes"
proof -
  define f :: "string \<Rightarrow> nat" where "f = (\<lambda>i. Suc (length i))"
  have len: "length (tombstone_text ts) = sum_list (map f (filter (\<lambda>i. TrimSpace i \<noteq> []) (sorted_list_of_fset ts)))"
    by (simp add: tombstone_text_def length_concat comp_def f_def)
  also have "\<dots> \<le> sum_list (map f (sorted_list_of_fset ts))" by (rule sum_list_filter_le_nat)
  also have "\<dots> = sum f (fset ts)"
    by (simp add: sum_list_distinct_conv_sum_set sorted_list_of_fset.rep_eq)
  also have "\<dots> \<le> sum f (set (map en_ID es))" by (rule sum_mono2) (use assms(3) in auto)
  also have "\<dots> \<le> sum_list (map f (map en_ID es))" by (rule sum_set_le_list)
  also have "\<dots> \<le> sum_list (map (\<lambda>e. Suc (length (data_of codec e))) es)"
    unfolding map_map comp_def f_def
    using data_ok(4) [OF assms(1)] assms(2) by (intro sum_list_mono) (force simp: journal_list_def)
  finally show ?thesis using assms(2) by (simp add: journal_list_def stored_length)
qed

section \<open>Operations\<close>

text \<open>A journal at rest: the file files_hold the entries in memory and there are no tombstones.\<close>

definition at_rest :: "journal_codec \<Rightarrow> Journal \<Rightarrow> journal_disk \<Rightarrow> bool" where
  "at_rest codec j d \<longleftrightarrow> files_hold codec (jl_entries j) {||} d \<and> jd_tombstones d = None
     \<and> jl_bytes j = int (length (stored_text codec (jl_entries j))) \<and> (\<forall>e\<in>set (jl_entries j). plain_id (en_ID e))"

text \<open>The requests, what they are meant to leave, and their outcome.\<close>

definition perform :: "journal_codec \<Rightarrow> journal_faults \<Rightarrow> workerRequest \<Rightarrow> Journal \<Rightarrow> journal_disk \<Rightarrow> Journal \<times> journal_disk list \<times> journal_error option" where
  "perform codec f request j d =
     (case request of
        WorkerCommit e \<Rightarrow> Append_entry codec f e j d
      | WorkerClear \<Rightarrow> Clear_journal codec f j d
      | WorkerDiscard i \<Rightarrow> Discard_entry codec f i j d
      | WorkerStop \<Rightarrow> (j, [d], None))"

definition intended :: "journal_codec \<Rightarrow> workerRequest \<Rightarrow> Entry list \<Rightarrow> Entry list" where
  "intended codec request es =
     (case request of
        WorkerCommit e \<Rightarrow> (case retainWithinLimits codec (es @ [NormalizeEntry e]) of Inr (newest, _) \<Rightarrow> newest | Inl _ \<Rightarrow> es)
      | WorkerClear \<Rightarrow> []
      | WorkerDiscard i \<Rightarrow> filter (\<lambda>e. en_ID e \<noteq> i) es
      | WorkerStop \<Rightarrow> es)"

text \<open>
  Every content of the files on the way counts as the old or the new entries; between the first write and the last it is the new
  ones, at the end too if the request succeeds.
\<close>

definition crash_safe :: "journal_codec \<Rightarrow> Entry list \<Rightarrow> Entry list \<Rightarrow> Journal \<times> journal_disk list \<times> journal_error option \<Rightarrow> bool" where
  "crash_safe codec es es' outcome \<longleftrightarrow>
     (case outcome of (j, disks, err) \<Rightarrow>
      (\<forall>d\<in>set disks. recover codec d \<in> {Some es, Some es'}) \<and> (\<forall>d\<in>set (butlast (tl disks)). recover codec d = Some es')
      \<and> (err = None \<longrightarrow> recover codec (last disks) = Some es' \<and> jl_entries j = es') \<and> (err \<noteq> None \<longrightarrow> jl_entries j = es))"

lemma write_tombstones: "writeTombstonesLocked fault ts d = (d', err) \<Longrightarrow>
    jd_journal d' = jd_journal d \<and> jd_tombstones d' \<in> {jd_tombstones d, tombstone_file ts}
    \<and> (err = None \<longleftrightarrow> fault = NoFault) \<and> (err = None \<longrightarrow> jd_tombstones d' = tombstone_file ts)"
  by (auto simp: writeTombstonesLocked_def Let_def split: write_fault.splits)

lemma remove_safe:
  assumes c: "codec_ok codec" and r: "at_rest codec j d"
    and mark: "fset (mark {||}) \<subseteq> en_ID ` set (jl_entries j)" and es': "es' = kept (mark {||}) (jl_entries j)"
  shows "crash_safe codec (jl_entries j) es' (remove_entries codec f mark es' j d)"
proof -
  define es where "es = jl_entries j"
  define ts where "ts = mark {||}"
  have rest: "journal_list codec es" "jd_journal d = Some (stored_text codec es) \<or> jd_journal d = None \<and> es = []" "jd_tombstones d = None"
    using r by (simp_all add: at_rest_def files_hold_def es_def)
  have es'': "es' = kept ts es" "journal_list codec es'" using es' rest(1) journal_list_filter by (simp_all add: es_def ts_def)
  have tombs: "loadTombstones False d' = Inr ts" if "jd_tombstones d' = tombstone_file ts" for d'
  proof (cases "ts = {||}")
    case False
    show ?thesis
      by (rule tombstones_read_back) (use r mark tombstones_fit [OF c rest(1), of ts] that False in \<open>auto simp: at_rest_def ts_def es_def tombstone_file_def\<close>)
  qed (use that in \<open>simp add: loadTombstones_none tombstone_file_def\<close>)
  have rec: "recover codec d' \<in> {Some es, Some es'}"
    if "jd_journal d' \<in> {jd_journal d, Some (stored_text codec es')}" "jd_tombstones d' \<in> {None, tombstone_file ts}" for d'
  proof -
    have t: "loadTombstones False d' \<in> {Inr {||}, Inr ts}" using that(2) tombs [of d'] by (auto simp: loadTombstones_none)
    show ?thesis
    proof (cases "jd_journal d' = jd_journal d")
      case True
      then have "files_hold codec es {||} d' \<or> files_hold codec es ts d'" using t rest by (auto simp: files_hold_def)
      then show ?thesis using recover_holds [OF c] es''(1) by fastforce
    next
      case False
      then have "files_hold codec es' {||} d' \<or> files_hold codec es' ts d'" using t es''(2) that(1) by (auto simp: files_hold_def)
      then show ?thesis using recover_holds [OF c, of es'] es''(1) by fastforce
    qed
  qed
  have rec2: "recover codec d' = Some es'"
    if "jd_journal d' = Some (stored_text codec es') \<and> jd_tombstones d' \<in> {None, tombstone_file ts}
      \<or> jd_journal d' = jd_journal d \<and> jd_tombstones d' = tombstone_file ts" for d'
  proof -
    have "files_hold codec es' {||} d' \<or> files_hold codec es' ts d' \<or> files_hold codec es ts d'"
      using that tombs [of d'] es''(2) rest(1,2) by (auto simp: files_hold_def loadTombstones_none)
    then show ?thesis using recover_holds [OF c, of es'] recover_holds [OF c, of es ts d'] es''(1) by fastforce
  qed
  obtain d1 e1 where w: "writeTombstonesLocked (jf_prepare f) ts d = (d1, e1)" by fastforce
  obtain j2 d2 e2 where co: "compactEntriesLocked codec (jf_compact f) es' j d1 = (j2, d2, e2)" by (metis prod_cases3)
  obtain d3 e3 where w3: "writeTombstonesLocked (jf_restore f) {||} d2 = (d3, e3)" by fastforce
  note f1 = write_tombstones [OF w] and f2 = compact_result [OF es''(2) co] and f3 = write_tombstones [OF w3]
  have "remove_entries codec f mark es' j d = (if e1 = None then (j2, [d, d1, d2, d3], e2) else (j, [d, d1], e1))"
    using w co w3 rest(3) by (auto simp: remove_entries_def ts_def loadTombstones_none split: option.splits)
  moreover have "recover codec d \<in> {Some es, Some es'}" "recover codec d1 \<in> {Some es, Some es'}" "recover codec d2 \<in> {Some es, Some es'}"
      "recover codec d3 \<in> {Some es, Some es'}"
    using rest(3) f1 f2 f3 by (intro rec; auto)+
  moreover have "recover codec d1 = Some es'" "recover codec d2 = Some es'" if "e1 = None" using that rest(3) f1 f2 by (intro rec2; auto)+
  moreover have "recover codec d3 = Some es'" if "e2 = None" using that rest(3) f1 f2 f3 by (intro rec2) auto
  ultimately show ?thesis using f2 unfolding crash_safe_def es_def [symmetric] by (auto simp: es_def)
qed

section \<open>Appending\<close>

lemma normalize_clean:
  assumes "clean_entry e"
  shows "clean_entry (NormalizeEntry e)" "NormalizeEntry (NormalizeEntry e) = NormalizeEntry e"
proof -
  define n where "n = maxExtractChars"
  define segs where "segs = utf8_segs (en_Extract e)"
  have valid: "list_all (\<lambda>(r, bs). \<not> (r = RuneError \<and> length bs = 1)) segs" using assms by (simp add: clean_entry_def ValidString_def segs_def)
  have same: "concat (map rune_text (take n segs)) = concat (map snd (take n segs))"
    using valid by (intro arg_cong [of _ _ concat] map_cong refl) (fastforce simp: rune_text_def list_all_iff dest!: in_set_takeD)
  have again: "utf8_segs (concat (map snd (take n segs))) = take n segs"
    by (rule utf8_segs_prefix [of "en_Extract e" _ "drop n segs"]) (simp add: segs_def)
  have "ValidString (concat (map snd (take n segs)))" using valid unfolding ValidString_def again
    by (auto simp: list_all_iff dest: in_set_takeD)
  then show "clean_entry (NormalizeEntry e)" "NormalizeEntry (NormalizeEntry e) = NormalizeEntry e"
    using assms again unfolding NormalizeEntry_def Let_def segs_def [symmetric] n_def [symmetric] same
    by (simp_all add: clean_entry_def segs_def)
qed

lemma drop_oldest_suffix:
  assumes "drop_oldest_entries (sum_list (map (int \<circ> snd) xs)) xs = (r, b)"
  shows "\<exists>ys zs. xs = ys @ zs \<and> r = map fst zs \<and> b = sum_list (map (int \<circ> snd) zs) \<and> (xs \<noteq> [] \<longrightarrow> zs \<noteq> [])"
  using assms
proof (induction "sum_list (map (int \<circ> snd) xs)" xs rule: drop_oldest_entries.induct)
  case (1 x y xs)
  show ?case
  proof (cases "sum_list (map (int \<circ> snd) (x # y # xs)) > int maxBytes")
    case True
    then have "drop_oldest_entries (sum_list (map (int \<circ> snd) (y # xs))) (y # xs) = (r, b)" using 1(2) by (simp add: comp_def)
    then obtain ys zs where "y # xs = ys @ zs" "r = map fst zs" "b = sum_list (map (int \<circ> snd) zs)" "zs \<noteq> []"
      using 1(1) [OF True] by (auto simp: comp_def)
    then show ?thesis by (intro exI [of _ "x # ys"] exI [of _ zs]) simp
  next
    case False
    then show ?thesis using 1(2) by (intro exI [of _ "[]"] exI [of _ "x # y # xs"]) (auto simp: comp_def)
  qed
qed (auto intro: exI [of _ "[]"])

lemma int_stored: "(\<Sum>x\<leftarrow>r. 1 + int (length (data_of codec x))) = int (length (stored_text codec r))"
  by (induction r) (simp_all add: stored_text_def)

lemma retain_suffix:
  assumes "retainWithinLimits codec xs = Inr (r, b)" "\<forall>e\<in>set xs. receipt_ok codec e"
  shows "\<exists>ys. xs = ys @ r \<and> journal_list codec r \<and> b = int (length (stored_text codec r)) \<and> (xs \<noteq> [] \<longrightarrow> r \<noteq> [])"
proof -
  define us where "us = (if length xs > maxItems then drop (length xs - maxItems) xs else xs)"
  have us: "\<exists>ts. xs = ts @ us" "length us \<le> maxItems" "xs \<noteq> [] \<longrightarrow> us \<noteq> []"
    by (auto simp: us_def maxItems_def intro: exI [of _ "take (length xs - maxItems) xs"])
  have ok: "\<forall>e\<in>set us. receipt_ok codec e" using us(1) assms(2) by auto
  define sized where "sized = map (\<lambda>e. (e, Suc (length (data_of codec e)))) us"
  have "drop_oldest_entries (sum_list (map (int \<circ> snd) sized)) sized = (r, b) \<and> b \<le> int maxBytes"
    using assms(1) encode_all [OF ok] unfolding retainWithinLimits_def us_def [symmetric] Let_def sized_def
    by (auto simp: comp_def zip_map2 zip_same_conv_map split: prod.splits if_splits)
  then have dropped: "drop_oldest_entries (sum_list (map (int \<circ> snd) sized)) sized = (r, b)" and b: "b \<le> int maxBytes" by simp_all
  obtain ys zs where z: "sized = ys @ zs" "r = map fst zs" "b = sum_list (map (int \<circ> snd) zs)" "sized \<noteq> [] \<longrightarrow> zs \<noteq> []"
    using drop_oldest_suffix [OF dropped] by blast
  have split: "us = map fst ys @ r" using arg_cong [OF z(1), of "map fst"] z(2) by (simp add: sized_def comp_def)
  have "zs = map (\<lambda>e. (e, Suc (length (data_of codec e)))) r"
    using z(1,2) unfolding sized_def by (auto simp: map_eq_append_conv comp_def)
  then have size: "b = int (length (stored_text codec r))" using z(3) int_stored [of codec r] by (simp add: comp_def)
  have "length r \<le> length us" by (simp add: split)
  then have list: "journal_list codec r" using ok us(2) b size by (simp add: journal_list_def split)
  obtain ts where "xs = ts @ us" using us(1) by blast
  then have "xs = (ts @ map fst ys) @ r" by (simp add: split)
  moreover have "r \<noteq> []" if "xs \<noteq> []" using us(3) z(2,4) that by (auto simp: sized_def)
  ultimately show ?thesis using list size by blast
qed

text \<open>Reading a file without tombstones, whatever its last line is.\<close>

lemma recover_lines:
  assumes "jd_journal d = Some content" "jd_tombstones d = None" "length content \<le> maxBytes" "scan_lines maxBytes content = Some ls"
    and "fold (load_line codec {||}) ls ([], False) = (es, False)" "journal_list codec es"
  shows "recover codec d = Some es"
proof -
  define j where "j = \<lparr>jl_entries = es, jl_bytes = int (length (stored_text codec es))\<rparr>"
  obtain j1 d1 err where co: "compactEntriesLocked codec NoFault es j d = (j1, d1, err)" by (metis prod_cases3)
  have "err = None" "jl_entries j1 = es" using compact_result [OF assms(6) co] by auto
  then show ?thesis using assms co retain_all [OF assms(6)]
    by (simp add: recover_def load_journal_def loadTombstones_none no_journal_faults_def load_cleanup_def j_def Let_def)
qed

lemma torn_lines:
  assumes c: "codec_ok codec" and es: "\<forall>e\<in>set es. receipt_ok codec e" and "length (stored_text codec es @ rest) \<le> maxBytes"
    and rest: "CHR 0x0A \<notin> set rest" "CHR 0x0D \<notin> set rest" "rest \<noteq> []" "length rest < maxBytes"
  shows "scan_lines maxBytes (stored_text codec es @ rest) = Some (map (data_of codec) es @ [rest])"
proof -
  have "raw_lines (stored_text codec es @ rest) = map (data_of codec) es @ [rest]"
    using raw_lines_lines [of "map (data_of codec) es" rest] data_ok(1) [OF c] es rest raw_lines_rest [of rest]
    by (simp add: stored_text_def comp_def)
  moreover have "dropCR l = l" if "CHR 0x0D \<notin> set l" for l using that unfolding dropCR_def by (metis last_in_set)
  moreover have "length (data_of codec e) < maxBytes" if "e \<in> set es" for e using stored_member [OF that, of codec] assms(3) by simp
  ultimately show ?thesis using es data_ok(3) [OF c] rest by (auto simp: scan_lines_def Let_def not_le)
qed

lemma recover_torn:
  assumes c: "codec_ok codec" and jl: "journal_list codec (es @ [e])" and d: "jd_tombstones d = None"
    "jd_journal d = Some (stored_text codec es @ take n (data_of codec e @ [CHR 0x0A]))"
  shows "recover codec d \<in> {Some es, Some (es @ [e])}"
proof -
  have ok: "\<forall>x\<in>set es. receipt_ok codec x" "receipt_ok codec e" "journal_list codec es"
    using jl by (auto simp: journal_list_def stored_text_def)
  have stored: "stored_text codec (es @ [e]) = stored_text codec es @ data_of codec e @ [CHR 0x0A]" by (simp add: stored_text_def)
  consider (none) "n = 0" | (part) "0 < n" "n \<le> length (data_of codec e)" | (all) "n > length (data_of codec e)" by linarith
  then show ?thesis
  proof cases
    case none
    then have "files_hold codec es {||} d" using d ok(3) by (simp add: files_hold_def loadTombstones_none)
    then show ?thesis using recover_holds [OF c] by fastforce
  next
    case all
    then have "files_hold codec (es @ [e]) {||} d" using d jl stored by (simp add: files_hold_def loadTombstones_none)
    then show ?thesis using recover_holds [OF c] by fastforce
  next
    case part
    define rest where "rest = take n (data_of codec e)"
    have len: "length (stored_text codec es @ rest) \<le> maxBytes" "length rest < maxBytes"
      using jl by (auto simp: journal_list_def stored rest_def)
    have r: "CHR 0x0A \<notin> set rest" "CHR 0x0D \<notin> set rest" "rest \<noteq> []"
      using data_ok(1-3) [OF c ok(2)] part by (auto simp: rest_def dest: in_set_takeD)
    note scan = torn_lines [OF c ok(1) len(1) r len(2)]
    have "load_line codec {||} rest (es, False) = (if n < length (data_of codec e) then es else es @ [e], False)"
      using data_ok [OF c ok(2)] part ok(2) r(3) by (auto simp: load_line_def rest_def receipt_ok_def Let_def)
    then have "fold (load_line codec {||}) (map (data_of codec) es @ [rest]) ([], False) = (if n < length (data_of codec e) then es else es @ [e], False)"
      using load_lines [OF c ok(1), of "{||}" "[]" False] by simp
    then show ?thesis using recover_lines [OF _ d(1) len(1) scan] d(2) part ok(3) jl by (auto simp: rest_def split: if_splits)
  qed
qed

lemma rest_facts:
  assumes "at_rest codec j d"
  shows "journal_list codec (jl_entries j)" "jd_tombstones d = None" "(case jd_journal d of Some s \<Rightarrow> s | None \<Rightarrow> []) = stored_text codec (jl_entries j)"
    "jd_journal d = Some (stored_text codec (jl_entries j)) \<or> jd_journal d = None \<and> jl_entries j = []" "files_hold codec (jl_entries j) {||} d"
  using assms by (auto simp: at_rest_def files_hold_def stored_text_def)

lemma commit_outcome:
  assumes r: "at_rest codec j d" and e: "clean_entry e"
  obtains (refused) err where "Append_entry codec f e j d = (j, [d], Some err)"
  | (compacted) r j' d' err where "retainWithinLimits codec (jl_entries j @ [NormalizeEntry e]) = Inr (r, int (length (stored_text codec r)))"
      "journal_list codec r" "compactEntriesLocked codec (jf_compact f) r j d = (j', d', err)" "Append_entry codec f e j d = (j', [d, d'], err)"
      "set r \<subseteq> set (jl_entries j @ [NormalizeEntry e])"
  | (torn) n where "journal_list codec (jl_entries j @ [NormalizeEntry e])"
      "Append_entry codec f e j d = (j, [d, d\<lparr>jd_journal := Some (stored_text codec (jl_entries j) @ take n (data_of codec (NormalizeEntry e) @ [CHR 0x0A]))\<rparr>], Some AppendFailed)"
      "jf_append f = AppendTorn n"
  | (appended) "journal_list codec (jl_entries j @ [NormalizeEntry e])" "jf_append f = Appended"
      "Append_entry codec f e j d = (\<lparr>jl_entries = jl_entries j @ [NormalizeEntry e], jl_bytes = jl_bytes j + int (length (data_of codec (NormalizeEntry e) @ [CHR 0x0A]))\<rparr>,
         [d, d\<lparr>jd_journal := Some (stored_text codec (jl_entries j @ [NormalizeEntry e]))\<rparr>], None)"
proof -
  define e1 where "e1 = NormalizeEntry e"
  define es where "es = jl_entries j"
  note rest = rest_facts [OF r, folded es_def]
  show ?thesis
  proof (cases "jc_marshal codec e1")
    case None
    then show ?thesis by (intro refused) (simp add: Append_entry_def Let_def e1_def encodeEntry_def)
  next
    case (Some data)
    then have ok: "receipt_ok codec e1" using normalize_clean [OF e] by (simp add: receipt_ok_def e1_def)
    have all: "\<forall>x\<in>set (es @ [e1]). receipt_ok codec x" using ok rest(1) by (auto simp: journal_list_def)
    note enc = encode_ok [OF ok]
    show ?thesis
    proof (cases "length (data_of codec e1 @ [CHR 0x0A]) > maxBytes")
      case True
      then show ?thesis using enc by (intro refused) (simp add: Append_entry_def Let_def e1_def)
    next
      case fits: False
      show ?thesis
      proof (cases "retainWithinLimits codec (es @ [e1])")
        case (Inl err)
        then show ?thesis using enc fits by (intro refused) (simp add: Append_entry_def Let_def e1_def es_def)
      next
        case (Inr rb)
        obtain r b where rb: "rb = (r, b)" by fastforce
        obtain ys where r: "es @ [e1] = ys @ r" "journal_list codec r" "b = int (length (stored_text codec r))"
          using retain_suffix [OF Inr [unfolded rb] all] by blast
        define append where "append \<longleftrightarrow> length r = length (es @ [e1]) \<and> length (es @ [e1]) \<le> maxItems"
        have big: "(b > int maxBytes) = False" using r(2,3) by (simp add: journal_list_def)
        have eq: "Append_entry codec f e j d =
            (if \<not> append then (case compactEntriesLocked codec (jf_compact f) r j d of (j', d', err) \<Rightarrow> (j', [d, d'], err))
             else case jf_append f of
                AppendRefused \<Rightarrow> (j, [d], Some AppendFailed)
              | AppendTorn n \<Rightarrow> (j, [d, d\<lparr>jd_journal := Some (stored_text codec es @ take n (data_of codec e1 @ [CHR 0x0A]))\<rparr>], Some AppendFailed)
              | Appended \<Rightarrow> (\<lparr>jl_entries = es @ [e1], jl_bytes = jl_bytes j + int (length (data_of codec e1 @ [CHR 0x0A]))\<rparr>,
                  [d, d\<lparr>jd_journal := Some (stored_text codec es @ data_of codec e1 @ [CHR 0x0A])\<rparr>], None))"
          unfolding Append_entry_def Let_def e1_def [symmetric] enc option.case es_def [symmetric] Inr rb sum.case prod.case big rest(3) append_def
          using fits by (simp add: not_le)
        show ?thesis
        proof (cases append)
          case False
          obtain j' d' err where co: "compactEntriesLocked codec (jf_compact f) r j d = (j', d', err)" by (metis prod_cases3)
          show ?thesis
            by (rule compacted [OF _ r(2) co]) (use eq co False r Inr rb arg_cong [OF r(1), of set] in \<open>auto simp: e1_def es_def\<close>)
        next
          case True
          then have same: "r = es @ [e1]" using r(1) by (simp add: append_def)
          then show ?thesis
            using eq True r(2) refused torn appended by (cases "jf_append f") (auto simp: e1_def es_def stored_text_def)
        qed
      qed
    qed
  qed
qed

lemma commit_safe:
  assumes c: "codec_ok codec" and r: "at_rest codec j d" and e: "clean_entry e"
  shows "crash_safe codec (jl_entries j) (intended codec (WorkerCommit e) (jl_entries j)) (Append_entry codec f e j d)"
proof -
  note rest = rest_facts [OF r]
  have old: "recover codec d = Some (jl_entries j)" using recover_holds [OF c rest(5)] by simp
  show ?thesis
  proof (cases rule: commit_outcome [OF r e, of f, case_names refused compacted torn appended])
    case (refused err)
    then show ?thesis using old by (simp add: crash_safe_def)
  next
    case (compacted r j' d' err)
    note cr = compact_result [OF compacted(2,3)]
    have int: "intended codec (WorkerCommit e) (jl_entries j) = r" by (simp add: intended_def compacted(1))
    have "recover codec d' = Some r" if "jd_journal d' = Some (stored_text codec r)"
      using recover_holds [OF c, of r "{||}" d'] that compacted(2) cr rest(2) by (simp add: files_hold_def loadTombstones_none)
    moreover have "recover codec d' = Some (jl_entries j)" if "jd_journal d' = jd_journal d"
      using recover_holds [OF c, of "jl_entries j" "{||}" d'] that cr rest by (simp add: files_hold_def loadTombstones_none)
    ultimately show ?thesis using old cr unfolding compacted(4) int crash_safe_def by (cases err) auto
  next
    case (torn n)
    have int: "intended codec (WorkerCommit e) (jl_entries j) = jl_entries j @ [NormalizeEntry e]" by (simp add: intended_def retain_all [OF torn(1)])
    show ?thesis using old rest(2) recover_torn [OF c torn(1)] unfolding torn(2) int crash_safe_def by simp
  next
    case appended
    have int: "intended codec (WorkerCommit e) (jl_entries j) = jl_entries j @ [NormalizeEntry e]" by (simp add: intended_def retain_all [OF appended(1)])
    have "recover codec (d\<lparr>jd_journal := Some (stored_text codec (jl_entries j @ [NormalizeEntry e]))\<rparr>) = Some (jl_entries j @ [NormalizeEntry e])"
      using recover_holds [OF c, of "jl_entries j @ [NormalizeEntry e]" "{||}"] appended(1) rest(2) by (simp add: files_hold_def loadTombstones_none)
    then show ?thesis using old unfolding appended(3) int crash_safe_def by simp
  qed
qed

lemma removal_request:
  assumes c: "codec_ok codec" and r: "at_rest codec j d"
  shows "crash_safe codec (jl_entries j) (filter (\<lambda>e. en_ID e \<noteq> i) (jl_entries j)) (Discard_entry codec f i j d)"
    "crash_safe codec (jl_entries j) [] (Clear_journal codec f j d)"
proof -
  have old: "recover codec d = Some (jl_entries j)" using recover_holds [OF c rest_facts(5) [OF r]] by simp
  have plain: "\<forall>e\<in>set (jl_entries j). en_ID e \<noteq> []" using r by (auto simp: at_rest_def plain_id_def)
  have "crash_safe codec (jl_entries j) (filter (\<lambda>e. en_ID e \<noteq> i) (jl_entries j))
          (remove_entries codec f (finsert i) (filter (\<lambda>e. en_ID e \<noteq> i) (jl_entries j)) j d)" if "i \<in> en_ID ` set (jl_entries j)"
    by (rule remove_safe [OF c r]) (use that in auto)
  moreover have "filter (\<lambda>e. en_ID e \<noteq> i) (jl_entries j) = jl_entries j" if "i = [] \<or> i \<notin> en_ID ` set (jl_entries j)"
    using that plain by (auto simp: filter_id_conv)
  ultimately show "crash_safe codec (jl_entries j) (filter (\<lambda>e. en_ID e \<noteq> i) (jl_entries j)) (Discard_entry codec f i j d)"
    using old by (auto simp: Discard_entry_def crash_safe_def)
  show "crash_safe codec (jl_entries j) [] (Clear_journal codec f j d)"
    unfolding Clear_journal_def by (rule remove_safe [OF c r]) (use plain in \<open>auto simp: fset_of_list.rep_eq filter_empty_conv\<close>)
qed

text \<open>Faults that leave no trace: a write that fails did not reach the file, and tombstones are taken back.\<close>

definition tidy :: "journal_faults \<Rightarrow> bool" where
  "tidy f \<longleftrightarrow> jf_prepare f \<noteq> FaultAfterRename \<and> jf_compact f \<noteq> FaultAfterRename \<and> jf_restore f = NoFault \<and> (\<forall>n. jf_append f \<noteq> AppendTorn n)"

definition request_ok :: "workerRequest \<Rightarrow> bool" where
  "request_ok request \<longleftrightarrow> (case request of WorkerCommit e \<Rightarrow> clean_entry e \<and> plain_id (en_ID e) | _ \<Rightarrow> True)"

lemma compact_tidy:
  assumes "journal_list codec es" "compactEntriesLocked codec fault es j d = (j', d', err)" "fault \<noteq> FaultAfterRename"
  shows "(if err = None then j' = \<lparr>jl_entries = es, jl_bytes = int (length (stored_text codec es))\<rparr> \<and> jd_journal d' = Some (stored_text codec es)
     else j' = j \<and> jd_journal d' = jd_journal d) \<and> jd_tombstones d' = jd_tombstones d"
  using assms encode_all [of es codec] by (auto simp: compactEntriesLocked_def journal_list_def Let_def stored_text_def split: write_fault.splits)

lemma rest_new:
  assumes "journal_list codec es" "\<forall>e\<in>set es. plain_id (en_ID e)" "jd_journal d = Some (stored_text codec es)" "jd_tombstones d = None"
  shows "at_rest codec \<lparr>jl_entries = es, jl_bytes = int (length (stored_text codec es))\<rparr> d"
  using assms by (simp add: at_rest_def files_hold_def loadTombstones_none)

lemma rest_same: "at_rest codec j d \<Longrightarrow> jd_journal d' = jd_journal d \<Longrightarrow> jd_tombstones d' = jd_tombstones d \<Longrightarrow> at_rest codec j d'"
  using loadTombstones_cong [of d' d False] by (simp add: at_rest_def files_hold_def)

lemma remove_rest:
  assumes r: "at_rest codec j d" and t: "tidy f" and es': "es' = filter P (jl_entries j)"
    and out: "remove_entries codec f mark es' j d = (j', disks, err)"
  shows "at_rest codec j' (last disks)"
proof -
  note rest = rest_facts [OF r]
  have jl: "journal_list codec es'" "\<forall>e\<in>set es'. plain_id (en_ID e)" using r rest(1) journal_list_filter by (auto simp: es' at_rest_def)
  obtain d1 e1 where w: "writeTombstonesLocked (jf_prepare f) (mark {||}) d = (d1, e1)" by fastforce
  obtain j2 d2 e2 where co: "compactEntriesLocked codec (jf_compact f) es' j d1 = (j2, d2, e2)" by (metis prod_cases3)
  have w3: "writeTombstonesLocked (jf_restore f) {||} d2 = (d2\<lparr>jd_tombstones := None\<rparr>, None)"
    using t by (simp add: tidy_def writeTombstonesLocked_def)
  have f1: "jd_journal d1 = jd_journal d \<and> (e1 \<noteq> None \<longrightarrow> d1 = d)"
    using w t by (auto simp: tidy_def writeTombstonesLocked_def Let_def split: write_fault.splits)
  have f2: "if e2 = None then j2 = \<lparr>jl_entries = es', jl_bytes = int (length (stored_text codec es'))\<rparr> \<and> jd_journal d2 = Some (stored_text codec es')
      else j2 = j \<and> jd_journal d2 = jd_journal d1"
    using compact_tidy [OF jl(1) co] t by (simp add: tidy_def)
  have "(j', disks, err) = (if e1 = None then (j2, [d, d1, d2, d2\<lparr>jd_tombstones := None\<rparr>], e2) else (j, [d, d1], e1))"
    using out w co w3 rest(2) by (auto simp: remove_entries_def loadTombstones_none split: option.splits)
  moreover have "at_rest codec j2 (d2\<lparr>jd_tombstones := None\<rparr>)"
    using f1 f2 rest_new [OF jl, of "d2\<lparr>jd_tombstones := None\<rparr>"] rest_same [OF r, of "d2\<lparr>jd_tombstones := None\<rparr>"] rest(2)
    by (simp split: if_splits)
  ultimately show ?thesis using f1 r by (auto split: if_splits)
qed

lemma commit_rest:
  assumes r: "at_rest codec j d" and t: "tidy f" and e: "clean_entry e" "plain_id (en_ID e)"
    and out: "Append_entry codec f e j d = (j', disks, err)"
  shows "at_rest codec j' (last disks)"
proof -
  note rest = rest_facts [OF r]
  have id: "en_ID (NormalizeEntry e) = en_ID e" by (simp add: NormalizeEntry_def Let_def)
  have plain: "\<forall>x\<in>set (jl_entries j @ [NormalizeEntry e]). plain_id (en_ID x)" using r e(2) id by (auto simp: at_rest_def)
  show ?thesis
  proof (cases rule: commit_outcome [OF r e(1), of f, case_names refused compacted torn appended])
    case (refused err)
    then show ?thesis using out r by simp
  next
    case (compacted r' j1 d1 err1)
    have cr: "(if err1 = None then j1 = \<lparr>jl_entries = r', jl_bytes = int (length (stored_text codec r'))\<rparr> \<and> jd_journal d1 = Some (stored_text codec r')
        else j1 = j \<and> jd_journal d1 = jd_journal d) \<and> jd_tombstones d1 = jd_tombstones d"
      using compact_tidy [OF compacted(2,3)] t by (simp add: tidy_def)
    have "\<forall>x\<in>set r'. plain_id (en_ID x)" using plain compacted(5) by blast
    then have "at_rest codec j1 d1" using cr rest_new [OF compacted(2), of d1] rest_same [OF r, of d1] rest(2) by (simp split: if_splits)
    then show ?thesis using out compacted(4) by auto
  next
    case (torn n)
    then show ?thesis using t by (simp add: tidy_def)
  next
    case appended
    have "jl_bytes j + int (length (data_of codec (NormalizeEntry e) @ [CHR 0x0A])) = int (length (stored_text codec (jl_entries j @ [NormalizeEntry e])))"
      using r by (simp add: at_rest_def stored_text_def)
    then show ?thesis
      using out appended(3) rest_new [OF appended(1) plain, of "d\<lparr>jd_journal := Some (stored_text codec (jl_entries j @ [NormalizeEntry e]))\<rparr>"] rest(2)
      by auto
  qed
qed

lemma perform_rest:
  assumes "at_rest codec j d" "tidy f" "request_ok request" "perform codec f request j d = (j', disks, err)"
  shows "at_rest codec j' (last disks)"
proof (cases request)
  case (WorkerCommit e)
  then show ?thesis using commit_rest [OF assms(1,2), of e] assms(3,4) by (simp add: perform_def request_ok_def)
next
  case WorkerClear
  then show ?thesis using assms(4) remove_rest [OF assms(1,2), of "[]" "\<lambda>_. False"] by (simp add: perform_def Clear_journal_def)
next
  case (WorkerDiscard i)
  then show ?thesis using assms(1,4) remove_rest [OF assms(1,2) refl, of _ "\<lambda>e. en_ID e \<noteq> i"]
    by (auto simp: perform_def Discard_entry_def split: if_splits)
qed (use assms in \<open>auto simp: perform_def\<close>)

lemma worker_perform:
  assumes "\<not> wk_stopped w" "request \<noteq> WorkerStop" "request_ok request"
  shows "\<exists>request' reply. request_ok request' \<and> worker_step codec (f, request) w =
     (case perform codec f request' (wk_journal w) (wk_disk w) of (j, disks, err) \<Rightarrow>
        w\<lparr>wk_journal := j, wk_disk := last disks, wk_replies := wk_replies w @ [(reply, err)]\<rparr>)"
proof (cases request)
  case (WorkerCommit e)
  have "request_ok (WorkerCommit (NormalizeEntry e))"
    using assms(3) normalize_clean(1) [of e] WorkerCommit by (simp add: request_ok_def) (simp add: NormalizeEntry_def Let_def)
  then show ?thesis using assms(1) WorkerCommit
    by (intro exI [of _ "WorkerCommit (NormalizeEntry e)"]) (auto simp: worker_step_def perform_def worker_done_def Let_def split: prod.split)
qed (use assms in \<open>auto simp: worker_step_def perform_def worker_done_def request_ok_def intro!: exI [of _ request] split: prod.split\<close>)

lemma worker_rest:
  assumes "at_rest codec (wk_journal w) (wk_disk w)" "\<forall>x\<in>set requests. tidy (fst x) \<and> request_ok (snd x)"
  shows "at_rest codec (wk_journal (worker_run codec requests w)) (wk_disk (worker_run codec requests w))"
  using assms
proof (induction requests arbitrary: w)
  case (Cons x requests)
  obtain f request where x: "x = (f, request)" by fastforce
  have "at_rest codec (wk_journal (worker_step codec x w)) (wk_disk (worker_step codec x w))"
  proof (cases "wk_stopped w \<or> request = WorkerStop")
    case True
    then show ?thesis using Cons.prems(1) by (auto simp: x worker_step_def)
  next
    case False
    then obtain request' reply where p: "request_ok request'" "worker_step codec (f, request) w =
       (case perform codec f request' (wk_journal w) (wk_disk w) of (j, disks, err) \<Rightarrow>
          w\<lparr>wk_journal := j, wk_disk := last disks, wk_replies := wk_replies w @ [(reply, err)]\<rparr>)"
      using worker_perform [of w request codec f] Cons.prems(2) by (auto simp: x)
    obtain j' disks err where out: "perform codec f request' (wk_journal w) (wk_disk w) = (j', disks, err)" by (metis prod_cases3)
    then show ?thesis using perform_rest [OF Cons.prems(1) _ p(1) out] Cons.prems(2) by (simp add: x p(2))
  qed
  then show ?case using Cons.IH [of "worker_step codec x w"] Cons.prems(2) by (simp add: worker_run_def)
qed (simp add: worker_run_def)

lemma append_fits:
  assumes "receipt_ok codec e" "journal_list codec (jl_entries j @ [e])"
  shows "Append_entry codec f e j d =
     (let old = (case jd_journal d of Some s \<Rightarrow> s | None \<Rightarrow> []); line = data_of codec e @ [CHR 0x0A] in
      case jf_append f of
        AppendRefused \<Rightarrow> (j, [d], Some AppendFailed)
      | AppendTorn n \<Rightarrow> (j, [d, d\<lparr>jd_journal := Some (old @ take n line)\<rparr>], Some AppendFailed)
      | Appended \<Rightarrow> (\<lparr>jl_entries = jl_entries j @ [e], jl_bytes = jl_bytes j + int (length line)\<rparr>, [d, d\<lparr>jd_journal := Some (old @ line)\<rparr>], None))"
proof -
  have n: "NormalizeEntry e = e" using assms(1) by (simp add: receipt_ok_def)
  have "(length (data_of codec e @ [CHR 0x0A]) > maxBytes) = False" "(length (jl_entries j @ [e]) > maxItems) = False"
      "(int (length (stored_text codec (jl_entries j @ [e]))) > int maxBytes) = False"
    using assms(2) by (auto simp: journal_list_def stored_text_def)
  then show ?thesis unfolding Append_entry_def n Let_def encode_ok [OF assms(1)] option.case retain_all [OF assms(2)] sum.case prod.case by simp
qed

lemma torn_end:
  assumes "CHR 0x0A \<notin> set x" "x \<noteq> []"
  shows "scan_lines limit (s @ x @ [CHR 0x0A]) = scan_lines limit (s @ x)"
proof -
  have "raw_lines (s @ x @ [CHR 0x0A]) = raw_lines (s @ x)"
  proof (induction s)
    case Nil
    then show ?case using raw_lines_line [OF assms(1), of "[]"] raw_lines_rest [OF assms(1)] assms(2) by simp
  qed simp
  then show ?thesis by (simp add: scan_lines_def)
qed

section \<open>Properties\<close>

text \<open>C15: whatever request is carried out on a journal at rest and wherever the process dies in it, what the next start reads back
  are the entries before the request or the entries it is meant to leave, never anything else. A removal holds from its first write on,
  until its last write takes it back. If the request was reported as done the entries it is meant to leave are read back, and if it
  failed the memory is unchanged.\<close>

theorem journal_crash_safe:
  assumes "codec_ok codec" "at_rest codec j d" "request_ok request"
  shows "crash_safe codec (jl_entries j) (intended codec request (jl_entries j)) (perform codec f request j d)"
proof (cases request)
  case (WorkerCommit e)
  then show ?thesis using commit_safe [OF assms(1,2), of e f] assms(3) by (simp add: perform_def request_ok_def)
next
  case WorkerStop
  then show ?thesis using recover_holds [OF assms(1) rest_facts(5) [OF assms(2)]] by (simp add: perform_def intended_def crash_safe_def)
qed (use removal_request [OF assms(1,2)] in \<open>simp_all add: perform_def intended_def\<close>)

text \<open>C16: a start that dies or fails at any point of the recovery, with any faults, loses nothing: the next start reads back the same
  entries.\<close>

theorem recovery_restartable:
  assumes "codec_ok codec" "files_hold codec es ts d" "d' \<in> set (fst (load_journal codec f d))"
  shows "recover codec d' = recover codec d \<and> recover codec d = Some (kept ts es)"
proof -
  obtain disks res where l: "load_journal codec f d = (disks, res)" by fastforce
  have "counts codec (kept ts es) d'" using load_holds [OF assms(1,2) l] assms(3) l by simp
  then show ?thesis using recover_holds [OF assms(1)] recover_holds [OF assms(1,2)] by (auto simp: counts_def)
qed

text \<open>C17: the requests of a run, with faults that leave no trace, keep file and memory together and within 500 entries and 2 MiB, so
  a restart reads back exactly the entries in memory.\<close>

theorem journal_durable:
  assumes "codec_ok codec" "at_rest codec (wk_journal w) (wk_disk w)" "\<forall>x\<in>set requests. tidy (fst x) \<and> request_ok (snd x)"
    and "w' = worker_run codec requests w"
  shows "recover codec (wk_disk w') = Some (jl_entries (wk_journal w')) \<and> length (jl_entries (wk_journal w')) \<le> maxItems
    \<and> jl_bytes (wk_journal w') \<le> int maxBytes"
proof -
  have r: "at_rest codec (wk_journal w') (wk_disk w')" unfolding assms(4) by (rule worker_rest [OF assms(2,3)])
  then show ?thesis using recover_holds [OF assms(1) rest_facts(5) [OF r]] rest_facts(1) [OF r] by (simp add: at_rest_def journal_list_def)
qed

text \<open>C18: an append that fails after some bytes of its line reached the file leaves the line without an end, and the next append is
  written behind it: it is reported as done, but the joined line cannot be read and the entry is gone after a restart.\<close>

theorem torn_append_loses_next:
  assumes c: "codec_ok codec" and r: "at_rest codec j d"
    and e: "receipt_ok codec e1" "receipt_ok codec e2" "journal_list codec (jl_entries j @ [e1])" "journal_list codec (jl_entries j @ [e2])"
    and torn: "jf_append f1 = AppendTorn n" "0 < n" "n \<le> length (data_of codec e1)" "jf_append f2 = Appended"
    and joined: "jc_unmarshal codec (take n (data_of codec e1) @ data_of codec e2) = None"
      "length (stored_text codec (jl_entries j) @ take n (data_of codec e1) @ data_of codec e2 @ [CHR 0x0A]) \<le> maxBytes"
    and first: "Append_entry codec f1 e1 j d = (j1, disks1, err1)"
    and second: "Append_entry codec f2 e2 j1 (last disks1) = (j2, disks2, err2)"
  shows "err1 \<noteq> None \<and> err2 = None \<and> jl_entries j2 = jl_entries j @ [e2] \<and> recover codec (last disks2) = Some (jl_entries j)"
proof -
  define es where "es = jl_entries j"
  define x where "x = take n (data_of codec e1) @ data_of codec e2"
  note rest = rest_facts [OF r, folded es_def]
  have 1: "j1 = j" "err1 \<noteq> None" "last disks1 = d\<lparr>jd_journal := Some (stored_text codec es @ take n (data_of codec e1))\<rparr>"
    using append_fits [OF e(1,3), of f1 d] first torn(1,3) rest(3) by (auto simp: es_def)
  have 2: "err2 = None" "jl_entries j2 = es @ [e2]" "last disks2 = d\<lparr>jd_journal := Some (stored_text codec es @ x @ [CHR 0x0A])\<rparr>"
    using append_fits [OF e(2,4), of f2 "last disks1"] second torn(4) 1 by (auto simp: es_def x_def)
  have es: "\<forall>e\<in>set es. receipt_ok codec e" using rest(1) by (simp add: journal_list_def)
  have x: "CHR 0x0A \<notin> set x" "CHR 0x0D \<notin> set x" "x \<noteq> []"
    using data_ok(1-3) [OF c e(1)] data_ok(1-3) [OF c e(2)] by (auto simp: x_def dest: in_set_takeD)
  have len: "length (stored_text codec es @ x @ [CHR 0x0A]) \<le> maxBytes" using joined(2) by (simp add: x_def es_def)
  have scan: "scan_lines maxBytes (stored_text codec es @ x @ [CHR 0x0A]) = Some (map (data_of codec) es @ [x])"
    using torn_lines [OF c es _ x] torn_end [OF x(1,3)] len by simp
  have "load_line codec {||} x (es, False) = (es, False)" using joined(1) x(3) by (simp add: load_line_def x_def)
  then have "fold (load_line codec {||}) (map (data_of codec) es @ [x]) ([], False) = (es, False)"
    using load_lines [OF c es, of "{||}" "[]" False] by simp
  then have "recover codec (last disks2) = Some es"
    using recover_lines [OF _ _ len scan _ rest(1), of "last disks2"] 2(3) rest(2) by simp
  then show ?thesis using 1 2 by (simp add: es_def)
qed

section \<open>Witnesses\<close>

definition demo_receipt :: "string \<Rightarrow> Entry" where
  "demo_receipt i = \<lparr>en_ID = i, en_Timestamp = 0, en_Kind = [], en_Status = [], en_Summary = [], en_Host = [], en_PaneID = [], en_Agent = [],
     en_Project = [], en_RequestID = [], en_Extract = [], en_Session = [], en_Details = []\<rparr>"

definition demo_receipts :: journal_codec where
  "demo_receipts = \<lparr>jc_marshal = (\<lambda>e. if e = demo_receipt ''1'' then Some ''{1}'' else if e = demo_receipt ''2'' then Some ''{2}'' else None),
     jc_unmarshal = (\<lambda>s. if s = ''{1}'' then Some (demo_receipt ''1'') else if s = ''{2}'' then Some (demo_receipt ''2'') else None)\<rparr>"

definition demo_journal :: Journal where
  "demo_journal = \<lparr>jl_entries = [demo_receipt ''1''], jl_bytes = 4\<rparr>"

definition demo_disk :: journal_disk where
  "demo_disk = \<lparr>jd_journal = Some (''{1}'' @ [CHR 0x0A]), jd_tombstones = None\<rparr>"

lemma demo_data: "jc_marshal demo_receipts (demo_receipt ''1'') = Some ''{1}''" "jc_marshal demo_receipts (demo_receipt ''2'') = Some ''{2}''"
    "data_of demo_receipts (demo_receipt ''1'') = ''{1}''" "data_of demo_receipts (demo_receipt ''2'') = ''{2}''"
  by (simp_all add: demo_receipts_def demo_receipt_def data_of_def)

lemma demo_codec_ok: "codec_ok demo_receipts"
  unfolding codec_ok_def
proof (intro allI impI, elim conjE)
  fix e d assume "jc_marshal demo_receipts e = Some d"
  then consider "e = demo_receipt ''1''" "d = ''{1}''" | "e = demo_receipt ''2''" "d = ''{2}''" by (auto simp: demo_receipts_def split: if_splits)
  moreover have "take n ''{1}'' = (if n = 0 then [] else if n = 1 then ''{'' else if n = 2 then ''{1'' else ''{1}'')"
      "take n ''{2}'' = (if n = 0 then [] else if n = 1 then ''{'' else if n = 2 then ''{2'' else ''{2}'')" for n :: nat
    by (simp_all add: take_Cons')
  ultimately show "CHR 0x0A \<notin> set d \<and> CHR 0x0D \<notin> set d \<and> d \<noteq> [] \<and> length (en_ID e) < length d
      \<and> jc_unmarshal demo_receipts d = Some e \<and> (\<forall>n<length d. jc_unmarshal demo_receipts (take n d) = None)"
    by cases (simp_all add: demo_receipts_def, simp_all add: demo_receipt_def)
qed

lemma demo_clean: "clean_entry (demo_receipt ''1'')" "clean_entry (demo_receipt ''2'')" "plain_id ''1''" "plain_id ''2''"
  by (simp_all add: clean_entry_def demo_receipt_def plain_id_def ValidString_def TrimSpace_def trim_segs_def utf8_segs_ascii IsSpace_def RuneError_def)

lemma demo_entries_ok: "receipt_ok demo_receipts (demo_receipt ''1'')" "receipt_ok demo_receipts (demo_receipt ''2'')"
proof -
  have "NormalizeEntry (demo_receipt i) = demo_receipt i" for i by (simp add: NormalizeEntry_def demo_receipt_def)
  then show "receipt_ok demo_receipts (demo_receipt ''1'')" "receipt_ok demo_receipts (demo_receipt ''2'')" using demo_clean by (simp_all add: receipt_ok_def demo_data)
qed

lemma demo_list: "journal_list demo_receipts [demo_receipt ''1'']" "journal_list demo_receipts [demo_receipt ''1'', demo_receipt ''2'']"
    "stored_text demo_receipts [demo_receipt ''1''] = ''{1}'' @ [CHR 0x0A]"
  using demo_entries_ok by (simp_all add: journal_list_def stored_text_def demo_data maxItems_def maxBytes_def)

lemma demo_rest: "at_rest demo_receipts demo_journal demo_disk"
  using demo_list demo_clean
  by (simp add: at_rest_def files_hold_def demo_journal_def demo_disk_def loadTombstones_none) (simp add: demo_receipt_def)

theorem journal_crash_safe_witness:
  "crash_safe demo_receipts [demo_receipt ''1''] [] (perform demo_receipts (no_journal_faults\<lparr>jf_compact := FaultBeforeRename, jf_restore := FaultBeforeRename\<rparr>)
     WorkerClear demo_journal demo_disk)"
  using journal_crash_safe [OF demo_codec_ok demo_rest, of WorkerClear] by (simp add: request_ok_def intended_def demo_journal_def)

lemma demo_tombstone: "loadTombstones b (demo_disk\<lparr>jd_tombstones := Some (''1'' @ [CHR 0x0A])\<rparr>) = (if b then Inl TombstonesUnreadable else Inr {|''1''|})"
proof -
  have "TrimSpace ''1'' = ''1''" using demo_clean(3) by (simp add: plain_id_def)
  then show ?thesis by (simp add: loadTombstones_def scan_lines_def dropCR_def maxBytes_def)
qed

theorem recovery_restartable_witness:
  "recover demo_receipts (demo_disk\<lparr>jd_tombstones := Some (''1'' @ [CHR 0x0A])\<rparr>) = Some []"
proof -
  define d where "d = demo_disk\<lparr>jd_tombstones := Some (''1'' @ [CHR 0x0A])\<rparr>"
  have h: "files_hold demo_receipts [demo_receipt ''1''] {|''1''|} d"
    using rest_facts [OF demo_rest] demo_tombstone [of False] by (simp add: files_hold_def d_def demo_journal_def demo_disk_def)
  have "d \<in> set (fst (load_journal demo_receipts (no_journal_faults\<lparr>jf_readTombstones := True\<rparr>) d))"
    using demo_tombstone [of True] by (simp add: load_journal_def d_def)
  from recovery_restartable [OF demo_codec_ok h this] show ?thesis by (simp add: demo_receipt_def d_def)
qed

definition demo_requests :: "(journal_faults \<times> workerRequest) list" where
  "demo_requests = [(no_journal_faults, WorkerCommit (demo_receipt ''2'')), (no_journal_faults\<lparr>jf_append := AppendRefused\<rparr>, WorkerCommit (demo_receipt ''2''))]"

definition demo_worker :: worker_state where
  "demo_worker = \<lparr>wk_journal = demo_journal, wk_disk = demo_disk, wk_replies = [], wk_stopped = False\<rparr>"

theorem journal_durable_witness:
  "recover demo_receipts (wk_disk (worker_run demo_receipts demo_requests demo_worker)) = Some (jl_entries (wk_journal (worker_run demo_receipts demo_requests demo_worker)))"
proof -
  have "\<forall>x\<in>set demo_requests. tidy (fst x) \<and> request_ok (snd x)"
    using demo_clean by (simp add: demo_requests_def tidy_def no_journal_faults_def request_ok_def) (simp add: demo_receipt_def)
  then show ?thesis using journal_durable [OF demo_codec_ok _ _ refl, of demo_worker demo_requests] demo_rest by (simp add: demo_worker_def)
qed

theorem torn_append_loses_next_witness:
  "recover demo_receipts (demo_disk\<lparr>jd_journal := Some (''{1}'' @ [CHR 0x0A] @ ''{2{2}'' @ [CHR 0x0A])\<rparr>) = Some [demo_receipt ''1'']"
proof -
  define f where "f = no_journal_faults\<lparr>jf_append := AppendTorn 2\<rparr>"
  have f: "jf_append f = AppendTorn 2" "jf_append no_journal_faults = Appended" by (simp_all add: f_def no_journal_faults_def)
  have jl: "journal_list demo_receipts (jl_entries demo_journal @ [demo_receipt ''2''])" using demo_list(2) by (simp add: demo_journal_def)
  note app = append_fits [OF demo_entries_ok(2) jl, unfolded Let_def]
  define d where "d = demo_disk\<lparr>jd_journal := Some (''{1}'' @ [CHR 0x0A] @ ''{2'')\<rparr>"
  have first: "Append_entry demo_receipts f (demo_receipt ''2'') demo_journal demo_disk = (demo_journal, [demo_disk, d], Some AppendFailed)"
    unfolding app f by (simp add: demo_data demo_disk_def d_def)
  have second: "Append_entry demo_receipts no_journal_faults (demo_receipt ''2'') demo_journal (last [demo_disk, d]) =
      (\<lparr>jl_entries = jl_entries demo_journal @ [demo_receipt ''2''], jl_bytes = 8\<rparr>, [d, demo_disk\<lparr>jd_journal := Some (''{1}'' @ [CHR 0x0A] @ ''{2{2}'' @ [CHR 0x0A])\<rparr>], None)"
    unfolding app f by (simp add: demo_data d_def) (simp add: demo_journal_def)
  have "0 < (2::nat)" "2 \<le> length (data_of demo_receipts (demo_receipt ''2''))"
      "jc_unmarshal demo_receipts (take 2 (data_of demo_receipts (demo_receipt ''2'')) @ data_of demo_receipts (demo_receipt ''2'')) = None"
      "length (stored_text demo_receipts (jl_entries demo_journal) @ take 2 (data_of demo_receipts (demo_receipt ''2'')) @ data_of demo_receipts (demo_receipt ''2'') @ [CHR 0x0A]) \<le> maxBytes"
    by (simp_all add: demo_data demo_journal_def demo_list maxBytes_def) (simp add: demo_receipts_def)
  from torn_append_loses_next [OF demo_codec_ok demo_rest demo_entries_ok(2,2) jl jl f(1) this(1,2) f(2) this(3,4) first second]
  show ?thesis by (simp add: demo_journal_def)
qed

end
