(* ===== verification/Spec2Isabelle.thy ===== *)
theory Spec2Isabelle
  imports Framing GatewayWire RateLimit Quota SendBuffer E2EE DeviceAuth PaneDelta SeqMatch History PushPolicy PushQueue PaneLease SchedulerRuns InventoryRuns ActivityRuns
begin

text \<open>
  Verification of the Go core of herdr-mobile-relay, a relay that lets a phone watch and steer
  terminal agents running under herdr. A phone reaches the relay over a WebSocket, a WebRTC
  data channel or a public gateway that multiplexes many phones onto one link; whatever the
  path, the two ends run an authenticated key exchange and exchange encrypted frames. The relay
  keeps a store of paired devices, a queue of outgoing messages per client, a scroll-back
  history per pane, deltas of pane contents, a durable queue of push notifications governed by
  per-device policies, leases with which phones resize panes for a while, and a scheduler that
  carries out the commands of the phones, one at a time on each pane, an inventory of the agents
  in their panes, fed by polls and events, and a journal of receipts.

  \<^bold>\<open>Theories and sources\<close> (paths under \<^verbatim>\<open>src/internal\<close>):

  \<^item> \<^verbatim>\<open>Prelude\<close>, \<^verbatim>\<open>GoLib\<close>, \<^verbatim>\<open>FMaps\<close>: bytes and big-endian codecs, the clock with saturating differences,
    64-bit wrap-around, UTF-8 decoding and trimming, base64url, decimal printing, finite maps the
    code enumerates; the contract
    \<open>durable_store\<close> of components that keep a file beside their state.
  \<^item> \<^verbatim>\<open>Framing\<close> (\<^verbatim>\<open>framing/framing.go\<close>): chunking and the reassembler, with the stream contract
    \<open>frame_stream\<close>: round trip for every size and timing, the memory bound against hostile
    chunks, conservation of bytes.
  \<^item> \<^verbatim>\<open>GatewayWire\<close> (\<^verbatim>\<open>gatewaywire/gatewaywire.go\<close>): the multiplex frame codec is exact, relay
    identifiers have the checked shape, connection proofs bind relay and challenge.
  \<^item> \<^verbatim>\<open>RateLimit\<close>, \<^verbatim>\<open>Quota\<close> (\<^verbatim>\<open>gateway/ratelimit.go\<close>, \<^verbatim>\<open>gateway/quota.go\<close>): pruning is invisible,
    the exact bound per window, monthly accounting, refusals and notices, restart.
  \<^item> \<^verbatim>\<open>SendBuffer\<close> (\<^verbatim>\<open>transport/sendbuffer.go\<close>): the outbound queue as a step relation over the
    events of producers and writer; bounded, lossless up to coalescing, drained on close.
  \<^item> \<^verbatim>\<open>E2EE\<close> (\<^verbatim>\<open>transport/e2ee.go\<close>, the interface of \<^verbatim>\<open>transport/conn.go\<close>): frame codecs, session
    counters and the server handshake with every error; the interface \<open>e2ee_authority\<close> states
    what the handshake needs of its resolver.
  \<^item> \<^verbatim>\<open>Localize\<close>, \<^verbatim>\<open>DeviceAuth\<close> (\<^verbatim>\<open>localize/locale.go\<close>, \<^verbatim>\<open>deviceauth/store.go\<close>,
    \<^verbatim>\<open>deviceauth/resolver.go\<close>): credentials, invitations and the resolver; \<open>durable_store\<close> and
    \<open>e2ee_authority\<close> are interpreted on the store.
  \<^item> \<^verbatim>\<open>PaneDelta\<close>, \<^verbatim>\<open>SeqMatch\<close>, \<^verbatim>\<open>History\<close> (\<^verbatim>\<open>panedelta/delta.go\<close>, \<^verbatim>\<open>seqmatch/seqmatch.go\<close>,
    \<^verbatim>\<open>history/history.go\<close>): line deltas invert, the matcher returns a chain of common runs, the
    scroll-back only grows at its end and stays bounded.
  \<^item> \<^verbatim>\<open>PushPolicy\<close>, \<^verbatim>\<open>PushQueue\<close> (\<^verbatim>\<open>push/policy.go\<close>, \<^verbatim>\<open>push/queue.go\<close>): decisions, cooldown, retries,
    a delivery pass under concurrent changes; both are interpreted as \<open>durable_store\<close>.
  \<^item> \<^verbatim>\<open>PaneSize\<close>, \<^verbatim>\<open>PaneLease\<close> (\<^verbatim>\<open>panesize/manager.go\<close>, the interfaces of \<^verbatim>\<open>panesize/terminal.go\<close>): the
    definitions, and their correctness in the style of rely and guarantee: \<open>pane_bookkeeping\<close> is what
    other operations may do to a pane whose lock is held, \<open>undisturbed\<close> what work on other panes
    leaves alone. The user's own size comes back unless the manager forgot the pane first, a lease pins the
    device it checked after opening it, every cleanup ends, and the granted size suits every lease.
  \<^item> \<^verbatim>\<open>Scheduler\<close>, \<^verbatim>\<open>SchedulerSafety\<close>, \<^verbatim>\<open>SchedulerRuns\<close> (\<^verbatim>\<open>coordinator/coordinator.go\<close>,
    \<^verbatim>\<open>coordinator/types.go\<close>): the event loop that owns pane queues, running effects and the
    idempotency ledger; the books every event keeps (requests, operations, effects, ledger); and
    what every run guarantees: one answer per request, bounded effects, no idle capacity, a clean
    shutdown, replay of retries, a bounded ledger, and how the completion for a replaced pane forgets its key.
  \<^item> \<^verbatim>\<open>Inventory\<close>, \<^verbatim>\<open>InventorySafety\<close>, \<^verbatim>\<open>InventoryRuns\<close> (\<^verbatim>\<open>coordinator/state.go\<close>, \<^verbatim>\<open>triage.go\<close>,
    \<^verbatim>\<open>launch_identity.go\<close>): the published agents, which polls, topology events and status events
    commit; what one commit does to each pane; and runs of all operations: the invariant, which of
    a poll and an event decides a status, sessions fenced by generations, completions announced
    once, faithful snapshots.
  \<^item> \<^verbatim>\<open>SessionFence\<close>: the interface \<open>session_fence\<close> between scheduler and inventory (the callback
    \<^verbatim>\<open>generationCurrent\<close>), interpreted on the inventory.
  \<^item> \<^verbatim>\<open>Activity\<close>, \<^verbatim>\<open>ActivityRuns\<close> (\<^verbatim>\<open>activity/journal.go\<close>, \<^verbatim>\<open>activity/worker.go\<close>): the journal file with
    its tombstones as the sequence of contents each operation writes; a crash at any of them, in
    an operation or in the recovery, is recovered from, the bounds hold, and a torn append takes
    the next entry with it.
  \<^item> This theory: the composition of session, framing and reassembly, and of scheduler and
    inventory.

  \<^bold>\<open>Correspondence.\<close> A Go struct is a record with prefixed field names, an enumeration or error set
  a datatype, a method a function from the receiver's state to its new state and result; the
  methods modelled hold the mutex of their receiver, so each is one atomic step, and where the
  code releases it (during a push send, while a writer waits, around the terminal calls of a pane)
  the model lets other steps happen.
  A run-time panic is \<open>None\<close> where it can occur. \<^verbatim>\<open>uint64\<close> and \<^verbatim>\<open>uint32\<close> counters are words; \<^verbatim>\<open>int\<close> values
  that cannot overflow are integers, and the others wrap explicitly. Times are integers of
  nanoseconds. AES-GCM, HMAC, HKDF, ECDH, SHA-256 and JSON text are parameters, with their
  documented behaviour as named hypotheses where a theorem needs it. The file system is the
  outcome of each write: done, failed before, or failed after the file was replaced.

  \<^bold>\<open>Bounds and termination.\<close> Loops are structural recursions or functions with a measure (the
  matcher's queue by the total size of its spans, the delta builder by the lines left, the dispatch
  loop of the scheduler by the operations queued); the search for an unused random identifier and
  the pruning of the ledger have the bounds of their loops, the number of tries in the source and
  the number of entries. No fuel bounds a result.

  \<^bold>\<open>Not modelled.\<close> Goroutine scheduling, sockets, subprocesses and the phone application; the
  action handlers of the coordinator, the push manager, uploads and the packet codecs of port
  mapping. Parsers of the transcripts and screens of third-party agents follow formats
  whose specification is not in the repository.
\<close>

section \<open>Properties that span components\<close>

text \<open>
  C1: the encrypted channel over a chunked transport, end to end: the messages one end seals
  become frames; however each frame is cut by \<open>Chunk\<close> and whenever its chunks arrive, the
  reassembler of the other end returns exactly those frames and the session there opens them
  to exactly the messages, in order, and both ends are ready for the next message.
\<close>

theorem secure_pipeline:
  assumes "peer s r" and "aead_correct (es_send s)" and "es_codec s = CodecJSON \<longrightarrow> json_frames js"
    and "unat (es_sendSequence s) + length ps \<le> 2 ^ 53"
    and "6 < r_maxChunk a" and "\<not> r_active a"
  shows "\<exists>s' raws. seal_all js s ps = (s', Inr raws) \<and>
     (\<forall>pss. list_all2 (\<lambda>cs raw. length raw \<le> MaxLogicalBytes \<and> Chunk [] raw (r_maxChunk a) = Some (map snd cs)) pss raws \<longrightarrow>
        (\<exists>a' r'. drain push_stamped a (concat pss) = (a', Inr raws) \<and> \<not> r_active a' \<and>
                 drain (open_push js) r raws = (r', Inr ps) \<and> peer s' r'))"
proof -
  obtain s' raws r' where S: "seal_all js s ps = (s', Inr raws)" "sealed.carries_all js r raws ps r'" "peer s' r'"
    using seal_all_carries [OF assms(4,1-3)] by blast
  have "drain (open_push js) r raws = (r', Inr ps)" using S(2) sealed.deliver_all by blast
  with S frames_delivered [OF assms(5,6)] show ?thesis by blast
qed

theorem secure_pipeline_witness:
  "\<exists>s' raws. seal_all demo_json (demo_session demo_aead) [[7], [8, 9]] = (s', Inr raws) \<and>
     (\<forall>pss. list_all2 (\<lambda>cs raw. length raw \<le> MaxLogicalBytes \<and> Chunk [] raw 8 = Some (map snd cs)) pss raws \<longrightarrow>
        (\<exists>a' r'. drain push_stamped (NewReassembler 8) (concat pss) = (a', Inr raws) \<and> \<not> r_active a' \<and>
                 drain (open_push demo_json) (demo_session demo_aead) raws = (r', Inr [[7], [8, 9]]) \<and> peer s' r'))"
  using secure_pipeline [of "demo_session demo_aead" "demo_session demo_aead" demo_json "[[7], [8, 9]]" "NewReassembler 8"]
  by (simp add: peer_def demo_session_def aead_correct_def demo_aead_def NewReassembler_def)

text \<open>C10: the result of an operation of the command scheduler is not used once a poll ended the
  session it was started for: with any other result the scheduler goes on in the same way.\<close>

theorem ended_session_result_unused:
  assumes "list_all op_env_ok ops" "inv_run lib ops NewState = Some (st, out)" "env_ok env"
    and "PaneSessionCurrent st p g" "fmlookup (iv_agents st) p = Some e"
    and "CommitPoll env sha agents ws token st = (st1, changed, True)" "distinct (map ag_PaneID agents)"
    and "list_all op_env_ok ops'" "inv_run lib ops' st1 = Some (st2, out')" "\<forall>q. generation_of st2 q < 2 ^ 63"
    and "\<not> session_kept agents e"
    and "\<not> so_RelayLevel (op_options (sc_ops sch i))" "so_PaneID (op_options (sc_ops sch i)) = p"
      "\<not> so_AllowAbsent (op_options (sc_ops sch i))" "fmlookup (sc_slots sch) p = Some slot" "ps_InFlight slot = Some f"
      "if_OperationID f = i" "if_Generation f = g"
  shows "completeAndRedispatch now (Some (PaneSessionCurrent st2)) i result sch =
         completeAndRedispatch now (Some (PaneSessionCurrent st2)) i result' sch"
  using inventory_fence.ended_result_unused [OF _ _ assms(12-18), of st1 st2] poll_session_ended [OF assms(1-11)] by blast

text \<open>A command that was started in the session a poll replaces.\<close>

definition demo_started :: scheduler where
  "demo_started = sr_state (demo_send 0 ''p'' 0 70 (new_run 2))"

definition demo_slot :: PaneSlot where
  "demo_slot = the (fmlookup (sc_slots demo_started) ''p'')"

theorem ended_session_result_unused_witness:
  "completeAndRedispatch 3 (Some (PaneSessionCurrent demo_replaced)) 0 demo_result demo_started =
   completeAndRedispatch 3 (Some (PaneSessionCurrent demo_replaced)) 0 (demo_result\<lparr>er_Result := None\<rparr>) demo_started
   \<and> PaneSessionCurrent (demo_state demo_first) ''p'' 0"
proof -
  have started: "\<not> so_RelayLevel (op_options (sc_ops demo_started 0))" "so_PaneID (op_options (sc_ops demo_started 0)) = ''p''"
    "\<not> so_AllowAbsent (op_options (sc_ops demo_started 0))" "fmlookup (sc_slots demo_started) ''p'' = Some demo_slot"
    "ps_InFlight demo_slot = Some (the (ps_InFlight demo_slot))" "if_OperationID (the (ps_InFlight demo_slot)) = 0"
    "if_Generation (the (ps_InFlight demo_slot)) = 0"
    by code_simp+
  show ?thesis
    using ended_session_result_unused [where ops' = "[]", OF demo_first_run demo_envs_ok(1) demo_replaced_facts(1-3) _ _ _
        demo_replaced_facts(5,4) started] demo_replaced_facts(1)
    by simp
qed

end
